(* ===== verification/Prelude.thy ===== *)
theory Prelude
  imports Main "HOL-Library.Multiset" "HOL-Library.List_Lexorder" "HOL-Library.Char_ord"
begin

text \<open>
  What the components share: the collections of rewrite rules, ceiling division, and the
  model of the ordered associative containers of the C++ standard library.  A \<open>std::map\<close>
  whose iteration order matters is a strictly sorted association list; \<open>std::map\<close> and
  \<open>std::set\<close> objects that are only looked up are HOL maps and sets.
\<close>

named_theorems text_simps
named_theorems wal_simps
named_theorems server_defs
named_theorems frame_simps

section \<open>Ceiling division\<close>

definition ceil_div :: "int \<Rightarrow> int \<Rightarrow> int" where
  "ceil_div a b = - ((- a) div b)"

lemma ceil_div_bounds:
  assumes "0 < b"
  shows "b * (ceil_div a b - 1) < a" and "a \<le> b * ceil_div a b"
proof -
  define q where "q = (- a) div b"
  have eq: "b * q + (- a) mod b = - a" unfolding q_def by (rule mult_div_mod_eq)
  have r: "0 \<le> (- a) mod b" "(- a) mod b < b" using assms by simp_all
  have "b * (ceil_div a b - 1) = - (b * q) - b" and "b * ceil_div a b = - (b * q)"
    by (simp_all add: ceil_div_def q_def algebra_simps)
  with eq r show "b * (ceil_div a b - 1) < a" and "a \<le> b * ceil_div a b"
    by linarith+
qed

lemma ceil_div_eq_iff:
  assumes "0 < b"
  shows "ceil_div a b = c \<longleftrightarrow> b * (c - 1) < a \<and> a \<le> b * c"
proof
  assume "ceil_div a b = c"
  with ceil_div_bounds [OF assms, of a] show "b * (c - 1) < a \<and> a \<le> b * c" by simp
next
  assume r: "b * (c - 1) < a \<and> a \<le> b * c"
  have "b * (ceil_div a b - 1) < b * c"
    using ceil_div_bounds(1) [OF assms, of a] r by linarith
  moreover have "b * (c - 1) < b * ceil_div a b"
    using ceil_div_bounds(2) [OF assms, of a] r by linarith
  ultimately have "ceil_div a b - 1 < c" and "c - 1 < ceil_div a b"
    using assms by (simp_all add: mult_less_cancel_left)
  then show "ceil_div a b = c" by linarith
qed

section \<open>Ordered maps\<close>

type_synonym ('k, 'v) omap = "('k \<times> 'v) list"

definition omap_ok :: "('k::linorder, 'v) omap \<Rightarrow> bool" where
  "omap_ok m \<longleftrightarrow> sorted_wrt (<) (map fst m)"

fun omap_set :: "'k::linorder \<Rightarrow> 'v \<Rightarrow> ('k, 'v) omap \<Rightarrow> ('k, 'v) omap" where
  "omap_set k v [] = [(k, v)]"
| "omap_set k v ((k', v') # m) =
     (if k < k' then (k, v) # (k', v') # m
      else if k = k' then (k, v) # m
      else (k', v') # omap_set k v m)"

definition omap_erase :: "'k \<Rightarrow> ('k, 'v) omap \<Rightarrow> ('k, 'v) omap" where
  "omap_erase k m = filter (\<lambda>p. fst p \<noteq> k) m"

lemma omap_ok_Nil [simp]: "omap_ok []"
  by (simp add: omap_ok_def)

lemma omap_ok_Cons: "omap_ok (p # m) \<longleftrightarrow> (\<forall>q \<in> set m. fst p < fst q) \<and> omap_ok m"
  by (auto simp: omap_ok_def)

lemma set_fst_omap_set: "fst ` set (omap_set k v m) = insert k (fst ` set m)"
  by (induction k v m rule: omap_set.induct) auto

lemma omap_ok_set: "omap_ok m \<Longrightarrow> omap_ok (omap_set k v m)"
proof (induction k v m rule: omap_set.induct)
  case (2 k v k' v' m)
  have "\<forall>q \<in> set (omap_set k v m). k' < fst q" if "k' < k"
  proof
    fix q assume "q \<in> set (omap_set k v m)"
    then have "fst q \<in> insert k (fst ` set m)"
      by (metis image_eqI set_fst_omap_set)
    with that 2(2) show "k' < fst q" by (auto simp: omap_ok_Cons)
  qed
  with 2 show ?case by (fastforce simp: omap_ok_Cons)
qed (simp add: omap_ok_Cons)

lemma omap_ok_erase: "omap_ok m \<Longrightarrow> omap_ok (omap_erase k m)"
  by (simp add: omap_ok_def omap_erase_def sorted_wrt_filter sorted_wrt_map)

lemma omap_ok_distinct: "omap_ok m \<Longrightarrow> distinct (map fst m)"
  by (simp add: omap_ok_def strict_sorted_iff)

lemma map_of_omap_set: "map_of (omap_set k v m) = (map_of m)(k \<mapsto> v)"
  by (induction k v m rule: omap_set.induct) auto

lemma map_of_omap_erase: "map_of (omap_erase k m) = (map_of m)(k := None)"
  by (induction m) (auto simp: omap_erase_def)

text \<open>
  The interface a client of an associative container relies on: looking up after a write
  or an erasure, and the invariant every operation keeps.
\<close>

locale assoc_container =
  fixes empty :: "'m"
    and lookup :: "'m \<Rightarrow> 'k \<Rightarrow> 'v option"
    and update :: "'k \<Rightarrow> 'v \<Rightarrow> 'm \<Rightarrow> 'm"
    and remove :: "'k \<Rightarrow> 'm \<Rightarrow> 'm"
    and invar :: "'m \<Rightarrow> bool"
  assumes lookup_empty: "lookup empty k = None"
    and lookup_update: "invar m \<Longrightarrow> lookup (update k v m) k' = (if k' = k then Some v else lookup m k')"
    and lookup_remove: "invar m \<Longrightarrow> lookup (remove k m) k' = (if k' = k then None else lookup m k')"
    and invar_empty: "invar empty"
    and invar_update: "invar m \<Longrightarrow> invar (update k v m)"
    and invar_remove: "invar m \<Longrightarrow> invar (remove k m)"
begin

lemma invar_fold_update: "invar m \<Longrightarrow> invar (foldl (\<lambda>m p. update (fst p) (snd p) m) m ps)"
  by (induction ps arbitrary: m) (simp_all add: invar_update)

lemma lookup_fold_update:
  "invar m \<Longrightarrow> lookup (foldl (\<lambda>m p. update (fst p) (snd p) m) m ps) k =
     (case map_of (rev ps) k of None \<Rightarrow> lookup m k | Some v \<Rightarrow> Some v)"
  by (induction ps arbitrary: m)
    (auto simp: invar_update lookup_update map_add_def split: option.splits)

lemma lookup_fold_update_fresh:
  assumes "invar m" and "k \<notin> fst ` set ps"
  shows "lookup (foldl (\<lambda>m p. update (fst p) (snd p) m) m ps) k = lookup m k"
proof -
  have "map_of (rev ps) k = None" using assms(2) by (simp add: map_of_eq_None_iff)
  then show ?thesis using assms(1) by (simp add: lookup_fold_update)
qed

end

interpretation omap: assoc_container "[]" map_of omap_set omap_erase omap_ok
  by unfold_locales
    (auto simp: map_of_omap_set map_of_omap_erase omap_ok_set omap_ok_erase)

end
