(* ===== verification/Cpp_Text.thy ===== *)
theory Cpp_Text
  imports Prelude
begin

text \<open>
  The text facilities of the C++ standard library the program uses: \<open>std::to_string\<close>,
  \<open>std::stoi\<close> with its two exceptions, formatted extraction from an input stream
  (\<open>>>\<close> on strings and on integers of a given range, with the fail bit), and
  \<open>std::getline\<close>.  The main facts are round trips: what \<open>to_string\<close> prints,
  \<open>stoi\<close> and \<open>>>\<close> read back.
\<close>

section \<open>Exceptions and integer ranges\<close>

datatype cpp_exn = InvalidArgument | OutOfRange | RuntimeError

definition int_min :: int where "int_min = - (2 ^ 31)"
definition int_max :: int where "int_max = 2 ^ 31 - 1"
definition long_min :: int where "long_min = - (2 ^ 63)"
definition long_max :: int where "long_max = 2 ^ 63 - 1"

lemmas int_range_defs = int_min_def int_max_def long_min_def long_max_def

definition is_int32 :: "int \<Rightarrow> bool" where
  "is_int32 i \<longleftrightarrow> int_min \<le> i \<and> i \<le> int_max"

definition is_int64 :: "int \<Rightarrow> bool" where
  "is_int64 i \<longleftrightarrow> long_min \<le> i \<and> i \<le> long_max"

lemmas int_type_defs = is_int32_def is_int64_def int_range_defs

section \<open>Characters\<close>

definition newline :: char where "newline = CHR 0x0A"

definition is_space :: "char \<Rightarrow> bool" where
  "is_space c \<longleftrightarrow> c = CHR '' '' \<or> c = CHR 0x09 \<or> c = CHR 0x0A \<or> c = CHR 0x0B
     \<or> c = CHR 0x0C \<or> c = CHR 0x0D"

definition is_digit :: "char \<Rightarrow> bool" where
  "is_digit c \<longleftrightarrow> (48::nat) \<le> of_char c \<and> (of_char c :: nat) \<le> 57"

definition digit_val :: "char \<Rightarrow> nat" where
  "digit_val c = of_char c - 48"

definition digit_char :: "nat \<Rightarrow> char" where
  "digit_char n = ''0123456789'' ! n"

lemma of_char_digit_char: "n < 10 \<Longrightarrow> (of_char (digit_char n) :: nat) = 48 + n"
proof -
  assume "n < 10"
  then have "n \<in> {0, 1, 2, 3, 4, 5, 6, 7, 8, 9}" by auto
  then show ?thesis by (auto simp: digit_char_def)
qed

lemma is_digit_digit_char [text_simps]: "n < 10 \<Longrightarrow> is_digit (digit_char n)"
  by (simp add: is_digit_def of_char_digit_char)

lemma digit_val_digit_char [text_simps]: "n < 10 \<Longrightarrow> digit_val (digit_char n) = n"
  by (simp add: digit_val_def of_char_digit_char)

lemma digit_not_space: "is_digit c \<Longrightarrow> \<not> is_space c"
  by (auto simp: is_digit_def is_space_def)

lemma digit_not_sign: "is_digit c \<Longrightarrow> c \<noteq> CHR ''-'' \<and> c \<noteq> CHR ''+''"
  by (auto simp: is_digit_def)

lemma space_not_digit [text_simps]: "\<not> is_digit (CHR '' '')"
  by (simp add: is_digit_def)

lemma newline_not_digit [text_simps]: "\<not> is_digit newline"
  by (simp add: is_digit_def newline_def)

lemma newline_is_space [text_simps]: "is_space newline"
  by (simp add: is_space_def newline_def)

lemma blank_is_space [text_simps]: "is_space (CHR '' '')"
  by (simp add: is_space_def)

lemma minus_not_space [text_simps]: "\<not> is_space (CHR ''-'')"
  by (simp add: is_space_def)

section \<open>Printing integers\<close>

fun show_nat :: "nat \<Rightarrow> string" where
  "show_nat n = (if n < 10 then [digit_char n] else show_nat (n div 10) @ [digit_char (n mod 10)])"

declare show_nat.simps [simp del]

definition to_string :: "int \<Rightarrow> string" where
  "to_string i = (if i < 0 then CHR ''-'' # show_nat (nat (- i)) else show_nat (nat i))"

lemma show_nat_not_Nil [simp]: "show_nat n \<noteq> []"
  by (subst show_nat.simps) simp

lemma show_nat_digits: "c \<in> set (show_nat n) \<Longrightarrow> is_digit c"
proof (induction n rule: show_nat.induct)
  case (1 n)
  then show ?case
    by (auto simp: show_nat.simps [of n] is_digit_digit_char split: if_splits)
qed

lemma to_string_not_Nil [simp]: "to_string i \<noteq> []"
  by (simp add: to_string_def)

lemma to_string_chars: "c \<in> set (to_string i) \<Longrightarrow> is_digit c \<or> c = CHR ''-''"
  by (auto simp: to_string_def split: if_splits dest: show_nat_digits)

lemma to_string_no_space: "c \<in> set (to_string i) \<Longrightarrow> \<not> is_space c"
  using to_string_chars digit_not_space minus_not_space by blast

lemma to_string_no_newline: "newline \<notin> set (to_string i)"
  using to_string_no_space newline_is_space by blast

section \<open>Reading digits\<close>

definition digits_val :: "string \<Rightarrow> nat" where
  "digits_val ds = foldl (\<lambda>a c. 10 * a + digit_val c) 0 ds"

lemma digits_val_snoc: "digits_val (ds @ [c]) = 10 * digits_val ds + digit_val c"
  by (simp add: digits_val_def)

lemma digits_val_show_nat [simp]: "digits_val (show_nat n) = n"
proof (induction n rule: show_nat.induct)
  case (1 n)
  show ?case
  proof (cases "n < 10")
    case True
    then show ?thesis
      by (simp add: show_nat.simps [of n] digits_val_def digit_val_digit_char)
  next
    case False
    with 1 show ?thesis
      by (simp add: show_nat.simps [of n] digits_val_snoc digit_val_digit_char)
  qed
qed

text \<open>An optional sign followed by digits: the sign, the digits and the rest.\<close>

definition split_number :: "string \<Rightarrow> bool \<times> string \<times> string" where
  "split_number s =
     (let neg = (s \<noteq> [] \<and> hd s = CHR ''-'');
          s' = (if s \<noteq> [] \<and> (hd s = CHR ''-'' \<or> hd s = CHR ''+'') then tl s else s)
      in (neg, takeWhile is_digit s', dropWhile is_digit s'))"

definition signed_val :: "bool \<Rightarrow> string \<Rightarrow> int" where
  "signed_val neg ds = (if neg then - int (digits_val ds) else int (digits_val ds))"

definition number_ends :: "string \<Rightarrow> bool" where
  "number_ends rest \<longleftrightarrow> rest = [] \<or> \<not> is_digit (hd rest)"

lemma number_ends_simps [simp]:
  "number_ends []" "number_ends (CHR '' '' # r)" "number_ends (newline # r)"
  by (simp_all add: number_ends_def text_simps)

lemma takeWhile_digits_append:
  assumes "number_ends rest" and "\<And>c. c \<in> set ds \<Longrightarrow> is_digit c"
  shows "takeWhile is_digit (ds @ rest) = ds" and "dropWhile is_digit (ds @ rest) = rest"
  using assms by (cases rest; auto simp: number_ends_def takeWhile_append dropWhile_append)+

lemma split_number_to_string:
  assumes "number_ends rest"
  shows "split_number (to_string i @ rest) = (i < 0, show_nat (nat \<bar>i\<bar>), rest)"
proof -
  have digits: "takeWhile is_digit (show_nat n @ rest) = show_nat n"
    "dropWhile is_digit (show_nat n @ rest) = rest" for n
    using takeWhile_digits_append [OF assms] show_nat_digits by blast+
  obtain c cs where c: "show_nat (nat i) = c # cs" by (cases "show_nat (nat i)") auto
  then have "is_digit c" using show_nat_digits [of c "nat i"] by simp
  then have "c \<noteq> CHR ''-''" "c \<noteq> CHR ''+''" using digit_not_sign by auto
  with c digits [of "nat i"] digits [of "nat (- i)"] show ?thesis
    by (simp add: split_number_def to_string_def)
qed

lemma signed_val_to_string [simp]: "signed_val (i < 0) (show_nat (nat \<bar>i\<bar>)) = i"
  by (simp add: signed_val_def)

section \<open>std::stoi\<close>

definition stoi :: "string \<Rightarrow> cpp_exn + int" where
  "stoi s =
     (case split_number (dropWhile is_space s) of (neg, ds, rest) \<Rightarrow>
        if ds = [] then Inl InvalidArgument
        else if is_int32 (signed_val neg ds) then Inr (signed_val neg ds)
        else Inl OutOfRange)"

lemma dropWhile_space_to_string [simp]:
  "dropWhile is_space (to_string i @ rest) = to_string i @ rest"
proof -
  obtain c cs where c: "to_string i = c # cs" by (cases "to_string i") auto
  with to_string_no_space [of c i] show ?thesis by simp
qed

lemma to_string_inj [simp]: "to_string i = to_string j \<longleftrightarrow> i = j"
proof
  assume eq: "to_string i = to_string j"
  have "split_number (to_string i) = split_number (to_string j)" by (simp add: eq)
  then have "(i < 0) = (j < 0)" "show_nat (nat \<bar>i\<bar>) = show_nat (nat \<bar>j\<bar>)"
    using split_number_to_string [of "[]"] by simp_all
  then have "signed_val (i < 0) (show_nat (nat \<bar>i\<bar>)) = signed_val (j < 0) (show_nat (nat \<bar>j\<bar>))"
    by (simp only:)
  then show "i = j" by simp
qed simp

lemma stoi_to_string_append:
  "number_ends rest \<Longrightarrow> is_int32 i \<Longrightarrow> stoi (to_string i @ rest) = Inr i"
  by (simp add: stoi_def split_number_to_string)

lemma stoi_to_string: "is_int32 i \<Longrightarrow> stoi (to_string i) = Inr i"
  using stoi_to_string_append [of "[]" i] by simp

lemma stoi_to_string_out_of_range: "\<not> is_int32 i \<Longrightarrow> stoi (to_string i) = Inl OutOfRange"
  using split_number_to_string [of "[]" i] dropWhile_space_to_string [of i "[]"]
  by (simp add: stoi_def)

section \<open>Input streams\<close>

text \<open>
  An input string stream is the unread text and whether the stream is still good.  A failed
  extraction clears \<open>good\<close> and makes every later extraction a no-op.  The integer
  extraction leaves its target untouched when the stream has already failed or is at its
  end, stores 0 when there are no digits, and stores the nearest bound when the number does
  not fit.
\<close>

record istream =
  unread :: string
  good :: bool

definition open_stream :: "string \<Rightarrow> istream" where
  "open_stream s = \<lparr>unread = s, good = True\<rparr>"

definition skip_ws :: "istream \<Rightarrow> istream" where
  "skip_ws is = is\<lparr>unread := dropWhile is_space (unread is)\<rparr>"

definition extract_string :: "string \<Rightarrow> istream \<Rightarrow> string \<times> istream" where
  "extract_string old is0 =
     (let is = skip_ws is0 in
      if \<not> good is \<or> unread is = [] then (old, is\<lparr>good := False\<rparr>)
      else (takeWhile (\<lambda>c. \<not> is_space c) (unread is),
            is\<lparr>unread := dropWhile (\<lambda>c. \<not> is_space c) (unread is)\<rparr>))"

definition extract_int :: "int \<Rightarrow> int \<Rightarrow> int \<Rightarrow> istream \<Rightarrow> int \<times> istream" where
  "extract_int lo hi old is0 =
     (let is = skip_ws is0 in
      if \<not> good is \<or> unread is = [] then (old, is\<lparr>good := False\<rparr>)
      else case split_number (unread is) of (neg, ds, rest) \<Rightarrow>
        let v = signed_val neg ds in
        if ds = [] then (0, is\<lparr>unread := rest, good := False\<rparr>)
        else if v < lo then (lo, is\<lparr>unread := rest, good := False\<rparr>)
        else if hi < v then (hi, is\<lparr>unread := rest, good := False\<rparr>)
        else (v, is\<lparr>unread := rest\<rparr>))"

abbreviation extract_int32 :: "int \<Rightarrow> istream \<Rightarrow> int \<times> istream" where
  "extract_int32 \<equiv> extract_int int_min int_max"

abbreviation extract_int64 :: "int \<Rightarrow> istream \<Rightarrow> int \<times> istream" where
  "extract_int64 \<equiv> extract_int long_min long_max"

lemma extract_failed [text_simps]:
  "\<not> good is \<Longrightarrow> fst (extract_int lo hi old is) = old"
  "\<not> good is \<Longrightarrow> \<not> good (snd (extract_int lo hi old is))"
  "\<not> good is \<Longrightarrow> fst (extract_string s is) = s"
  "\<not> good is \<Longrightarrow> \<not> good (snd (extract_string s is))"
  by (simp_all add: extract_int_def extract_string_def skip_ws_def Let_def)

lemma extract_int_to_string:
  assumes "number_ends rest" and "lo \<le> i" and "i \<le> hi"
  shows "extract_int lo hi old \<lparr>unread = to_string i @ rest, good = True\<rparr>
           = (i, \<lparr>unread = rest, good = True\<rparr>)"
  using assms by (simp add: extract_int_def skip_ws_def Let_def split_number_to_string)

lemma extract_int_blank:
  "extract_int lo hi old \<lparr>unread = CHR '' '' # s, good = g\<rparr> =
     extract_int lo hi old \<lparr>unread = s, good = g\<rparr>"
  by (simp add: extract_int_def skip_ws_def text_simps)

lemma extract_string_word:
  assumes "w \<noteq> []" and "\<And>c. c \<in> set w \<Longrightarrow> \<not> is_space c" and "rest = [] \<or> is_space (hd rest)"
  shows "extract_string old \<lparr>unread = w @ rest, good = True\<rparr> = (w, \<lparr>unread = rest, good = True\<rparr>)"
proof -
  obtain c cs where w: "w = c # cs" using assms(1) by (cases w) auto
  have "takeWhile (\<lambda>c. \<not> is_space c) (w @ rest) = w" "dropWhile (\<lambda>c. \<not> is_space c) (w @ rest) = rest"
    using assms(2,3) by (cases rest; auto simp: takeWhile_append dropWhile_append)+
  with w assms(2) [of c] show ?thesis
    by (simp add: extract_string_def skip_ws_def Let_def)
qed

lemma extract_string_shrinks:
  assumes "good (snd (extract_string old is))"
  shows "length (unread (snd (extract_string old is))) < length (unread is)"
proof -
  define u where "u = dropWhile is_space (unread is)"
  from assms have u: "u \<noteq> []" and g: "good is"
    by (auto simp: extract_string_def skip_ws_def Let_def u_def split: if_splits)
  then have "\<not> is_space (hd u)" unfolding u_def by (metis hd_dropWhile)
  with u have "length (dropWhile (\<lambda>c. \<not> is_space c) u) < length u"
    by (cases u) (auto simp: le_imp_less_Suc length_dropWhile_le)
  moreover have "length u \<le> length (unread is)"
    unfolding u_def by (rule length_dropWhile_le)
  ultimately show ?thesis using u g
    by (auto simp: extract_string_def skip_ws_def Let_def u_def simp del: dropWhile_eq_Nil_conv)
qed

section \<open>std::getline\<close>

definition line_of :: "string \<Rightarrow> string" where
  "line_of s = takeWhile (\<lambda>c. c \<noteq> newline) s"

definition after_line :: "string \<Rightarrow> string" where
  "after_line s = drop 1 (dropWhile (\<lambda>c. c \<noteq> newline) s)"

lemma after_line_shrinks: "s \<noteq> [] \<Longrightarrow> length (after_line s) < length s"
proof -
  assume s: "s \<noteq> []"
  show ?thesis
  proof (cases "dropWhile (\<lambda>c. c \<noteq> newline) s")
    case Nil
    then show ?thesis using s by (simp add: after_line_def del: dropWhile_eq_Nil_conv)
  next
    case (Cons c cs)
    have "length (c # cs) \<le> length s" using length_dropWhile_le [of "\<lambda>c. c \<noteq> newline" s] Cons by simp
    then show ?thesis using Cons by (simp add: after_line_def)
  qed
qed

lemma line_of_append [text_simps]: "newline \<notin> set l \<Longrightarrow> line_of (l @ newline # r) = l"
  by (auto simp: line_of_def takeWhile_append)

lemma after_line_append [text_simps]: "newline \<notin> set l \<Longrightarrow> after_line (l @ newline # r) = r"
  by (auto simp: after_line_def dropWhile_append)

end
