(* ===== verification/Types.thy ===== *)
theory Types
  imports Cpp_Text
begin

text \<open>
  The data the processes share: the enumerations and structures of \<open>src/types/types.h\<close> and
  the messages of \<open>src/proto/tpc.proto\<close>.  An \<open>optional\<close> protobuf field is an
  option, a \<open>repeated\<close> one a list.  The protobuf \<open>Transaction\<close> and
  \<open>types::Transaction\<close> have the same fields and share one record.
\<close>

section \<open>types.h\<close>

datatype RequestTypes =
    TPC_PREPARE | TPC_COMMIT | TPC_ABORT | TRANSFER | PREPARE | ACCEPT | COMMIT | SYNC
  | BALANCE | LOGS | DISCONNECT

record transaction =
  sender :: int
  receiver :: int
  amount :: int

datatype TransactionType = INTRA | CROSS

datatype TransactionStatus = NO_STATUS | PREPARED | COMMITTED | ABORTED

record WALEntry =
  we_tid :: int
  we_ballot_num :: int
  we_ballot_server_id :: int
  we_txn :: transaction
  we_type :: TransactionType
  we_status :: TransactionStatus

record TransactionSet =
  ts_set_no :: int
  ts_transactions :: "transaction list"
  ts_servers :: "string list"
  ts_leaders :: "string list"
  ts_disconnected :: "string list"

record CSVLine =
  cl_set_no :: int
  cl_transaction :: transaction
  cl_servers :: "string list"
  cl_leaders :: "string list"

datatype Command = PROCESS_NEXT_SET | PRINT_BALANCE | PRINT_DATASTORE | PRINT_PERFORMANCE | EXIT

record AppCommand =
  ac_command :: Command
  ac_client_id :: int

section \<open>Messages\<close>

record ballot =
  bal_num :: int
  bal_server_id :: int

record TransferReq =
  req_txn :: transaction
  req_tid :: int

record TransferRes =
  res_ack :: bool
  res_tid :: int

record PrepareReq =
  pq_ballot :: ballot
  pq_paxos_index :: int

record PrepareRes =
  ps_ack :: bool
  ps_ballot :: ballot
  ps_accept_num :: "ballot option"
  ps_accept_val :: "TransferReq list"
  ps_latest_ballot_num :: "int option"
  ps_paxos_index :: "int option"
  ps_server_id :: "int option"

record AcceptReq =
  aq_ballot :: ballot
  aq_batch :: "TransferReq list"

record AcceptRes =
  as_ack :: bool
  as_ballot :: ballot

record CommitReq =
  cq_ballot :: ballot

record SyncReq =
  sq_last_inserted :: int

record LogEntry =
  le_txn :: transaction
  le_tid :: int
  le_type :: int
  le_status :: int
  le_ballot_num :: int
  le_ballot_server_id :: int

record SyncRes =
  ss_ack :: bool
  ss_logs :: "LogEntry list"
  ss_last_inserted_ballot :: ballot

text \<open>A message whose fields were never set holds the protobuf defaults.\<close>

definition default_ballot :: ballot where
  "default_ballot = \<lparr>bal_num = 0, bal_server_id = 0\<rparr>"

definition empty_PrepareRes :: PrepareRes where
  "empty_PrepareRes = \<lparr>ps_ack = False, ps_ballot = default_ballot, ps_accept_num = None,
     ps_accept_val = [], ps_latest_ballot_num = None, ps_paxos_index = None, ps_server_id = None\<rparr>"

definition empty_SyncRes :: SyncRes where
  "empty_SyncRes = \<lparr>ss_ack = False, ss_logs = [], ss_last_inserted_ballot = default_ballot\<rparr>"

section \<open>Log entries on the wire\<close>

text \<open>The enumerations travel as integers: \<open>static_cast<int>\<close> and back.\<close>

fun type_code :: "TransactionType \<Rightarrow> int" where
  "type_code INTRA = 0"
| "type_code CROSS = 1"

fun status_code :: "TransactionStatus \<Rightarrow> int" where
  "status_code NO_STATUS = 0"
| "status_code PREPARED = 1"
| "status_code COMMITTED = 2"
| "status_code ABORTED = 3"

definition type_of_code :: "int \<Rightarrow> TransactionType" where
  "type_of_code i = (if i = 0 then INTRA else CROSS)"

definition status_of_code :: "int \<Rightarrow> TransactionStatus" where
  "status_of_code i =
     (if i = 1 then PREPARED else if i = 2 then COMMITTED else if i = 3 then ABORTED else NO_STATUS)"

definition getLogEntryFromLocalLog :: "WALEntry \<Rightarrow> LogEntry" where
  "getLogEntryFromLocalLog e =
     \<lparr>le_txn = we_txn e, le_tid = we_tid e, le_type = type_code (we_type e),
      le_status = status_code (we_status e), le_ballot_num = we_ballot_num e,
      le_ballot_server_id = we_ballot_server_id e\<rparr>"

definition entry_of_LogEntry :: "LogEntry \<Rightarrow> WALEntry" where
  "entry_of_LogEntry e =
     \<lparr>we_tid = le_tid e, we_ballot_num = le_ballot_num e,
      we_ballot_server_id = le_ballot_server_id e, we_txn = le_txn e,
      we_type = type_of_code (le_type e), we_status = status_of_code (le_status e)\<rparr>"

lemma type_of_code_code [simp]: "type_of_code (type_code t) = t"
  by (cases t) (simp_all add: type_of_code_def)

lemma status_of_code_code [simp]: "status_of_code (status_code s) = s"
  by (cases s) (simp_all add: status_of_code_def)

lemma entry_of_LogEntry_local [simp]: "entry_of_LogEntry (getLogEntryFromLocalLog e) = e"
  by (simp add: entry_of_LogEntry_def getLogEntryFromLocalLog_def)

lemma entries_of_local_log [simp]:
  "map entry_of_LogEntry (map getLogEntryFromLocalLog es) = es"
  by (simp add: comp_def)

section \<open>Paxos entries\<close>

definition isPaxosEntry :: "WALEntry \<Rightarrow> bool" where
  "isPaxosEntry e \<longleftrightarrow> (we_type e = INTRA \<and> we_status e = COMMITTED)
     \<or> (we_type e = CROSS \<and> we_status e = PREPARED)"

text \<open>The entry the write-ahead log returns when a file cannot be opened or a tid is unknown.\<close>

definition error_entry :: WALEntry where
  "error_entry = \<lparr>we_tid = -1, we_ballot_num = -1, we_ballot_server_id = -1,
     we_txn = \<lparr>sender = -1, receiver = -1, amount = -1\<rparr>, we_type = CROSS, we_status = NO_STATUS\<rparr>"

text \<open>The values fit the C++ types of the fields: \<open>long\<close> for the tid, \<open>int\<close> elsewhere.\<close>

definition entry_fits :: "WALEntry \<Rightarrow> bool" where
  "entry_fits e \<longleftrightarrow> is_int64 (we_tid e) \<and> is_int32 (we_ballot_num e)
     \<and> is_int32 (we_ballot_server_id e) \<and> is_int32 (sender (we_txn e))
     \<and> is_int32 (receiver (we_txn e)) \<and> is_int32 (amount (we_txn e))"

text \<open>The log answers with tid \<open>-1\<close> for an unknown transaction, so a request does not use it.\<close>

definition req_fits :: "TransferReq \<Rightarrow> bool" where
  "req_fits r \<longleftrightarrow> is_int64 (req_tid r) \<and> req_tid r \<noteq> -1 \<and> is_int32 (sender (req_txn r))
     \<and> is_int32 (receiver (req_txn r)) \<and> is_int32 (amount (req_txn r))"

definition ballot_fits :: "ballot \<Rightarrow> bool" where
  "ballot_fits b \<longleftrightarrow> is_int32 (bal_num b) \<and> is_int32 (bal_server_id b)"

end
