(* ===== verification/Config.thy ===== *)
theory Config
  imports Types
begin

text \<open>
  The static configuration (\<open>src/constants.h\<close>) and the helpers of
  \<open>src/utils/utils.cc\<close>: which cluster an account or a server belongs to, the default
  topology, the configuration file, and the process bookkeeping of the driver.  The two
  \<open>std::map\<close> statics are sorted association lists, because the program iterates over them
  in key order.

  The code computes cluster numbers as \<open>ceil\<close> of a \<open>double\<close> quotient of two
  \<open>int\<close>s.  A quotient of 32-bit integers that is not an integer is further from the next
  integer than the rounding error of a \<open>double\<close>, so the result is the exact ceiling,
  \<open>ceil_div\<close>.
\<close>

section \<open>constants.h\<close>

definition total_clients :: int where "total_clients = 3000"

record config =
  num_clusters :: int
  cluster_size :: int
  server_addresses :: "(string, string) omap"
  server_ids :: "(string, int) omap"

definition initial_config :: config where
  "initial_config = \<lparr>num_clusters = 3, cluster_size = 3, server_addresses = [], server_ids = []\<rparr>"

section \<open>Clusters of accounts and servers\<close>

definition getClusterIdFromClientId :: "config \<Rightarrow> int \<Rightarrow> int" where
  "getClusterIdFromClientId c i = ceil_div (i * num_clusters c) total_clients"

definition getClusterIdFromServerId :: "config \<Rightarrow> int \<Rightarrow> int" where
  "getClusterIdFromServerId c i = ceil_div i (cluster_size c)"

definition isClientInCluster_util :: "config \<Rightarrow> int \<Rightarrow> int \<Rightarrow> bool" where
  "isClientInCluster_util c client_id cid \<longleftrightarrow> getClusterIdFromClientId c client_id = cid"

definition getServersInCluster :: "config \<Rightarrow> int \<Rightarrow> string list" where
  "getServersInCluster c cid =
     map fst (filter (\<lambda>s. getClusterIdFromServerId c (snd s) = cid) (server_ids c))"

section \<open>Setting up the topology\<close>

definition server_name_of :: "int \<Rightarrow> string" where
  "server_name_of i = ''S'' @ to_string i"

definition server_address_of :: "int \<Rightarrow> string" where
  "server_address_of i = ''localhost:'' @ to_string (50000 + i)"

definition add_server :: "config \<Rightarrow> int \<Rightarrow> config" where
  "add_server c i =
     c\<lparr>server_addresses := omap_set (server_name_of i) (server_address_of i) (server_addresses c),
       server_ids := omap_set (server_name_of i) i (server_ids c)\<rparr>"

definition setupApplicationState :: "int \<Rightarrow> int \<Rightarrow> config \<Rightarrow> config" where
  "setupApplicationState nc cs c =
     foldl add_server
       (c\<lparr>num_clusters := nc, cluster_size := cs, server_addresses := [], server_ids := []\<rparr>)
       [1..nc * cs]"

text \<open>
  Reading a configuration file: pairs of words, numbered in the order they appear.
  \<open>None\<close> stands for a file that cannot be opened.
\<close>

lemma extract_string_good: "good (snd (extract_string old is)) \<Longrightarrow> good is"
  using extract_failed(4) by blast

function load_loop :: "istream \<Rightarrow> string \<Rightarrow> string \<Rightarrow> int \<Rightarrow> config \<Rightarrow> config" where
  "load_loop f name address i c =
     (let (name', f1) = extract_string name f; (address', f2) = extract_string address f1
      in if good f2
         then load_loop f2 name' address' (i + 1)
                (c\<lparr>server_addresses := omap_set name' address' (server_addresses c),
                   server_ids := omap_set name' i (server_ids c)\<rparr>)
         else c)"
  by pat_completeness auto

termination
proof (relation "measure (\<lambda>(f, n, a, i, c). length (unread f))")
  fix f :: istream and name address :: string and i :: int and c :: config
    and x xa xb y xc xd
  assume "x = extract_string name f" "(xa, xb) = x"
    and "y = extract_string address xb" "(xc, xd) = y" and g: "good xd"
  then have xb: "xb = snd (extract_string name f)" and xd: "xd = snd (extract_string address xb)"
    by (metis snd_conv)+
  from g xd have "length (unread xd) < length (unread xb)" and "good xb"
    using extract_string_shrinks extract_string_good by blast+
  moreover have "length (unread xb) < length (unread f)"
    using \<open>good xb\<close> xb extract_string_shrinks by blast
  ultimately show "((xd, xa, xc, i + 1, c\<lparr>server_addresses := omap_set xa xc (server_addresses c),
       server_ids := omap_set xa i (server_ids c)\<rparr>), f, name, address, i, c)
     \<in> measure (\<lambda>(f, n, a, i, c). length (unread f))" by simp
qed simp

declare load_loop.simps [simp del]

definition loadConfig :: "string option \<Rightarrow> config \<Rightarrow> bool \<times> config" where
  "loadConfig file c =
     (case file of
        None \<Rightarrow> (False, c)
      | Some text \<Rightarrow>
          (True, load_loop (open_stream text) [] [] 1 (c\<lparr>server_addresses := [], server_ids := []\<rparr>)))"

section \<open>Server processes\<close>

text \<open>
  The driver's process table.  \<open>fork\<close> gives the value the call returns in the parent for
  each server; \<open>kill\<close> and \<open>waitpid\<close> say whether the calls succeed.  A child that
  executes runs \<open>./server\<close> with the arguments of \<open>server_argv\<close>.
\<close>

definition server_argv :: "int \<Rightarrow> int \<Rightarrow> string \<Rightarrow> string list" where
  "server_argv nc cs name = [''server'', name, to_string nc, to_string cs]"

fun start_loop :: "(string \<Rightarrow> int) \<Rightarrow> (string \<times> string) list \<Rightarrow> (string, int) omap
    \<Rightarrow> cpp_exn option \<times> (string, int) omap" where
  "start_loop fork [] pids = (None, pids)"
| "start_loop fork (s # ss) pids =
     (if fork (fst s) < 0 then (Some RuntimeError, pids)
      else start_loop fork ss (omap_set (fst s) (fork (fst s)) pids))"

definition startAllServers :: "(string \<Rightarrow> int) \<Rightarrow> config \<Rightarrow> (string, int) omap
    \<Rightarrow> cpp_exn option \<times> (string, int) omap" where
  "startAllServers fork c pids = start_loop fork (server_addresses c) pids"

fun killAllServers :: "(int \<Rightarrow> bool) \<Rightarrow> (int \<Rightarrow> bool) \<Rightarrow> (string, int) omap
    \<Rightarrow> cpp_exn option \<times> (string, int) omap" where
  "killAllServers kill waitpid [] = (None, [])"
| "killAllServers kill waitpid (p # ps) =
     (if \<not> kill (snd p) then (Some RuntimeError, p # ps)
      else if \<not> waitpid (snd p) then (Some RuntimeError, p # ps)
      else killAllServers kill waitpid ps)"

end
