(* ===== verification/Wal.thy ===== *)
theory Wal
  imports Types
begin

text \<open>
  The write-ahead log of \<open>src/server/wal.cc\<close>: a text file of one line per record, and the
  in-memory index from the tid of a prepared cross-shard transaction to the position of its
  line.  The file is its contents (\<open>None\<close> when it does not exist); \<open>wal_can_open\<close>
  says whether the file system lets the process open it.  \<open>wal_uninit\<close> is what the
  uninitialised local variables of \<open>getTransactionFromFile\<close> hold, an arbitrary value.

  The second half relates the file to the list of records it holds: every operation appends
  one record, \<open>recover\<close> computes a fold over the records, and the index points at the lines
  of the prepared transactions.
\<close>

section \<open>The log file\<close>

record wal =
  wal_file :: "string option"
  wal_can_open :: bool
  transferIndex :: "int \<Rightarrow> int option"
  wal_uninit :: WALEntry

definition wal_init :: "string option \<Rightarrow> bool \<Rightarrow> WALEntry \<Rightarrow> wal" where
  "wal_init f ok u = \<lparr>wal_file = f, wal_can_open = ok, transferIndex = Map.empty, wal_uninit = u\<rparr>"

definition wal_text :: "wal \<Rightarrow> string" where
  "wal_text w = (case wal_file w of None \<Rightarrow> [] | Some s \<Rightarrow> s)"

definition wal_append :: "string \<Rightarrow> wal \<Rightarrow> wal" where
  "wal_append s w = w\<lparr>wal_file := Some (wal_text w @ s)\<rparr>"

text \<open>The line the output operators print for one record, without and with its newline.\<close>

definition wal_fields :: "WALEntry \<Rightarrow> string" where
  "wal_fields e =
     to_string (we_tid e) @ '' '' @ to_string (we_ballot_num e) @ '' ''
     @ to_string (we_ballot_server_id e) @ '' '' @ to_string (sender (we_txn e)) @ '' ''
     @ to_string (receiver (we_txn e)) @ '' '' @ to_string (amount (we_txn e))"

definition wal_line :: "string \<Rightarrow> WALEntry \<Rightarrow> string" where
  "wal_line op e = op @ '' '' @ wal_fields e"

text \<open>The chained extraction of the seven fields of a line.\<close>

definition read_wal_line :: "WALEntry \<Rightarrow> string \<Rightarrow> string \<times> WALEntry \<times> bool" where
  "read_wal_line u l =
     (let (op, s1) = extract_string [] (open_stream l);
          (t, s2) = extract_int64 (we_tid u) s1;
          (bn, s3) = extract_int32 (we_ballot_num u) s2;
          (bs, s4) = extract_int32 (we_ballot_server_id u) s3;
          (sd, s5) = extract_int32 (sender (we_txn u)) s4;
          (rc, s6) = extract_int32 (receiver (we_txn u)) s5;
          (am, s7) = extract_int32 (amount (we_txn u)) s6
      in (op, \<lparr>we_tid = t, we_ballot_num = bn, we_ballot_server_id = bs,
               we_txn = \<lparr>sender = sd, receiver = rc, amount = am\<rparr>,
               we_type = CROSS, we_status = NO_STATUS\<rparr>, good s7))"

section \<open>Recovery\<close>

record recovered =
  rv_index :: "int \<Rightarrow> int option"
  rv_last_inserted :: int
  rv_ballot_num :: int
  rv_log :: "WALEntry list"

definition rv_push :: "WALEntry \<Rightarrow> recovered \<Rightarrow> recovered" where
  "rv_push e st = st\<lparr>rv_log := rv_log st @ [e], rv_last_inserted := int (length (rv_log st @ [e])) - 1\<rparr>"

definition recover_entry :: "int \<Rightarrow> string \<Rightarrow> WALEntry \<Rightarrow> recovered \<Rightarrow> recovered" where
  "recover_entry pos op e st0 =
     (let st = st0\<lparr>rv_ballot_num := max (rv_ballot_num st0) (we_ballot_num e)\<rparr> in
      if op = ''IN_COMMIT'' \<or> op = ''IS_COMMIT''
      then rv_push (e\<lparr>we_type := INTRA, we_status := COMMITTED\<rparr>) st
      else if op = ''CS_PREPARE''
      then rv_push (e\<lparr>we_type := CROSS, we_status := PREPARED\<rparr>)
             (st\<lparr>rv_index := (rv_index st)(we_tid e \<mapsto> pos)\<rparr>)
      else if op = ''CS_COMMIT''
      then rv_push (e\<lparr>we_type := CROSS, we_status := COMMITTED\<rparr>)
             (st\<lparr>rv_index := (rv_index st)(we_tid e := None)\<rparr>)
      else if op = ''CS_ABORT''
      then rv_push (e\<lparr>we_type := CROSS, we_status := ABORTED\<rparr>)
             (st\<lparr>rv_index := (rv_index st)(we_tid e := None)\<rparr>)
      else st)"

definition recover_line :: "WALEntry \<Rightarrow> int \<Rightarrow> string \<Rightarrow> recovered \<Rightarrow> recovered" where
  "recover_line u pos l st =
     (if l = [] then st
      else case read_wal_line u l of (op, e, ok) \<Rightarrow>
        if ok then recover_entry pos op e st else st)"

function recover_loop :: "WALEntry \<Rightarrow> int \<Rightarrow> string \<Rightarrow> recovered \<Rightarrow> recovered" where
  "recover_loop u pos s st =
     (if s = [] then st
      else recover_loop u (pos + int (length (line_of s)) + 1) (after_line s)
             (recover_line u pos (line_of s) st))"
  by pat_completeness auto
termination
  by (relation "measure (\<lambda>(u, pos, s, st). length s)") (auto simp: after_line_shrinks)

declare recover_loop.simps [simp del]

text \<open>
  \<open>WAL::recover\<close>: the caller passes its last index, ballot number and log by reference.
\<close>

definition wal_recover :: "wal \<Rightarrow> int \<Rightarrow> int \<Rightarrow> WALEntry list \<Rightarrow> wal \<times> int \<times> int \<times> WALEntry list" where
  "wal_recover w li bn lg =
     (case (wal_can_open w, wal_file w) of
        (True, Some s) \<Rightarrow>
          (let st = recover_loop (wal_uninit w) 0 s
                \<lparr>rv_index = Map.empty, rv_last_inserted = li, rv_ballot_num = bn, rv_log = lg\<rparr>
           in (w\<lparr>transferIndex := rv_index st\<rparr>, rv_last_inserted st, rv_ballot_num st, rv_log st))
      | _ \<Rightarrow> (w, li, bn, lg))"

section \<open>Operations\<close>

definition getTransactionFromFile :: "wal \<Rightarrow> int \<Rightarrow> WALEntry" where
  "getTransactionFromFile w pos =
     (case (wal_can_open w, wal_file w) of
        (True, Some s) \<Rightarrow>
          (let l = (if pos < 0 then [] else line_of (drop (nat pos) s))
           in (fst (snd (read_wal_line (wal_uninit w) l)))\<lparr>we_type := CROSS, we_status := PREPARED\<rparr>)
      | _ \<Rightarrow> error_entry)"

definition entry_of_req :: "TransferReq \<Rightarrow> ballot \<Rightarrow> TransactionType \<Rightarrow> TransactionStatus \<Rightarrow> WALEntry" where
  "entry_of_req r b t s =
     \<lparr>we_tid = req_tid r, we_ballot_num = bal_num b, we_ballot_server_id = bal_server_id b,
      we_txn = req_txn r, we_type = t, we_status = s\<rparr>"

definition wal_prepareTransaction :: "TransferReq \<Rightarrow> ballot \<Rightarrow> wal \<Rightarrow> wal \<times> WALEntry" where
  "wal_prepareTransaction r b w =
     (let e = entry_of_req r b CROSS PREPARED;
          pos = (if wal_can_open w then int (length (wal_text w)) else -1);
          w1 = w\<lparr>transferIndex := (transferIndex w)(req_tid r \<mapsto> pos)\<rparr>
      in (if wal_can_open w then wal_append (wal_line ''CS_PREPARE'' e @ [newline]) w1 else w1, e))"

definition wal_commitTransaction :: "TransferReq \<Rightarrow> ballot \<Rightarrow> wal \<Rightarrow> wal \<times> WALEntry" where
  "wal_commitTransaction r b w =
     (if \<not> wal_can_open w then (w, error_entry)
      else let e = entry_of_req r b INTRA COMMITTED
           in (wal_append (wal_line ''IN_COMMIT'' e @ [newline]) w, e))"

definition wal_commitTpc :: "int \<Rightarrow> wal \<Rightarrow> wal \<times> WALEntry" where
  "wal_commitTpc t w =
     (case transferIndex w t of
        None \<Rightarrow> (w, error_entry)
      | Some pos \<Rightarrow>
          (let e = getTransactionFromFile w pos in
           if \<not> wal_can_open w then (w, error_entry)
           else let w1 = wal_append (wal_line ''CS_COMMIT'' (e\<lparr>we_tid := t\<rparr>) @ [newline]) w
                in (w1\<lparr>transferIndex := (transferIndex w1)(t := None)\<rparr>, e\<lparr>we_status := COMMITTED\<rparr>)))"

definition wal_abortTransaction :: "int \<Rightarrow> wal \<Rightarrow> wal \<times> WALEntry" where
  "wal_abortTransaction t w =
     (case transferIndex w t of
        None \<Rightarrow> (w, error_entry)
      | Some pos \<Rightarrow>
          (let e = getTransactionFromFile w pos in
           if \<not> wal_can_open w then (w, error_entry)
           else let w1 = wal_append (wal_line ''CS_ABORT'' (e\<lparr>we_tid := t\<rparr>) @ [newline]) w
                in (w1\<lparr>transferIndex := (transferIndex w1)(t := None)\<rparr>, e\<lparr>we_status := ABORTED\<rparr>)))"

definition insert_op :: "WALEntry \<Rightarrow> string" where
  "insert_op e =
     (if we_type e = INTRA then ''IS_'' else ''CS_'') @
     (case we_status e of PREPARED \<Rightarrow> ''PREPARE'' | COMMITTED \<Rightarrow> ''COMMIT''
        | ABORTED \<Rightarrow> ''ABORT'' | NO_STATUS \<Rightarrow> [])"

definition insertEntry :: "WALEntry \<Rightarrow> wal \<Rightarrow> wal" where
  "insertEntry e w =
     (if \<not> wal_can_open w then w
      else let idx = (case we_status e of
             PREPARED \<Rightarrow> (transferIndex w)(we_tid e \<mapsto> int (length (wal_text w)))
           | COMMITTED \<Rightarrow> (transferIndex w)(we_tid e := None)
           | ABORTED \<Rightarrow> (transferIndex w)(we_tid e := None)
           | NO_STATUS \<Rightarrow> transferIndex w)
      in wal_append (wal_line (insert_op e) e @ [newline]) (w\<lparr>transferIndex := idx\<rparr>))"

section \<open>Records of the file\<close>

type_synonym wal_rec = "string \<times> WALEntry"

definition op_word :: "string \<Rightarrow> bool" where
  "op_word op \<longleftrightarrow> op \<noteq> [] \<and> (\<forall>c \<in> set op. \<not> is_space c)"

definition rec_ok :: "wal_rec \<Rightarrow> bool" where
  "rec_ok r \<longleftrightarrow> op_word (fst r) \<and> entry_fits (snd r)"

definition rec_text :: "wal_rec \<Rightarrow> string" where
  "rec_text r = wal_line (fst r) (snd r) @ [newline]"

definition recs_text :: "wal_rec list \<Rightarrow> string" where
  "recs_text rs = concat (map rec_text rs)"

lemma recs_text_simps [simp]:
  "recs_text [] = []"
  "recs_text (r # rs) = rec_text r @ recs_text rs"
  "recs_text (rs @ rs') = recs_text rs @ recs_text rs'"
  by (simp_all add: recs_text_def)

lemma rec_text_not_Nil [simp]: "rec_text r \<noteq> []"
  by (simp add: rec_text_def)

lemma op_word_ops [simp]:
  "op_word ''IN_COMMIT''" "op_word ''IS_COMMIT''" "op_word ''CS_PREPARE''"
  "op_word ''CS_COMMIT''" "op_word ''CS_ABORT''"
  by (simp_all add: op_word_def is_space_def)

lemma op_word_insert_op: "op_word (insert_op e)"
  by (cases "we_status e"; cases "we_type e") (simp_all add: insert_op_def op_word_def is_space_def)

lemma wal_fields_no_newline: "newline \<notin> set (wal_fields e)"
  using to_string_no_newline by (simp add: wal_fields_def newline_def)

lemma wal_line_no_newline: "op_word op \<Longrightarrow> newline \<notin> set (wal_line op e)"
  using wal_fields_no_newline [of e] newline_is_space
  by (auto simp: wal_line_def op_word_def newline_def)

lemma wal_line_not_Nil [simp]: "wal_line op e \<noteq> []"
  by (simp add: wal_line_def)

lemma read_wal_line_fields:
  assumes "op_word op" and "entry_fits e"
  shows "read_wal_line u (wal_line op e) = (op, e\<lparr>we_type := CROSS, we_status := NO_STATUS\<rparr>, True)"
proof -
  have word: "extract_string [] \<lparr>unread = op @ CHR '' '' # rest, good = True\<rparr>
      = (op, \<lparr>unread = CHR '' '' # rest, good = True\<rparr>)" for rest
    using assms(1) by (intro extract_string_word) (auto simp: op_word_def is_space_def)
  have num: "extract_int lo hi old \<lparr>unread = CHR '' '' # to_string i @ rest, good = True\<rparr>
      = (i, \<lparr>unread = rest, good = True\<rparr>)"
    if "number_ends rest" "lo \<le> i" "i \<le> hi" for lo hi old i rest
    using that by (simp add: extract_int_blank extract_int_to_string)
  show ?thesis
    using assms(2) num [of "[]"]
    by (simp add: read_wal_line_def wal_line_def wal_fields_def open_stream_def word num
        entry_fits_def is_int32_def is_int64_def)
qed

section \<open>Recovery as a fold over the records\<close>

fun replay :: "int \<Rightarrow> wal_rec list \<Rightarrow> recovered \<Rightarrow> recovered" where
  "replay pos [] st = st"
| "replay pos (r # rs) st =
     replay (pos + int (length (rec_text r))) rs (recover_entry pos (fst r) (snd r) st)"

lemma replay_append:
  "replay pos (rs @ rs') st = replay (pos + int (length (recs_text rs))) rs' (replay pos rs st)"
  by (induction rs arbitrary: pos st) (simp_all add: add.assoc)

lemma recover_entry_strip [simp]:
  "recover_entry pos op (e\<lparr>we_type := t, we_status := s\<rparr>) st = recover_entry pos op e st"
  by (simp add: recover_entry_def Let_def)

lemma line_of_rec [simp]: "rec_ok r \<Longrightarrow> line_of (rec_text r @ s) = wal_line (fst r) (snd r)"
  using line_of_append [OF wal_line_no_newline] by (simp add: rec_text_def rec_ok_def)

lemma after_line_rec [simp]: "rec_ok r \<Longrightarrow> after_line (rec_text r @ s) = s"
  using after_line_append [OF wal_line_no_newline] by (simp add: rec_text_def rec_ok_def)

lemma recover_loop_recs_tail:
  "\<forall>r \<in> set rs. rec_ok r \<Longrightarrow> recover_loop u pos (recs_text rs @ s) st =
     recover_loop u (pos + int (length (recs_text rs))) s (replay pos rs st)"
proof (induction rs arbitrary: pos st)
  case Nil
  then show ?case by simp
next
  case (Cons r rs)
  then have r: "rec_ok r" by simp
  have "recover_line u pos (wal_line (fst r) (snd r)) st = recover_entry pos (fst r) (snd r) st"
    using r by (simp add: recover_line_def rec_ok_def read_wal_line_fields)
  moreover have "int (length (wal_line (fst r) (snd r))) + 1 = int (length (rec_text r))"
    by (simp add: rec_text_def)
  ultimately show ?case
    using Cons r by (simp add: recover_loop.simps [of u pos "rec_text r @ recs_text rs @ s"] add.assoc)
qed

lemma recover_loop_recs:
  "\<forall>r \<in> set rs. rec_ok r \<Longrightarrow> recover_loop u pos (recs_text rs) st = replay pos rs st"
  using recover_loop_recs_tail [of rs u pos "[]" st] by (simp add: recover_loop.simps [of _ _ "[]"])

lemma recover_loop_unterminated:
  assumes "\<forall>r \<in> set rs. rec_ok r" and "rec_ok (op, e)"
  shows "recover_loop u 0 (recs_text rs @ wal_line op e) st = replay 0 (rs @ [(op, e)]) st"
proof -
  have no: "newline \<notin> set (wal_line op e)"
    using assms(2) wal_line_no_newline by (simp add: rec_ok_def)
  have l: "line_of (wal_line op e) = wal_line op e"
    using no by (auto simp: line_of_def takeWhile_eq_all_conv)
  have "dropWhile (\<lambda>c. c \<noteq> newline) (wal_line op e) = []" using no by auto
  then have a: "after_line (wal_line op e) = []"
    by (simp add: after_line_def del: dropWhile_eq_Nil_conv)
  have "recover_line u pos (wal_line op e) st' = recover_entry pos op e st'" for pos st'
    using assms(2) by (simp add: recover_line_def rec_ok_def read_wal_line_fields)
  then have "recover_loop u pos (wal_line op e) st' = recover_entry pos op e st'" for pos st'
    using l a by (simp add: recover_loop.simps [of _ _ "wal_line op e"] recover_loop.simps [of _ _ "[]"])
  then show ?thesis
    using recover_loop_recs_tail [OF assms(1), of u 0 "wal_line op e" st]
    by (simp add: replay_append)
qed

definition entry_of_rec :: "wal_rec \<Rightarrow> WALEntry option" where
  "entry_of_rec r =
     (if fst r = ''IN_COMMIT'' \<or> fst r = ''IS_COMMIT''
      then Some ((snd r)\<lparr>we_type := INTRA, we_status := COMMITTED\<rparr>)
      else if fst r = ''CS_PREPARE'' then Some ((snd r)\<lparr>we_type := CROSS, we_status := PREPARED\<rparr>)
      else if fst r = ''CS_COMMIT'' then Some ((snd r)\<lparr>we_type := CROSS, we_status := COMMITTED\<rparr>)
      else if fst r = ''CS_ABORT'' then Some ((snd r)\<lparr>we_type := CROSS, we_status := ABORTED\<rparr>)
      else None)"

definition index_step :: "int \<Rightarrow> wal_rec \<Rightarrow> (int \<Rightarrow> int option) \<Rightarrow> int \<Rightarrow> int option" where
  "index_step pos r idx =
     (if fst r = ''CS_PREPARE'' then idx(we_tid (snd r) \<mapsto> pos)
      else if fst r = ''CS_COMMIT'' \<or> fst r = ''CS_ABORT'' then idx(we_tid (snd r) := None)
      else idx)"

lemma recover_entry_fields:
  "rv_index (recover_entry pos (fst r) (snd r) st) = index_step pos r (rv_index st)"
  "rv_ballot_num (recover_entry pos (fst r) (snd r) st) = max (rv_ballot_num st) (we_ballot_num (snd r))"
  "rv_log (recover_entry pos (fst r) (snd r) st) =
     rv_log st @ (case entry_of_rec r of None \<Rightarrow> [] | Some e \<Rightarrow> [e])"
  "rv_last_inserted (recover_entry pos (fst r) (snd r) st) =
     (case entry_of_rec r of None \<Rightarrow> rv_last_inserted st | Some e \<Rightarrow> int (length (rv_log st)))"
  by (simp_all add: recover_entry_def index_step_def entry_of_rec_def rv_push_def Let_def)

lemma replay_log: "rv_log (replay pos rs st) = rv_log st @ List.map_filter entry_of_rec rs"
  by (induction rs arbitrary: pos st)
    (auto simp: recover_entry_fields map_filter_simps split: option.splits)

lemma replay_ballot:
  "rv_ballot_num (replay pos rs st) = fold (\<lambda>r b. max b (we_ballot_num (snd r))) rs (rv_ballot_num st)"
  by (induction rs arbitrary: pos st) (simp_all add: recover_entry_fields)

lemma replay_last_inserted:
  "rv_last_inserted st = int (length (rv_log st)) - 1 \<Longrightarrow>
     rv_last_inserted (replay pos rs st) = int (length (rv_log (replay pos rs st))) - 1"
proof (induction rs arbitrary: pos st)
  case (Cons r rs)
  have "rv_last_inserted (recover_entry pos (fst r) (snd r) st)
      = int (length (rv_log (recover_entry pos (fst r) (snd r) st))) - 1"
    using Cons.prems by (simp add: recover_entry_fields split: option.splits)
  then show ?case by (simp add: Cons.IH)
qed simp

fun index_of_recs :: "int \<Rightarrow> wal_rec list \<Rightarrow> (int \<Rightarrow> int option) \<Rightarrow> int \<Rightarrow> int option" where
  "index_of_recs pos [] idx = idx"
| "index_of_recs pos (r # rs) idx =
     index_of_recs (pos + int (length (rec_text r))) rs (index_step pos r idx)"

lemma replay_index: "rv_index (replay pos rs st) = index_of_recs pos rs (rv_index st)"
  by (induction rs arbitrary: pos st) (simp_all add: recover_entry_fields)

lemma index_of_recs_snoc:
  "index_of_recs pos (rs @ [r]) idx =
     index_step (pos + int (length (recs_text rs))) r (index_of_recs pos rs idx)"
  by (induction rs arbitrary: pos idx) (simp_all add: add.assoc)

section \<open>The index points at prepared transactions\<close>

text \<open>A log file that holds exactly the records \<open>rs\<close>, with the index recovery would build.\<close>

definition wal_rel :: "wal \<Rightarrow> wal_rec list \<Rightarrow> bool" where
  "wal_rel w rs \<longleftrightarrow> wal_can_open w \<and> wal_text w = recs_text rs \<and> (\<forall>r \<in> set rs. rec_ok r)
     \<and> transferIndex w = index_of_recs 0 rs Map.empty"

lemma index_of_recs_points:
  "index_of_recs 0 rs Map.empty t = Some pos \<Longrightarrow>
     \<exists>rs1 e rs2. rs = rs1 @ (''CS_PREPARE'', e) # rs2 \<and> pos = int (length (recs_text rs1)) \<and> we_tid e = t"
proof (induction rs rule: rev_induct)
  case (snoc r rs)
  show ?case
  proof (cases "index_of_recs 0 rs Map.empty t = Some pos")
    case True
    with snoc.IH show ?thesis by fastforce
  next
    case False
    with snoc.prems have "fst r = ''CS_PREPARE''" "we_tid (snd r) = t" "pos = int (length (recs_text rs))"
      by (auto simp: index_of_recs_snoc index_step_def split: if_splits)
    then have "rs @ [r] = rs @ (''CS_PREPARE'', snd r) # [] \<and> pos = int (length (recs_text rs))
        \<and> we_tid (snd r) = t" by (metis prod.collapse)
    then show ?thesis by blast
  qed
qed simp

text \<open>The file holds the records, and every index entry is the position of a record of its tid.\<close>

definition wal_points :: "wal \<Rightarrow> wal_rec list \<Rightarrow> bool" where
  "wal_points w rs \<longleftrightarrow> wal_can_open w \<and> wal_text w = recs_text rs \<and> (\<forall>r \<in> set rs. rec_ok r)
     \<and> (\<forall>t pos. transferIndex w t = Some pos \<longrightarrow>
          (\<exists>rs1 op e rs2. rs = rs1 @ (op, e) # rs2 \<and> pos = int (length (recs_text rs1)) \<and> we_tid e = t))"

lemma wal_rel_points: "wal_rel w rs \<Longrightarrow> wal_points w rs"
  unfolding wal_rel_def wal_points_def using index_of_recs_points [of rs] by metis

lemma getTransactionFromFile_at:
  assumes "wal_points w (rs1 @ (op, e) # rs2)"
  shows "getTransactionFromFile w (int (length (recs_text rs1))) = e\<lparr>we_type := CROSS, we_status := PREPARED\<rparr>"
proof -
  let ?r = "(op, e)"
  have ok: "rec_ok ?r" and tx: "wal_text w = recs_text rs1 @ rec_text ?r @ recs_text rs2"
    using assms by (simp_all add: wal_points_def)
  then obtain s where s: "wal_file w = Some s" "s = recs_text rs1 @ rec_text ?r @ recs_text rs2"
    by (cases "wal_file w") (auto simp: wal_text_def)
  have "line_of (drop (length (recs_text rs1)) s) = wal_line op e"
    using ok line_of_rec [OF ok, of "recs_text rs2"] s(2) by simp
  then show ?thesis
    using assms ok s(1)
    by (simp add: getTransactionFromFile_def wal_points_def rec_ok_def read_wal_line_fields)
qed

definition wal_pending :: "wal \<Rightarrow> int \<Rightarrow> WALEntry option" where
  "wal_pending w t = map_option (getTransactionFromFile w) (transferIndex w t)"

text \<open>The same map computed from the records alone.\<close>

definition pending_step :: "wal_rec \<Rightarrow> (int \<Rightarrow> WALEntry option) \<Rightarrow> int \<Rightarrow> WALEntry option" where
  "pending_step r p =
     (if fst r = ''CS_PREPARE'' then p(we_tid (snd r) \<mapsto> (snd r)\<lparr>we_type := CROSS, we_status := PREPARED\<rparr>)
      else if fst r = ''CS_COMMIT'' \<or> fst r = ''CS_ABORT'' then p(we_tid (snd r) := None)
      else p)"

definition pending_of_recs :: "wal_rec list \<Rightarrow> int \<Rightarrow> WALEntry option" where
  "pending_of_recs rs = fold pending_step rs Map.empty"

lemma pending_of_recs_snoc: "pending_of_recs (rs @ [r]) = pending_step r (pending_of_recs rs)"
  by (simp add: pending_of_recs_def)

lemma index_pending:
  "(\<forall>rs1 e rs2. rs = rs1 @ (''CS_PREPARE'', e) # rs2 \<longrightarrow>
      g (int (length (recs_text rs1))) = e\<lparr>we_type := CROSS, we_status := PREPARED\<rparr>) \<Longrightarrow>
   map_option g (index_of_recs 0 rs Map.empty t) = pending_of_recs rs t"
proof (induction rs rule: rev_induct)
  case Nil
  then show ?case by (simp add: pending_of_recs_def)
next
  case (snoc r rs)
  have IH: "map_option g (index_of_recs 0 rs Map.empty t) = pending_of_recs rs t"
    using snoc.prems by (intro snoc.IH) (metis append.assoc append_Cons)
  have r: "g (int (length (recs_text rs))) = (snd r)\<lparr>we_type := CROSS, we_status := PREPARED\<rparr>"
    if "fst r = ''CS_PREPARE''"
    using snoc.prems that by (metis prod.collapse)
  show ?case
    using IH r by (simp add: index_of_recs_snoc pending_of_recs_snoc index_step_def pending_step_def)
qed

lemma wal_pending_recs: "wal_rel w rs \<Longrightarrow> wal_pending w t = pending_of_recs rs t"
  unfolding wal_pending_def
  using index_pending [of rs "getTransactionFromFile w" t] getTransactionFromFile_at [OF wal_rel_points]
  by (fastforce simp: wal_rel_def)

section \<open>Every operation appends one record\<close>

lemma wal_rel_append:
  assumes "wal_rel w rs" and "rec_ok r"
    and "idx = index_step (int (length (recs_text rs))) r (transferIndex w)"
  shows "wal_rel (wal_append (rec_text r) w\<lparr>transferIndex := idx\<rparr>) (rs @ [r])"
  using assms by (auto simp: wal_rel_def wal_append_def wal_text_def index_of_recs_snoc)

lemma wal_append_index [simp]:
  "wal_append s (w\<lparr>transferIndex := idx\<rparr>) = wal_append s w\<lparr>transferIndex := idx\<rparr>"
  "transferIndex (wal_append s w) = transferIndex w"
  "wal_can_open (wal_append s w) = wal_can_open w"
  by (simp_all add: wal_append_def wal_text_def)

lemma wal_rel_open: "wal_rel w rs \<Longrightarrow> wal_can_open w"
  and wal_rel_text: "wal_rel w rs \<Longrightarrow> wal_text w = recs_text rs"
  by (simp_all add: wal_rel_def)

lemma entry_of_req_fits: "req_fits r \<Longrightarrow> ballot_fits b \<Longrightarrow> entry_fits (entry_of_req r b t s)"
  by (simp add: entry_fits_def req_fits_def ballot_fits_def entry_of_req_def)

lemma wal_rel_prepare:
  assumes "wal_rel w rs" and "req_fits r" and "ballot_fits b"
  shows "wal_rel (fst (wal_prepareTransaction r b w)) (rs @ [(''CS_PREPARE'', entry_of_req r b CROSS PREPARED)])"
proof -
  let ?e = "entry_of_req r b CROSS PREPARED"
  have "fst (wal_prepareTransaction r b w) =
      wal_append (rec_text (''CS_PREPARE'', ?e)) w
        \<lparr>transferIndex := (transferIndex w)(req_tid r \<mapsto> int (length (recs_text rs)))\<rparr>"
    using assms(1) by (simp add: wal_prepareTransaction_def Let_def rec_text_def wal_rel_open wal_rel_text)
  then show ?thesis
    using wal_rel_append [OF assms(1), of "(''CS_PREPARE'', ?e)"] entry_of_req_fits [OF assms(2,3)]
    by (simp add: rec_ok_def index_step_def entry_of_req_def)
qed

lemma wal_rel_commit:
  assumes "wal_rel w rs" and "req_fits r" and "ballot_fits b"
  shows "wal_rel (fst (wal_commitTransaction r b w)) (rs @ [(''IN_COMMIT'', entry_of_req r b INTRA COMMITTED)])"
proof -
  let ?e = "entry_of_req r b INTRA COMMITTED"
  have "fst (wal_commitTransaction r b w) =
      wal_append (rec_text (''IN_COMMIT'', ?e)) w\<lparr>transferIndex := transferIndex w\<rparr>"
    using assms(1) by (simp add: wal_commitTransaction_def Let_def rec_text_def wal_rel_open wal_append_def)
  then show ?thesis
    using wal_rel_append [OF assms(1), of "(''IN_COMMIT'', ?e)"] entry_of_req_fits [OF assms(2,3)]
    by (simp add: rec_ok_def index_step_def)
qed

lemma points_pending_fits:
  assumes "wal_points w rs" and "wal_pending w t = Some e"
  shows "entry_fits e" and "we_tid e = t" and "we_type e = CROSS" and "we_status e = PREPARED"
proof -
  obtain pos where pos: "transferIndex w t = Some pos" "e = getTransactionFromFile w pos"
    using assms(2) by (auto simp: wal_pending_def)
  then obtain rs1 op e' rs2 where rs: "rs = rs1 @ (op, e') # rs2" "pos = int (length (recs_text rs1))" "we_tid e' = t"
    using assms(1) unfolding wal_points_def by metis
  then have "e = e'\<lparr>we_type := CROSS, we_status := PREPARED\<rparr>"
    using getTransactionFromFile_at [of w rs1 op e' rs2] assms(1) pos(2) by simp
  moreover have "entry_fits e'" using assms(1) rs(1) by (auto simp: wal_points_def rec_ok_def)
  ultimately show "entry_fits e" "we_tid e = t" "we_type e = CROSS" "we_status e = PREPARED"
    using rs(3) by (simp_all add: entry_fits_def)
qed

lemmas wal_pending_fits = points_pending_fits [OF wal_rel_points]

lemma points_decision_pending:
  assumes "wal_points w rs" and "wal_pending w t = Some e"
  shows "wal_commitTpc t w =
      (wal_append (rec_text (''CS_COMMIT'', e)) w\<lparr>transferIndex := (transferIndex w)(t := None)\<rparr>,
       e\<lparr>we_status := COMMITTED\<rparr>)"
    and "wal_abortTransaction t w =
      (wal_append (rec_text (''CS_ABORT'', e)) w\<lparr>transferIndex := (transferIndex w)(t := None)\<rparr>,
       e\<lparr>we_status := ABORTED\<rparr>)"
proof -
  obtain pos where "transferIndex w t = Some pos" "getTransactionFromFile w pos = e"
    using assms(2) by (auto simp: wal_pending_def)
  moreover have "e\<lparr>we_tid := t\<rparr> = e" using points_pending_fits(2) [OF assms] by simp
  moreover have "wal_can_open w" using assms(1) by (simp add: wal_points_def)
  ultimately show "wal_commitTpc t w =
      (wal_append (rec_text (''CS_COMMIT'', e)) w\<lparr>transferIndex := (transferIndex w)(t := None)\<rparr>,
       e\<lparr>we_status := COMMITTED\<rparr>)"
    and "wal_abortTransaction t w =
      (wal_append (rec_text (''CS_ABORT'', e)) w\<lparr>transferIndex := (transferIndex w)(t := None)\<rparr>,
       e\<lparr>we_status := ABORTED\<rparr>)"
    by (simp_all add: wal_commitTpc_def wal_abortTransaction_def Let_def rec_text_def)
qed

lemmas wal_decision_pending = points_decision_pending [OF wal_rel_points]

lemma wal_decision_unknown:
  assumes "wal_pending w t = None"
  shows "wal_commitTpc t w = (w, error_entry)" and "wal_abortTransaction t w = (w, error_entry)"
  using assms by (simp_all add: wal_pending_def wal_commitTpc_def wal_abortTransaction_def)

lemma wal_rel_decision:
  assumes "wal_rel w rs" and "wal_pending w t = Some e"
  shows "wal_rel (fst (wal_commitTpc t w)) (rs @ [(''CS_COMMIT'', e)])"
    and "wal_rel (fst (wal_abortTransaction t w)) (rs @ [(''CS_ABORT'', e)])"
  using wal_rel_append [OF assms(1), of "(''CS_COMMIT'', e)"] wal_rel_append [OF assms(1), of "(''CS_ABORT'', e)"]
    wal_pending_fits(1,2) [OF assms]
  by (simp_all add: wal_decision_pending [OF assms] rec_ok_def index_step_def)

definition insertable :: "WALEntry \<Rightarrow> wal \<Rightarrow> bool" where
  "insertable e w \<longleftrightarrow> we_type e = CROSS \<or> (we_status e \<noteq> PREPARED \<and> transferIndex w (we_tid e) = None)"

lemma insert_op_cross:
  "we_type e = CROSS \<Longrightarrow> insert_op e =
     (case we_status e of PREPARED \<Rightarrow> ''CS_PREPARE'' | COMMITTED \<Rightarrow> ''CS_COMMIT''
        | ABORTED \<Rightarrow> ''CS_ABORT'' | NO_STATUS \<Rightarrow> ''CS_'')"
  by (cases "we_status e") (simp_all add: insert_op_def)

lemma insert_op_intra:
  "we_type e = INTRA \<Longrightarrow> insert_op e =
     (case we_status e of PREPARED \<Rightarrow> ''IS_PREPARE'' | COMMITTED \<Rightarrow> ''IS_COMMIT''
        | ABORTED \<Rightarrow> ''IS_ABORT'' | NO_STATUS \<Rightarrow> ''IS_'')"
  by (cases "we_status e") (simp_all add: insert_op_def)

lemma wal_rel_insert:
  assumes "wal_rel w rs" and "entry_fits e" and "insertable e w"
  shows "wal_rel (insertEntry e w) (rs @ [(insert_op e, e)])"
proof -
  let ?idx = "index_step (int (length (recs_text rs))) (insert_op e, e) (transferIndex w)"
  have same: "(transferIndex w)(we_tid e := None) = transferIndex w" if "we_type e = INTRA"
    using assms(3) that by (auto simp: insertable_def fun_eq_iff)
  have "insertEntry e w = wal_append (rec_text (insert_op e, e)) w\<lparr>transferIndex := ?idx\<rparr>"
  proof (cases "we_type e")
    case INTRA
    with assms(1,3) same show ?thesis
      by (cases "we_status e")
        (simp_all add: insertEntry_def wal_rel_open rec_text_def index_step_def insert_op_intra insertable_def)
  next
    case CROSS
    with assms(1) show ?thesis
      by (cases "we_status e")
        (simp_all add: insertEntry_def wal_rel_open wal_rel_text rec_text_def index_step_def insert_op_cross)
  qed
  then show ?thesis
    using wal_rel_append [OF assms(1), of "(insert_op e, e)" ?idx] assms(2)
    by (simp add: rec_ok_def op_word_insert_op)
qed

lemma entry_of_rec_insert:
  "we_type e = CROSS \<and> we_status e \<noteq> NO_STATUS \<or> we_type e = INTRA \<and> we_status e = COMMITTED \<Longrightarrow>
     entry_of_rec (insert_op e, e) = Some e"
  by (cases "we_status e") (auto simp: entry_of_rec_def insert_op_cross insert_op_intra)

lemma wal_recover_recs:
  assumes "wal_rel w rs"
  shows "wal_recover (w\<lparr>transferIndex := Map.empty\<rparr>) (- 1) bn [] =
      (w, int (length (List.map_filter entry_of_rec rs)) - 1,
       fold (\<lambda>r b. max b (we_ballot_num (snd r))) rs bn, List.map_filter entry_of_rec rs)"
proof (cases "wal_file w")
  case None
  then have "recs_text rs = []" using assms by (simp add: wal_rel_def wal_text_def)
  then have "rs = []" by (cases rs) auto
  with assms None show ?thesis
    by (simp add: wal_recover_def wal_rel_def map_filter_simps)
next
  case (Some s)
  have s: "s = recs_text rs" using assms Some by (simp add: wal_rel_def wal_text_def)
  let ?st = "\<lparr>rv_index = Map.empty, rv_last_inserted = - 1, rv_ballot_num = bn, rv_log = []\<rparr>"
  have "recover_loop (wal_uninit w) 0 s ?st = replay 0 rs ?st"
    using assms s recover_loop_recs by (simp add: wal_rel_def)
  moreover have "rv_last_inserted (replay 0 rs ?st) = int (length (List.map_filter entry_of_rec rs)) - 1"
    using replay_last_inserted [of ?st 0 rs] by (simp add: replay_log)
  moreover have "transferIndex w = rv_index (replay 0 rs ?st)"
    using assms by (simp add: wal_rel_def replay_index)
  ultimately show ?thesis
    using assms Some by (simp add: wal_recover_def wal_rel_def Let_def replay_log replay_ballot)
qed

section \<open>The participant log as an interface\<close>

text \<open>
  What a two-phase-commit participant relies on: commands change the set of prepared
  transactions the way the abstract step says.
\<close>

datatype wal_cmd = WPrepare TransferReq ballot | WCommitIntra TransferReq ballot | WDecide bool int | WInsert WALEntry

definition cmd_fits :: "wal_cmd \<Rightarrow> bool" where
  "cmd_fits c = (case c of WPrepare r b \<Rightarrow> req_fits r \<and> ballot_fits b
     | WCommitIntra r b \<Rightarrow> req_fits r \<and> ballot_fits b | WDecide _ _ \<Rightarrow> True | WInsert e \<Rightarrow> entry_fits e)"

fun wal_exec :: "wal \<Rightarrow> wal_cmd \<Rightarrow> wal" where
  "wal_exec w (WPrepare r b) = fst (wal_prepareTransaction r b w)"
| "wal_exec w (WCommitIntra r b) = fst (wal_commitTransaction r b w)"
| "wal_exec w (WDecide c t) = (if c then fst (wal_commitTpc t w) else fst (wal_abortTransaction t w))"
| "wal_exec w (WInsert e) = insertEntry e w"

fun prepared_step :: "(int \<Rightarrow> WALEntry option) \<Rightarrow> wal_cmd \<Rightarrow> int \<Rightarrow> WALEntry option" where
  "prepared_step p (WPrepare r b) = p(req_tid r \<mapsto> entry_of_req r b CROSS PREPARED)"
| "prepared_step p (WCommitIntra r b) = p"
| "prepared_step p (WDecide c t) = p(t := None)"
| "prepared_step p (WInsert e) = (case we_status e of
     PREPARED \<Rightarrow> p(we_tid e \<mapsto> e\<lparr>we_type := CROSS\<rparr>) | NO_STATUS \<Rightarrow> p | _ \<Rightarrow> p(we_tid e := None))"

fun touches :: "int \<Rightarrow> wal_cmd \<Rightarrow> bool" where
  "touches t (WPrepare r b) = (req_tid r = t)"
| "touches t (WCommitIntra r b) = False"
| "touches t (WDecide c t') = (t' = t)"
| "touches t (WInsert e) = (we_tid e = t)"

locale participant_log =
  fixes prepared :: "'w \<Rightarrow> int \<Rightarrow> WALEntry option"
    and exec :: "'w \<Rightarrow> wal_cmd \<Rightarrow> 'w"
    and invar :: "'w \<Rightarrow> bool"
  assumes prepared_exec: "invar w \<Longrightarrow> cmd_fits c \<Longrightarrow> prepared (exec w c) = prepared_step (prepared w) c"
    and invar_exec: "invar w \<Longrightarrow> cmd_fits c \<Longrightarrow> invar (exec w c)"
begin

lemma invar_run: "invar w \<Longrightarrow> \<forall>c \<in> set cs. cmd_fits c \<Longrightarrow> invar (foldl exec w cs)"
  by (induction cs arbitrary: w) (simp_all add: invar_exec)

lemma prepared_run:
  "invar w \<Longrightarrow> \<forall>c \<in> set cs. cmd_fits c \<Longrightarrow>
     prepared (foldl exec w cs) = foldl prepared_step (prepared w) cs"
  by (induction cs arbitrary: w) (simp_all add: prepared_exec invar_exec)

lemma prepared_run_untouched:
  "invar w \<Longrightarrow> \<forall>c \<in> set cs. cmd_fits c \<and> \<not> touches t c \<Longrightarrow> prepared (foldl exec w cs) t = prepared w t"
proof (induction cs arbitrary: w)
  case (Cons c cs)
  have "prepared (exec w c) t = prepared w t"
    using Cons.prems by (cases c) (simp_all add: prepared_exec split: TransactionStatus.split)
  then show ?case using Cons by (simp add: invar_exec)
qed simp

end

definition wal_inv :: "wal \<Rightarrow> bool" where
  "wal_inv w \<longleftrightarrow> (\<exists>rs. wal_points w rs)"

lemma wal_inv_fresh: "wal_inv (wal_init None True u)"
  unfolding wal_inv_def by (rule exI [of _ "[]"]) (simp add: wal_points_def wal_init_def wal_text_def)

text \<open>Appending a record, with the index entry of its tid kept, removed or set to the record.\<close>

lemma points_append:
  assumes "wal_points w rs" and "rec_ok r" and "we_tid (snd r) = t"
    and "x = transferIndex w t \<or> x = None \<or> x = Some (int (length (recs_text rs)))"
  defines "w' \<equiv> wal_append (rec_text r) w\<lparr>transferIndex := (transferIndex w)(t := x)\<rparr>"
  shows "wal_points w' (rs @ [r])"
    and "t' \<noteq> t \<Longrightarrow> wal_pending w' t' = wal_pending w t'"
    and "x = None \<Longrightarrow> wal_pending w' t = None"
    and "x = Some (int (length (recs_text rs))) \<Longrightarrow> wal_pending w' t = Some ((snd r)\<lparr>we_type := CROSS, we_status := PREPARED\<rparr>)"
    and "x = transferIndex w t \<Longrightarrow> wal_pending w' t = wal_pending w t"
proof -
  have idx: "transferIndex w' = (transferIndex w)(t := x)" by (simp add: w'_def)
  have pts: "\<exists>rs1 op e rs2. rs = rs1 @ (op, e) # rs2 \<and> pos = int (length (recs_text rs1)) \<and> we_tid e = t'"
    if "transferIndex w t' = Some pos" for t' pos
    using assms(1) that by (simp add: wal_points_def)
  have "\<exists>rs1 op e rs2. rs @ [r] = rs1 @ (op, e) # rs2 \<and> pos = int (length (recs_text rs1)) \<and> we_tid e = t'"
    if "transferIndex w' t' = Some pos" for t' pos
  proof (cases "transferIndex w t' = Some pos")
    case True
    then show ?thesis using pts by fastforce
  next
    case False
    then have "t' = t" "pos = int (length (recs_text rs))" using that assms(4) by (auto simp: idx split: if_splits)
    then show ?thesis using assms(3) by (intro exI [of _ rs] exI [of _ "fst r"] exI [of _ "snd r"] exI [of _ "[]"]) simp
  qed
  then show w': "wal_points w' (rs @ [r])"
    using assms(1,2) unfolding wal_points_def by (auto simp: w'_def wal_append_def wal_text_def)
  have old: "getTransactionFromFile w' pos = getTransactionFromFile w pos" if i: "transferIndex w t' = Some pos" for t' pos
  proof -
    obtain rs1 op e rs2 where rs: "rs = rs1 @ (op, e) # rs2" "pos = int (length (recs_text rs1))" using pts [OF i] by blast
    then show ?thesis
      using getTransactionFromFile_at [of w' rs1 op e "rs2 @ [r]"] getTransactionFromFile_at [of w rs1 op e rs2] w' assms(1) by simp
  qed
  show "t' \<noteq> t \<Longrightarrow> wal_pending w' t' = wal_pending w t'"
    using old [of t'] by (cases "transferIndex w t'") (simp_all add: wal_pending_def idx)
  show "x = transferIndex w t \<Longrightarrow> wal_pending w' t = wal_pending w t"
    using old [of t] by (cases "transferIndex w t") (simp_all add: wal_pending_def idx)
  show "x = None \<Longrightarrow> wal_pending w' t = None" by (simp add: wal_pending_def idx)
  show "x = Some (int (length (recs_text rs))) \<Longrightarrow> wal_pending w' t = Some ((snd r)\<lparr>we_type := CROSS, we_status := PREPARED\<rparr>)"
    using getTransactionFromFile_at [of w' rs "fst r" "snd r" "[]"] w' by (simp add: wal_pending_def idx)
qed

text \<open>Every command appends a record of this form or does nothing.\<close>

lemma exec_points:
  assumes "wal_points w rs" and "cmd_fits c"
  shows "wal_inv (wal_exec w c) \<and> wal_pending (wal_exec w c) = prepared_step (wal_pending w) c"
proof -
  note opn = assms(1) [unfolded wal_points_def, THEN conjunct1]
  note tx = assms(1) [unfolded wal_points_def, THEN conjunct2, THEN conjunct1]
  have go: "wal_inv w' \<and> wal_pending w' = (wal_pending w)(t := p)"
    if "rec_ok r" "we_tid (snd r) = t" "w' = wal_append (rec_text r) w\<lparr>transferIndex := (transferIndex w)(t := x)\<rparr>"
      "x = transferIndex w t \<and> p = wal_pending w t \<or> x = None \<and> p = None
         \<or> x = Some (int (length (recs_text rs))) \<and> p = Some ((snd r)\<lparr>we_type := CROSS, we_status := PREPARED\<rparr>)" for r t x p w'
    using points_append [OF assms(1) that(1,2), of x] that(3,4) by (auto simp: wal_inv_def fun_eq_iff)
  show ?thesis
  proof (cases c)
    case (WPrepare r b)
    have fits: "entry_fits (entry_of_req r b CROSS PREPARED)"
      using assms(2) WPrepare by (simp add: cmd_fits_def entry_of_req_fits)
    show ?thesis unfolding WPrepare prepared_step.simps
      by (rule go [of "(''CS_PREPARE'', entry_of_req r b CROSS PREPARED)" _ _ "Some (int (length (recs_text rs)))"])
        (use fits in \<open>simp_all add: rec_ok_def entry_of_req_def wal_prepareTransaction_def Let_def opn tx rec_text_def\<close>)
  next
    case (WCommitIntra r b)
    have fits: "entry_fits (entry_of_req r b INTRA COMMITTED)"
      using assms(2) WCommitIntra by (simp add: cmd_fits_def entry_of_req_fits)
    have "wal_inv (wal_exec w c) \<and> wal_pending (wal_exec w c) = (wal_pending w)(req_tid r := wal_pending w (req_tid r))"
      unfolding WCommitIntra
      by (rule go [of "(''IN_COMMIT'', entry_of_req r b INTRA COMMITTED)" _ _ "transferIndex w (req_tid r)"])
        (use fits in \<open>simp_all add: rec_ok_def entry_of_req_def wal_commitTransaction_def Let_def opn rec_text_def wal_append_def\<close>)
    then show ?thesis by (simp add: WCommitIntra)
  next
    case (WDecide d t)
    show ?thesis
    proof (cases "wal_pending w t")
      case None
      then show ?thesis using assms(1) by (auto simp: WDecide wal_decision_unknown wal_inv_def fun_eq_iff)
    next
      case (Some e)
      note fits = points_pending_fits(1,2) [OF assms(1) Some]
      show ?thesis unfolding WDecide prepared_step.simps
        by (rule go [of "(if d then ''CS_COMMIT'' else ''CS_ABORT'', e)" _ _ None])
          (use fits in \<open>simp_all add: rec_ok_def points_decision_pending [OF assms(1) Some]\<close>)
    qed
  next
    case (WInsert e)
    have fits: "entry_fits e" using assms(2) WInsert by (simp add: cmd_fits_def)
    define x where "x = (case we_status e of PREPARED \<Rightarrow> Some (int (length (recs_text rs))) | NO_STATUS \<Rightarrow> transferIndex w (we_tid e) | _ \<Rightarrow> None)"
    define p where "p = (case we_status e of PREPARED \<Rightarrow> Some (e\<lparr>we_type := CROSS\<rparr>) | NO_STATUS \<Rightarrow> wal_pending w (we_tid e) | _ \<Rightarrow> None)"
    have "wal_inv (wal_exec w c) \<and> wal_pending (wal_exec w c) = (wal_pending w)(we_tid e := p)"
      unfolding WInsert
    proof (rule go [of "(insert_op e, e)" _ _ x])
      show "wal_exec w (WInsert e) = wal_append (rec_text (insert_op e, e)) w\<lparr>transferIndex := (transferIndex w)(we_tid e := x)\<rparr>"
        by (cases "we_status e") (simp_all add: insertEntry_def opn rec_text_def x_def wal_append_def wal_text_def Let_def tx [symmetric])
    qed (use fits in \<open>cases "we_status e"; simp add: rec_ok_def op_word_insert_op x_def p_def\<close>)+
    then show ?thesis by (cases "we_status e") (simp_all add: WInsert p_def)
  qed
qed

lemma wal_pending_commit:
  assumes "wal_rel w rs" and "req_fits r" and "ballot_fits b"
  shows "wal_pending (fst (wal_commitTransaction r b w)) = wal_pending w"
  using wal_pending_recs [OF wal_rel_commit [OF assms]] wal_pending_recs [OF assms(1)]
  by (simp add: fun_eq_iff pending_of_recs_snoc pending_step_def)

lemma wal_pending_decision:
  assumes "wal_rel w rs"
  shows "wal_pending (fst (wal_commitTpc t w)) = (wal_pending w)(t := None)"
    and "wal_pending (fst (wal_abortTransaction t w)) = (wal_pending w)(t := None)"
proof -
  have "wal_pending (fst (wal_commitTpc t w)) = (wal_pending w)(t := None) \<and>
     wal_pending (fst (wal_abortTransaction t w)) = (wal_pending w)(t := None)"
  proof (cases "wal_pending w t")
    case None
    then show ?thesis by (auto simp: wal_decision_unknown fun_eq_iff)
  next
    case (Some e)
    then show ?thesis
      using wal_pending_recs [OF wal_rel_decision(1) [OF assms Some]]
        wal_pending_recs [OF wal_rel_decision(2) [OF assms Some]]
        wal_pending_recs [OF assms] wal_pending_fits(2) [OF assms Some]
      by (simp add: fun_eq_iff pending_of_recs_snoc pending_step_def)
  qed
  then show "wal_pending (fst (wal_commitTpc t w)) = (wal_pending w)(t := None)"
    and "wal_pending (fst (wal_abortTransaction t w)) = (wal_pending w)(t := None)" by simp_all
qed

interpretation wal_log: participant_log wal_pending wal_exec wal_inv
  using exec_points by unfold_locales (auto simp: wal_inv_def)

section \<open>Properties\<close>

text \<open>Round trip of one log line: reading the line printed for an entry whose fields fit
  their C++ types gives back the operation and every field.\<close>

theorem wal_line_roundtrip:
  assumes "op_word op" and "entry_fits e"
  shows "read_wal_line u (wal_line op e) = (op, e\<lparr>we_type := CROSS, we_status := NO_STATUS\<rparr>, True)"
  using assms by (rule read_wal_line_fields)

definition sample_entry :: WALEntry where
  "sample_entry = \<lparr>we_tid = 1700000000000000001, we_ballot_num = 3, we_ballot_server_id = 1,
     we_txn = \<lparr>sender = 12, receiver = 1500, amount = 4\<rparr>, we_type = CROSS, we_status = PREPARED\<rparr>"

lemma sample_entry_fits: "entry_fits sample_entry"
  by (simp add: sample_entry_def entry_fits_def int_type_defs)

theorem wal_line_roundtrip_witness:
  "op_word ''CS_PREPARE'' \<and> entry_fits sample_entry \<and>
     read_wal_line error_entry (wal_line ''CS_PREPARE'' sample_entry)
       = (''CS_PREPARE'', sample_entry\<lparr>we_type := CROSS, we_status := NO_STATUS\<rparr>, True)"
  using wal_line_roundtrip [OF op_word_ops(3) sample_entry_fits, of error_entry] sample_entry_fits
  by simp

text \<open>C21. Recovery rebuilds the live index and the log: when a process whose file holds the
  records \<open>rs\<close> restarts with an empty index, \<open>WAL::recover\<close> restores exactly the index the
  process had, returns one log entry per committed, prepared or aborted record in file order,
  the index of the last of them, and the largest ballot number seen.\<close>

theorem wal_recover_rebuilds:
  assumes "wal_rel w rs"
  shows "wal_recover (w\<lparr>transferIndex := Map.empty\<rparr>) (- 1) bn [] =
      (w, int (length (List.map_filter entry_of_rec rs)) - 1,
       fold (\<lambda>r b. max b (we_ballot_num (snd r))) rs bn, List.map_filter entry_of_rec rs)"
  using assms by (rule wal_recover_recs)

definition sample_wal :: wal where
  "sample_wal = wal_exec (wal_init None True error_entry)
     (WPrepare \<lparr>req_txn = \<lparr>sender = 12, receiver = 1500, amount = 4\<rparr>, req_tid = 77\<rparr>
        \<lparr>bal_num = 3, bal_server_id = 1\<rparr>)"

definition sample_req :: TransferReq where
  "sample_req = \<lparr>req_txn = \<lparr>sender = 12, receiver = 1500, amount = 4\<rparr>, req_tid = 77\<rparr>"

definition sample_ballot :: ballot where
  "sample_ballot = \<lparr>bal_num = 3, bal_server_id = 1\<rparr>"

lemma sample_req_fits: "req_fits sample_req" and sample_ballot_fits: "ballot_fits sample_ballot"
  by (simp_all add: sample_req_def sample_ballot_def req_fits_def ballot_fits_def int_type_defs)

lemma wal_rel_fresh: "wal_rel (wal_init None True u) []"
  by (simp add: wal_rel_def wal_init_def wal_text_def)

lemma sample_wal_rel: "wal_rel sample_wal [(''CS_PREPARE'', entry_of_req sample_req sample_ballot CROSS PREPARED)]"
  using wal_rel_prepare [OF wal_rel_fresh sample_req_fits sample_ballot_fits, of error_entry]
  by (simp add: sample_wal_def sample_req_def sample_ballot_def)

theorem wal_recover_rebuilds_witness:
  "wal_rel sample_wal [(''CS_PREPARE'', entry_of_req sample_req sample_ballot CROSS PREPARED)] \<and>
   wal_recover (sample_wal\<lparr>transferIndex := Map.empty\<rparr>) (- 1) 1 [] =
     (sample_wal, 0, 3, [entry_of_req sample_req sample_ballot CROSS PREPARED])"
  using wal_recover_rebuilds [OF sample_wal_rel, of 1] sample_wal_rel
  by (simp add: map_filter_simps entry_of_rec_def entry_of_req_def sample_ballot_def)

text \<open>C20. A prepared transaction survives any later traffic on the log: after the prepare and
  any sequence of prepares, intra-shard commits, decisions and inserted entries of other tids, the
  commit decision returns the transaction, ballot included, marked committed, and the abort
  decision returns it marked aborted.\<close>

theorem wal_prepare_then_decide:
  assumes "wal_inv w" and "req_fits r" and "ballot_fits b"
    and "\<forall>c \<in> set cs. cmd_fits c \<and> \<not> touches (req_tid r) c"
  defines "w' \<equiv> foldl wal_exec (fst (wal_prepareTransaction r b w)) cs"
  shows "snd (wal_commitTpc (req_tid r) w') = entry_of_req r b CROSS COMMITTED \<and>
         snd (wal_abortTransaction (req_tid r) w') = entry_of_req r b CROSS ABORTED"
proof -
  let ?w = "fst (wal_prepareTransaction r b w)"
  have c: "cmd_fits (WPrepare r b)" using assms(2,3) by (simp add: cmd_fits_def)
  have inv: "wal_inv ?w" using wal_log.invar_exec [OF assms(1) c] by simp
  have "wal_pending w' (req_tid r) = wal_pending ?w (req_tid r)"
    unfolding w'_def using inv assms(4) by (rule wal_log.prepared_run_untouched)
  moreover have "wal_pending ?w (req_tid r) = Some (entry_of_req r b CROSS PREPARED)"
    using wal_log.prepared_exec [OF assms(1) c] by simp
  moreover obtain rs where "wal_points w' rs"
    using wal_log.invar_run [OF inv, of cs] assms(4) by (auto simp: w'_def wal_inv_def)
  ultimately show ?thesis
    by (simp add: points_decision_pending entry_of_req_def)
qed

theorem wal_prepare_then_decide_witness:
  "wal_inv (wal_init None True error_entry) \<and>
   snd (wal_commitTpc 77 (foldl wal_exec
      (fst (wal_prepareTransaction sample_req sample_ballot (wal_init None True error_entry)))
      [WDecide True 5, WInsert (sample_entry\<lparr>we_status := COMMITTED\<rparr>), WCommitIntra (sample_req\<lparr>req_tid := 6\<rparr>) sample_ballot]))
    = entry_of_req sample_req sample_ballot CROSS COMMITTED"
proof -
  have tid: "req_tid sample_req = 77" by (simp add: sample_req_def)
  have "\<forall>c \<in> set [WDecide True 5, WInsert (sample_entry\<lparr>we_status := COMMITTED\<rparr>), WCommitIntra (sample_req\<lparr>req_tid := 6\<rparr>) sample_ballot].
      cmd_fits c \<and> \<not> touches (req_tid sample_req) c"
    using sample_req_fits sample_ballot_fits sample_entry_fits
    by (simp add: cmd_fits_def tid req_fits_def entry_fits_def, simp add: sample_entry_def int_type_defs)
  from wal_prepare_then_decide [OF wal_inv_fresh sample_req_fits sample_ballot_fits this, of error_entry]
  show ?thesis using wal_inv_fresh [of error_entry] by (simp only: tid)
qed

text \<open>C27. A write cut short inside the last number is accepted.  The comment in \<open>recover\<close>
  says partial lines from interrupted writes are ignored; when the line of an entry is cut
  after a proper prefix of the digits of its amount, recovery logs the entry with the smaller
  amount.\<close>

theorem truncated_amount_accepted:
  assumes "\<forall>r \<in> set rs. rec_ok r" and "op_word op" and "entry_fits e" and "is_int32 a"
    and "to_string (amount (we_txn e)) = to_string a @ lost"
  defines "e' \<equiv> e\<lparr>we_txn := (we_txn e)\<lparr>amount := a\<rparr>\<rparr>"
  shows "recs_text (rs @ [(op, e)]) = (recs_text rs @ wal_line op e') @ lost @ [newline] \<and>
         recover_loop u 0 (recs_text rs @ wal_line op e') st = replay 0 (rs @ [(op, e')]) st"
proof -
  have ok: "rec_ok (op, e')"
    using assms(2-4) by (simp add: rec_ok_def e'_def entry_fits_def)
  have "wal_line op e = wal_line op e' @ lost"
    using assms(5) by (simp add: wal_line_def wal_fields_def e'_def)
  then show ?thesis
    using recover_loop_unterminated [OF assms(1) ok] by (simp add: rec_text_def)
qed

definition short_entry :: "int \<Rightarrow> WALEntry" where
  "short_entry a = sample_entry\<lparr>we_txn := \<lparr>sender = 1, receiver = 2, amount = a\<rparr>\<rparr>"

definition recovery_start :: recovered where
  "recovery_start = \<lparr>rv_index = Map.empty, rv_last_inserted = - 1, rv_ballot_num = 0, rv_log = []\<rparr>"

theorem truncated_amount_accepted_witness:
  "entry_fits (short_entry 100) \<and> is_int32 10 \<and>
   recs_text [(''IN_COMMIT'', short_entry 100)] = wal_line ''IN_COMMIT'' (short_entry 10) @ ''0'' @ [newline] \<and>
   recover_loop error_entry 0 (wal_line ''IN_COMMIT'' (short_entry 10)) recovery_start
     = replay 0 [(''IN_COMMIT'', short_entry 10)] recovery_start"
proof -
  have fits: "entry_fits (short_entry 100)" "is_int32 10"
    by (simp_all add: short_entry_def sample_entry_def entry_fits_def int_type_defs)
  have digits: "to_string (amount (we_txn (short_entry 100))) = to_string 10 @ ''0''"
    by (simp add: short_entry_def to_string_def show_nat.simps digit_char_def)
  have e: "(short_entry 100)\<lparr>we_txn := (we_txn (short_entry 100))\<lparr>amount := 10\<rparr>\<rparr> = short_entry 10"
    by (simp add: short_entry_def)
  show ?thesis
    using truncated_amount_accepted [OF _ op_word_ops(1) fits digits, of "[]" error_entry recovery_start] fits
    unfolding e by (simp del: recs_text_simps(2))
qed

end
