(* ===== verification/Store.thy ===== *)
theory Store
  imports Types
begin

text \<open>
  The key-value store as the server uses it: \<open>Get\<close> and \<open>Put\<close> of \<open>leveldb::DB\<close>
  with their status, over the contents of the database.  The two flags say whether reads and
  writes reach the disk; a failed \<open>Put\<close> leaves the contents alone.  The locale states the
  laws the server's persistence rests on.
\<close>

datatype db_status = DbOk | DbNotFound | DbError

record kvdb =
  kv_data :: "string \<Rightarrow> string option"
  kv_read_ok :: bool
  kv_write_ok :: bool

definition db_get :: "kvdb \<Rightarrow> string \<Rightarrow> db_status \<times> string" where
  "db_get d k =
     (if \<not> kv_read_ok d then (DbError, [])
      else case kv_data d k of None \<Rightarrow> (DbNotFound, []) | Some v \<Rightarrow> (DbOk, v))"

definition db_put :: "string \<Rightarrow> string \<Rightarrow> kvdb \<Rightarrow> db_status \<times> kvdb" where
  "db_put k v d =
     (if kv_write_ok d then (DbOk, d\<lparr>kv_data := (kv_data d)(k \<mapsto> v)\<rparr>) else (DbError, d))"

definition empty_db :: kvdb where
  "empty_db = \<lparr>kv_data = Map.empty, kv_read_ok = True, kv_write_ok = True\<rparr>"

definition db_healthy :: "kvdb \<Rightarrow> bool" where
  "db_healthy d \<longleftrightarrow> kv_read_ok d \<and> kv_write_ok d"

locale kv_store =
  fixes get :: "'d \<Rightarrow> 'k \<Rightarrow> db_status \<times> 'v"
    and put :: "'k \<Rightarrow> 'v \<Rightarrow> 'd \<Rightarrow> db_status \<times> 'd"
    and healthy :: "'d \<Rightarrow> bool"
  assumes put_ok: "healthy d \<Longrightarrow> fst (put k v d) = DbOk"
    and put_healthy: "healthy d \<Longrightarrow> healthy (snd (put k v d))"
    and get_put_same: "healthy d \<Longrightarrow> get (snd (put k v d)) k = (DbOk, v)"
    and get_put_other: "healthy d \<Longrightarrow> k' \<noteq> k \<Longrightarrow> get (snd (put k v d)) k' = get d k'"
begin

lemma get_put: "healthy d \<Longrightarrow> get (snd (put k v d)) k' = (if k' = k then (DbOk, v) else get d k')"
  by (simp add: get_put_same get_put_other)

lemma puts_healthy: "healthy d \<Longrightarrow> healthy (foldl (\<lambda>d p. snd (put (fst p) (snd p) d)) d ps)"
  by (induction ps arbitrary: d) (simp_all add: put_healthy)

lemma get_puts:
  "healthy d \<Longrightarrow> get (foldl (\<lambda>d p. snd (put (fst p) (snd p) d)) d ps) k =
     (case map_of (rev ps) k of None \<Rightarrow> get d k | Some v \<Rightarrow> (DbOk, v))"
  by (induction ps arbitrary: d)
    (auto simp: put_healthy get_put map_add_def split: option.splits)

end

interpretation kv: kv_store db_get db_put db_healthy
  by unfold_locales (simp_all add: db_get_def db_put_def db_healthy_def)

end
