(* ===== verification/Server.thy ===== *)
theory Server
  imports Config Wal Store
begin

text \<open>
  One server process, \<open>src/server/server.cc\<close>: its state as a record with the fields of
  \<open>ServerImpl\<close>, and one definition per member function.  RPCs handed to gRPC and replies
  to clients are appended to \<open>outbox\<close>; a call object is its number.  \<open>conf\<close> holds
  the process's static configuration, \<open>steady_now\<close> the steady clock in nanoseconds.
  \<open>crashed\<close> is set where the code dereferences a stub it has no entry for.  The
  \<open>int\<close> counters are unbounded here: signed overflow has no defined meaning in C++.
\<close>

section \<open>State\<close>

record BatchEntry =
  be_request :: TransferReq
  be_call :: nat
  be_is_cross_shard :: bool

datatype out =
    OutPrepare int PrepareReq
  | OutAccept int AcceptReq
  | OutCommit int CommitReq
  | OutSync int SyncReq
  | OutReply nat TransferRes

record server =
  server_id :: int
  server_name :: string
  cluster_id :: int
  stubs :: "(int, unit) omap"
  i_am_disconnected :: bool
  disconnected :: "int \<Rightarrow> bool option"
  balances :: "int \<Rightarrow> int option"
  balance_applied :: "int set"
  locks :: "int set"
  prepareTimestamps :: "(int, int) omap"
  srv_db :: kvdb
  srv_wal :: wal
  srv_log :: "WALEntry list"
  pending :: "BatchEntry list"
  current :: "BatchEntry list"
  is_paxos_running :: bool
  ballot_num :: int
  promised :: bool
  promised_num :: ballot
  accepted :: bool
  accept_num :: ballot
  accept_batch :: "TransferReq list"
  last_inserted :: int
  last_inserted_ballot :: ballot
  paxos_index :: int
  in_sync :: bool
  prepare_successes :: int
  prepare_failures :: int
  accept_successes :: int
  accept_failures :: int
  await_prepare_decision :: bool
  await_accept_decision :: bool
  conf :: config
  steady_now :: int
  outbox :: "out list"
  crashed :: bool

definition MAJORITY :: int where "MAJORITY = 2"

definition TPC_LOCK_TIMEOUT_MS :: int where "TPC_LOCK_TIMEOUT_MS = 5000"

definition isClientInCluster :: "server \<Rightarrow> int \<Rightarrow> bool" where
  "isClientInCluster s client_id \<longleftrightarrow> getClusterIdFromClientId (conf s) client_id = cluster_id s"

section \<open>Access to balances, the store and the network\<close>

text \<open>\<open>balances[c]\<close> reads an account and creates it with 0 when it is missing.\<close>

definition get_balance :: "server \<Rightarrow> int \<Rightarrow> int" where
  "get_balance s c = (case balances s c of None \<Rightarrow> 0 | Some b \<Rightarrow> b)"

definition touch_balance :: "int \<Rightarrow> server \<Rightarrow> server" where
  "touch_balance c s = s\<lparr>balances := (balances s)(c \<mapsto> get_balance s c)\<rparr>"

definition add_balance :: "int \<Rightarrow> int \<Rightarrow> server \<Rightarrow> server" where
  "add_balance c d s = s\<lparr>balances := (balances s)(c \<mapsto> get_balance s c + d)\<rparr>"

definition updateBalance :: "int \<Rightarrow> int \<Rightarrow> server \<Rightarrow> server" where
  "updateBalance client_id b s = s\<lparr>srv_db := snd (db_put (to_string client_id) (to_string b) (srv_db s))\<rparr>"

definition ballot_key :: string where "ballot_key = ''__ballot_num__''"

definition persistBallotNum :: "server \<Rightarrow> server" where
  "persistBallotNum s = s\<lparr>srv_db := snd (db_put ballot_key (to_string (ballot_num s)) (srv_db s))\<rparr>"

definition emit :: "out \<Rightarrow> server \<Rightarrow> server" where
  "emit x s = s\<lparr>outbox := outbox s @ [x]\<rparr>"

definition emit_all :: "out list \<Rightarrow> server \<Rightarrow> server" where
  "emit_all xs s = s\<lparr>outbox := outbox s @ xs\<rparr>"

definition stub_ids :: "server \<Rightarrow> int list" where
  "stub_ids s = map fst (stubs s)"

definition send_sync :: "int \<Rightarrow> SyncReq \<Rightarrow> server \<Rightarrow> server" where
  "send_sync dst q s = (if dst \<in> set (stub_ids s) then emit (OutSync dst q) s else s\<lparr>crashed := True\<rparr>)"

definition completeTransfer :: "nat \<Rightarrow> bool \<Rightarrow> int \<Rightarrow> server \<Rightarrow> server" where
  "completeTransfer call ack t s = emit (OutReply call \<lparr>res_ack = ack, res_tid = t\<rparr>) s"

section \<open>Applying transactions\<close>

text \<open>Moving the money of one side: the in-memory balance and then its copy in the store.\<close>

definition apply_side :: "int \<Rightarrow> int \<Rightarrow> server \<Rightarrow> server" where
  "apply_side c d s = (let s1 = add_balance c d s in updateBalance c (get_balance s1 c) s1)"

definition processTpcDecision :: "int \<Rightarrow> bool \<Rightarrow> server \<Rightarrow> server" where
  "processTpcDecision t is_commit s0 =
     (if i_am_disconnected s0 then s0
      else let s1 = s0\<lparr>prepareTimestamps := omap_erase t (prepareTimestamps s0)\<rparr>;
               (w, e) = (if is_commit then wal_commitTpc t (srv_wal s1) else wal_abortTransaction t (srv_wal s1));
               s2 = s1\<lparr>srv_wal := w\<rparr>
      in if we_tid e = -1 then s2
         else let s3 = s2\<lparr>srv_log := srv_log s2 @ [e]\<rparr>;
                  first_apply = (is_commit \<and> we_tid e \<notin> balance_applied s3);
                  s4 = (if is_commit then s3\<lparr>balance_applied := insert (we_tid e) (balance_applied s3)\<rparr> else s3);
                  sd = sender (we_txn e); rc = receiver (we_txn e); am = amount (we_txn e);
                  s5 = (if isClientInCluster s4 sd
                        then let s = s4\<lparr>locks := locks s4 - {sd}\<rparr>
                             in if first_apply then apply_side sd (- am) s else s
                        else s4);
                  s6 = (if isClientInCluster s5 rc
                        then let s = s5\<lparr>locks := locks s5 - {rc}\<rparr>
                             in if first_apply then apply_side rc am s else s
                        else s5)
         in s6)"

definition prepareTransaction :: "TransferReq \<Rightarrow> ballot \<Rightarrow> server \<Rightarrow> server" where
  "prepareTransaction r b s0 =
     (let (w, e) = wal_prepareTransaction r b (srv_wal s0);
          s1 = s0\<lparr>srv_wal := w, srv_log := srv_log s0 @ [e]\<rparr>
      in s1\<lparr>last_inserted := int (length (srv_log s1)) - 1,
            last_inserted_ballot := b,
            paxos_index := paxos_index s1 + 1,
            prepareTimestamps := omap_set (req_tid r) (steady_now s1) (prepareTimestamps s1)\<rparr>)"

definition commitTransaction :: "TransferReq \<Rightarrow> ballot \<Rightarrow> server \<Rightarrow> server" where
  "commitTransaction r b s0 =
     (if req_tid r \<in> balance_applied s0 then s0
      else let s1 = s0\<lparr>balance_applied := insert (req_tid r) (balance_applied s0)\<rparr>;
               (w, e) = wal_commitTransaction r b (srv_wal s1);
               s2 = s1\<lparr>srv_wal := w, srv_log := srv_log s1 @ [e]\<rparr>;
               sd = sender (we_txn e); rc = receiver (we_txn e); am = amount (we_txn e);
               s3 = add_balance rc am (add_balance sd (- am) s2);
               s4 = updateBalance sd (get_balance s3 sd) s3;
               s5 = updateBalance rc (get_balance s4 rc) s4
      in s5\<lparr>last_inserted := int (length (srv_log s5)) - 1,
            last_inserted_ballot := b,
            paxos_index := paxos_index s5 + 1\<rparr>)"

section \<open>The round of the leader\<close>

definition reissuePrepareForCurrent :: "server \<Rightarrow> server" where
  "reissuePrepareForCurrent s0 =
     (let s1 = s0\<lparr>ballot_num := ballot_num s0 + 1\<rparr>;
          b = \<lparr>bal_num = ballot_num s1, bal_server_id = server_id s1\<rparr>;
          s2 = persistBallotNum s1;
          s3 = s2\<lparr>promised := True, promised_num := b, await_prepare_decision := True,
                  await_accept_decision := False, prepare_successes := 1, prepare_failures := 0\<rparr>;
          q = \<lparr>pq_ballot = b, pq_paxos_index = paxos_index s3\<rparr>
      in emit_all (map (\<lambda>i. OutPrepare i q) (stub_ids s3)) s3)"

definition startRound :: "server \<Rightarrow> server" where
  "startRound s = reissuePrepareForCurrent (s\<lparr>current := pending s, pending := [], is_paxos_running := True\<rparr>)"

definition maybeStartRound :: "server \<Rightarrow> server" where
  "maybeStartRound s = (if is_paxos_running s \<or> in_sync s \<or> pending s = [] then s else startRound s)"

definition enqueueClientTxn :: "nat \<Rightarrow> TransferReq \<Rightarrow> bool \<Rightarrow> server \<Rightarrow> server" where
  "enqueueClientTxn call r cross s =
     (if i_am_disconnected s then completeTransfer call False (req_tid r) s
      else maybeStartRound
             (s\<lparr>pending := pending s @ [\<lparr>be_request = r, be_call = call, be_is_cross_shard = cross\<rparr>]\<rparr>))"

definition finishRound :: "server \<Rightarrow> server" where
  "finishRound s = maybeStartRound
     (s\<lparr>is_paxos_running := False, promised := False, accepted := False, await_prepare_decision := False,
        await_accept_decision := False, current := [], accept_batch := []\<rparr>)"

text \<open>The validation of one entry at prepare quorum: whether it is kept, and the new state.\<close>

definition validate_entry :: "BatchEntry \<Rightarrow> server \<Rightarrow> bool \<times> server" where
  "validate_entry e s =
     (let sd = sender (req_txn (be_request e)); rc = receiver (req_txn (be_request e));
          am = amount (req_txn (be_request e));
          sin = isClientInCluster s sd; rin = isClientInCluster s rc;
          locked = (sin \<and> sd \<in> locks s \<or> rin \<and> rc \<in> locks s);
          s1 = (if \<not> locked \<and> sin then touch_balance sd s else s)
      in if locked \<or> sin \<and> get_balance s1 sd < am
         then (False, completeTransfer (be_call e) False (req_tid (be_request e)) s1)
         else let s2 = (if sin then s1\<lparr>locks := insert sd (locks s1)\<rparr> else s1);
                  s3 = (if rin then s2\<lparr>locks := insert rc (locks s2)\<rparr> else s2);
                  s4 = (if be_is_cross_shard e then prepareTransaction (be_request e) (promised_num s3) s3 else s3)
              in (True, s4))"

fun validate_batch :: "BatchEntry list \<Rightarrow> server \<Rightarrow> BatchEntry list \<times> server" where
  "validate_batch [] s = ([], s)"
| "validate_batch (e # es) s =
     (let (keep, s1) = validate_entry e s; (kept, s2) = validate_batch es s1
      in (if keep then e # kept else kept, s2))"

definition onPrepareQuorum :: "server \<Rightarrow> server" where
  "onPrepareQuorum s0 =
     (let s1 = s0\<lparr>await_prepare_decision := False\<rparr>;
          (kept, s2) = validate_batch (current s1) s1;
          s3 = s2\<lparr>current := kept\<rparr>
      in if current s3 = [] then finishRound s3
         else let s4 = s3\<lparr>accepted := True, accept_num := promised_num s3,
                          accept_batch := map be_request (current s3), await_accept_decision := True,
                          accept_successes := 1, accept_failures := 0\<rparr>;
                  q = \<lparr>aq_ballot = promised_num s4, aq_batch = map be_request (current s4)\<rparr>
              in emit_all (map (\<lambda>i. OutAccept i q) (stub_ids s4)) s4)"

definition accept_entry :: "BatchEntry \<Rightarrow> server \<Rightarrow> server" where
  "accept_entry e s =
     (let r = be_request e;
          s1 = (if \<not> be_is_cross_shard e
                then commitTransaction r (accept_num s)
                       (s\<lparr>locks := locks s - {sender (req_txn r)} - {receiver (req_txn r)}\<rparr>)
                else s)
      in completeTransfer (be_call e) True (req_tid r) s1)"

definition onAcceptQuorum :: "server \<Rightarrow> server" where
  "onAcceptQuorum s0 =
     (let s1 = s0\<lparr>await_accept_decision := False\<rparr>;
          s2 = emit_all (map (\<lambda>i. OutCommit i \<lparr>cq_ballot = accept_num s1\<rparr>) (stub_ids s1)) s1;
          s3 = fold accept_entry (current s2) s2
      in finishRound s3)"

definition abort_entry :: "bool \<Rightarrow> BatchEntry \<Rightarrow> server \<Rightarrow> server" where
  "abort_entry prepare_phase e s =
     (let r = be_request e;
          s1 = (if \<not> prepare_phase \<and> \<not> be_is_cross_shard e
                then s\<lparr>locks := locks s - {sender (req_txn r)} - {receiver (req_txn r)}\<rparr> else s)
      in completeTransfer (be_call e) False (req_tid r) s1)"

definition onRoundAbort :: "bool \<Rightarrow> server \<Rightarrow> server" where
  "onRoundAbort prepare_phase s = finishRound (fold (abort_entry prepare_phase) (current s) s)"

section \<open>Requests of peers and clients\<close>

definition processPrepareCall :: "PrepareReq \<Rightarrow> server \<Rightarrow> server \<times> PrepareRes" where
  "processPrepareCall q s0 =
     (if i_am_disconnected s0
      then (s0, empty_PrepareRes\<lparr>ps_ack := False, ps_ballot := pq_ballot q\<rparr>)
      else let newer = (bal_num (pq_ballot q) > ballot_num s0);
               ack = (newer \<and> pq_paxos_index q = paxos_index s0);
               s1 = (if ack
                     then persistBallotNum (s0\<lparr>promised := True, promised_num := pq_ballot q,
                                               ballot_num := bal_num (pq_ballot q)\<rparr>)
                     else if newer \<and> pq_paxos_index q > paxos_index s0
                     then send_sync (bal_server_id (pq_ballot q)) \<lparr>sq_last_inserted = last_inserted s0\<rparr>
                            (s0\<lparr>in_sync := True\<rparr>)
                     else s0);
               res = empty_PrepareRes\<lparr>ps_ack := ack, ps_ballot := pq_ballot q\<rparr>
      in (s1,
          if ack \<and> accepted s1
          then res\<lparr>ps_accept_num := Some (accept_num s1), ps_accept_val := accept_batch s1\<rparr>
          else if \<not> ack
          then res\<lparr>ps_server_id := Some (server_id s1),
                   ps_latest_ballot_num := (if bal_num (pq_ballot q) \<le> ballot_num s1 then Some (ballot_num s1) else None),
                   ps_paxos_index := (if pq_paxos_index q < paxos_index s1 then Some (paxos_index s1) else None)\<rparr>
          else res))"

definition accept_lock_entry :: "TransferReq \<Rightarrow> server \<Rightarrow> server" where
  "accept_lock_entry r s0 =
     (let sd = sender (req_txn r); rc = receiver (req_txn r);
          s1 = s0\<lparr>accept_batch := accept_batch s0 @ [r]\<rparr>;
          sin = isClientInCluster s1 sd; rin = isClientInCluster s1 rc;
          s2 = (if sin then s1\<lparr>locks := insert sd (locks s1)\<rparr> else s1);
          s3 = (if rin then s2\<lparr>locks := insert rc (locks s2)\<rparr> else s2)
      in if sin \<noteq> rin then prepareTransaction r (accept_num s3) s3 else s3)"

definition processAcceptCall :: "AcceptReq \<Rightarrow> server \<Rightarrow> server \<times> AcceptRes" where
  "processAcceptCall q s0 =
     (if i_am_disconnected s0 then (s0, \<lparr>as_ack = False, as_ballot = aq_ballot q\<rparr>)
      else let ack = (promised s0 \<and> bal_num (aq_ballot q) = bal_num (promised_num s0));
               s1 = (if ack
                     then fold accept_lock_entry (aq_batch q)
                            (s0\<lparr>accepted := True, accept_num := aq_ballot q, accept_batch := []\<rparr>)
                     else s0)
      in (s1, \<lparr>as_ack = ack, as_ballot = aq_ballot q\<rparr>))"

definition commit_unlock_entry :: "TransferReq \<Rightarrow> server \<Rightarrow> server" where
  "commit_unlock_entry r s0 =
     (let sd = sender (req_txn r); rc = receiver (req_txn r);
          sin = isClientInCluster s0 sd; rin = isClientInCluster s0 rc;
          s1 = (if sin then s0\<lparr>locks := locks s0 - {sd}\<rparr> else s0);
          s2 = (if rin then s1\<lparr>locks := locks s1 - {rc}\<rparr> else s1)
      in if sin \<and> rin then commitTransaction r (accept_num s2) s2 else s2)"

definition processCommitCall :: "CommitReq \<Rightarrow> server \<Rightarrow> server" where
  "processCommitCall q s0 =
     (if i_am_disconnected s0 then s0
      else if bal_num (promised_num s0) = bal_num (cq_ballot q)
            \<and> bal_num (accept_num s0) = bal_num (cq_ballot q)
      then (fold commit_unlock_entry (accept_batch s0) s0)\<lparr>promised := False, accepted := False\<rparr>
      else s0)"

definition processSyncCall :: "SyncReq \<Rightarrow> server \<Rightarrow> SyncRes" where
  "processSyncCall q s =
     (let commit_idx = sq_last_inserted q in
      if last_inserted s > commit_idx
      then empty_SyncRes\<lparr>ss_ack := True,
             ss_logs := (if commit_idx + 1 < 0 then []
                         else map getLogEntryFromLocalLog (drop (nat (commit_idx + 1)) (srv_log s))),
             ss_last_inserted_ballot := last_inserted_ballot s\<rparr>
      else empty_SyncRes)"

definition processGetBalanceCall :: "int \<Rightarrow> server \<Rightarrow> server \<times> int" where
  "processGetBalanceCall client s = (touch_balance client s, get_balance s client)"

definition processGetLogsCall :: "server \<Rightarrow> LogEntry list" where
  "processGetLogsCall s = map getLogEntryFromLocalLog (srv_log s)"

definition resetDisconnectedState :: "server \<Rightarrow> server" where
  "resetDisconnectedState s =
     s\<lparr>i_am_disconnected := False,
       disconnected := foldl (\<lambda>m p. if getClusterIdFromServerId (conf s) (snd p) = cluster_id s
                                    then m(snd p \<mapsto> False) else m)
                         (disconnected s) (server_ids (conf s))\<rparr>"

text \<open>\<open>constants::server_ids[name]\<close> creates an entry with id 0 for an unknown name.\<close>

definition lookup_server_id :: "string \<Rightarrow> server \<Rightarrow> int \<times> server" where
  "lookup_server_id name s =
     (case map_of (server_ids (conf s)) name of
        Some i \<Rightarrow> (i, s)
      | None \<Rightarrow> (0, s\<lparr>conf := (conf s)\<lparr>server_ids := omap_set name 0 (server_ids (conf s))\<rparr>\<rparr>))"

definition mark_disconnected :: "string \<Rightarrow> server \<Rightarrow> server" where
  "mark_disconnected name s0 =
     (let (i, s1) = lookup_server_id name s0;
          s2 = (if getClusterIdFromServerId (conf s1) i = cluster_id s1
                then s1\<lparr>disconnected := (disconnected s1)(i \<mapsto> True)\<rparr> else s1)
      in if i = server_id s2 then s2\<lparr>i_am_disconnected := True\<rparr> else s2)"

definition processDisconnectCall :: "string list \<Rightarrow> server \<Rightarrow> server" where
  "processDisconnectCall names s = fold mark_disconnected names (resetDisconnectedState s)"

section \<open>Replies of peers\<close>

datatype rpc_status = RpcOk | RpcDeadlineExceeded | RpcOther

definition handlePrepareReply :: "rpc_status \<Rightarrow> PrepareReq \<Rightarrow> PrepareRes \<Rightarrow> server \<Rightarrow> server" where
  "handlePrepareReply st q res s0 =
     (if \<not> await_prepare_decision s0 then s0
      else let decide = (\<lambda>s. if prepare_successes s \<ge> MAJORITY then onPrepareQuorum s
                            else if prepare_failures s \<ge> MAJORITY then onRoundAbort True s else s)
      in if st = RpcDeadlineExceeded \<and> bal_num (pq_ballot q) = bal_num (promised_num s0)
             \<and> bal_server_id (pq_ballot q) = server_id s0
         then decide (s0\<lparr>prepare_failures := prepare_failures s0 + 1\<rparr>)
         else if st = RpcOk \<and> bal_num (ps_ballot res) = bal_num (promised_num s0)
             \<and> bal_server_id (ps_ballot res) = server_id s0
         then let s1 = (if ps_ack res then s0\<lparr>prepare_successes := prepare_successes s0 + 1\<rparr>
                        else s0\<lparr>prepare_failures := prepare_failures s0 + 1\<rparr>)
              in (case ps_latest_ballot_num res of
                    Some n \<Rightarrow> reissuePrepareForCurrent (persistBallotNum (s1\<lparr>ballot_num := n\<rparr>))
                  | None \<Rightarrow>
                     (case ps_paxos_index res of
                        Some n \<Rightarrow>
                          (if n > paxos_index s1
                           then send_sync (case ps_server_id res of None \<Rightarrow> 0 | Some i \<Rightarrow> i)
                                  \<lparr>sq_last_inserted = last_inserted s1\<rparr>
                                  (s1\<lparr>in_sync := True, await_prepare_decision := False\<rparr>)
                           else decide s1)
                      | None \<Rightarrow> decide s1))
         else decide s0)"

definition handleAcceptReply :: "rpc_status \<Rightarrow> AcceptReq \<Rightarrow> AcceptRes \<Rightarrow> server \<Rightarrow> server" where
  "handleAcceptReply st q res s0 =
     (if \<not> await_accept_decision s0 then s0
      else let s1 =
        (if st = RpcDeadlineExceeded \<and> bal_num (aq_ballot q) = bal_num (accept_num s0)
             \<and> bal_server_id (aq_ballot q) = server_id s0
         then s0\<lparr>accept_failures := accept_failures s0 + 1\<rparr>
         else if st = RpcOk \<and> bal_num (as_ballot res) = bal_num (accept_num s0)
             \<and> bal_server_id (as_ballot res) = server_id s0
         then (if as_ack res then s0\<lparr>accept_successes := accept_successes s0 + 1\<rparr>
               else s0\<lparr>accept_failures := accept_failures s0 + 1\<rparr>)
         else s0)
      in if accept_successes s1 \<ge> MAJORITY then onAcceptQuorum s1
         else if accept_failures s1 \<ge> MAJORITY then onRoundAbort False s1 else s1)"

definition sync_entry :: "LogEntry \<Rightarrow> server \<Rightarrow> server" where
  "sync_entry le s0 =
     (let e = entry_of_LogEntry le;
          s1 = s0\<lparr>srv_log := srv_log s0 @ [e], srv_wal := insertEntry e (srv_wal s0),
                  paxos_index := (if isPaxosEntry e then paxos_index s0 + 1 else paxos_index s0)\<rparr>;
          first_apply = (we_status e = COMMITTED \<and> we_tid e \<notin> balance_applied s1);
          s2 = (if we_status e = COMMITTED
                then s1\<lparr>balance_applied := insert (we_tid e) (balance_applied s1)\<rparr> else s1);
          s3 = (if first_apply \<and> isClientInCluster s2 (sender (we_txn e))
                then apply_side (sender (we_txn e)) (- amount (we_txn e)) s2 else s2)
      in if first_apply \<and> isClientInCluster s3 (receiver (we_txn e))
         then apply_side (receiver (we_txn e)) (amount (we_txn e)) s3 else s3)"

definition handleSyncReply :: "rpc_status \<Rightarrow> SyncRes \<Rightarrow> server \<Rightarrow> server" where
  "handleSyncReply st res s0 =
     (let s1 = (if st = RpcOk \<and> ss_ack res
                then let s = fold sync_entry (ss_logs res) s0;
                         s' = persistBallotNum (s\<lparr>ballot_num := bal_num (ss_last_inserted_ballot res)\<rparr>)
                     in s'\<lparr>last_inserted := last_inserted s' + int (length (ss_logs res)),
                           last_inserted_ballot := ss_last_inserted_ballot res\<rparr>
                else s0);
          s2 = s1\<lparr>in_sync := False\<rparr>
      in if current s2 \<noteq> [] then reissuePrepareForCurrent s2 else maybeStartRound s2)"

section \<open>The lock timeout\<close>

definition timed_out :: "int \<Rightarrow> int \<Rightarrow> bool" where
  "timed_out now t \<longleftrightarrow> (now - t) div 1000000 > TPC_LOCK_TIMEOUT_MS"

definition expire_prepare :: "int \<Rightarrow> server \<Rightarrow> server" where
  "expire_prepare t s0 =
     (let (w, e) = wal_abortTransaction t (srv_wal s0);
          s1 = s0\<lparr>srv_wal := w\<rparr>;
          s2 = (if we_tid e \<noteq> -1
                then let sd = sender (we_txn e); rc = receiver (we_txn e);
                         s = (if isClientInCluster s1 sd then s1\<lparr>locks := locks s1 - {sd}\<rparr> else s1);
                         s' = (if isClientInCluster s rc then s\<lparr>locks := locks s - {rc}\<rparr> else s)
                     in s'\<lparr>srv_log := srv_log s' @ [e]\<rparr>
                else s1)
      in s2\<lparr>prepareTimestamps := omap_erase t (prepareTimestamps s2)\<rparr>)"

definition sweep_step :: "int \<Rightarrow> int \<times> int \<Rightarrow> server \<Rightarrow> server" where
  "sweep_step now p s = (if timed_out now (snd p) then expire_prepare (fst p) s else s)"

definition sweep_timeouts :: "int \<Rightarrow> server \<Rightarrow> server" where
  "sweep_timeouts now s = fold (sweep_step now) (prepareTimestamps s) s"

section \<open>Construction and start-up\<close>

definition ServerImpl :: "int \<Rightarrow> string \<Rightarrow> config \<Rightarrow> wal \<Rightarrow> kvdb \<Rightarrow> server" where
  "ServerImpl i name c w d = resetDisconnectedState
     \<lparr>server_id = i, server_name = name, cluster_id = getClusterIdFromServerId c i, stubs = [],
      i_am_disconnected = False, disconnected = Map.empty, balances = Map.empty, balance_applied = {},
      locks = {}, prepareTimestamps = [], srv_db = d, srv_wal = w, srv_log = [], pending = [], current = [],
      is_paxos_running = False, ballot_num = 0, promised = False, promised_num = default_ballot,
      accepted = False, accept_num = default_ballot, accept_batch = [], last_inserted = - 1,
      last_inserted_ballot = default_ballot, paxos_index = - 1, in_sync = False, prepare_successes = 0,
      prepare_failures = 0, accept_successes = 0, accept_failures = 0, await_prepare_decision = False,
      await_accept_decision = False, conf = c, steady_now = 0, outbox = [], crashed = False\<rparr>"

datatype run_result = RunReturned | RunThrew cpp_exn | RunServing server

definition connect_stubs :: "server \<Rightarrow> server" where
  "connect_stubs s =
     s\<lparr>stubs := foldl (\<lambda>m p. if snd p \<noteq> server_id s \<and> getClusterIdFromServerId (conf s) (snd p) = cluster_id s
                            then omap_set (snd p) () m else m) (stubs s) (server_ids (conf s))\<rparr>"

definition load_balance :: "int \<Rightarrow> server \<Rightarrow> run_result" where
  "load_balance i s =
     (if \<not> isClientInCluster_util (conf s) i (cluster_id s) then RunServing s
      else case db_get (srv_db s) (to_string i) of
        (DbOk, v) \<Rightarrow> (case stoi v of Inl x \<Rightarrow> RunThrew x
                      | Inr b \<Rightarrow> RunServing (s\<lparr>balances := (balances s)(i \<mapsto> b)\<rparr>))
      | (DbNotFound, _) \<Rightarrow>
          (case db_put (to_string i) ''10'' (srv_db s) of
             (st, d) \<Rightarrow> if st = DbOk then RunServing (s\<lparr>balances := (balances s)(i \<mapsto> 10), srv_db := d\<rparr>)
                        else RunReturned)
      | (DbError, _) \<Rightarrow> RunReturned)"

fun load_balances :: "int list \<Rightarrow> server \<Rightarrow> run_result" where
  "load_balances [] s = RunServing s"
| "load_balances (i # is) s =
     (case load_balance i s of RunServing s' \<Rightarrow> load_balances is s' | r \<Rightarrow> r)"

definition load_ballot :: "server \<Rightarrow> run_result" where
  "load_ballot s =
     (case db_get (srv_db s) ballot_key of
        (DbOk, v) \<Rightarrow> (case stoi v of Inl x \<Rightarrow> RunThrew x | Inr b \<Rightarrow> RunServing (s\<lparr>ballot_num := b\<rparr>))
      | _ \<Rightarrow> RunServing s)"

definition recover_log :: "server \<Rightarrow> server" where
  "recover_log s =
     (let (w, li, bn, lg) = wal_recover (srv_wal s) (last_inserted s) (ballot_num s) (srv_log s);
          s1 = s\<lparr>srv_wal := w, last_inserted := li, ballot_num := bn, srv_log := lg\<rparr>;
          s2 = (if li \<ge> 0
                then s1\<lparr>last_inserted_ballot := \<lparr>bal_num = we_ballot_num (lg ! nat li),
                                               bal_server_id = we_ballot_server_id (lg ! nat li)\<rparr>\<rparr>
                else s1)
      in persistBallotNum (s2\<lparr>paxos_index := int (length (filter isPaxosEntry lg)) - 1\<rparr>))"

text \<open>\<open>run\<close> up to the event loop; \<open>opened\<close> says whether \<open>leveldb::DB::Open\<close> succeeds.\<close>

definition run :: "bool \<Rightarrow> server \<Rightarrow> run_result" where
  "run opened s0 =
     (let s1 = connect_stubs s0 in
      if \<not> opened then RunReturned
      else case load_ballot s1 of
        RunServing s2 \<Rightarrow>
          (case load_balances [1..total_clients] s2 of
             RunServing s3 \<Rightarrow> RunServing (recover_log s3) | r \<Rightarrow> r)
      | r \<Rightarrow> r)"

end
