(* ===== verification/Server_Frame.thy ===== *)
theory Server_Frame
  imports Server
begin

text \<open>
  Which fields of the server each helper leaves alone, one lemma per helper, and the
  induction rules for the loops over batches.
\<close>

section \<open>Fields a helper does not touch\<close>

lemma frame_touch_balance [frame_simps, simp]:
  "server_id (touch_balance c s) = server_id s"
  "server_name (touch_balance c s) = server_name s"
  "cluster_id (touch_balance c s) = cluster_id s"
  "stubs (touch_balance c s) = stubs s"
  "i_am_disconnected (touch_balance c s) = i_am_disconnected s"
  "disconnected (touch_balance c s) = disconnected s"
  "balance_applied (touch_balance c s) = balance_applied s"
  "locks (touch_balance c s) = locks s"
  "prepareTimestamps (touch_balance c s) = prepareTimestamps s"
  "srv_db (touch_balance c s) = srv_db s"
  "srv_wal (touch_balance c s) = srv_wal s"
  "srv_log (touch_balance c s) = srv_log s"
  "pending (touch_balance c s) = pending s"
  "current (touch_balance c s) = current s"
  "is_paxos_running (touch_balance c s) = is_paxos_running s"
  "ballot_num (touch_balance c s) = ballot_num s"
  "promised (touch_balance c s) = promised s"
  "promised_num (touch_balance c s) = promised_num s"
  "accepted (touch_balance c s) = accepted s"
  "accept_num (touch_balance c s) = accept_num s"
  "accept_batch (touch_balance c s) = accept_batch s"
  "last_inserted (touch_balance c s) = last_inserted s"
  "last_inserted_ballot (touch_balance c s) = last_inserted_ballot s"
  "paxos_index (touch_balance c s) = paxos_index s"
  "in_sync (touch_balance c s) = in_sync s"
  "prepare_successes (touch_balance c s) = prepare_successes s"
  "prepare_failures (touch_balance c s) = prepare_failures s"
  "accept_successes (touch_balance c s) = accept_successes s"
  "accept_failures (touch_balance c s) = accept_failures s"
  "await_prepare_decision (touch_balance c s) = await_prepare_decision s"
  "await_accept_decision (touch_balance c s) = await_accept_decision s"
  "conf (touch_balance c s) = conf s"
  "steady_now (touch_balance c s) = steady_now s"
  "outbox (touch_balance c s) = outbox s"
  "crashed (touch_balance c s) = crashed s"
  by (simp_all add: touch_balance_def)

lemma frame_add_balance [frame_simps, simp]:
  "server_id (add_balance c d s) = server_id s"
  "server_name (add_balance c d s) = server_name s"
  "cluster_id (add_balance c d s) = cluster_id s"
  "stubs (add_balance c d s) = stubs s"
  "i_am_disconnected (add_balance c d s) = i_am_disconnected s"
  "disconnected (add_balance c d s) = disconnected s"
  "balance_applied (add_balance c d s) = balance_applied s"
  "locks (add_balance c d s) = locks s"
  "prepareTimestamps (add_balance c d s) = prepareTimestamps s"
  "srv_db (add_balance c d s) = srv_db s"
  "srv_wal (add_balance c d s) = srv_wal s"
  "srv_log (add_balance c d s) = srv_log s"
  "pending (add_balance c d s) = pending s"
  "current (add_balance c d s) = current s"
  "is_paxos_running (add_balance c d s) = is_paxos_running s"
  "ballot_num (add_balance c d s) = ballot_num s"
  "promised (add_balance c d s) = promised s"
  "promised_num (add_balance c d s) = promised_num s"
  "accepted (add_balance c d s) = accepted s"
  "accept_num (add_balance c d s) = accept_num s"
  "accept_batch (add_balance c d s) = accept_batch s"
  "last_inserted (add_balance c d s) = last_inserted s"
  "last_inserted_ballot (add_balance c d s) = last_inserted_ballot s"
  "paxos_index (add_balance c d s) = paxos_index s"
  "in_sync (add_balance c d s) = in_sync s"
  "prepare_successes (add_balance c d s) = prepare_successes s"
  "prepare_failures (add_balance c d s) = prepare_failures s"
  "accept_successes (add_balance c d s) = accept_successes s"
  "accept_failures (add_balance c d s) = accept_failures s"
  "await_prepare_decision (add_balance c d s) = await_prepare_decision s"
  "await_accept_decision (add_balance c d s) = await_accept_decision s"
  "conf (add_balance c d s) = conf s"
  "steady_now (add_balance c d s) = steady_now s"
  "outbox (add_balance c d s) = outbox s"
  "crashed (add_balance c d s) = crashed s"
  by (simp_all add: add_balance_def)

lemma frame_updateBalance [frame_simps, simp]:
  "server_id (updateBalance c b s) = server_id s"
  "server_name (updateBalance c b s) = server_name s"
  "cluster_id (updateBalance c b s) = cluster_id s"
  "stubs (updateBalance c b s) = stubs s"
  "i_am_disconnected (updateBalance c b s) = i_am_disconnected s"
  "disconnected (updateBalance c b s) = disconnected s"
  "balances (updateBalance c b s) = balances s"
  "balance_applied (updateBalance c b s) = balance_applied s"
  "locks (updateBalance c b s) = locks s"
  "prepareTimestamps (updateBalance c b s) = prepareTimestamps s"
  "srv_wal (updateBalance c b s) = srv_wal s"
  "srv_log (updateBalance c b s) = srv_log s"
  "pending (updateBalance c b s) = pending s"
  "current (updateBalance c b s) = current s"
  "is_paxos_running (updateBalance c b s) = is_paxos_running s"
  "ballot_num (updateBalance c b s) = ballot_num s"
  "promised (updateBalance c b s) = promised s"
  "promised_num (updateBalance c b s) = promised_num s"
  "accepted (updateBalance c b s) = accepted s"
  "accept_num (updateBalance c b s) = accept_num s"
  "accept_batch (updateBalance c b s) = accept_batch s"
  "last_inserted (updateBalance c b s) = last_inserted s"
  "last_inserted_ballot (updateBalance c b s) = last_inserted_ballot s"
  "paxos_index (updateBalance c b s) = paxos_index s"
  "in_sync (updateBalance c b s) = in_sync s"
  "prepare_successes (updateBalance c b s) = prepare_successes s"
  "prepare_failures (updateBalance c b s) = prepare_failures s"
  "accept_successes (updateBalance c b s) = accept_successes s"
  "accept_failures (updateBalance c b s) = accept_failures s"
  "await_prepare_decision (updateBalance c b s) = await_prepare_decision s"
  "await_accept_decision (updateBalance c b s) = await_accept_decision s"
  "conf (updateBalance c b s) = conf s"
  "steady_now (updateBalance c b s) = steady_now s"
  "outbox (updateBalance c b s) = outbox s"
  "crashed (updateBalance c b s) = crashed s"
  by (simp_all add: updateBalance_def)

lemma frame_persistBallotNum [frame_simps, simp]:
  "server_id (persistBallotNum s) = server_id s"
  "server_name (persistBallotNum s) = server_name s"
  "cluster_id (persistBallotNum s) = cluster_id s"
  "stubs (persistBallotNum s) = stubs s"
  "i_am_disconnected (persistBallotNum s) = i_am_disconnected s"
  "disconnected (persistBallotNum s) = disconnected s"
  "balances (persistBallotNum s) = balances s"
  "balance_applied (persistBallotNum s) = balance_applied s"
  "locks (persistBallotNum s) = locks s"
  "prepareTimestamps (persistBallotNum s) = prepareTimestamps s"
  "srv_wal (persistBallotNum s) = srv_wal s"
  "srv_log (persistBallotNum s) = srv_log s"
  "pending (persistBallotNum s) = pending s"
  "current (persistBallotNum s) = current s"
  "is_paxos_running (persistBallotNum s) = is_paxos_running s"
  "ballot_num (persistBallotNum s) = ballot_num s"
  "promised (persistBallotNum s) = promised s"
  "promised_num (persistBallotNum s) = promised_num s"
  "accepted (persistBallotNum s) = accepted s"
  "accept_num (persistBallotNum s) = accept_num s"
  "accept_batch (persistBallotNum s) = accept_batch s"
  "last_inserted (persistBallotNum s) = last_inserted s"
  "last_inserted_ballot (persistBallotNum s) = last_inserted_ballot s"
  "paxos_index (persistBallotNum s) = paxos_index s"
  "in_sync (persistBallotNum s) = in_sync s"
  "prepare_successes (persistBallotNum s) = prepare_successes s"
  "prepare_failures (persistBallotNum s) = prepare_failures s"
  "accept_successes (persistBallotNum s) = accept_successes s"
  "accept_failures (persistBallotNum s) = accept_failures s"
  "await_prepare_decision (persistBallotNum s) = await_prepare_decision s"
  "await_accept_decision (persistBallotNum s) = await_accept_decision s"
  "conf (persistBallotNum s) = conf s"
  "steady_now (persistBallotNum s) = steady_now s"
  "outbox (persistBallotNum s) = outbox s"
  "crashed (persistBallotNum s) = crashed s"
  by (simp_all add: persistBallotNum_def)

lemma frame_emit [frame_simps, simp]:
  "server_id (emit x s) = server_id s"
  "server_name (emit x s) = server_name s"
  "cluster_id (emit x s) = cluster_id s"
  "stubs (emit x s) = stubs s"
  "i_am_disconnected (emit x s) = i_am_disconnected s"
  "disconnected (emit x s) = disconnected s"
  "balances (emit x s) = balances s"
  "balance_applied (emit x s) = balance_applied s"
  "locks (emit x s) = locks s"
  "prepareTimestamps (emit x s) = prepareTimestamps s"
  "srv_db (emit x s) = srv_db s"
  "srv_wal (emit x s) = srv_wal s"
  "srv_log (emit x s) = srv_log s"
  "pending (emit x s) = pending s"
  "current (emit x s) = current s"
  "is_paxos_running (emit x s) = is_paxos_running s"
  "ballot_num (emit x s) = ballot_num s"
  "promised (emit x s) = promised s"
  "promised_num (emit x s) = promised_num s"
  "accepted (emit x s) = accepted s"
  "accept_num (emit x s) = accept_num s"
  "accept_batch (emit x s) = accept_batch s"
  "last_inserted (emit x s) = last_inserted s"
  "last_inserted_ballot (emit x s) = last_inserted_ballot s"
  "paxos_index (emit x s) = paxos_index s"
  "in_sync (emit x s) = in_sync s"
  "prepare_successes (emit x s) = prepare_successes s"
  "prepare_failures (emit x s) = prepare_failures s"
  "accept_successes (emit x s) = accept_successes s"
  "accept_failures (emit x s) = accept_failures s"
  "await_prepare_decision (emit x s) = await_prepare_decision s"
  "await_accept_decision (emit x s) = await_accept_decision s"
  "conf (emit x s) = conf s"
  "steady_now (emit x s) = steady_now s"
  "crashed (emit x s) = crashed s"
  by (simp_all add: emit_def)

lemma frame_emit_all [frame_simps, simp]:
  "server_id (emit_all xs s) = server_id s"
  "server_name (emit_all xs s) = server_name s"
  "cluster_id (emit_all xs s) = cluster_id s"
  "stubs (emit_all xs s) = stubs s"
  "i_am_disconnected (emit_all xs s) = i_am_disconnected s"
  "disconnected (emit_all xs s) = disconnected s"
  "balances (emit_all xs s) = balances s"
  "balance_applied (emit_all xs s) = balance_applied s"
  "locks (emit_all xs s) = locks s"
  "prepareTimestamps (emit_all xs s) = prepareTimestamps s"
  "srv_db (emit_all xs s) = srv_db s"
  "srv_wal (emit_all xs s) = srv_wal s"
  "srv_log (emit_all xs s) = srv_log s"
  "pending (emit_all xs s) = pending s"
  "current (emit_all xs s) = current s"
  "is_paxos_running (emit_all xs s) = is_paxos_running s"
  "ballot_num (emit_all xs s) = ballot_num s"
  "promised (emit_all xs s) = promised s"
  "promised_num (emit_all xs s) = promised_num s"
  "accepted (emit_all xs s) = accepted s"
  "accept_num (emit_all xs s) = accept_num s"
  "accept_batch (emit_all xs s) = accept_batch s"
  "last_inserted (emit_all xs s) = last_inserted s"
  "last_inserted_ballot (emit_all xs s) = last_inserted_ballot s"
  "paxos_index (emit_all xs s) = paxos_index s"
  "in_sync (emit_all xs s) = in_sync s"
  "prepare_successes (emit_all xs s) = prepare_successes s"
  "prepare_failures (emit_all xs s) = prepare_failures s"
  "accept_successes (emit_all xs s) = accept_successes s"
  "accept_failures (emit_all xs s) = accept_failures s"
  "await_prepare_decision (emit_all xs s) = await_prepare_decision s"
  "await_accept_decision (emit_all xs s) = await_accept_decision s"
  "conf (emit_all xs s) = conf s"
  "steady_now (emit_all xs s) = steady_now s"
  "crashed (emit_all xs s) = crashed s"
  by (simp_all add: emit_all_def)

lemma frame_completeTransfer [frame_simps, simp]:
  "server_id (completeTransfer call ack t s) = server_id s"
  "server_name (completeTransfer call ack t s) = server_name s"
  "cluster_id (completeTransfer call ack t s) = cluster_id s"
  "stubs (completeTransfer call ack t s) = stubs s"
  "i_am_disconnected (completeTransfer call ack t s) = i_am_disconnected s"
  "disconnected (completeTransfer call ack t s) = disconnected s"
  "balances (completeTransfer call ack t s) = balances s"
  "balance_applied (completeTransfer call ack t s) = balance_applied s"
  "locks (completeTransfer call ack t s) = locks s"
  "prepareTimestamps (completeTransfer call ack t s) = prepareTimestamps s"
  "srv_db (completeTransfer call ack t s) = srv_db s"
  "srv_wal (completeTransfer call ack t s) = srv_wal s"
  "srv_log (completeTransfer call ack t s) = srv_log s"
  "pending (completeTransfer call ack t s) = pending s"
  "current (completeTransfer call ack t s) = current s"
  "is_paxos_running (completeTransfer call ack t s) = is_paxos_running s"
  "ballot_num (completeTransfer call ack t s) = ballot_num s"
  "promised (completeTransfer call ack t s) = promised s"
  "promised_num (completeTransfer call ack t s) = promised_num s"
  "accepted (completeTransfer call ack t s) = accepted s"
  "accept_num (completeTransfer call ack t s) = accept_num s"
  "accept_batch (completeTransfer call ack t s) = accept_batch s"
  "last_inserted (completeTransfer call ack t s) = last_inserted s"
  "last_inserted_ballot (completeTransfer call ack t s) = last_inserted_ballot s"
  "paxos_index (completeTransfer call ack t s) = paxos_index s"
  "in_sync (completeTransfer call ack t s) = in_sync s"
  "prepare_successes (completeTransfer call ack t s) = prepare_successes s"
  "prepare_failures (completeTransfer call ack t s) = prepare_failures s"
  "accept_successes (completeTransfer call ack t s) = accept_successes s"
  "accept_failures (completeTransfer call ack t s) = accept_failures s"
  "await_prepare_decision (completeTransfer call ack t s) = await_prepare_decision s"
  "await_accept_decision (completeTransfer call ack t s) = await_accept_decision s"
  "conf (completeTransfer call ack t s) = conf s"
  "steady_now (completeTransfer call ack t s) = steady_now s"
  "crashed (completeTransfer call ack t s) = crashed s"
  by (simp_all add: completeTransfer_def emit_def)

lemma frame_send_sync [frame_simps, simp]:
  "server_id (send_sync dst q s) = server_id s"
  "server_name (send_sync dst q s) = server_name s"
  "cluster_id (send_sync dst q s) = cluster_id s"
  "stubs (send_sync dst q s) = stubs s"
  "i_am_disconnected (send_sync dst q s) = i_am_disconnected s"
  "disconnected (send_sync dst q s) = disconnected s"
  "balances (send_sync dst q s) = balances s"
  "balance_applied (send_sync dst q s) = balance_applied s"
  "locks (send_sync dst q s) = locks s"
  "prepareTimestamps (send_sync dst q s) = prepareTimestamps s"
  "srv_db (send_sync dst q s) = srv_db s"
  "srv_wal (send_sync dst q s) = srv_wal s"
  "srv_log (send_sync dst q s) = srv_log s"
  "pending (send_sync dst q s) = pending s"
  "current (send_sync dst q s) = current s"
  "is_paxos_running (send_sync dst q s) = is_paxos_running s"
  "ballot_num (send_sync dst q s) = ballot_num s"
  "promised (send_sync dst q s) = promised s"
  "promised_num (send_sync dst q s) = promised_num s"
  "accepted (send_sync dst q s) = accepted s"
  "accept_num (send_sync dst q s) = accept_num s"
  "accept_batch (send_sync dst q s) = accept_batch s"
  "last_inserted (send_sync dst q s) = last_inserted s"
  "last_inserted_ballot (send_sync dst q s) = last_inserted_ballot s"
  "paxos_index (send_sync dst q s) = paxos_index s"
  "in_sync (send_sync dst q s) = in_sync s"
  "prepare_successes (send_sync dst q s) = prepare_successes s"
  "prepare_failures (send_sync dst q s) = prepare_failures s"
  "accept_successes (send_sync dst q s) = accept_successes s"
  "accept_failures (send_sync dst q s) = accept_failures s"
  "await_prepare_decision (send_sync dst q s) = await_prepare_decision s"
  "await_accept_decision (send_sync dst q s) = await_accept_decision s"
  "conf (send_sync dst q s) = conf s"
  "steady_now (send_sync dst q s) = steady_now s"
  by (simp_all add: send_sync_def emit_def)

lemma frame_apply_side [frame_simps, simp]:
  "server_id (apply_side c d s) = server_id s"
  "server_name (apply_side c d s) = server_name s"
  "cluster_id (apply_side c d s) = cluster_id s"
  "stubs (apply_side c d s) = stubs s"
  "i_am_disconnected (apply_side c d s) = i_am_disconnected s"
  "disconnected (apply_side c d s) = disconnected s"
  "balance_applied (apply_side c d s) = balance_applied s"
  "locks (apply_side c d s) = locks s"
  "prepareTimestamps (apply_side c d s) = prepareTimestamps s"
  "srv_wal (apply_side c d s) = srv_wal s"
  "srv_log (apply_side c d s) = srv_log s"
  "pending (apply_side c d s) = pending s"
  "current (apply_side c d s) = current s"
  "is_paxos_running (apply_side c d s) = is_paxos_running s"
  "ballot_num (apply_side c d s) = ballot_num s"
  "promised (apply_side c d s) = promised s"
  "promised_num (apply_side c d s) = promised_num s"
  "accepted (apply_side c d s) = accepted s"
  "accept_num (apply_side c d s) = accept_num s"
  "accept_batch (apply_side c d s) = accept_batch s"
  "last_inserted (apply_side c d s) = last_inserted s"
  "last_inserted_ballot (apply_side c d s) = last_inserted_ballot s"
  "paxos_index (apply_side c d s) = paxos_index s"
  "in_sync (apply_side c d s) = in_sync s"
  "prepare_successes (apply_side c d s) = prepare_successes s"
  "prepare_failures (apply_side c d s) = prepare_failures s"
  "accept_successes (apply_side c d s) = accept_successes s"
  "accept_failures (apply_side c d s) = accept_failures s"
  "await_prepare_decision (apply_side c d s) = await_prepare_decision s"
  "await_accept_decision (apply_side c d s) = await_accept_decision s"
  "conf (apply_side c d s) = conf s"
  "steady_now (apply_side c d s) = steady_now s"
  "outbox (apply_side c d s) = outbox s"
  "crashed (apply_side c d s) = crashed s"
  by (simp_all add: apply_side_def Let_def add_balance_def updateBalance_def)

lemma frame_prepareTransaction [frame_simps, simp]:
  "server_id (prepareTransaction r b s) = server_id s"
  "server_name (prepareTransaction r b s) = server_name s"
  "cluster_id (prepareTransaction r b s) = cluster_id s"
  "stubs (prepareTransaction r b s) = stubs s"
  "i_am_disconnected (prepareTransaction r b s) = i_am_disconnected s"
  "disconnected (prepareTransaction r b s) = disconnected s"
  "balances (prepareTransaction r b s) = balances s"
  "balance_applied (prepareTransaction r b s) = balance_applied s"
  "locks (prepareTransaction r b s) = locks s"
  "srv_db (prepareTransaction r b s) = srv_db s"
  "pending (prepareTransaction r b s) = pending s"
  "current (prepareTransaction r b s) = current s"
  "is_paxos_running (prepareTransaction r b s) = is_paxos_running s"
  "ballot_num (prepareTransaction r b s) = ballot_num s"
  "promised (prepareTransaction r b s) = promised s"
  "promised_num (prepareTransaction r b s) = promised_num s"
  "accepted (prepareTransaction r b s) = accepted s"
  "accept_num (prepareTransaction r b s) = accept_num s"
  "accept_batch (prepareTransaction r b s) = accept_batch s"
  "in_sync (prepareTransaction r b s) = in_sync s"
  "prepare_successes (prepareTransaction r b s) = prepare_successes s"
  "prepare_failures (prepareTransaction r b s) = prepare_failures s"
  "accept_successes (prepareTransaction r b s) = accept_successes s"
  "accept_failures (prepareTransaction r b s) = accept_failures s"
  "await_prepare_decision (prepareTransaction r b s) = await_prepare_decision s"
  "await_accept_decision (prepareTransaction r b s) = await_accept_decision s"
  "conf (prepareTransaction r b s) = conf s"
  "steady_now (prepareTransaction r b s) = steady_now s"
  "outbox (prepareTransaction r b s) = outbox s"
  "crashed (prepareTransaction r b s) = crashed s"
  by (simp_all add: prepareTransaction_def Let_def split_beta)

lemma frame_commitTransaction [frame_simps, simp]:
  "server_id (commitTransaction r b s) = server_id s"
  "server_name (commitTransaction r b s) = server_name s"
  "cluster_id (commitTransaction r b s) = cluster_id s"
  "stubs (commitTransaction r b s) = stubs s"
  "i_am_disconnected (commitTransaction r b s) = i_am_disconnected s"
  "disconnected (commitTransaction r b s) = disconnected s"
  "locks (commitTransaction r b s) = locks s"
  "prepareTimestamps (commitTransaction r b s) = prepareTimestamps s"
  "pending (commitTransaction r b s) = pending s"
  "current (commitTransaction r b s) = current s"
  "is_paxos_running (commitTransaction r b s) = is_paxos_running s"
  "ballot_num (commitTransaction r b s) = ballot_num s"
  "promised (commitTransaction r b s) = promised s"
  "promised_num (commitTransaction r b s) = promised_num s"
  "accepted (commitTransaction r b s) = accepted s"
  "accept_num (commitTransaction r b s) = accept_num s"
  "accept_batch (commitTransaction r b s) = accept_batch s"
  "in_sync (commitTransaction r b s) = in_sync s"
  "prepare_successes (commitTransaction r b s) = prepare_successes s"
  "prepare_failures (commitTransaction r b s) = prepare_failures s"
  "accept_successes (commitTransaction r b s) = accept_successes s"
  "accept_failures (commitTransaction r b s) = accept_failures s"
  "await_prepare_decision (commitTransaction r b s) = await_prepare_decision s"
  "await_accept_decision (commitTransaction r b s) = await_accept_decision s"
  "conf (commitTransaction r b s) = conf s"
  "steady_now (commitTransaction r b s) = steady_now s"
  "outbox (commitTransaction r b s) = outbox s"
  "crashed (commitTransaction r b s) = crashed s"
  by (simp_all add: commitTransaction_def Let_def split_beta add_balance_def updateBalance_def)

section \<open>Loops\<close>

lemma fold_invariant:
  "P s \<Longrightarrow> (\<And>x s. x \<in> set xs \<Longrightarrow> P s \<Longrightarrow> P (f x s)) \<Longrightarrow> P (fold f xs s)"
  by (induction xs arbitrary: s) simp_all

lemma fold_frame: "(\<And>x s. g (f x s) = g s) \<Longrightarrow> g (fold f xs s) = g s"
  by (induction xs arbitrary: s) simp_all

lemma validate_batch_invariant:
  assumes "P s" and "\<And>e s. e \<in> set es \<Longrightarrow> P s \<Longrightarrow> P (snd (validate_entry e s))"
  shows "P (snd (validate_batch es s))"
  using assms
proof (induction es arbitrary: s)
  case (Cons e es)
  then have "P (snd (validate_batch es (snd (validate_entry e s))))" by simp
  then show ?case by (simp add: split_beta)
qed simp

lemma validate_batch_frame:
  "(\<And>e s. g (snd (validate_entry e s)) = g s) \<Longrightarrow> g (snd (validate_batch es s)) = g s"
  by (induction es arbitrary: s) (simp_all add: split_beta)

lemma validate_batch_subset: "set (fst (validate_batch es s)) \<subseteq> set es"
  by (induction es arbitrary: s) (auto simp: split_beta)

section \<open>Fields the steps of a loop do not touch\<close>

lemma frame_accept_entry [frame_simps, simp]:
  "server_id (accept_entry e s) = server_id s"
  "server_name (accept_entry e s) = server_name s"
  "cluster_id (accept_entry e s) = cluster_id s"
  "stubs (accept_entry e s) = stubs s"
  "i_am_disconnected (accept_entry e s) = i_am_disconnected s"
  "disconnected (accept_entry e s) = disconnected s"
  "prepareTimestamps (accept_entry e s) = prepareTimestamps s"
  "pending (accept_entry e s) = pending s"
  "current (accept_entry e s) = current s"
  "is_paxos_running (accept_entry e s) = is_paxos_running s"
  "ballot_num (accept_entry e s) = ballot_num s"
  "promised (accept_entry e s) = promised s"
  "promised_num (accept_entry e s) = promised_num s"
  "accepted (accept_entry e s) = accepted s"
  "accept_num (accept_entry e s) = accept_num s"
  "accept_batch (accept_entry e s) = accept_batch s"
  "in_sync (accept_entry e s) = in_sync s"
  "prepare_successes (accept_entry e s) = prepare_successes s"
  "prepare_failures (accept_entry e s) = prepare_failures s"
  "accept_successes (accept_entry e s) = accept_successes s"
  "accept_failures (accept_entry e s) = accept_failures s"
  "await_prepare_decision (accept_entry e s) = await_prepare_decision s"
  "await_accept_decision (accept_entry e s) = await_accept_decision s"
  "conf (accept_entry e s) = conf s"
  "steady_now (accept_entry e s) = steady_now s"
  "crashed (accept_entry e s) = crashed s"
  by (simp_all add: accept_entry_def Let_def)

lemma frame_fold_accept_entry [frame_simps, simp]:
  "server_id (fold (accept_entry) xs s) = server_id s"
  "server_name (fold (accept_entry) xs s) = server_name s"
  "cluster_id (fold (accept_entry) xs s) = cluster_id s"
  "stubs (fold (accept_entry) xs s) = stubs s"
  "i_am_disconnected (fold (accept_entry) xs s) = i_am_disconnected s"
  "disconnected (fold (accept_entry) xs s) = disconnected s"
  "prepareTimestamps (fold (accept_entry) xs s) = prepareTimestamps s"
  "pending (fold (accept_entry) xs s) = pending s"
  "current (fold (accept_entry) xs s) = current s"
  "is_paxos_running (fold (accept_entry) xs s) = is_paxos_running s"
  "ballot_num (fold (accept_entry) xs s) = ballot_num s"
  "promised (fold (accept_entry) xs s) = promised s"
  "promised_num (fold (accept_entry) xs s) = promised_num s"
  "accepted (fold (accept_entry) xs s) = accepted s"
  "accept_num (fold (accept_entry) xs s) = accept_num s"
  "accept_batch (fold (accept_entry) xs s) = accept_batch s"
  "in_sync (fold (accept_entry) xs s) = in_sync s"
  "prepare_successes (fold (accept_entry) xs s) = prepare_successes s"
  "prepare_failures (fold (accept_entry) xs s) = prepare_failures s"
  "accept_successes (fold (accept_entry) xs s) = accept_successes s"
  "accept_failures (fold (accept_entry) xs s) = accept_failures s"
  "await_prepare_decision (fold (accept_entry) xs s) = await_prepare_decision s"
  "await_accept_decision (fold (accept_entry) xs s) = await_accept_decision s"
  "conf (fold (accept_entry) xs s) = conf s"
  "steady_now (fold (accept_entry) xs s) = steady_now s"
  "crashed (fold (accept_entry) xs s) = crashed s"
  by (rule fold_frame, simp)+

lemma frame_abort_entry [frame_simps, simp]:
  "server_id (abort_entry p e s) = server_id s"
  "server_name (abort_entry p e s) = server_name s"
  "cluster_id (abort_entry p e s) = cluster_id s"
  "stubs (abort_entry p e s) = stubs s"
  "i_am_disconnected (abort_entry p e s) = i_am_disconnected s"
  "disconnected (abort_entry p e s) = disconnected s"
  "balances (abort_entry p e s) = balances s"
  "balance_applied (abort_entry p e s) = balance_applied s"
  "prepareTimestamps (abort_entry p e s) = prepareTimestamps s"
  "srv_db (abort_entry p e s) = srv_db s"
  "srv_wal (abort_entry p e s) = srv_wal s"
  "srv_log (abort_entry p e s) = srv_log s"
  "pending (abort_entry p e s) = pending s"
  "current (abort_entry p e s) = current s"
  "is_paxos_running (abort_entry p e s) = is_paxos_running s"
  "ballot_num (abort_entry p e s) = ballot_num s"
  "promised (abort_entry p e s) = promised s"
  "promised_num (abort_entry p e s) = promised_num s"
  "accepted (abort_entry p e s) = accepted s"
  "accept_num (abort_entry p e s) = accept_num s"
  "accept_batch (abort_entry p e s) = accept_batch s"
  "last_inserted (abort_entry p e s) = last_inserted s"
  "last_inserted_ballot (abort_entry p e s) = last_inserted_ballot s"
  "paxos_index (abort_entry p e s) = paxos_index s"
  "in_sync (abort_entry p e s) = in_sync s"
  "prepare_successes (abort_entry p e s) = prepare_successes s"
  "prepare_failures (abort_entry p e s) = prepare_failures s"
  "accept_successes (abort_entry p e s) = accept_successes s"
  "accept_failures (abort_entry p e s) = accept_failures s"
  "await_prepare_decision (abort_entry p e s) = await_prepare_decision s"
  "await_accept_decision (abort_entry p e s) = await_accept_decision s"
  "conf (abort_entry p e s) = conf s"
  "steady_now (abort_entry p e s) = steady_now s"
  "crashed (abort_entry p e s) = crashed s"
  by (simp_all add: abort_entry_def Let_def)

lemma frame_fold_abort_entry [frame_simps, simp]:
  "server_id (fold (abort_entry p) xs s) = server_id s"
  "server_name (fold (abort_entry p) xs s) = server_name s"
  "cluster_id (fold (abort_entry p) xs s) = cluster_id s"
  "stubs (fold (abort_entry p) xs s) = stubs s"
  "i_am_disconnected (fold (abort_entry p) xs s) = i_am_disconnected s"
  "disconnected (fold (abort_entry p) xs s) = disconnected s"
  "balances (fold (abort_entry p) xs s) = balances s"
  "balance_applied (fold (abort_entry p) xs s) = balance_applied s"
  "prepareTimestamps (fold (abort_entry p) xs s) = prepareTimestamps s"
  "srv_db (fold (abort_entry p) xs s) = srv_db s"
  "srv_wal (fold (abort_entry p) xs s) = srv_wal s"
  "srv_log (fold (abort_entry p) xs s) = srv_log s"
  "pending (fold (abort_entry p) xs s) = pending s"
  "current (fold (abort_entry p) xs s) = current s"
  "is_paxos_running (fold (abort_entry p) xs s) = is_paxos_running s"
  "ballot_num (fold (abort_entry p) xs s) = ballot_num s"
  "promised (fold (abort_entry p) xs s) = promised s"
  "promised_num (fold (abort_entry p) xs s) = promised_num s"
  "accepted (fold (abort_entry p) xs s) = accepted s"
  "accept_num (fold (abort_entry p) xs s) = accept_num s"
  "accept_batch (fold (abort_entry p) xs s) = accept_batch s"
  "last_inserted (fold (abort_entry p) xs s) = last_inserted s"
  "last_inserted_ballot (fold (abort_entry p) xs s) = last_inserted_ballot s"
  "paxos_index (fold (abort_entry p) xs s) = paxos_index s"
  "in_sync (fold (abort_entry p) xs s) = in_sync s"
  "prepare_successes (fold (abort_entry p) xs s) = prepare_successes s"
  "prepare_failures (fold (abort_entry p) xs s) = prepare_failures s"
  "accept_successes (fold (abort_entry p) xs s) = accept_successes s"
  "accept_failures (fold (abort_entry p) xs s) = accept_failures s"
  "await_prepare_decision (fold (abort_entry p) xs s) = await_prepare_decision s"
  "await_accept_decision (fold (abort_entry p) xs s) = await_accept_decision s"
  "conf (fold (abort_entry p) xs s) = conf s"
  "steady_now (fold (abort_entry p) xs s) = steady_now s"
  "crashed (fold (abort_entry p) xs s) = crashed s"
  by (rule fold_frame, simp)+

lemma frame_accept_lock_entry [frame_simps, simp]:
  "server_id (accept_lock_entry r s) = server_id s"
  "server_name (accept_lock_entry r s) = server_name s"
  "cluster_id (accept_lock_entry r s) = cluster_id s"
  "stubs (accept_lock_entry r s) = stubs s"
  "i_am_disconnected (accept_lock_entry r s) = i_am_disconnected s"
  "disconnected (accept_lock_entry r s) = disconnected s"
  "balances (accept_lock_entry r s) = balances s"
  "balance_applied (accept_lock_entry r s) = balance_applied s"
  "srv_db (accept_lock_entry r s) = srv_db s"
  "pending (accept_lock_entry r s) = pending s"
  "current (accept_lock_entry r s) = current s"
  "is_paxos_running (accept_lock_entry r s) = is_paxos_running s"
  "ballot_num (accept_lock_entry r s) = ballot_num s"
  "promised (accept_lock_entry r s) = promised s"
  "promised_num (accept_lock_entry r s) = promised_num s"
  "accepted (accept_lock_entry r s) = accepted s"
  "accept_num (accept_lock_entry r s) = accept_num s"
  "in_sync (accept_lock_entry r s) = in_sync s"
  "prepare_successes (accept_lock_entry r s) = prepare_successes s"
  "prepare_failures (accept_lock_entry r s) = prepare_failures s"
  "accept_successes (accept_lock_entry r s) = accept_successes s"
  "accept_failures (accept_lock_entry r s) = accept_failures s"
  "await_prepare_decision (accept_lock_entry r s) = await_prepare_decision s"
  "await_accept_decision (accept_lock_entry r s) = await_accept_decision s"
  "conf (accept_lock_entry r s) = conf s"
  "steady_now (accept_lock_entry r s) = steady_now s"
  "outbox (accept_lock_entry r s) = outbox s"
  "crashed (accept_lock_entry r s) = crashed s"
  by (simp_all add: accept_lock_entry_def Let_def)

lemma frame_fold_accept_lock_entry [frame_simps, simp]:
  "server_id (fold (accept_lock_entry) xs s) = server_id s"
  "server_name (fold (accept_lock_entry) xs s) = server_name s"
  "cluster_id (fold (accept_lock_entry) xs s) = cluster_id s"
  "stubs (fold (accept_lock_entry) xs s) = stubs s"
  "i_am_disconnected (fold (accept_lock_entry) xs s) = i_am_disconnected s"
  "disconnected (fold (accept_lock_entry) xs s) = disconnected s"
  "balances (fold (accept_lock_entry) xs s) = balances s"
  "balance_applied (fold (accept_lock_entry) xs s) = balance_applied s"
  "srv_db (fold (accept_lock_entry) xs s) = srv_db s"
  "pending (fold (accept_lock_entry) xs s) = pending s"
  "current (fold (accept_lock_entry) xs s) = current s"
  "is_paxos_running (fold (accept_lock_entry) xs s) = is_paxos_running s"
  "ballot_num (fold (accept_lock_entry) xs s) = ballot_num s"
  "promised (fold (accept_lock_entry) xs s) = promised s"
  "promised_num (fold (accept_lock_entry) xs s) = promised_num s"
  "accepted (fold (accept_lock_entry) xs s) = accepted s"
  "accept_num (fold (accept_lock_entry) xs s) = accept_num s"
  "in_sync (fold (accept_lock_entry) xs s) = in_sync s"
  "prepare_successes (fold (accept_lock_entry) xs s) = prepare_successes s"
  "prepare_failures (fold (accept_lock_entry) xs s) = prepare_failures s"
  "accept_successes (fold (accept_lock_entry) xs s) = accept_successes s"
  "accept_failures (fold (accept_lock_entry) xs s) = accept_failures s"
  "await_prepare_decision (fold (accept_lock_entry) xs s) = await_prepare_decision s"
  "await_accept_decision (fold (accept_lock_entry) xs s) = await_accept_decision s"
  "conf (fold (accept_lock_entry) xs s) = conf s"
  "steady_now (fold (accept_lock_entry) xs s) = steady_now s"
  "outbox (fold (accept_lock_entry) xs s) = outbox s"
  "crashed (fold (accept_lock_entry) xs s) = crashed s"
  by (rule fold_frame, simp)+

lemma frame_commit_unlock_entry [frame_simps, simp]:
  "server_id (commit_unlock_entry r s) = server_id s"
  "server_name (commit_unlock_entry r s) = server_name s"
  "cluster_id (commit_unlock_entry r s) = cluster_id s"
  "stubs (commit_unlock_entry r s) = stubs s"
  "i_am_disconnected (commit_unlock_entry r s) = i_am_disconnected s"
  "disconnected (commit_unlock_entry r s) = disconnected s"
  "prepareTimestamps (commit_unlock_entry r s) = prepareTimestamps s"
  "pending (commit_unlock_entry r s) = pending s"
  "current (commit_unlock_entry r s) = current s"
  "is_paxos_running (commit_unlock_entry r s) = is_paxos_running s"
  "ballot_num (commit_unlock_entry r s) = ballot_num s"
  "promised (commit_unlock_entry r s) = promised s"
  "promised_num (commit_unlock_entry r s) = promised_num s"
  "accepted (commit_unlock_entry r s) = accepted s"
  "accept_num (commit_unlock_entry r s) = accept_num s"
  "accept_batch (commit_unlock_entry r s) = accept_batch s"
  "in_sync (commit_unlock_entry r s) = in_sync s"
  "prepare_successes (commit_unlock_entry r s) = prepare_successes s"
  "prepare_failures (commit_unlock_entry r s) = prepare_failures s"
  "accept_successes (commit_unlock_entry r s) = accept_successes s"
  "accept_failures (commit_unlock_entry r s) = accept_failures s"
  "await_prepare_decision (commit_unlock_entry r s) = await_prepare_decision s"
  "await_accept_decision (commit_unlock_entry r s) = await_accept_decision s"
  "conf (commit_unlock_entry r s) = conf s"
  "steady_now (commit_unlock_entry r s) = steady_now s"
  "outbox (commit_unlock_entry r s) = outbox s"
  "crashed (commit_unlock_entry r s) = crashed s"
  by (simp_all add: commit_unlock_entry_def Let_def)

lemma frame_fold_commit_unlock_entry [frame_simps, simp]:
  "server_id (fold (commit_unlock_entry) xs s) = server_id s"
  "server_name (fold (commit_unlock_entry) xs s) = server_name s"
  "cluster_id (fold (commit_unlock_entry) xs s) = cluster_id s"
  "stubs (fold (commit_unlock_entry) xs s) = stubs s"
  "i_am_disconnected (fold (commit_unlock_entry) xs s) = i_am_disconnected s"
  "disconnected (fold (commit_unlock_entry) xs s) = disconnected s"
  "prepareTimestamps (fold (commit_unlock_entry) xs s) = prepareTimestamps s"
  "pending (fold (commit_unlock_entry) xs s) = pending s"
  "current (fold (commit_unlock_entry) xs s) = current s"
  "is_paxos_running (fold (commit_unlock_entry) xs s) = is_paxos_running s"
  "ballot_num (fold (commit_unlock_entry) xs s) = ballot_num s"
  "promised (fold (commit_unlock_entry) xs s) = promised s"
  "promised_num (fold (commit_unlock_entry) xs s) = promised_num s"
  "accepted (fold (commit_unlock_entry) xs s) = accepted s"
  "accept_num (fold (commit_unlock_entry) xs s) = accept_num s"
  "accept_batch (fold (commit_unlock_entry) xs s) = accept_batch s"
  "in_sync (fold (commit_unlock_entry) xs s) = in_sync s"
  "prepare_successes (fold (commit_unlock_entry) xs s) = prepare_successes s"
  "prepare_failures (fold (commit_unlock_entry) xs s) = prepare_failures s"
  "accept_successes (fold (commit_unlock_entry) xs s) = accept_successes s"
  "accept_failures (fold (commit_unlock_entry) xs s) = accept_failures s"
  "await_prepare_decision (fold (commit_unlock_entry) xs s) = await_prepare_decision s"
  "await_accept_decision (fold (commit_unlock_entry) xs s) = await_accept_decision s"
  "conf (fold (commit_unlock_entry) xs s) = conf s"
  "steady_now (fold (commit_unlock_entry) xs s) = steady_now s"
  "outbox (fold (commit_unlock_entry) xs s) = outbox s"
  "crashed (fold (commit_unlock_entry) xs s) = crashed s"
  by (rule fold_frame, simp)+

lemma frame_sync_entry [frame_simps, simp]:
  "server_id (sync_entry le s) = server_id s"
  "server_name (sync_entry le s) = server_name s"
  "cluster_id (sync_entry le s) = cluster_id s"
  "stubs (sync_entry le s) = stubs s"
  "i_am_disconnected (sync_entry le s) = i_am_disconnected s"
  "disconnected (sync_entry le s) = disconnected s"
  "locks (sync_entry le s) = locks s"
  "prepareTimestamps (sync_entry le s) = prepareTimestamps s"
  "pending (sync_entry le s) = pending s"
  "current (sync_entry le s) = current s"
  "is_paxos_running (sync_entry le s) = is_paxos_running s"
  "ballot_num (sync_entry le s) = ballot_num s"
  "promised (sync_entry le s) = promised s"
  "promised_num (sync_entry le s) = promised_num s"
  "accepted (sync_entry le s) = accepted s"
  "accept_num (sync_entry le s) = accept_num s"
  "accept_batch (sync_entry le s) = accept_batch s"
  "last_inserted (sync_entry le s) = last_inserted s"
  "last_inserted_ballot (sync_entry le s) = last_inserted_ballot s"
  "in_sync (sync_entry le s) = in_sync s"
  "prepare_successes (sync_entry le s) = prepare_successes s"
  "prepare_failures (sync_entry le s) = prepare_failures s"
  "accept_successes (sync_entry le s) = accept_successes s"
  "accept_failures (sync_entry le s) = accept_failures s"
  "await_prepare_decision (sync_entry le s) = await_prepare_decision s"
  "await_accept_decision (sync_entry le s) = await_accept_decision s"
  "conf (sync_entry le s) = conf s"
  "steady_now (sync_entry le s) = steady_now s"
  "outbox (sync_entry le s) = outbox s"
  "crashed (sync_entry le s) = crashed s"
  by (simp_all add: sync_entry_def Let_def)

lemma frame_fold_sync_entry [frame_simps, simp]:
  "server_id (fold (sync_entry) xs s) = server_id s"
  "server_name (fold (sync_entry) xs s) = server_name s"
  "cluster_id (fold (sync_entry) xs s) = cluster_id s"
  "stubs (fold (sync_entry) xs s) = stubs s"
  "i_am_disconnected (fold (sync_entry) xs s) = i_am_disconnected s"
  "disconnected (fold (sync_entry) xs s) = disconnected s"
  "locks (fold (sync_entry) xs s) = locks s"
  "prepareTimestamps (fold (sync_entry) xs s) = prepareTimestamps s"
  "pending (fold (sync_entry) xs s) = pending s"
  "current (fold (sync_entry) xs s) = current s"
  "is_paxos_running (fold (sync_entry) xs s) = is_paxos_running s"
  "ballot_num (fold (sync_entry) xs s) = ballot_num s"
  "promised (fold (sync_entry) xs s) = promised s"
  "promised_num (fold (sync_entry) xs s) = promised_num s"
  "accepted (fold (sync_entry) xs s) = accepted s"
  "accept_num (fold (sync_entry) xs s) = accept_num s"
  "accept_batch (fold (sync_entry) xs s) = accept_batch s"
  "last_inserted (fold (sync_entry) xs s) = last_inserted s"
  "last_inserted_ballot (fold (sync_entry) xs s) = last_inserted_ballot s"
  "in_sync (fold (sync_entry) xs s) = in_sync s"
  "prepare_successes (fold (sync_entry) xs s) = prepare_successes s"
  "prepare_failures (fold (sync_entry) xs s) = prepare_failures s"
  "accept_successes (fold (sync_entry) xs s) = accept_successes s"
  "accept_failures (fold (sync_entry) xs s) = accept_failures s"
  "await_prepare_decision (fold (sync_entry) xs s) = await_prepare_decision s"
  "await_accept_decision (fold (sync_entry) xs s) = await_accept_decision s"
  "conf (fold (sync_entry) xs s) = conf s"
  "steady_now (fold (sync_entry) xs s) = steady_now s"
  "outbox (fold (sync_entry) xs s) = outbox s"
  "crashed (fold (sync_entry) xs s) = crashed s"
  by (rule fold_frame, simp)+

lemma frame_expire_prepare [frame_simps, simp]:
  "server_id (expire_prepare t s) = server_id s"
  "server_name (expire_prepare t s) = server_name s"
  "cluster_id (expire_prepare t s) = cluster_id s"
  "stubs (expire_prepare t s) = stubs s"
  "i_am_disconnected (expire_prepare t s) = i_am_disconnected s"
  "disconnected (expire_prepare t s) = disconnected s"
  "balances (expire_prepare t s) = balances s"
  "balance_applied (expire_prepare t s) = balance_applied s"
  "srv_db (expire_prepare t s) = srv_db s"
  "pending (expire_prepare t s) = pending s"
  "current (expire_prepare t s) = current s"
  "is_paxos_running (expire_prepare t s) = is_paxos_running s"
  "ballot_num (expire_prepare t s) = ballot_num s"
  "promised (expire_prepare t s) = promised s"
  "promised_num (expire_prepare t s) = promised_num s"
  "accepted (expire_prepare t s) = accepted s"
  "accept_num (expire_prepare t s) = accept_num s"
  "accept_batch (expire_prepare t s) = accept_batch s"
  "last_inserted (expire_prepare t s) = last_inserted s"
  "last_inserted_ballot (expire_prepare t s) = last_inserted_ballot s"
  "paxos_index (expire_prepare t s) = paxos_index s"
  "in_sync (expire_prepare t s) = in_sync s"
  "prepare_successes (expire_prepare t s) = prepare_successes s"
  "prepare_failures (expire_prepare t s) = prepare_failures s"
  "accept_successes (expire_prepare t s) = accept_successes s"
  "accept_failures (expire_prepare t s) = accept_failures s"
  "await_prepare_decision (expire_prepare t s) = await_prepare_decision s"
  "await_accept_decision (expire_prepare t s) = await_accept_decision s"
  "conf (expire_prepare t s) = conf s"
  "steady_now (expire_prepare t s) = steady_now s"
  "outbox (expire_prepare t s) = outbox s"
  "crashed (expire_prepare t s) = crashed s"
  by (simp_all add: expire_prepare_def Let_def split_beta)

lemma frame_sweep_step [frame_simps, simp]:
  "server_id (sweep_step now p s) = server_id s"
  "server_name (sweep_step now p s) = server_name s"
  "cluster_id (sweep_step now p s) = cluster_id s"
  "stubs (sweep_step now p s) = stubs s"
  "i_am_disconnected (sweep_step now p s) = i_am_disconnected s"
  "disconnected (sweep_step now p s) = disconnected s"
  "balances (sweep_step now p s) = balances s"
  "balance_applied (sweep_step now p s) = balance_applied s"
  "srv_db (sweep_step now p s) = srv_db s"
  "pending (sweep_step now p s) = pending s"
  "current (sweep_step now p s) = current s"
  "is_paxos_running (sweep_step now p s) = is_paxos_running s"
  "ballot_num (sweep_step now p s) = ballot_num s"
  "promised (sweep_step now p s) = promised s"
  "promised_num (sweep_step now p s) = promised_num s"
  "accepted (sweep_step now p s) = accepted s"
  "accept_num (sweep_step now p s) = accept_num s"
  "accept_batch (sweep_step now p s) = accept_batch s"
  "last_inserted (sweep_step now p s) = last_inserted s"
  "last_inserted_ballot (sweep_step now p s) = last_inserted_ballot s"
  "paxos_index (sweep_step now p s) = paxos_index s"
  "in_sync (sweep_step now p s) = in_sync s"
  "prepare_successes (sweep_step now p s) = prepare_successes s"
  "prepare_failures (sweep_step now p s) = prepare_failures s"
  "accept_successes (sweep_step now p s) = accept_successes s"
  "accept_failures (sweep_step now p s) = accept_failures s"
  "await_prepare_decision (sweep_step now p s) = await_prepare_decision s"
  "await_accept_decision (sweep_step now p s) = await_accept_decision s"
  "conf (sweep_step now p s) = conf s"
  "steady_now (sweep_step now p s) = steady_now s"
  "outbox (sweep_step now p s) = outbox s"
  "crashed (sweep_step now p s) = crashed s"
  by (simp_all add: sweep_step_def)

lemma frame_fold_sweep_step [frame_simps, simp]:
  "server_id (fold (sweep_step now) xs s) = server_id s"
  "server_name (fold (sweep_step now) xs s) = server_name s"
  "cluster_id (fold (sweep_step now) xs s) = cluster_id s"
  "stubs (fold (sweep_step now) xs s) = stubs s"
  "i_am_disconnected (fold (sweep_step now) xs s) = i_am_disconnected s"
  "disconnected (fold (sweep_step now) xs s) = disconnected s"
  "balances (fold (sweep_step now) xs s) = balances s"
  "balance_applied (fold (sweep_step now) xs s) = balance_applied s"
  "srv_db (fold (sweep_step now) xs s) = srv_db s"
  "pending (fold (sweep_step now) xs s) = pending s"
  "current (fold (sweep_step now) xs s) = current s"
  "is_paxos_running (fold (sweep_step now) xs s) = is_paxos_running s"
  "ballot_num (fold (sweep_step now) xs s) = ballot_num s"
  "promised (fold (sweep_step now) xs s) = promised s"
  "promised_num (fold (sweep_step now) xs s) = promised_num s"
  "accepted (fold (sweep_step now) xs s) = accepted s"
  "accept_num (fold (sweep_step now) xs s) = accept_num s"
  "accept_batch (fold (sweep_step now) xs s) = accept_batch s"
  "last_inserted (fold (sweep_step now) xs s) = last_inserted s"
  "last_inserted_ballot (fold (sweep_step now) xs s) = last_inserted_ballot s"
  "paxos_index (fold (sweep_step now) xs s) = paxos_index s"
  "in_sync (fold (sweep_step now) xs s) = in_sync s"
  "prepare_successes (fold (sweep_step now) xs s) = prepare_successes s"
  "prepare_failures (fold (sweep_step now) xs s) = prepare_failures s"
  "accept_successes (fold (sweep_step now) xs s) = accept_successes s"
  "accept_failures (fold (sweep_step now) xs s) = accept_failures s"
  "await_prepare_decision (fold (sweep_step now) xs s) = await_prepare_decision s"
  "await_accept_decision (fold (sweep_step now) xs s) = await_accept_decision s"
  "conf (fold (sweep_step now) xs s) = conf s"
  "steady_now (fold (sweep_step now) xs s) = steady_now s"
  "outbox (fold (sweep_step now) xs s) = outbox s"
  "crashed (fold (sweep_step now) xs s) = crashed s"
  by (rule fold_frame, simp)+

lemma frame_processTpcDecision [frame_simps, simp]:
  "server_id (processTpcDecision t c s) = server_id s"
  "server_name (processTpcDecision t c s) = server_name s"
  "cluster_id (processTpcDecision t c s) = cluster_id s"
  "stubs (processTpcDecision t c s) = stubs s"
  "i_am_disconnected (processTpcDecision t c s) = i_am_disconnected s"
  "disconnected (processTpcDecision t c s) = disconnected s"
  "pending (processTpcDecision t c s) = pending s"
  "current (processTpcDecision t c s) = current s"
  "is_paxos_running (processTpcDecision t c s) = is_paxos_running s"
  "ballot_num (processTpcDecision t c s) = ballot_num s"
  "promised (processTpcDecision t c s) = promised s"
  "promised_num (processTpcDecision t c s) = promised_num s"
  "accepted (processTpcDecision t c s) = accepted s"
  "accept_num (processTpcDecision t c s) = accept_num s"
  "accept_batch (processTpcDecision t c s) = accept_batch s"
  "last_inserted (processTpcDecision t c s) = last_inserted s"
  "last_inserted_ballot (processTpcDecision t c s) = last_inserted_ballot s"
  "paxos_index (processTpcDecision t c s) = paxos_index s"
  "in_sync (processTpcDecision t c s) = in_sync s"
  "prepare_successes (processTpcDecision t c s) = prepare_successes s"
  "prepare_failures (processTpcDecision t c s) = prepare_failures s"
  "accept_successes (processTpcDecision t c s) = accept_successes s"
  "accept_failures (processTpcDecision t c s) = accept_failures s"
  "await_prepare_decision (processTpcDecision t c s) = await_prepare_decision s"
  "await_accept_decision (processTpcDecision t c s) = await_accept_decision s"
  "conf (processTpcDecision t c s) = conf s"
  "steady_now (processTpcDecision t c s) = steady_now s"
  "outbox (processTpcDecision t c s) = outbox s"
  "crashed (processTpcDecision t c s) = crashed s"
  by (simp_all add: processTpcDecision_def Let_def split_beta)

lemma frame_validate_entry [frame_simps, simp]:
  "server_id (snd (validate_entry e s)) = server_id s"
  "server_name (snd (validate_entry e s)) = server_name s"
  "cluster_id (snd (validate_entry e s)) = cluster_id s"
  "stubs (snd (validate_entry e s)) = stubs s"
  "i_am_disconnected (snd (validate_entry e s)) = i_am_disconnected s"
  "disconnected (snd (validate_entry e s)) = disconnected s"
  "balance_applied (snd (validate_entry e s)) = balance_applied s"
  "srv_db (snd (validate_entry e s)) = srv_db s"
  "pending (snd (validate_entry e s)) = pending s"
  "current (snd (validate_entry e s)) = current s"
  "is_paxos_running (snd (validate_entry e s)) = is_paxos_running s"
  "ballot_num (snd (validate_entry e s)) = ballot_num s"
  "promised (snd (validate_entry e s)) = promised s"
  "promised_num (snd (validate_entry e s)) = promised_num s"
  "accepted (snd (validate_entry e s)) = accepted s"
  "accept_num (snd (validate_entry e s)) = accept_num s"
  "accept_batch (snd (validate_entry e s)) = accept_batch s"
  "in_sync (snd (validate_entry e s)) = in_sync s"
  "prepare_successes (snd (validate_entry e s)) = prepare_successes s"
  "prepare_failures (snd (validate_entry e s)) = prepare_failures s"
  "accept_successes (snd (validate_entry e s)) = accept_successes s"
  "accept_failures (snd (validate_entry e s)) = accept_failures s"
  "await_prepare_decision (snd (validate_entry e s)) = await_prepare_decision s"
  "await_accept_decision (snd (validate_entry e s)) = await_accept_decision s"
  "conf (snd (validate_entry e s)) = conf s"
  "steady_now (snd (validate_entry e s)) = steady_now s"
  "crashed (snd (validate_entry e s)) = crashed s"
  by (simp_all add: validate_entry_def Let_def)

lemma frame_validate_batch [frame_simps, simp]:
  "server_id (snd (validate_batch es s)) = server_id s"
  "server_name (snd (validate_batch es s)) = server_name s"
  "cluster_id (snd (validate_batch es s)) = cluster_id s"
  "stubs (snd (validate_batch es s)) = stubs s"
  "i_am_disconnected (snd (validate_batch es s)) = i_am_disconnected s"
  "disconnected (snd (validate_batch es s)) = disconnected s"
  "balance_applied (snd (validate_batch es s)) = balance_applied s"
  "srv_db (snd (validate_batch es s)) = srv_db s"
  "pending (snd (validate_batch es s)) = pending s"
  "current (snd (validate_batch es s)) = current s"
  "is_paxos_running (snd (validate_batch es s)) = is_paxos_running s"
  "ballot_num (snd (validate_batch es s)) = ballot_num s"
  "promised (snd (validate_batch es s)) = promised s"
  "promised_num (snd (validate_batch es s)) = promised_num s"
  "accepted (snd (validate_batch es s)) = accepted s"
  "accept_num (snd (validate_batch es s)) = accept_num s"
  "accept_batch (snd (validate_batch es s)) = accept_batch s"
  "in_sync (snd (validate_batch es s)) = in_sync s"
  "prepare_successes (snd (validate_batch es s)) = prepare_successes s"
  "prepare_failures (snd (validate_batch es s)) = prepare_failures s"
  "accept_successes (snd (validate_batch es s)) = accept_successes s"
  "accept_failures (snd (validate_batch es s)) = accept_failures s"
  "await_prepare_decision (snd (validate_batch es s)) = await_prepare_decision s"
  "await_accept_decision (snd (validate_batch es s)) = await_accept_decision s"
  "conf (snd (validate_batch es s)) = conf s"
  "steady_now (snd (validate_batch es s)) = steady_now s"
  "crashed (snd (validate_batch es s)) = crashed s"
  by (rule validate_batch_frame, simp)+
end
