(* ===== verification/Server_Step.thy ===== *)
theory Server_Step
  imports Server_Frame
begin

text \<open>
  The events the single-threaded loop of a server processes, one constructor per RPC it
  receives and per reply it gets, plus the lock-timeout sweep and the clock; \<open>handle\<close>
  is the dispatch of \<open>InCall::Proceed\<close>, \<open>OutCall::HandleRPCResponse\<close> and
  \<open>HandleRPCs\<close>.  The locale \<open>server_invariant\<close> states what a property of the server's
  data has to satisfy to survive every event, and proves once that it does.
\<close>

section \<open>Events\<close>

datatype event =
    EvTransfer nat TransferReq
  | EvTpcPrepare nat TransferReq
  | EvTpcCommit int
  | EvTpcAbort int
  | EvPrepare PrepareReq
  | EvAccept AcceptReq
  | EvCommit CommitReq
  | EvSync SyncReq
  | EvBalance int
  | EvLogs
  | EvDisconnect "string list"
  | EvPrepareReply rpc_status PrepareReq PrepareRes
  | EvAcceptReply rpc_status AcceptReq AcceptRes
  | EvCommitReply rpc_status
  | EvSyncReply rpc_status SyncRes
  | EvSweep
  | EvClock int

fun handle :: "event \<Rightarrow> server \<Rightarrow> server" where
  "handle (EvTransfer call r) s = enqueueClientTxn call r False s"
| "handle (EvTpcPrepare call r) s = enqueueClientTxn call r True s"
| "handle (EvTpcCommit t) s = processTpcDecision t True s"
| "handle (EvTpcAbort t) s = processTpcDecision t False s"
| "handle (EvPrepare q) s = fst (processPrepareCall q s)"
| "handle (EvAccept q) s = fst (processAcceptCall q s)"
| "handle (EvCommit q) s = processCommitCall q s"
| "handle (EvSync q) s = s"
| "handle (EvBalance c) s = fst (processGetBalanceCall c s)"
| "handle EvLogs s = s"
| "handle (EvDisconnect names) s = processDisconnectCall names s"
| "handle (EvPrepareReply st q res) s = handlePrepareReply st q res s"
| "handle (EvAcceptReply st q res) s = handleAcceptReply st q res s"
| "handle (EvCommitReply st) s = s"
| "handle (EvSyncReply st res) s = handleSyncReply st res s"
| "handle EvSweep s = sweep_timeouts (steady_now s) s"
| "handle (EvClock n) s = s\<lparr>steady_now := n\<rparr>"

section \<open>Well-formed states and messages\<close>

definition env_ok :: "server \<Rightarrow> bool" where
  "env_ok s \<longleftrightarrow> (\<forall>e \<in> set (pending s) \<union> set (current s). req_fits (be_request e))
     \<and> (\<forall>r \<in> set (accept_batch s). req_fits r)
     \<and> ballot_fits (promised_num s) \<and> ballot_fits (accept_num s)
     \<and> is_int32 (server_id s) \<and> is_int32 (ballot_num s)"

text \<open>
  What a log entry shipped by a peer looks like: its fields fit, its kind is one the log
  holds, and an intra-shard entry does not carry the tid of a pending prepare.
\<close>

definition sync_entry_ok :: "server \<Rightarrow> LogEntry \<Rightarrow> bool" where
  "sync_entry_ok s le \<longleftrightarrow> (let e = entry_of_LogEntry le in entry_fits e \<and> we_tid e \<noteq> -1
     \<and> (we_type e = CROSS \<and> we_status e \<noteq> NO_STATUS
        \<or> we_type e = INTRA \<and> we_status e = COMMITTED \<and> transferIndex (srv_wal s) (we_tid e) = None))"

fun sync_entries_ok :: "LogEntry list \<Rightarrow> server \<Rightarrow> bool" where
  "sync_entries_ok [] s = True"
| "sync_entries_ok (le # les) s = (sync_entry_ok s le \<and> sync_entries_ok les (sync_entry le s))"

definition has_next_ballot :: "int \<Rightarrow> bool" where
  "has_next_ballot n \<longleftrightarrow> is_int32 n \<and> is_int32 (n + 1)"

fun event_ok :: "event \<Rightarrow> server \<Rightarrow> bool" where
  "event_ok (EvTransfer call r) s = req_fits r"
| "event_ok (EvTpcPrepare call r) s = req_fits r"
| "event_ok (EvPrepare q) s = ballot_fits (pq_ballot q)"
| "event_ok (EvAccept q) s = (ballot_fits (aq_ballot q) \<and> (\<forall>r \<in> set (aq_batch q). req_fits r))"
| "event_ok (EvPrepareReply st q res) s =
     (case ps_latest_ballot_num res of None \<Rightarrow> True | Some n \<Rightarrow> has_next_ballot n)"
| "event_ok (EvSyncReply st res) s =
     (sync_entries_ok (ss_logs res) s \<and> ballot_fits (ss_last_inserted_ballot res)
      \<and> has_next_ballot (bal_num (ss_last_inserted_ballot res)))"
| "event_ok _ s = True"

text \<open>The data a property of the log and the money can depend on.\<close>

definition core :: "server \<Rightarrow> int \<times> int \<times> (int \<Rightarrow> int option) \<times> int set \<times> kvdb \<times> wal \<times> WALEntry list \<times> int \<times> int" where
  "core s = (num_clusters (conf s), cluster_id s, balances s, balance_applied s, srv_db s, srv_wal s,
     srv_log s, paxos_index s, ballot_num s)"

lemma core_frames [simp]:
  "core (emit x s) = core s"
  "core (emit_all xs s) = core s"
  "core (completeTransfer call ack t s) = core s"
  "core (send_sync dst q s) = core s"
  by (simp_all add: core_def)

lemma core_updates [simp]:
  "core (s\<lparr>locks := l\<rparr>) = core s"
  "core (s\<lparr>pending := bs\<rparr>) = core s"
  "core (s\<lparr>current := bs\<rparr>) = core s"
  "core (s\<lparr>accept_batch := rs\<rparr>) = core s"
  "core (s\<lparr>promised := x\<rparr>) = core s"
  "core (s\<lparr>accepted := x\<rparr>) = core s"
  "core (s\<lparr>in_sync := x\<rparr>) = core s"
  "core (s\<lparr>promised_num := b\<rparr>) = core s"
  "core (s\<lparr>accept_num := b\<rparr>) = core s"
  "core (s\<lparr>is_paxos_running := x\<rparr>) = core s"
  "core (s\<lparr>await_prepare_decision := x\<rparr>) = core s"
  "core (s\<lparr>await_accept_decision := x\<rparr>) = core s"
  "core (s\<lparr>prepare_successes := i\<rparr>) = core s"
  "core (s\<lparr>prepare_failures := i\<rparr>) = core s"
  "core (s\<lparr>accept_successes := i\<rparr>) = core s"
  "core (s\<lparr>accept_failures := i\<rparr>) = core s"
  "core (s\<lparr>last_inserted := i\<rparr>) = core s"
  "core (s\<lparr>last_inserted_ballot := b\<rparr>) = core s"
  "core (s\<lparr>prepareTimestamps := m\<rparr>) = core s"
  "core (s\<lparr>steady_now := i\<rparr>) = core s"
  "core (s\<lparr>i_am_disconnected := x\<rparr>) = core s"
  "core (s\<lparr>disconnected := d\<rparr>) = core s"
  by (simp_all add: core_def)

lemma core_isClientInCluster: "core s' = core s \<Longrightarrow> isClientInCluster s' c = isClientInCluster s c"
  by (simp add: core_def isClientInCluster_def getClusterIdFromClientId_def)

lemma isClientInCluster_locks [simp]: "isClientInCluster (s\<lparr>locks := l\<rparr>) c = isClientInCluster s c"
  by (simp add: isClientInCluster_def)

definition set_ballot :: "int \<Rightarrow> server \<Rightarrow> server" where
  "set_ballot n s = persistBallotNum (s\<lparr>ballot_num := n\<rparr>)"

lemma core_reissue: "core (reissuePrepareForCurrent s) = core (set_ballot (ballot_num s + 1) s)"
  by (simp add: reissuePrepareForCurrent_def set_ballot_def Let_def)

lemma persist_commutes:
  "persistBallotNum (s\<lparr>promised := x, promised_num := b, ballot_num := n\<rparr>) =
     (set_ballot n s)\<lparr>promised := x, promised_num := b\<rparr>"
  by (simp add: set_ballot_def persistBallotNum_def)

lemma mark_disconnected_core: "core (mark_disconnected name s) = core s"
  by (auto simp: mark_disconnected_def lookup_server_id_def core_def Let_def split: option.splits)

section \<open>Well-formedness survives every event\<close>

lemma env_ok_cong:
  assumes "pending s' = pending s" and "current s' = current s" and "accept_batch s' = accept_batch s"
    and "promised_num s' = promised_num s" and "accept_num s' = accept_num s"
    and "server_id s' = server_id s" and "ballot_num s' = ballot_num s"
  shows "env_ok s' = env_ok s"
  using assms by (simp add: env_ok_def)

lemma env_ok_counters [simp]:
  "env_ok (s\<lparr>prepare_successes := i\<rparr>) = env_ok s"
  "env_ok (s\<lparr>prepare_failures := i\<rparr>) = env_ok s"
  "env_ok (s\<lparr>accept_successes := i\<rparr>) = env_ok s"
  "env_ok (s\<lparr>accept_failures := i\<rparr>) = env_ok s"
  "env_ok (s\<lparr>await_prepare_decision := x\<rparr>) = env_ok s"
  "env_ok (s\<lparr>await_accept_decision := x\<rparr>) = env_ok s"
  "env_ok (s\<lparr>in_sync := x\<rparr>) = env_ok s"
  "env_ok (s\<lparr>promised := x\<rparr>) = env_ok s"
  "env_ok (s\<lparr>accepted := x\<rparr>) = env_ok s"
  "env_ok (s\<lparr>is_paxos_running := x\<rparr>) = env_ok s"
  "env_ok (s\<lparr>steady_now := i\<rparr>) = env_ok s"
  "env_ok (s\<lparr>last_inserted := i\<rparr>) = env_ok s"
  "env_ok (s\<lparr>last_inserted_ballot := b\<rparr>) = env_ok s"
  "env_ok (emit_all xs s) = env_ok s"
  "env_ok (emit y s) = env_ok s"
  "env_ok (completeTransfer call ack t s) = env_ok s"
  "env_ok (send_sync dst q s) = env_ok s"
  "env_ok (touch_balance c s) = env_ok s"
  "env_ok (processTpcDecision t c' s) = env_ok s"
  "env_ok (fold (sweep_step now) ps s) = env_ok s"
  "env_ok (fold commit_unlock_entry rs s) = env_ok s"
  "env_ok (fold accept_entry es s) = env_ok s"
  "env_ok (fold (abort_entry p) es s) = env_ok s"
  "env_ok (fold sync_entry les s) = env_ok s"
  "env_ok (snd (validate_batch es s)) = env_ok s"
  by (rule env_ok_cong; simp)+

lemma env_ok_set_ballot: "env_ok s \<Longrightarrow> is_int32 n \<Longrightarrow> env_ok (set_ballot n s)"
  by (auto simp: env_ok_def set_ballot_def)

lemma env_ok_reissue:
  assumes "env_ok s" and "has_next_ballot (ballot_num s)"
  shows "env_ok (reissuePrepareForCurrent s)"
proof -
  let ?s = "set_ballot (ballot_num s + 1) s"
  let ?b = "\<lparr>bal_num = ballot_num s + 1, bal_server_id = server_id s\<rparr>"
  have "env_ok (?s\<lparr>promised_num := ?b\<rparr>)"
    using assms env_ok_set_ballot [of s "ballot_num s + 1"]
    by (auto simp: env_ok_def has_next_ballot_def ballot_fits_def set_ballot_def)
  moreover have "env_ok (reissuePrepareForCurrent s) = env_ok (?s\<lparr>promised_num := ?b\<rparr>)"
    by (rule env_ok_cong) (simp_all add: reissuePrepareForCurrent_def set_ballot_def Let_def)
  ultimately show ?thesis by simp
qed

lemma env_ok_maybeStart:
  assumes "env_ok s" and "has_next_ballot (ballot_num s)"
  shows "env_ok (maybeStartRound s)"
proof -
  let ?s = "s\<lparr>current := pending s, pending := [], is_paxos_running := True\<rparr>"
  have "env_ok ?s" using assms(1) by (auto simp: env_ok_def)
  then show ?thesis
    using assms env_ok_reissue [of ?s] by (simp add: maybeStartRound_def startRound_def)
qed

lemma env_ok_finish:
  assumes "env_ok s" and "has_next_ballot (ballot_num s)"
  shows "env_ok (finishRound s)"
proof -
  have "env_ok (s\<lparr>current := [], accept_batch := []\<rparr>)" using assms(1) by (auto simp: env_ok_def)
  then have "env_ok (s\<lparr>is_paxos_running := False, promised := False, accepted := False,
      await_prepare_decision := False, await_accept_decision := False, current := [], accept_batch := []\<rparr>)"
    by (rule env_ok_cong [THEN iffD2, rotated -1]) simp_all
  then show ?thesis using assms(2) by (simp add: finishRound_def env_ok_maybeStart)
qed

lemma env_ok_enqueue:
  assumes "env_ok s" and "has_next_ballot (ballot_num s)" and "req_fits r"
  shows "env_ok (enqueueClientTxn call r x s)"
proof -
  let ?e = "\<lparr>be_request = r, be_call = call, be_is_cross_shard = x\<rparr>"
  have "env_ok (s\<lparr>pending := pending s @ [?e]\<rparr>)"
    using assms(1,3) by (auto simp: env_ok_def)
  then show ?thesis using assms(1,2) by (simp add: enqueueClientTxn_def env_ok_maybeStart)
qed

lemma env_ok_onPrepareQuorum:
  assumes "env_ok s" and "has_next_ballot (ballot_num s)"
  shows "env_ok (onPrepareQuorum s)"
proof -
  let ?s = "s\<lparr>await_prepare_decision := False\<rparr>"
  define kept s2 where "kept = fst (validate_batch (current s) ?s)" and "s2 = snd (validate_batch (current s) ?s)"
  have s2: "env_ok s2" "current s2 = current s" "ballot_num s2 = ballot_num s"
    using assms(1) by (simp_all add: s2_def)
  have kept: "set kept \<subseteq> set (current s2)"
    using validate_batch_subset [of "current s" ?s] s2(2) by (simp add: kept_def)
  have 1: "env_ok (s2\<lparr>current := kept\<rparr>)"
    using s2(1) kept by (auto simp: env_ok_def)
  moreover have "env_ok (s2\<lparr>current := kept, accepted := True, accept_num := promised_num s2,
      accept_batch := map be_request kept, await_accept_decision := True, accept_successes := 1,
      accept_failures := 0\<rparr>)"
  proof -
    have "\<forall>e \<in> set kept. req_fits (be_request e)"
      using 1 by (auto simp: env_ok_def)
    then have "env_ok (s2\<lparr>current := kept, accept_num := promised_num s2, accept_batch := map be_request kept\<rparr>)"
      using 1 by (auto simp: env_ok_def)
    then show ?thesis by (rule env_ok_cong [THEN iffD2, rotated -1]) simp_all
  qed
  moreover have "onPrepareQuorum s = (if kept = [] then finishRound (s2\<lparr>current := kept\<rparr>)
      else emit_all (map (\<lambda>i. OutAccept i \<lparr>aq_ballot = promised_num s2, aq_batch = map be_request kept\<rparr>) (stub_ids s2))
        (s2\<lparr>current := kept, accepted := True, accept_num := promised_num s2, accept_batch := map be_request kept,
           await_accept_decision := True, accept_successes := 1, accept_failures := 0\<rparr>))"
    by (simp add: onPrepareQuorum_def Let_def split_beta kept_def s2_def stub_ids_def)
  ultimately show ?thesis
    using assms(2) s2(3) by (auto intro!: env_ok_finish)
qed

lemma env_ok_onAcceptQuorum:
  assumes "env_ok s" and "has_next_ballot (ballot_num s)"
  shows "env_ok (onAcceptQuorum s)"
  using assms by (auto simp: onAcceptQuorum_def Let_def intro!: env_ok_finish)

lemma env_ok_onRoundAbort:
  assumes "env_ok s" and "has_next_ballot (ballot_num s)"
  shows "env_ok (onRoundAbort p s)"
  using assms by (auto simp: onRoundAbort_def Let_def intro!: env_ok_finish)

lemma env_ok_processPrepareCall:
  assumes "env_ok s" and "ballot_fits (pq_ballot q)"
  shows "env_ok (fst (processPrepareCall q s))"
proof -
  have "env_ok ((set_ballot (bal_num (pq_ballot q)) s)\<lparr>promised_num := pq_ballot q\<rparr>)"
    using assms by (auto simp: env_ok_def ballot_fits_def set_ballot_def)
  then have "env_ok ((set_ballot (bal_num (pq_ballot q)) s)\<lparr>promised := True, promised_num := pq_ballot q\<rparr>)"
    by (rule env_ok_cong [THEN iffD2, rotated -1]) simp_all
  then show ?thesis using assms(1) by (auto simp: processPrepareCall_def Let_def persist_commutes)
qed

lemma accept_batch_locked: "accept_batch (fold accept_lock_entry rs s) = accept_batch s @ rs"
  by (induction rs arbitrary: s) (simp_all add: accept_lock_entry_def Let_def)

lemma env_ok_processAcceptCall:
  assumes "env_ok s" and "ballot_fits (aq_ballot q)" and "\<forall>r \<in> set (aq_batch q). req_fits r"
  shows "env_ok (fst (processAcceptCall q s))"
proof -
  let ?t = "fold accept_lock_entry (aq_batch q) (s\<lparr>accepted := True, accept_num := aq_ballot q, accept_batch := []\<rparr>)"
  have "env_ok (s\<lparr>accept_num := aq_ballot q, accept_batch := aq_batch q\<rparr>)"
    using assms by (auto simp: env_ok_def)
  then have "env_ok ?t"
    by (rule env_ok_cong [THEN iffD2, rotated -1]) (simp_all add: accept_batch_locked)
  then show ?thesis using assms(1) by (simp add: processAcceptCall_def Let_def)
qed

lemma env_ok_processDisconnectCall:
  assumes "env_ok s" shows "env_ok (processDisconnectCall names s)"
proof -
  have "env_ok (mark_disconnected n s') = env_ok s'" for n s'
    by (rule env_ok_cong) (auto simp: mark_disconnected_def lookup_server_id_def Let_def split: option.splits)
  then have "env_ok (fold mark_disconnected names s') = env_ok s'" for s'
    by (induction names arbitrary: s') simp_all
  moreover have "env_ok (resetDisconnectedState s) = env_ok s"
    by (rule env_ok_cong) (simp_all add: resetDisconnectedState_def)
  ultimately show ?thesis using assms by (simp add: processDisconnectCall_def)
qed

lemma env_ok_handlePrepareReply:
  assumes "env_ok s" and "has_next_ballot (ballot_num s)"
    and "\<And>n. ps_latest_ballot_num res = Some n \<Longrightarrow> has_next_ballot n"
  shows "env_ok (handlePrepareReply st q res s)"
proof -
  have retry: "env_ok (reissuePrepareForCurrent (persistBallotNum (s'\<lparr>ballot_num := n\<rparr>)))"
    if "env_ok s'" "ps_latest_ballot_num res = Some n" for s' n
    using that assms(3) [of n] env_ok_set_ballot [of s' n] env_ok_reissue [of "set_ballot n s'"]
    by (simp add: set_ballot_def has_next_ballot_def)
  show ?thesis
    using assms(1,2) retry
    by (auto simp: handlePrepareReply_def Let_def env_ok_onPrepareQuorum env_ok_onRoundAbort split: option.split)
qed

lemma env_ok_handleAcceptReply:
  assumes "env_ok s" and "has_next_ballot (ballot_num s)"
  shows "env_ok (handleAcceptReply st q res s)"
  using assms
  by (auto simp: handleAcceptReply_def Let_def intro!: env_ok_onAcceptQuorum env_ok_onRoundAbort)

lemma env_ok_handleSyncReply:
  assumes "env_ok s" and "has_next_ballot (ballot_num s)"
    and "has_next_ballot (bal_num (ss_last_inserted_ballot res))"
  shows "env_ok (handleSyncReply st res s)"
proof -
  let ?n = "bal_num (ss_last_inserted_ballot res)"
  have "env_ok (set_ballot ?n (fold sync_entry (ss_logs res) s))"
    using assms by (auto intro!: env_ok_set_ballot simp: has_next_ballot_def)
  then show ?thesis
    using assms
    by (auto simp: handleSyncReply_def Let_def set_ballot_def intro!: env_ok_reissue env_ok_maybeStart)
qed

theorem env_ok_handle:
  assumes "env_ok s" and "has_next_ballot (ballot_num s)" and "event_ok ev s"
  shows "env_ok (handle ev s)"
  using assms
  by (cases ev)
    (auto simp: env_ok_enqueue env_ok_processPrepareCall env_ok_processAcceptCall env_ok_processDisconnectCall
      env_ok_handleAcceptReply env_ok_handleSyncReply processCommitCall_def processGetBalanceCall_def
      sweep_timeouts_def intro!: env_ok_handlePrepareReply split: option.splits)

section \<open>Properties that survive every event\<close>

locale server_invariant =
  fixes I :: "server \<Rightarrow> bool"
  assumes I_core: "core s' = core s \<Longrightarrow> I s \<Longrightarrow> I s'"
    and I_touch: "I s \<Longrightarrow> I (touch_balance a s)"
    and I_prepare: "I s \<Longrightarrow> req_fits r \<Longrightarrow> ballot_fits b \<Longrightarrow> I (prepareTransaction r b s)"
    and I_commit: "I s \<Longrightarrow> req_fits r \<Longrightarrow> ballot_fits b \<Longrightarrow> I (commitTransaction r b s)"
    and I_decision: "I s \<Longrightarrow> I (processTpcDecision t d s)"
    and I_expire: "I s \<Longrightarrow> I (expire_prepare t s)"
    and I_sync: "I s \<Longrightarrow> sync_entry_ok s le \<Longrightarrow> I (sync_entry le s)"
    and I_ballot: "I s \<Longrightarrow> is_int32 n \<Longrightarrow> I (set_ballot n s)"
begin

lemma I_cong: "core s' = core s \<Longrightarrow> I s' = I s"
  using I_core by metis

lemma I_control [simp]:
  "I (emit y s) = I s"
  "I (emit_all ys s) = I s"
  "I (completeTransfer call ack t s) = I s"
  "I (send_sync dst q s) = I s"
  "I (s\<lparr>locks := l\<rparr>) = I s"
  "I (s\<lparr>pending := bs\<rparr>) = I s"
  "I (s\<lparr>current := bs\<rparr>) = I s"
  "I (s\<lparr>accept_batch := rs\<rparr>) = I s"
  "I (s\<lparr>promised := x\<rparr>) = I s"
  "I (s\<lparr>accepted := x\<rparr>) = I s"
  "I (s\<lparr>in_sync := x\<rparr>) = I s"
  "I (s\<lparr>promised_num := b\<rparr>) = I s"
  "I (s\<lparr>accept_num := b\<rparr>) = I s"
  "I (s\<lparr>is_paxos_running := x\<rparr>) = I s"
  "I (s\<lparr>await_prepare_decision := x\<rparr>) = I s"
  "I (s\<lparr>await_accept_decision := x\<rparr>) = I s"
  "I (s\<lparr>prepare_successes := i\<rparr>) = I s"
  "I (s\<lparr>prepare_failures := i\<rparr>) = I s"
  "I (s\<lparr>accept_successes := i\<rparr>) = I s"
  "I (s\<lparr>accept_failures := i\<rparr>) = I s"
  "I (s\<lparr>last_inserted := i\<rparr>) = I s"
  "I (s\<lparr>last_inserted_ballot := b\<rparr>) = I s"
  "I (s\<lparr>prepareTimestamps := m\<rparr>) = I s"
  "I (s\<lparr>steady_now := i\<rparr>) = I s"
  "I (s\<lparr>i_am_disconnected := x\<rparr>) = I s"
  "I (s\<lparr>disconnected := d\<rparr>) = I s"
  by (rule I_cong, simp)+

lemma I_reissue: "I s \<Longrightarrow> has_next_ballot (ballot_num s) \<Longrightarrow> I (reissuePrepareForCurrent s)"
  using I_core [OF core_reissue] I_ballot by (simp add: has_next_ballot_def)

lemma I_maybeStart: "I s \<Longrightarrow> has_next_ballot (ballot_num s) \<Longrightarrow> I (maybeStartRound s)"
  by (simp add: maybeStartRound_def startRound_def I_reissue)

lemma I_finish: "I s \<Longrightarrow> has_next_ballot (ballot_num s) \<Longrightarrow> I (finishRound s)"
  by (simp add: finishRound_def I_maybeStart)

lemma I_enqueue: "I s \<Longrightarrow> has_next_ballot (ballot_num s) \<Longrightarrow> I (enqueueClientTxn call r x s)"
  by (simp add: enqueueClientTxn_def I_maybeStart)

lemma I_validate_entry:
  assumes "I s" and "req_fits (be_request e)" and "ballot_fits (promised_num s)"
  shows "I (snd (validate_entry e s))"
  using assms by (simp add: validate_entry_def Let_def I_prepare I_touch)

lemma I_onPrepareQuorum:
  assumes "I s" and "env_ok s" and "has_next_ballot (ballot_num s)"
  shows "I (onPrepareQuorum s)"
proof -
  let ?s = "s\<lparr>await_prepare_decision := False\<rparr>"
  let ?P = "\<lambda>s'. I s' \<and> promised_num s' = promised_num s"
  have fits: "\<forall>e \<in> set (current s). req_fits (be_request e)" "ballot_fits (promised_num s)"
    using assms(2) by (auto simp: env_ok_def)
  have "?P (snd (validate_batch (current s) ?s))"
  proof (rule validate_batch_invariant)
    show "?P ?s" using assms(1) by simp
  next
    fix e s' assume "e \<in> set (current s)" and "?P s'"
    then show "?P (snd (validate_entry e s'))" using fits by (simp add: I_validate_entry)
  qed
  then show ?thesis
    using assms(3) by (simp add: onPrepareQuorum_def Let_def split_beta I_finish)
qed

lemma I_accept_entry:
  "I s \<Longrightarrow> req_fits (be_request e) \<Longrightarrow> ballot_fits (accept_num s) \<Longrightarrow> I (accept_entry e s)"
  by (auto simp: accept_entry_def Let_def intro!: I_commit)

lemma I_onAcceptQuorum:
  assumes "I s" and "env_ok s" and "has_next_ballot (ballot_num s)"
  shows "I (onAcceptQuorum s)"
proof -
  define s2 where "s2 = emit_all (map (\<lambda>i. OutCommit i \<lparr>cq_ballot = accept_num s\<rparr>) (stub_ids s))
      (s\<lparr>await_accept_decision := False\<rparr>)"
  let ?P = "\<lambda>s'. I s' \<and> accept_num s' = accept_num s"
  have ok: "\<forall>e \<in> set (current s). req_fits (be_request e)" and fits: "ballot_fits (accept_num s)"
    using assms(2) by (auto simp: env_ok_def)
  have "?P (fold accept_entry (current s) s2)"
  proof (rule fold_invariant)
    show "?P s2" using assms(1) by (simp add: s2_def)
  next
    fix e s' assume "e \<in> set (current s)" and "?P s'"
    then show "?P (accept_entry e s')" using ok fits by (simp add: I_accept_entry)
  qed
  then show ?thesis
    using assms(3) I_finish [of "fold accept_entry (current s) s2"]
    by (simp add: onAcceptQuorum_def Let_def s2_def stub_ids_def)
qed

lemma I_abort_entry: "I s \<Longrightarrow> I (abort_entry p e s)"
  by (simp add: abort_entry_def Let_def)

lemma I_onRoundAbort: "I s \<Longrightarrow> has_next_ballot (ballot_num s) \<Longrightarrow> I (onRoundAbort p s)"
  using fold_invariant [of I s "current s" "abort_entry p"]
  by (simp add: onRoundAbort_def I_abort_entry I_finish)

lemma I_processPrepareCall: "I s \<Longrightarrow> ballot_fits (pq_ballot q) \<Longrightarrow> I (fst (processPrepareCall q s))"
  by (simp add: processPrepareCall_def Let_def persist_commutes I_ballot ballot_fits_def)

lemma I_accept_lock_entry:
  "I s \<Longrightarrow> req_fits r \<Longrightarrow> ballot_fits (accept_num s) \<Longrightarrow> I (accept_lock_entry r s)"
  by (simp add: accept_lock_entry_def Let_def I_prepare)

lemma I_processAcceptCall:
  assumes "I s" and "ballot_fits (aq_ballot q)" and "\<forall>r \<in> set (aq_batch q). req_fits r"
  shows "I (fst (processAcceptCall q s))"
proof -
  let ?s = "s\<lparr>accepted := True, accept_num := aq_ballot q, accept_batch := []\<rparr>"
  let ?P = "\<lambda>s'. I s' \<and> accept_num s' = aq_ballot q"
  have "?P (fold accept_lock_entry (aq_batch q) ?s)"
  proof (rule fold_invariant)
    show "?P ?s" using assms(1) by simp
  next
    fix r s' assume "r \<in> set (aq_batch q)" and "?P s'"
    then show "?P (accept_lock_entry r s')" using assms(2,3) by (simp add: I_accept_lock_entry)
  qed
  then show ?thesis using assms(1) by (simp add: processAcceptCall_def Let_def)
qed

lemma I_commit_unlock_entry:
  "I s \<Longrightarrow> req_fits r \<Longrightarrow> ballot_fits (accept_num s) \<Longrightarrow> I (commit_unlock_entry r s)"
  by (simp add: commit_unlock_entry_def Let_def I_commit)

lemma I_processCommitCall:
  assumes "I s" and "env_ok s"
  shows "I (processCommitCall q s)"
proof -
  let ?P = "\<lambda>s'. I s' \<and> accept_num s' = accept_num s"
  have fits: "\<forall>r \<in> set (accept_batch s). req_fits r" "ballot_fits (accept_num s)"
    using assms(2) by (auto simp: env_ok_def)
  have "?P (fold commit_unlock_entry (accept_batch s) s)"
  proof (rule fold_invariant)
    show "?P s" using assms(1) by simp
  next
    fix r s' assume "r \<in> set (accept_batch s)" and "?P s'"
    then show "?P (commit_unlock_entry r s')" using fits by (simp add: I_commit_unlock_entry)
  qed
  then show ?thesis using assms(1) by (simp add: processCommitCall_def)
qed

lemma I_processDisconnectCall: "I s \<Longrightarrow> I (processDisconnectCall names s)"
  unfolding processDisconnectCall_def
  by (rule fold_invariant) (simp_all add: resetDisconnectedState_def I_cong [OF mark_disconnected_core])

lemma I_sweep: "I s \<Longrightarrow> I (sweep_timeouts now s)"
  unfolding sweep_timeouts_def by (rule fold_invariant) (simp_all add: sweep_step_def I_expire)

lemma I_prepare_decide:
  assumes "I s" and "env_ok s" and "has_next_ballot (ballot_num s)"
  shows "I (if prepare_successes s \<ge> MAJORITY then onPrepareQuorum s
            else if prepare_failures s \<ge> MAJORITY then onRoundAbort True s else s)"
  using assms by (simp add: I_onPrepareQuorum I_onRoundAbort)

lemma I_handlePrepareReply:
  assumes "I s" and "env_ok s" and "has_next_ballot (ballot_num s)"
    and "\<And>n. ps_latest_ballot_num res = Some n \<Longrightarrow> has_next_ballot n"
  shows "I (handlePrepareReply st q res s)"
proof -
  have retry: "I (reissuePrepareForCurrent (persistBallotNum (s'\<lparr>ballot_num := n\<rparr>)))"
    if "I s'" "ps_latest_ballot_num res = Some n" for s' n
    using that assms(4) [of n] I_ballot [of s' n] I_reissue [of "set_ballot n s'"]
    by (simp add: set_ballot_def has_next_ballot_def)
  show ?thesis
    using assms(1-3) retry
    by (auto simp: handlePrepareReply_def Let_def I_onPrepareQuorum I_onRoundAbort split: option.split)
qed

lemma I_handleAcceptReply:
  assumes "I s" and "env_ok s" and "has_next_ballot (ballot_num s)"
  shows "I (handleAcceptReply st q res s)"
  using assms by (simp add: handleAcceptReply_def Let_def I_onAcceptQuorum I_onRoundAbort)

lemma I_sync_entries: "I s \<Longrightarrow> sync_entries_ok les s \<Longrightarrow> I (fold sync_entry les s)"
  by (induction les arbitrary: s) (simp_all add: I_sync)

lemma I_handleSyncReply:
  assumes "I s" and "has_next_ballot (ballot_num s)" and "sync_entries_ok (ss_logs res) s"
    and "has_next_ballot (bal_num (ss_last_inserted_ballot res))"
  shows "I (handleSyncReply st res s)"
proof -
  let ?n = "bal_num (ss_last_inserted_ballot res)"
  have "I (set_ballot ?n (fold sync_entry (ss_logs res) s))"
    using assms by (simp add: I_sync_entries I_ballot has_next_ballot_def)
  then show ?thesis
    using assms(1,2,4)
    by (simp add: handleSyncReply_def Let_def I_reissue I_maybeStart set_ballot_def)
qed

theorem I_handle:
  assumes "I s" and "env_ok s" and "has_next_ballot (ballot_num s)" and "event_ok ev s"
  shows "I (handle ev s)"
  using assms
  by (cases ev)
    (auto simp: processGetBalanceCall_def I_enqueue I_decision I_processPrepareCall I_processAcceptCall
      I_processCommitCall I_touch I_processDisconnectCall I_handleAcceptReply I_handleSyncReply I_sweep
      intro!: I_handlePrepareReply split: option.splits)

end

end
