(* ===== verification/Server_Inv.thy ===== *)
theory Server_Inv
  imports Server_Step
begin

text \<open>
  What every reachable state of a server satisfies.  Four interpretations of
  \<open>server_invariant\<close>: the Paxos index counts the agreed entries of the log, the log file
  holds the log, balances and applied tids are a replay of the log, and the store mirrors
  the balances and the ballot number.
\<close>

section \<open>Runs of a server\<close>

inductive server_reach :: "server \<Rightarrow> server \<Rightarrow> bool" where
  start: "server_reach s s"
| step: "server_reach s s' \<Longrightarrow> has_next_ballot (ballot_num s') \<Longrightarrow> event_ok ev s' \<Longrightarrow>
    server_reach s (handle ev s')"

lemma env_ok_reach: "server_reach s s' \<Longrightarrow> env_ok s \<Longrightarrow> env_ok s'"
  by (induction rule: server_reach.induct) (simp_all add: env_ok_handle)

context server_invariant
begin

lemma I_reach: "server_reach s s' \<Longrightarrow> I s \<Longrightarrow> env_ok s \<Longrightarrow> I s'"
  by (induction rule: server_reach.induct) (simp_all add: I_handle env_ok_reach)

end

section \<open>What one operation does to log and money\<close>

definition move :: "(int \<Rightarrow> bool) \<Rightarrow> transaction \<Rightarrow> (int \<Rightarrow> int) \<Rightarrow> int \<Rightarrow> int" where
  "move inC t b = (\<lambda>c. b c - (if c = sender t \<and> inC c then amount t else 0)
                          + (if c = receiver t \<and> inC c then amount t else 0))"

lemma get_balance_updates [simp]:
  "get_balance (s\<lparr>locks := l\<rparr>) = get_balance s"
  "get_balance (s\<lparr>srv_log := es\<rparr>) = get_balance s"
  "get_balance (s\<lparr>srv_wal := w\<rparr>) = get_balance s"
  "get_balance (s\<lparr>srv_db := d\<rparr>) = get_balance s"
  "get_balance (s\<lparr>balance_applied := A\<rparr>) = get_balance s"
  "get_balance (s\<lparr>paxos_index := i\<rparr>) = get_balance s"
  "get_balance (s\<lparr>ballot_num := i\<rparr>) = get_balance s"
  "get_balance (s\<lparr>last_inserted := i\<rparr>) = get_balance s"
  "get_balance (s\<lparr>last_inserted_ballot := bl\<rparr>) = get_balance s"
  "get_balance (s\<lparr>prepareTimestamps := m\<rparr>) = get_balance s"
  "get_balance (updateBalance c v s) = get_balance s"
  "get_balance (persistBallotNum s) = get_balance s"
  by (simp_all add: get_balance_def fun_eq_iff updateBalance_def persistBallotNum_def)

lemma get_balance_add [simp]: "get_balance (add_balance c d s) = (get_balance s)(c := get_balance s c + d)"
  by (simp add: get_balance_def add_balance_def fun_eq_iff)

lemma get_balance_touch [simp]: "get_balance (touch_balance c s) = get_balance s"
  by (auto simp: get_balance_def touch_balance_def fun_eq_iff)

lemma get_balance_apply_side [simp]:
  "get_balance (apply_side c d s) = (get_balance s)(c := get_balance s c + d)"
  by (simp add: apply_side_def Let_def)

lemma isClientInCluster_frames [simp]:
  "isClientInCluster (s\<lparr>srv_log := es\<rparr>) = isClientInCluster s"
  "isClientInCluster (s\<lparr>srv_wal := w\<rparr>) = isClientInCluster s"
  "isClientInCluster (s\<lparr>srv_db := db\<rparr>) = isClientInCluster s"
  "isClientInCluster (s\<lparr>balances := bs\<rparr>) = isClientInCluster s"
  "isClientInCluster (s\<lparr>balance_applied := A\<rparr>) = isClientInCluster s"
  "isClientInCluster (s\<lparr>locks := l\<rparr>) = isClientInCluster s"
  "isClientInCluster (s\<lparr>paxos_index := i\<rparr>) = isClientInCluster s"
  "isClientInCluster (s\<lparr>ballot_num := i\<rparr>) = isClientInCluster s"
  "isClientInCluster (s\<lparr>prepareTimestamps := m\<rparr>) = isClientInCluster s"
  "isClientInCluster (s\<lparr>last_inserted := i\<rparr>) = isClientInCluster s"
  "isClientInCluster (s\<lparr>last_inserted_ballot := b\<rparr>) = isClientInCluster s"
  "isClientInCluster (apply_side c d s) = isClientInCluster s"
  "isClientInCluster (touch_balance c s) = isClientInCluster s"
  "isClientInCluster (add_balance c d s) = isClientInCluster s"
  "isClientInCluster (updateBalance c v s) = isClientInCluster s"
  "isClientInCluster (persistBallotNum s) = isClientInCluster s"
  "isClientInCluster (prepareTransaction r bl s) = isClientInCluster s"
  "isClientInCluster (commitTransaction r bl s) = isClientInCluster s"
  "isClientInCluster (processTpcDecision t x s) = isClientInCluster s"
  "isClientInCluster (expire_prepare t s) = isClientInCluster s"
  "isClientInCluster (sync_entry le s) = isClientInCluster s"
  "isClientInCluster (set_ballot n s) = isClientInCluster s"
  by (simp_all add: fun_eq_iff isClientInCluster_def set_ballot_def)

lemma wal_can_open_ops [simp]:
  "wal_can_open (fst (wal_prepareTransaction r b w)) = wal_can_open w"
  "wal_can_open (fst (wal_commitTransaction r b w)) = wal_can_open w"
  "wal_can_open (fst (wal_commitTpc t w)) = wal_can_open w"
  "wal_can_open (fst (wal_abortTransaction t w)) = wal_can_open w"
  "wal_can_open (insertEntry e w) = wal_can_open w"
  by (simp_all add: wal_prepareTransaction_def wal_commitTransaction_def wal_commitTpc_def
      wal_abortTransaction_def insertEntry_def Let_def split: option.splits TransactionStatus.splits)

lemma prepare_fields [simp]:
  "srv_log (prepareTransaction r b s) = srv_log s @ [entry_of_req r b CROSS PREPARED]"
  "srv_wal (prepareTransaction r b s) = fst (wal_prepareTransaction r b (srv_wal s))"
  "paxos_index (prepareTransaction r b s) = paxos_index s + 1"
  "get_balance (prepareTransaction r b s) = get_balance s"
  by (simp_all add: prepareTransaction_def wal_prepareTransaction_def Let_def get_balance_def fun_eq_iff)

lemma commit_fields:
  assumes "wal_can_open (srv_wal s)" and "req_tid r \<notin> balance_applied s"
  shows "srv_log (commitTransaction r b s) = srv_log s @ [entry_of_req r b INTRA COMMITTED]"
    and "srv_wal (commitTransaction r b s) = fst (wal_commitTransaction r b (srv_wal s))"
    and "paxos_index (commitTransaction r b s) = paxos_index s + 1"
    and "balance_applied (commitTransaction r b s) = insert (req_tid r) (balance_applied s)"
    and "get_balance (commitTransaction r b s) = (let b0 = get_balance s;
           b1 = b0(sender (req_txn r) := b0 (sender (req_txn r)) - amount (req_txn r))
         in b1(receiver (req_txn r) := b1 (receiver (req_txn r)) + amount (req_txn r)))"
  using assms
  by (simp_all add: commitTransaction_def wal_commitTransaction_def entry_of_req_def Let_def
      add_balance_def [of _ _ "_ :: server"] get_balance_def fun_eq_iff)

lemma commit_skip: "req_tid r \<in> balance_applied s \<Longrightarrow> commitTransaction r b s = s"
  by (simp add: commitTransaction_def)

text \<open>The entry a decision produces, and the outcome of a decision.\<close>

definition tpc_result :: "bool \<Rightarrow> int \<Rightarrow> wal \<Rightarrow> wal \<times> WALEntry" where
  "tpc_result c t w = (if c then wal_commitTpc t w else wal_abortTransaction t w)"

lemma getTransactionFromFile_type [simp]: "we_type (getTransactionFromFile w pos) = CROSS"
  by (simp add: getTransactionFromFile_def error_entry_def split_beta Let_def split: option.split bool.split)

lemma tpc_result_cases:
  "snd (tpc_result c t w) = error_entry \<or>
     (\<exists>pos. snd (tpc_result c t w) = (getTransactionFromFile w pos)\<lparr>we_status := (if c then COMMITTED else ABORTED)\<rparr>)"
  by (cases "transferIndex w t"; cases "wal_can_open w")
    (auto simp: tpc_result_def wal_commitTpc_def wal_abortTransaction_def Let_def)

lemma tpc_result_entry:
  "we_type (snd (tpc_result c t w)) = CROSS"
  "we_tid (snd (tpc_result c t w)) \<noteq> -1 \<Longrightarrow> we_status (snd (tpc_result c t w)) = (if c then COMMITTED else ABORTED)"
  using tpc_result_cases [of c t w] by (auto simp: error_entry_def)

lemma wal_can_open_tpc [simp]: "wal_can_open (fst (tpc_result c t w)) = wal_can_open w"
  by (simp add: tpc_result_def)

definition decided :: "bool \<Rightarrow> int \<Rightarrow> server \<Rightarrow> bool" where
  "decided c t s \<longleftrightarrow> \<not> i_am_disconnected s \<and> we_tid (snd (tpc_result c t (srv_wal s))) \<noteq> -1"

lemma decision_fields:
  "srv_log (processTpcDecision t c s) =
     srv_log s @ (if decided c t s then [snd (tpc_result c t (srv_wal s))] else [])"
  "srv_wal (processTpcDecision t c s) =
     (if i_am_disconnected s then srv_wal s else fst (tpc_result c t (srv_wal s)))"
  by (auto simp: processTpcDecision_def decided_def Let_def split_beta tpc_result_def)

lemma decision_applied:
  "balance_applied (processTpcDecision t c s) =
     (if decided c t s \<and> c then insert (we_tid (snd (tpc_result c t (srv_wal s)))) (balance_applied s)
      else balance_applied s)"
  by (auto simp: processTpcDecision_def decided_def Let_def split_beta tpc_result_def)

lemma decision_balance:
  "get_balance (processTpcDecision t c s) =
     (let e = snd (tpc_result c t (srv_wal s)) in
      if decided c t s \<and> c \<and> we_tid e \<notin> balance_applied s
      then move (isClientInCluster s) (we_txn e) (get_balance s) else get_balance s)"
  by (auto simp: processTpcDecision_def decided_def Let_def split_beta tpc_result_def move_def fun_eq_iff)

lemma expire_fields:
  "srv_log (expire_prepare t s) = srv_log s @
     (let e = snd (tpc_result False t (srv_wal s)) in if we_tid e = -1 then [] else [e])"
  "srv_wal (expire_prepare t s) = fst (tpc_result False t (srv_wal s))"
  "get_balance (expire_prepare t s) = get_balance s"
  by (auto simp: expire_prepare_def Let_def split_beta tpc_result_def get_balance_def fun_eq_iff)

lemma sync_fields:
  "srv_log (sync_entry le s) = srv_log s @ [entry_of_LogEntry le]"
  "srv_wal (sync_entry le s) = insertEntry (entry_of_LogEntry le) (srv_wal s)"
  "paxos_index (sync_entry le s) = (if isPaxosEntry (entry_of_LogEntry le) then paxos_index s + 1 else paxos_index s)"
  "balance_applied (sync_entry le s) = (let e = entry_of_LogEntry le in
     if we_status e = COMMITTED then insert (we_tid e) (balance_applied s) else balance_applied s)"
  by (simp_all add: sync_entry_def Let_def)

lemma sync_balance:
  "get_balance (sync_entry le s) = (let e = entry_of_LogEntry le in
     if we_status e = COMMITTED \<and> we_tid e \<notin> balance_applied s
     then move (isClientInCluster s) (we_txn e) (get_balance s) else get_balance s)"
  by (auto simp: sync_entry_def Let_def move_def fun_eq_iff)

section \<open>The Paxos index counts the agreed entries\<close>

definition counts_paxos :: "server \<Rightarrow> bool" where
  "counts_paxos s \<longleftrightarrow> wal_can_open (srv_wal s)
     \<and> paxos_index s = int (length (filter isPaxosEntry (srv_log s))) - 1"

lemma isPaxosEntry_ops [simp]:
  "isPaxosEntry (entry_of_req r b CROSS PREPARED)"
  "isPaxosEntry (entry_of_req r b INTRA COMMITTED)"
  by (simp_all add: isPaxosEntry_def entry_of_req_def)

lemma isPaxosEntry_decision: "we_tid (snd (tpc_result c t w)) \<noteq> -1 \<Longrightarrow> \<not> isPaxosEntry (snd (tpc_result c t w))"
  by (simp add: isPaxosEntry_def tpc_result_entry)

interpretation paxos_count: server_invariant counts_paxos
proof
  show "counts_paxos s \<Longrightarrow> core s' = core s \<Longrightarrow> counts_paxos s'" for s s'
    by (simp add: counts_paxos_def core_def)
  show "counts_paxos s \<Longrightarrow> counts_paxos (commitTransaction r b s)" for s r b
    by (cases "req_tid r \<in> balance_applied s") (simp_all add: counts_paxos_def commit_fields commit_skip)
  show "counts_paxos s \<Longrightarrow> counts_paxos (processTpcDecision t d s)" for s t d
    by (simp add: counts_paxos_def decision_fields decided_def isPaxosEntry_decision)
  show "counts_paxos s \<Longrightarrow> counts_paxos (expire_prepare t s)" for s t
    by (simp add: counts_paxos_def expire_fields isPaxosEntry_decision Let_def)
qed (simp_all add: counts_paxos_def sync_fields set_ballot_def)

section \<open>The log file holds the log\<close>

definition log_in_wal :: "server \<Rightarrow> bool" where
  "log_in_wal s \<longleftrightarrow> transferIndex (srv_wal s) (-1) = None
     \<and> (\<exists>rs. wal_rel (srv_wal s) rs \<and> srv_log s = List.map_filter entry_of_rec rs)"

lemma map_filter_snoc:
  "List.map_filter f (xs @ [x]) = List.map_filter f xs @ (case f x of None \<Rightarrow> [] | Some y \<Rightarrow> [y])"
  by (simp add: List.map_filter_def split: option.split)

lemma log_in_wal_extend:
  assumes "log_in_wal s" and "\<And>rs. wal_rel (srv_wal s) rs \<Longrightarrow> wal_rel (srv_wal s') (rs @ [r])"
    and "entry_of_rec r = Some e" and "srv_log s' = srv_log s @ [e]"
    and "we_tid (snd r) \<noteq> -1"
  shows "log_in_wal s'"
proof -
  obtain rs where rs: "wal_rel (srv_wal s) rs" "srv_log s = List.map_filter entry_of_rec rs"
    and no: "transferIndex (srv_wal s) (-1) = None"
    using assms(1) by (auto simp: log_in_wal_def)
  have rel: "wal_rel (srv_wal s') (rs @ [r])" using assms(2) rs(1) by blast
  then have "transferIndex (srv_wal s') (-1) = None"
    using rs(1) no assms(5) by (simp add: wal_rel_def index_of_recs_snoc index_step_def)
  moreover have "srv_log s' = List.map_filter entry_of_rec (rs @ [r])"
    using rs(2) assms(3,4) by (simp add: map_filter_snoc)
  ultimately show ?thesis using rel by (auto simp: log_in_wal_def)
qed

lemma tpc_result_pending:
  assumes "wal_rel w rs" and "wal_pending w t = Some e"
  shows "wal_rel (fst (tpc_result c t w)) (rs @ [(if c then ''CS_COMMIT'' else ''CS_ABORT'', e)])"
    and "snd (tpc_result c t w) = e\<lparr>we_status := (if c then COMMITTED else ABORTED)\<rparr>"
  using wal_rel_decision [OF assms] by (simp_all add: tpc_result_def wal_decision_pending [OF assms])

lemma tpc_result_unknown: "wal_pending w t = None \<Longrightarrow> tpc_result c t w = (w, error_entry)"
  by (simp add: tpc_result_def wal_decision_unknown)

lemma log_in_wal_same: "log_in_wal s \<Longrightarrow> srv_wal s' = srv_wal s \<Longrightarrow> srv_log s' = srv_log s \<Longrightarrow> log_in_wal s'"
  by (simp add: log_in_wal_def)

text \<open>A decision writes one record and logs its entry, or changes neither.\<close>

lemma log_in_wal_tpc:
  assumes "log_in_wal s" and "srv_wal s' = fst (tpc_result c t (srv_wal s))"
    and "srv_log s' = srv_log s @ (let e = snd (tpc_result c t (srv_wal s)) in if we_tid e = -1 then [] else [e])"
  shows "log_in_wal s'"
proof (cases "wal_pending (srv_wal s) t")
  case None
  then show ?thesis
    using assms by (auto simp: tpc_result_unknown error_entry_def intro: log_in_wal_same)
next
  case (Some e)
  obtain rs where rs: "wal_rel (srv_wal s) rs" using assms(1) by (auto simp: log_in_wal_def)
  have "t \<noteq> -1" using Some assms(1) by (auto simp: log_in_wal_def wal_pending_def)
  then have e: "we_tid e \<noteq> -1" "we_type e = CROSS" using wal_pending_fits [OF rs Some] by simp_all
  let ?op = "if c then ''CS_COMMIT'' else ''CS_ABORT''" and ?st = "if c then COMMITTED else ABORTED"
  show ?thesis
  proof (rule log_in_wal_extend [OF assms(1)])
    show "wal_rel (srv_wal s') (rs' @ [(?op, e)])" if "wal_rel (srv_wal s) rs'" for rs'
      using tpc_result_pending(1) [OF that Some] assms(2) by simp
    show "entry_of_rec (?op, e) = Some (e\<lparr>we_status := ?st\<rparr>)"
      using e(2) by (simp add: entry_of_rec_def)
    show "srv_log s' = srv_log s @ [e\<lparr>we_status := ?st\<rparr>]"
      using assms(3) e(1) tpc_result_pending(2) [OF rs Some, of c] by simp
    show "we_tid (snd (?op, e)) \<noteq> -1" using e(1) by simp
  qed
qed

lemma log_in_wal_prepare:
  assumes "log_in_wal s" and "req_fits r" and "ballot_fits b"
  shows "log_in_wal (prepareTransaction r b s)"
  using assms(2,3)
  by (intro log_in_wal_extend [OF assms(1)])
    (auto intro: wal_rel_prepare simp: entry_of_rec_def entry_of_req_def req_fits_def)

lemma log_in_wal_commit:
  assumes "log_in_wal s" and "req_fits r" and "ballot_fits b"
  shows "log_in_wal (commitTransaction r b s)"
proof (cases "req_tid r \<in> balance_applied s")
  case False
  have "wal_can_open (srv_wal s)" using assms(1) wal_rel_open by (auto simp: log_in_wal_def)
  with False assms(2,3) show ?thesis
    by (intro log_in_wal_extend [OF assms(1)])
      (auto simp: commit_fields entry_of_rec_def entry_of_req_def req_fits_def intro: wal_rel_commit)
qed (simp add: commit_skip assms(1))

lemma log_in_wal_sync:
  assumes "log_in_wal s" and "sync_entry_ok s le"
  shows "log_in_wal (sync_entry le s)"
proof (rule log_in_wal_extend [OF assms(1)])
  let ?e = "entry_of_LogEntry le"
  show "wal_rel (srv_wal (sync_entry le s)) (rs @ [(insert_op ?e, ?e)])" if "wal_rel (srv_wal s) rs" for rs
    using assms(2) wal_rel_insert [OF that, of ?e]
    by (auto simp: sync_fields sync_entry_ok_def Let_def insertable_def)
  show "entry_of_rec (insert_op ?e, ?e) = Some ?e"
    using assms(2) by (intro entry_of_rec_insert) (auto simp: sync_entry_ok_def Let_def)
qed (use assms(2) in \<open>simp_all add: sync_fields sync_entry_ok_def Let_def\<close>)

interpretation wal_mirror: server_invariant log_in_wal
proof
  show "log_in_wal (processTpcDecision t d s)" if "log_in_wal s" for s t d
  proof (cases "i_am_disconnected s")
    case True
    then show ?thesis using that by (simp add: processTpcDecision_def)
  next
    case False
    then show ?thesis
      by (intro log_in_wal_tpc [OF that, of _ d t]) (simp_all add: decision_fields decided_def Let_def)
  qed
  show "log_in_wal s \<Longrightarrow> log_in_wal (expire_prepare t s)" for s t
    by (erule log_in_wal_tpc [where c = False and t = t]) (simp_all add: expire_fields)
  show "core s' = core s \<Longrightarrow> log_in_wal s \<Longrightarrow> log_in_wal s'" for s s'
    by (erule log_in_wal_same) (simp_all add: core_def)
  show "log_in_wal s \<Longrightarrow> log_in_wal (touch_balance a s)" for s a
    by (erule log_in_wal_same) simp_all
  show "log_in_wal s \<Longrightarrow> log_in_wal (set_ballot n s)" for s n
    by (erule log_in_wal_same) (simp_all add: set_ballot_def)
qed (simp_all add: log_in_wal_prepare log_in_wal_commit log_in_wal_sync)

section \<open>Balances are a replay of the log\<close>

text \<open>
  The specification of money: an entry moves its amount when it is committed and its tid has
  not been applied before; only accounts of the own shard change.
\<close>

definition ledger_step :: "(int \<Rightarrow> bool) \<Rightarrow> WALEntry \<Rightarrow> (int \<Rightarrow> int) \<times> int set \<Rightarrow> (int \<Rightarrow> int) \<times> int set" where
  "ledger_step inC e = (\<lambda>(b, A).
     if we_status e = COMMITTED \<and> we_tid e \<notin> A then (move inC (we_txn e) b, insert (we_tid e) A) else (b, A))"

definition ledger_of :: "(int \<Rightarrow> bool) \<Rightarrow> WALEntry list \<Rightarrow> (int \<Rightarrow> int) \<Rightarrow> (int \<Rightarrow> int) \<times> int set" where
  "ledger_of inC es b = fold (ledger_step inC) es (b, {})"

definition follows_ledger :: "(int \<Rightarrow> int) \<Rightarrow> WALEntry list \<Rightarrow> server \<Rightarrow> bool" where
  "follows_ledger b0 l0 s \<longleftrightarrow> wal_can_open (srv_wal s) \<and>
     (\<exists>es. srv_log s = l0 @ es
        \<and> (\<forall>a. isClientInCluster s a \<longrightarrow> get_balance s a = fst (ledger_of (isClientInCluster s) es b0) a)
        \<and> balance_applied s = snd (ledger_of (isClientInCluster s) es b0))"

lemma follows_ledger_same:
  assumes "follows_ledger b0 l0 s" and "srv_log s' = srv_log s" and "get_balance s' = get_balance s"
    and "balance_applied s' = balance_applied s" and "isClientInCluster s' = isClientInCluster s"
    and "wal_can_open (srv_wal s') = wal_can_open (srv_wal s)"
  shows "follows_ledger b0 l0 s'"
  using assms by (simp add: follows_ledger_def)

lemma ledger_step_own:
  "f a = g a \<Longrightarrow> fst (ledger_step inC e (f, A)) a = fst (ledger_step inC e (g, A)) a"
  "snd (ledger_step inC e (f, A)) = (if we_status e = COMMITTED then insert (we_tid e) A else A)"
  by (auto simp: ledger_step_def move_def)

lemma follows_ledger_extend:
  assumes "follows_ledger b0 l0 s" and "srv_log s' = srv_log s @ [e]"
    and "\<And>a. isClientInCluster s a \<Longrightarrow>
           get_balance s' a = fst (ledger_step (isClientInCluster s) e (get_balance s, balance_applied s)) a"
    and "balance_applied s' = (if we_status e = COMMITTED then insert (we_tid e) (balance_applied s) else balance_applied s)"
    and "isClientInCluster s' = isClientInCluster s"
    and "wal_can_open (srv_wal s') = wal_can_open (srv_wal s)"
  shows "follows_ledger b0 l0 s'"
proof -
  let ?inC = "isClientInCluster s"
  obtain es where es: "srv_log s = l0 @ es" "\<And>a. ?inC a \<Longrightarrow> get_balance s a = fst (ledger_of ?inC es b0) a"
    "balance_applied s = snd (ledger_of ?inC es b0)"
    using assms(1) by (auto simp: follows_ledger_def)
  define f A where "f = fst (ledger_of ?inC es b0)" and "A = snd (ledger_of ?inC es b0)"
  have step: "ledger_of ?inC (es @ [e]) b0 = ledger_step ?inC e (f, A)" by (simp add: ledger_of_def f_def A_def)
  have "get_balance s' a = fst (ledger_of ?inC (es @ [e]) b0) a" if "?inC a" for a
    using assms(3) [OF that] es(2) [OF that] es(3) ledger_step_own(1) [of "get_balance s" a f ?inC e A]
    by (simp add: step f_def A_def)
  moreover have "balance_applied s' = snd (ledger_of ?inC (es @ [e]) b0)"
    using assms(4) es(3) by (simp add: step ledger_step_own(2) A_def)
  moreover have "srv_log s' = l0 @ (es @ [e])" using es(1) assms(2) by simp
  ultimately show ?thesis using assms(1,5,6) unfolding follows_ledger_def by metis
qed

lemma commit_own:
  assumes "wal_can_open (srv_wal s)" and "req_tid r \<notin> balance_applied s" and "isClientInCluster s a"
  shows "get_balance (commitTransaction r b s) a = move (isClientInCluster s) (req_txn r) (get_balance s) a"
  using assms by (auto simp: commit_fields move_def Let_def)

lemma follows_ledger_commit:
  assumes "follows_ledger b0 l0 s"
  shows "follows_ledger b0 l0 (commitTransaction r b s)"
proof (cases "req_tid r \<in> balance_applied s")
  case False
  have opn: "wal_can_open (srv_wal s)" using assms(1) by (simp add: follows_ledger_def)
  show ?thesis
    by (rule follows_ledger_extend [OF assms(1) commit_fields(1) [OF opn False]])
      (simp_all add: commit_fields(1-4) opn False commit_own ledger_step_def entry_of_req_def)
qed (simp add: commit_skip assms(1))

lemma follows_ledger_decision:
  assumes "follows_ledger b0 l0 s"
  shows "follows_ledger b0 l0 (processTpcDecision t c s)"
proof (cases "decided c t s")
  case True
  let ?e = "snd (tpc_result c t (srv_wal s))"
  have "we_status ?e = (if c then COMMITTED else ABORTED)"
    using True tpc_result_entry(2) by (simp add: decided_def)
  with True show ?thesis
    by (intro follows_ledger_extend [OF assms, of _ ?e])
      (simp_all add: decision_fields decision_applied decision_balance ledger_step_def Let_def insert_absorb)
next
  case False
  then show ?thesis
    by (intro follows_ledger_same [OF assms])
      (simp_all add: decision_fields decision_applied decision_balance Let_def)
qed

lemma follows_ledger_expire:
  assumes "follows_ledger b0 l0 s"
  shows "follows_ledger b0 l0 (expire_prepare t s)"
proof (cases "we_tid (snd (tpc_result False t (srv_wal s))) = -1")
  case True
  then show ?thesis by (intro follows_ledger_same [OF assms]) (simp_all add: expire_fields)
next
  case False
  with tpc_result_entry(2) [OF False] show ?thesis
    by (intro follows_ledger_extend [OF assms, of _ "snd (tpc_result False t (srv_wal s))"])
      (simp_all add: expire_fields ledger_step_def)
qed

lemma follows_ledger_sync: "follows_ledger b0 l0 s \<Longrightarrow> follows_ledger b0 l0 (sync_entry le s)"
  by (erule follows_ledger_extend [of _ _ _ _ "entry_of_LogEntry le"])
    (simp_all add: sync_fields sync_balance ledger_step_def Let_def insert_absorb)

lemma follows_ledger_prepare: "follows_ledger b0 l0 s \<Longrightarrow> follows_ledger b0 l0 (prepareTransaction r b s)"
  by (erule follows_ledger_extend [of _ _ _ _ "entry_of_req r b CROSS PREPARED"])
    (simp_all add: ledger_step_def entry_of_req_def)

lemma core_balance: "core s' = core s \<Longrightarrow> get_balance s' = get_balance s"
  by (simp add: core_def get_balance_def fun_eq_iff)

interpretation ledger: server_invariant "follows_ledger b0 l0" for b0 l0
proof
  show "follows_ledger b0 l0 s'" if "core s' = core s" "follows_ledger b0 l0 s" for s s'
    using follows_ledger_same [OF that(2), of s'] that(1) core_balance [OF that(1)]
      core_isClientInCluster [OF that(1)]
    by (auto simp: core_def)
  show "follows_ledger b0 l0 s \<Longrightarrow> follows_ledger b0 l0 (touch_balance a s)" for s a
    by (erule follows_ledger_same) simp_all
  show "follows_ledger b0 l0 s \<Longrightarrow> follows_ledger b0 l0 (set_ballot n s)" for s n
    by (erule follows_ledger_same) (simp_all add: set_ballot_def)
qed (simp_all add: follows_ledger_prepare follows_ledger_commit follows_ledger_decision
    follows_ledger_expire follows_ledger_sync)

section \<open>The store mirrors balances and ballot number\<close>

definition own_account :: "server \<Rightarrow> int \<Rightarrow> bool" where
  "own_account s c \<longleftrightarrow> 1 \<le> c \<and> c \<le> total_clients \<and> isClientInCluster s c"

text \<open>The store is right except for the accounts of a set that is being written.\<close>

definition mirrors_except :: "int set \<Rightarrow> server \<Rightarrow> bool" where
  "mirrors_except S s \<longleftrightarrow> db_healthy (srv_db s)
     \<and> db_get (srv_db s) ballot_key = (DbOk, to_string (ballot_num s))
     \<and> (\<forall>c. own_account s c \<and> c \<notin> S \<longrightarrow> db_get (srv_db s) (to_string c) = (DbOk, to_string (get_balance s c)))"

definition store_mirrors :: "server \<Rightarrow> bool" where
  "store_mirrors s \<longleftrightarrow> mirrors_except {} s"

lemma to_string_not_ballot_key [simp]: "to_string c \<noteq> ballot_key" "ballot_key \<noteq> to_string c"
proof -
  have "CHR ''_'' \<notin> set (to_string c)"
    using to_string_chars [of "CHR ''_''" c] by (auto simp: is_digit_def)
  moreover have "CHR ''_'' \<in> set ballot_key" by (simp add: ballot_key_def)
  ultimately show "to_string c \<noteq> ballot_key" "ballot_key \<noteq> to_string c" by metis+
qed

lemma mirrors_cong:
  assumes "mirrors_except S s" and "srv_db s' = srv_db s" and "ballot_num s' = ballot_num s"
    and "get_balance s' = get_balance s" and "isClientInCluster s' = isClientInCluster s"
  shows "mirrors_except S s'"
  using assms by (simp add: mirrors_except_def own_account_def)

lemma mirrors_add: "mirrors_except S s \<Longrightarrow> mirrors_except (insert c S) (add_balance c d s)"
  by (auto simp: mirrors_except_def own_account_def)

lemma mirrors_update:
  assumes "mirrors_except S s"
  shows "mirrors_except (S - {c}) (updateBalance c (get_balance s c) s)"
  using assms kv.put_healthy kv.get_put
  by (auto simp: mirrors_except_def updateBalance_def own_account_def)

lemma mirrors_weaken: "mirrors_except S s \<Longrightarrow> S \<subseteq> S' \<Longrightarrow> mirrors_except S' s"
  by (auto simp: mirrors_except_def)

lemma store_mirrors_same:
  "store_mirrors s \<Longrightarrow> srv_db s' = srv_db s \<Longrightarrow> ballot_num s' = ballot_num s \<Longrightarrow>
     get_balance s' = get_balance s \<Longrightarrow> isClientInCluster s' = isClientInCluster s \<Longrightarrow> store_mirrors s'"
  unfolding store_mirrors_def by (rule mirrors_cong)

lemma store_mirrors_apply_side: "store_mirrors s \<Longrightarrow> store_mirrors (apply_side c d s)"
  unfolding store_mirrors_def apply_side_def Let_def
  by (rule mirrors_weaken [OF mirrors_update [OF mirrors_add]]) auto

lemma store_mirrors_ballot: "store_mirrors s \<Longrightarrow> store_mirrors (set_ballot n s)"
  using kv.put_healthy kv.get_put
  by (auto simp: store_mirrors_def mirrors_except_def set_ballot_def persistBallotNum_def own_account_def)

text \<open>The writes of \<open>commitTransaction\<close>: two balances in memory, then both in the store.\<close>

lemma store_mirrors_two:
  fixes c d c' d' s
  assumes "store_mirrors s"
  defines "s1 \<equiv> add_balance c' d' (add_balance c d s)"
  shows "store_mirrors (updateBalance c' (get_balance s1 c') (updateBalance c (get_balance s1 c) s1))"
proof -
  have "mirrors_except {c', c} s1"
    using assms(1) mirrors_add unfolding s1_def store_mirrors_def by blast
  then have "mirrors_except ({c', c} - {c}) (updateBalance c (get_balance s1 c) s1)"
    by (rule mirrors_update)
  from mirrors_update [OF this, of c'] show ?thesis
    unfolding store_mirrors_def using mirrors_weaken [of "{c', c} - {c} - {c'}" _ "{}"] by auto
qed

lemma store_mirrors_commit:
  assumes "store_mirrors s"
  shows "store_mirrors (commitTransaction r b s)"
proof (cases "req_tid r \<in> balance_applied s")
  case False
  let ?w = "fst (wal_commitTransaction r b (srv_wal s))" and ?e = "snd (wal_commitTransaction r b (srv_wal s))"
  let ?s = "s\<lparr>balance_applied := insert (req_tid r) (balance_applied s), srv_wal := ?w, srv_log := srv_log s @ [?e]\<rparr>"
  have "store_mirrors ?s" by (rule store_mirrors_same [OF assms]) simp_all
  from store_mirrors_two [OF this, of "receiver (we_txn ?e)" "amount (we_txn ?e)"
      "sender (we_txn ?e)" "- amount (we_txn ?e)"]
  show ?thesis
    by (rule store_mirrors_same) (simp_all add: commitTransaction_def False Let_def split_beta)
qed (simp add: commit_skip assms)

lemma store_mirrors_updates [simp]:
  "store_mirrors (s\<lparr>locks := l\<rparr>) = store_mirrors s"
  "store_mirrors (s\<lparr>srv_log := es\<rparr>) = store_mirrors s"
  "store_mirrors (s\<lparr>srv_wal := w\<rparr>) = store_mirrors s"
  "store_mirrors (s\<lparr>balance_applied := A\<rparr>) = store_mirrors s"
  "store_mirrors (s\<lparr>prepareTimestamps := m\<rparr>) = store_mirrors s"
  "store_mirrors (s\<lparr>paxos_index := i\<rparr>) = store_mirrors s"
  by (simp_all add: store_mirrors_def mirrors_except_def own_account_def)

lemma store_mirrors_decision: "store_mirrors s \<Longrightarrow> store_mirrors (processTpcDecision t c s)"
  by (simp add: processTpcDecision_def Let_def split_beta store_mirrors_apply_side)

lemma store_mirrors_sync: "store_mirrors s \<Longrightarrow> store_mirrors (sync_entry le s)"
  by (simp add: sync_entry_def Let_def store_mirrors_apply_side)

interpretation mirror: server_invariant store_mirrors
proof
  show "store_mirrors s'" if "core s' = core s" "store_mirrors s" for s s'
    using store_mirrors_same [OF that(2), of s'] that(1) core_balance [OF that(1)]
      core_isClientInCluster [OF that(1)]
    by (auto simp: core_def)
  show "store_mirrors s \<Longrightarrow> store_mirrors (touch_balance a s)" for s a
    by (erule store_mirrors_same) simp_all
  show "store_mirrors s \<Longrightarrow> store_mirrors (prepareTransaction r b s)" for s r b
    by (erule store_mirrors_same) simp_all
  show "store_mirrors s \<Longrightarrow> store_mirrors (expire_prepare t s)" for s t
    by (erule store_mirrors_same) (simp_all add: expire_fields)
qed (simp_all add: store_mirrors_commit store_mirrors_decision store_mirrors_sync store_mirrors_ballot)

section \<open>A concrete server\<close>

text \<open>Server 1 of a cluster of three, at start, and after it accepted a cross-shard transfer.\<close>

definition sample_conf :: config where
  "sample_conf = \<lparr>num_clusters = 3, cluster_size = 3, server_addresses = [],
     server_ids = [(''S1'', 1), (''S2'', 2), (''S3'', 3)]\<rparr>"

definition sample_db :: kvdb where
  "sample_db = \<lparr>kv_data = (\<lambda>k. Some (if k = ballot_key then ''0'' else ''10'')), kv_read_ok = True, kv_write_ok = True\<rparr>"

definition sample_server :: server where
  "sample_server = (ServerImpl 1 ''S1'' sample_conf (wal_init None True error_entry) sample_db)
     \<lparr>balances := (\<lambda>_. Some 10), stubs := [(2, ()), (3, ())]\<rparr>"

definition sample_prepare :: event where
  "sample_prepare = EvPrepare \<lparr>pq_ballot = sample_ballot, pq_paxos_index = -1\<rparr>"

definition sample_accept :: event where
  "sample_accept = EvAccept \<lparr>aq_ballot = sample_ballot, aq_batch = [sample_req]\<rparr>"

definition sample_replica :: server where
  "sample_replica = handle sample_accept (handle sample_prepare sample_server)"

lemma sample_clusters [simp]:
  "isClientInCluster sample_server 12" "\<not> isClientInCluster sample_server 1500"
  "getClusterIdFromServerId sample_conf 1 = 1" "getClusterIdFromServerId sample_conf 2 = 1"
  "getClusterIdFromServerId sample_conf 3 = 1" "num_clusters sample_conf = 3"
  by (simp_all add: isClientInCluster_def sample_server_def ServerImpl_def resetDisconnectedState_def
      getClusterIdFromClientId_def getClusterIdFromServerId_def sample_conf_def ceil_div_def total_clients_def)

lemma to_string_digits [simp]: "to_string 10 = ''10''" "to_string 0 = ''0''"
  by (simp_all add: to_string_def show_nat.simps digit_char_def)

lemma sample_server_ok:
  "env_ok sample_server" "counts_paxos sample_server" "log_in_wal sample_server" "store_mirrors sample_server"
  "follows_ledger (\<lambda>_. 10) [] sample_server"
proof -
  show "env_ok sample_server"
    by (simp add: env_ok_def sample_server_def ServerImpl_def resetDisconnectedState_def
        default_ballot_def ballot_fits_def int_type_defs)
  show "counts_paxos sample_server"
    by (simp add: counts_paxos_def sample_server_def ServerImpl_def resetDisconnectedState_def wal_init_def)
  show "log_in_wal sample_server"
    using wal_rel_fresh [of error_entry]
    by (auto simp: log_in_wal_def sample_server_def ServerImpl_def resetDisconnectedState_def wal_init_def
        map_filter_simps intro!: exI [of _ "[]"])
  show "store_mirrors sample_server"
    by (simp add: store_mirrors_def mirrors_except_def sample_server_def ServerImpl_def resetDisconnectedState_def
        sample_db_def db_healthy_def db_get_def get_balance_def)
  show "follows_ledger (\<lambda>_. 10) [] sample_server"
    by (simp add: follows_ledger_def sample_server_def ServerImpl_def resetDisconnectedState_def wal_init_def
        ledger_of_def get_balance_def fun_eq_iff)
qed

lemma sample_steps:
  "server_reach sample_server (handle sample_prepare sample_server)"
  "server_reach sample_server sample_replica"
proof -
  have "has_next_ballot (ballot_num sample_server)" "event_ok sample_prepare sample_server"
    using sample_ballot_fits
    by (simp_all add: sample_prepare_def sample_server_def ServerImpl_def resetDisconnectedState_def
        has_next_ballot_def int_type_defs)
  then show 1: "server_reach sample_server (handle sample_prepare sample_server)"
    by (intro server_reach.intros)
  have "has_next_ballot (ballot_num (handle sample_prepare sample_server))"
      "event_ok sample_accept (handle sample_prepare sample_server)"
    using sample_ballot_fits sample_req_fits
    by (simp_all add: sample_accept_def sample_prepare_def sample_server_def ServerImpl_def resetDisconnectedState_def
        has_next_ballot_def int_type_defs processPrepareCall_def sample_ballot_def)
  with 1 show "server_reach sample_server sample_replica"
    unfolding sample_replica_def by (rule server_reach.step)
qed

lemma sample_replica_fields:
  "cluster_id sample_replica = 1" "conf sample_replica = sample_conf" "locks sample_replica = {12}"
  "get_balance sample_replica = (\<lambda>_. 10)" "prepareTimestamps sample_replica = [(77, 0)]"
  "srv_wal sample_replica = sample_wal"
  "srv_log sample_replica = [entry_of_req sample_req sample_ballot CROSS PREPARED]"
  by (simp_all add: sample_replica_def sample_accept_def sample_prepare_def processPrepareCall_def processAcceptCall_def
      accept_lock_entry_def prepareTransaction_def sample_server_def ServerImpl_def resetDisconnectedState_def
      sample_ballot_def sample_req_def sample_wal_def wal_prepareTransaction_def isClientInCluster_def
      getClusterIdFromClientId_def ceil_div_def total_clients_def get_balance_def fun_eq_iff
      persistBallotNum_def Let_def sample_wal_def)

section \<open>Properties\<close>

text \<open>C14. In every reachable state the Paxos index is the number of agreed entries of the log
  minus one: prepares and intra-shard commits count, 2PC decisions and timeout aborts do not,
  whether an entry came from an own round, from a leader or from a sync.\<close>

theorem paxos_index_counts:
  assumes "server_reach s0 s" and "env_ok s0" and "wal_can_open (srv_wal s0)"
    and "paxos_index s0 = int (length (filter isPaxosEntry (srv_log s0))) - 1"
  shows "paxos_index s = int (length (filter isPaxosEntry (srv_log s))) - 1"
  using paxos_count.I_reach [OF assms(1)] assms(2-4) by (simp add: counts_paxos_def)

theorem paxos_index_counts_witness:
  "server_reach sample_server sample_replica \<and>
   paxos_index sample_replica = int (length (filter isPaxosEntry (srv_log sample_replica))) - 1"
  using paxos_index_counts [OF sample_steps(2) sample_server_ok(1)] sample_server_ok(2) sample_steps(2)
  by (simp add: counts_paxos_def)

lemma ledger_applied: "snd (fold (ledger_step inC) es (b, A)) = A \<union> we_tid ` {e \<in> set es. we_status e = COMMITTED}"
  by (induction es arbitrary: b A) (auto simp: ledger_step_def)

text \<open>C3. The ledger.  A run starts in a state with no applied transaction and handles any events whose
  numbers fit their 32-bit types and whose synchronised entries are of the kinds a log holds.  After it the balance of
  every account of the own shard is that of the log the run has appended, replayed by a specification that moves the
  amount of a committed entry the first time its tid appears; the applied tids are exactly the committed ones.  A
  transfer may name accounts of other shards: what the server keeps under such an account is not part of the claim.\<close>

theorem balances_follow_ledger:
  assumes "server_reach s0 s" and "env_ok s0" and "wal_can_open (srv_wal s0)" and "balance_applied s0 = {}"
  shows "\<exists>es. srv_log s = srv_log s0 @ es
    \<and> (\<forall>a. isClientInCluster s a \<longrightarrow> get_balance s a = fst (ledger_of (isClientInCluster s) es (get_balance s0)) a)
    \<and> balance_applied s = we_tid ` {e \<in> set es. we_status e = COMMITTED}"
proof -
  have "follows_ledger (get_balance s0) (srv_log s0) s0"
    using assms(3,4) by (simp add: follows_ledger_def ledger_of_def)
  then have "follows_ledger (get_balance s0) (srv_log s0) s"
    using ledger.I_reach [OF assms(1)] assms(2) by blast
  then show ?thesis by (auto simp: follows_ledger_def ledger_of_def ledger_applied)
qed

definition sample_commit :: event where "sample_commit = EvTpcCommit 77"

theorem balances_follow_ledger_witness:
  "\<exists>es. srv_log (handle sample_commit sample_replica) = srv_log sample_server @ es
    \<and> get_balance (handle sample_commit sample_replica) 12
        = fst (ledger_of (isClientInCluster (handle sample_commit sample_replica)) es (get_balance sample_server)) 12"
proof -
  have "ballot_num sample_replica = 3"
    by (simp add: sample_replica_def sample_accept_def sample_prepare_def processPrepareCall_def processAcceptCall_def
        sample_server_def ServerImpl_def resetDisconnectedState_def sample_ballot_def Let_def)
  then have "server_reach sample_server (handle sample_commit sample_replica)"
    by (intro server_reach.step sample_steps(2)) (simp_all add: sample_commit_def has_next_ballot_def int_type_defs)
  moreover have "wal_can_open (srv_wal sample_server)" "balance_applied sample_server = {}"
    by (simp_all add: sample_server_def ServerImpl_def resetDisconnectedState_def wal_init_def)
  moreover have "isClientInCluster (handle sample_commit sample_replica) 12"
    by (simp add: sample_commit_def isClientInCluster_def sample_replica_fields getClusterIdFromClientId_def
        ceil_div_def total_clients_def)
  ultimately show ?thesis
    using balances_follow_ledger [OF _ sample_server_ok(1)] by blast
qed

text \<open>C13. The store is never behind: in every reachable state the database holds, under the
  key of each account of the shard, the number the server has in memory, and under the ballot
  key its current ballot number.\<close>

theorem store_never_behind:
  assumes "server_reach s0 s" and "env_ok s0" and "store_mirrors s0"
  shows "db_get (srv_db s) ballot_key = (DbOk, to_string (ballot_num s))
    \<and> (\<forall>a. own_account s a \<longrightarrow> db_get (srv_db s) (to_string a) = (DbOk, to_string (get_balance s a)))"
  using mirror.I_reach [OF assms(1)] assms(2,3) by (simp add: store_mirrors_def mirrors_except_def)

theorem store_never_behind_witness:
  "server_reach sample_server sample_replica \<and> own_account sample_replica 12 \<and>
   db_get (srv_db sample_replica) ballot_key = (DbOk, to_string (ballot_num sample_replica)) \<and>
   db_get (srv_db sample_replica) (to_string 12) = (DbOk, ''10'')"
proof -
  have own: "own_account sample_replica 12"
    by (simp add: own_account_def isClientInCluster_def sample_replica_fields getClusterIdFromClientId_def
        ceil_div_def total_clients_def)
  then show ?thesis
    using store_never_behind [OF sample_steps(2) sample_server_ok(1,4)] sample_steps(2)
    by (simp add: sample_replica_fields)
qed

text \<open>C12. The log file is never behind: at any point of a run, recovery on the current file
  returns exactly the log the server has in memory and the index of prepared transactions it
  is using.\<close>

theorem log_file_never_behind:
  assumes "server_reach s0 s" and "env_ok s0" and "log_in_wal s0"
  shows "\<exists>bn'. wal_recover ((srv_wal s)\<lparr>transferIndex := Map.empty\<rparr>) (-1) bn []
    = (srv_wal s, int (length (srv_log s)) - 1, bn', srv_log s)"
proof -
  have "log_in_wal s" using wal_mirror.I_reach [OF assms(1)] assms(2,3) by blast
  then show ?thesis using wal_recover_recs by (auto simp: log_in_wal_def)
qed

theorem log_file_never_behind_witness:
  "server_reach sample_server sample_replica \<and>
   (\<exists>bn'. wal_recover ((srv_wal sample_replica)\<lparr>transferIndex := Map.empty\<rparr>) (-1) 0 []
    = (sample_wal, 0, bn', [entry_of_req sample_req sample_ballot CROSS PREPARED]))"
  using log_file_never_behind [OF sample_steps(2) sample_server_ok(1,3), of 0] sample_steps(2)
  by (simp add: sample_replica_fields)

end
