(* ===== verification/Recovery.thy ===== *)
theory Recovery
  imports Server_Inv
begin

text \<open>
  Start-up and crash recovery of a server: what \<open>run\<close> rebuilds from the store and the log
  file, that a first start satisfies every invariant, and that a restart of a server in a
  reachable state gives back its log, its accounts, its prepared transactions and its
  indexes.
\<close>

section \<open>Loading the store\<close>

text \<open>An account the store knows holds a number; one it does not know starts with 10.\<close>

definition stored :: "kvdb \<Rightarrow> string \<Rightarrow> int \<Rightarrow> int \<Rightarrow> bool" where
  "stored d k dflt v \<longleftrightarrow> is_int32 v \<and> (db_get d k = (DbOk, to_string v) \<or> db_get d k = (DbNotFound, []) \<and> v = dflt)"

lemma isClientInCluster_util_server [simp]:
  "isClientInCluster_util (conf s) c (cluster_id s) = isClientInCluster s c"
  by (simp add: isClientInCluster_util_def isClientInCluster_def)

lemma load_balance_skip: "\<not> isClientInCluster s i \<Longrightarrow> load_balance i s = RunServing s"
  by (simp add: load_balance_def)

lemma load_balance_stored:
  assumes "isClientInCluster s i" and "stored (srv_db s) (to_string i) 10 v" and "db_healthy (srv_db s)"
  obtains d where "load_balance i s = RunServing (s\<lparr>balances := (balances s)(i \<mapsto> v), srv_db := d\<rparr>)"
    and "db_healthy d" and "\<And>k. db_get d k = (if k = to_string i then (DbOk, to_string v) else db_get (srv_db s) k)"
proof (cases "db_get (srv_db s) (to_string i) = (DbOk, to_string v)")
  case True
  then have "load_balance i s = RunServing (s\<lparr>balances := (balances s)(i \<mapsto> v), srv_db := srv_db s\<rparr>)"
    using assms(1,2) by (simp add: load_balance_def stored_def stoi_to_string)
  with True assms(3) show thesis by (intro that [of "srv_db s"]) simp_all
next
  case False
  then have v: "db_get (srv_db s) (to_string i) = (DbNotFound, [])" "v = 10"
    using assms(2) by (auto simp: stored_def)
  let ?d = "snd (db_put (to_string i) ''10'' (srv_db s))"
  have "load_balance i s = RunServing (s\<lparr>balances := (balances s)(i \<mapsto> v), srv_db := ?d\<rparr>)"
    using assms(1,3) v kv.put_ok [of "srv_db s" "to_string i" "''10''"]
    by (simp add: load_balance_def split_beta)
  with v(2) show thesis
    using kv.put_healthy [OF assms(3)] kv.get_put [OF assms(3)] by (intro that [of ?d]) auto
qed

lemma load_balances_stored:
  assumes "db_healthy (srv_db s)"
    and "\<forall>i \<in> set is. isClientInCluster s i \<longrightarrow> stored (srv_db s) (to_string i) 10 (f i)"
  shows "\<exists>d. load_balances is s = RunServing (s\<lparr>balances := (\<lambda>c. if c \<in> set is \<and> isClientInCluster s c
              then Some (f c) else balances s c), srv_db := d\<rparr>)
     \<and> db_healthy d
     \<and> (\<forall>i \<in> set is. isClientInCluster s i \<longrightarrow> db_get d (to_string i) = (DbOk, to_string (f i)))
     \<and> (\<forall>k. k \<notin> to_string ` set is \<longrightarrow> db_get d k = db_get (srv_db s) k)"
  using assms
proof (induction "is" arbitrary: s)
  case Nil
  then show ?case by (intro exI [of _ "srv_db s"]) simp
next
  case (Cons i is')
  show ?case
  proof (cases "isClientInCluster s i")
    case False
    then have "(\<lambda>c. if c \<in> set (i # is') \<and> isClientInCluster s c then Some (f c) else balances s c)
        = (\<lambda>c. if c \<in> set is' \<and> isClientInCluster s c then Some (f c) else balances s c)"
      by (auto simp: fun_eq_iff)
    then show ?thesis
      using Cons.IH [of s] Cons.prems False by (auto simp: load_balance_skip)
  next
    case True
    then obtain d where d: "load_balance i s = RunServing (s\<lparr>balances := (balances s)(i \<mapsto> f i), srv_db := d\<rparr>)"
      "db_healthy d" "\<And>k. db_get d k = (if k = to_string i then (DbOk, to_string (f i)) else db_get (srv_db s) k)"
      using load_balance_stored [of s i "f i"] Cons.prems by (metis list.set_intros(1))
    let ?s = "s\<lparr>balances := (balances s)(i \<mapsto> f i), srv_db := d\<rparr>"
    have "\<forall>j \<in> set is'. isClientInCluster ?s j \<longrightarrow> stored (srv_db ?s) (to_string j) 10 (f j)"
      using Cons.prems True by (auto simp: stored_def d(3))
    with Cons.IH [of ?s] d(2) obtain d' where d': "load_balances is' ?s = RunServing (?s\<lparr>balances :=
         (\<lambda>c. if c \<in> set is' \<and> isClientInCluster s c then Some (f c) else balances ?s c), srv_db := d'\<rparr>)"
      "db_healthy d'" "\<forall>j \<in> set is'. isClientInCluster s j \<longrightarrow> db_get d' (to_string j) = (DbOk, to_string (f j))"
      "\<forall>k. k \<notin> to_string ` set is' \<longrightarrow> db_get d' k = db_get d k"
      by auto
    have "(\<lambda>c. if c \<in> set is' \<and> isClientInCluster s c then Some (f c) else balances ?s c)
        = (\<lambda>c. if c \<in> set (i # is') \<and> isClientInCluster s c then Some (f c) else balances s c)"
      using True by (auto simp: fun_eq_iff)
    then have "load_balances (i # is') s = RunServing (s\<lparr>balances := (\<lambda>c. if c \<in> set (i # is') \<and> isClientInCluster s c
              then Some (f c) else balances s c), srv_db := d'\<rparr>)"
      using d(1) d'(1) by simp
    moreover have "db_get d' (to_string i) = (DbOk, to_string (f i))"
      using d'(3) d'(4) [rule_format, of "to_string i"] d(3) True by (cases "i \<in> set is'") (auto simp: image_iff)
    moreover have "db_get d' k = db_get (srv_db s) k" if "k \<notin> to_string ` set (i # is')" for k
      using d'(4) d(3) that by auto
    ultimately show ?thesis using d'(2,3) by (intro exI [of _ d']) auto
  qed
qed

section \<open>Start-up\<close>

text \<open>A process that starts on a log file with an empty index and on a store.\<close>

definition restart :: "int \<Rightarrow> string \<Rightarrow> config \<Rightarrow> wal \<Rightarrow> kvdb \<Rightarrow> run_result" where
  "restart i name c w d = run True (ServerImpl i name c (w\<lparr>transferIndex := Map.empty\<rparr>) d)"

lemma load_ballot_stored:
  assumes "stored (srv_db s) ballot_key 0 n" and "ballot_num s = 0"
  shows "load_ballot s = RunServing (s\<lparr>ballot_num := n\<rparr>)"
  using assms by (auto simp: load_ballot_def stored_def stoi_to_string)

lemma ServerImpl_fields [simp]:
  "server_id (ServerImpl i name c w d) = i"
  "cluster_id (ServerImpl i name c w d) = getClusterIdFromServerId c i"
  "srv_wal (ServerImpl i name c w d) = w"
  "srv_db (ServerImpl i name c w d) = d"
  "srv_log (ServerImpl i name c w d) = []"
  "conf (ServerImpl i name c w d) = c"
  "ballot_num (ServerImpl i name c w d) = 0"
  "last_inserted (ServerImpl i name c w d) = -1"
  "balances (ServerImpl i name c w d) = Map.empty"
  "balance_applied (ServerImpl i name c w d) = {}"
  "locks (ServerImpl i name c w d) = {}"
  "prepareTimestamps (ServerImpl i name c w d) = []"
  "pending (ServerImpl i name c w d) = []"
  "current (ServerImpl i name c w d) = []"
  "accept_batch (ServerImpl i name c w d) = []"
  "promised_num (ServerImpl i name c w d) = default_ballot"
  "accept_num (ServerImpl i name c w d) = default_ballot"
  "is_paxos_running (ServerImpl i name c w d) = False"
  by (simp_all add: ServerImpl_def resetDisconnectedState_def)

text \<open>The state a start-up reaches, field by field.\<close>

definition started :: "int \<Rightarrow> config \<Rightarrow> wal \<Rightarrow> wal_rec list \<Rightarrow> int \<Rightarrow> (int \<Rightarrow> int) \<Rightarrow> server \<Rightarrow> bool" where
  "started i c w rs n f s \<longleftrightarrow>
     server_id s = i \<and> conf s = c \<and> cluster_id s = getClusterIdFromServerId c i \<and> srv_wal s = w
     \<and> srv_log s = List.map_filter entry_of_rec rs
     \<and> last_inserted s = int (length (srv_log s)) - 1
     \<and> paxos_index s = int (length (filter isPaxosEntry (srv_log s))) - 1
     \<and> ballot_num s = fold (\<lambda>r b. max b (we_ballot_num (snd r))) rs n
     \<and> (\<forall>a. balances s a = (if own_account s a then Some (f a) else None))
     \<and> balance_applied s = {} \<and> locks s = {} \<and> prepareTimestamps s = []
     \<and> pending s = [] \<and> current s = [] \<and> accept_batch s = [] \<and> \<not> is_paxos_running s
     \<and> promised_num s = default_ballot \<and> accept_num s = default_ballot"

lemma recover_log_fields:
  assumes "srv_wal s = w\<lparr>transferIndex := Map.empty\<rparr>" and "wal_rel w rs" and "last_inserted s = -1"
    and "srv_log s = []"
  shows "srv_wal (recover_log s) = w" and "srv_log (recover_log s) = List.map_filter entry_of_rec rs"
    and "last_inserted (recover_log s) = int (length (List.map_filter entry_of_rec rs)) - 1"
    and "paxos_index (recover_log s) = int (length (filter isPaxosEntry (List.map_filter entry_of_rec rs))) - 1"
    and "ballot_num (recover_log s) = fold (\<lambda>r b. max b (we_ballot_num (snd r))) rs (ballot_num s)"
    and "srv_db (recover_log s) = snd (db_put ballot_key
           (to_string (fold (\<lambda>r b. max b (we_ballot_num (snd r))) rs (ballot_num s))) (srv_db s))"
  using assms
  by (simp_all add: recover_log_def wal_recover_recs Let_def persistBallotNum_def)

lemma recover_log_frames [simp]:
  "server_id (recover_log s) = server_id s"
  "conf (recover_log s) = conf s"
  "cluster_id (recover_log s) = cluster_id s"
  "balances (recover_log s) = balances s"
  "balance_applied (recover_log s) = balance_applied s"
  "locks (recover_log s) = locks s"
  "prepareTimestamps (recover_log s) = prepareTimestamps s"
  "pending (recover_log s) = pending s"
  "current (recover_log s) = current s"
  "accept_batch (recover_log s) = accept_batch s"
  "promised_num (recover_log s) = promised_num s"
  "accept_num (recover_log s) = accept_num s"
  "is_paxos_running (recover_log s) = is_paxos_running s"
  by (simp_all add: recover_log_def Let_def split_beta)

lemma connect_stubs_frames [simp]:
  "conf (connect_stubs s) = conf s"
  "cluster_id (connect_stubs s) = cluster_id s"
  by (simp_all add: connect_stubs_def)

definition accounts_stored :: "kvdb \<Rightarrow> config \<Rightarrow> int \<Rightarrow> (int \<Rightarrow> int) \<Rightarrow> bool" where
  "accounts_stored d c i f \<longleftrightarrow> (\<forall>a. 1 \<le> a \<and> a \<le> total_clients
     \<and> getClusterIdFromClientId c a = getClusterIdFromServerId c i \<longrightarrow> stored d (to_string a) 10 (f a))"

lemma startup:
  assumes rel: "wal_rel w rs" and d: "db_healthy d" and n: "stored d ballot_key 0 n"
    and f: "accounts_stored d c i f"
  shows "\<exists>s. restart i name c w d = RunServing s \<and> started i c w rs n f s \<and> store_mirrors s"
proof -
  let ?s1 = "connect_stubs (ServerImpl i name c (w\<lparr>transferIndex := Map.empty\<rparr>) d)"
  let ?s2 = "?s1\<lparr>ballot_num := n\<rparr>"
  have s1: "srv_db ?s1 = d" "ballot_num ?s1 = 0" by (simp_all add: connect_stubs_def)
  have ballot: "load_ballot ?s1 = RunServing ?s2" using n s1 by (intro load_ballot_stored) simp_all
  have inC: "isClientInCluster ?s1 a \<longleftrightarrow> getClusterIdFromClientId c a = getClusterIdFromServerId c i" for a
    by (simp add: isClientInCluster_def connect_stubs_def)
  have "\<forall>a \<in> set [1..total_clients]. isClientInCluster ?s2 a \<longrightarrow> stored (srv_db ?s2) (to_string a) 10 (f a)"
    using f by (auto simp: accounts_stored_def inC s1)
  from load_balances_stored [OF _ this] d s1(1) obtain d' where
    bal: "load_balances [1..total_clients] ?s2 = RunServing (?s2\<lparr>balances := (\<lambda>a. if a \<in> set [1..total_clients]
        \<and> isClientInCluster ?s2 a then Some (f a) else balances ?s2 a), srv_db := d'\<rparr>)"
    and d': "db_healthy d'"
      "\<forall>a \<in> set [1..total_clients]. isClientInCluster ?s2 a \<longrightarrow> db_get d' (to_string a) = (DbOk, to_string (f a))"
    by auto
  define s3 where "s3 = ?s2\<lparr>balances := (\<lambda>a. if a \<in> set [1..total_clients]
        \<and> isClientInCluster ?s2 a then Some (f a) else balances ?s2 a), srv_db := d'\<rparr>"
  have run: "restart i name c w d = RunServing (recover_log s3)"
    using bal ballot by (simp add: restart_def run_def Let_def s3_def)
  have s3: "srv_wal s3 = w\<lparr>transferIndex := Map.empty\<rparr>" "last_inserted s3 = -1" "srv_log s3 = []"
    "conf s3 = c" "cluster_id s3 = getClusterIdFromServerId c i" "ballot_num s3 = n" "srv_db s3 = d'"
    "balances s3 = (\<lambda>a. if a \<in> set [1..total_clients] \<and> isClientInCluster ?s2 a then Some (f a) else None)"
    by (simp_all add: s3_def connect_stubs_def cong: if_cong)
  note rec = recover_log_fields [OF s3(1) rel s3(2,3)]
  have own: "own_account (recover_log s3) a \<longleftrightarrow> a \<in> set [1..total_clients] \<and> isClientInCluster ?s2 a" for a
    by (auto simp: own_account_def inC isClientInCluster_def s3)
  have "started i c w rs n f (recover_log s3)"
    unfolding started_def rec own by (simp add: s3, simp add: s3_def connect_stubs_def)
  moreover have "store_mirrors (recover_log s3)"
    using d' kv.put_healthy [OF d'(1)] kv.get_put [OF d'(1)]
    by (auto simp: store_mirrors_def mirrors_except_def own rec s3 get_balance_def)
  ultimately show ?thesis using run by blast
qed

lemma max_ballot_bounds:
  "b \<le> fold (\<lambda>r b. max b (we_ballot_num (snd r))) rs b"
  "\<forall>r \<in> set rs. rec_ok r \<Longrightarrow> is_int32 b \<Longrightarrow> is_int32 (fold (\<lambda>r b. max b (we_ballot_num (snd r))) rs b)"
proof (induction rs arbitrary: b)
  case (Cons r rs)
  { case 1 show ?case using Cons.IH(1) [of "max b (we_ballot_num (snd r))"] by simp }
  { case 2
    then have "is_int32 (max b (we_ballot_num (snd r)))" by (simp add: rec_ok_def entry_fits_def max_def)
    with Cons.IH(2) 2 show ?case by simp }
qed simp_all

lemma started_invariants:
  assumes st: "started i c w rs n f s" and rel: "wal_rel w rs" and "transferIndex w (-1) = None"
    and "is_int32 i" and "is_int32 n"
  shows "env_ok s" and "counts_paxos s" and "log_in_wal s" and "follows_ledger (get_balance s) (srv_log s) s"
proof -
  have "\<forall>r \<in> set rs. rec_ok r" using rel by (simp add: wal_rel_def)
  moreover have "ballot_fits default_ballot" by (simp add: default_ballot_def ballot_fits_def int_type_defs)
  ultimately show "env_ok s" using st assms(4,5) by (simp add: env_ok_def started_def max_ballot_bounds)
  show "counts_paxos s" using st rel by (simp add: counts_paxos_def started_def wal_rel_open)
  show "log_in_wal s" using st rel assms(3) by (auto simp: log_in_wal_def started_def)
  show "follows_ledger (get_balance s) (srv_log s) s"
    using st rel by (simp add: follows_ledger_def started_def wal_rel_open ledger_of_def)
qed

section \<open>Properties\<close>

text \<open>A first start, on an empty store and without a log file, reaches the event loop
  with every account of the shard at 10 and no other account, an empty log, and satisfies
  every invariant of the running server.\<close>

theorem first_start:
  assumes "is_int32 i"
  shows "\<exists>s. restart i name c (wal_init None True u) empty_db = RunServing s
    \<and> (\<forall>a. balances s a = (if own_account s a then Some 10 else None)) \<and> srv_log s = []
    \<and> env_ok s \<and> counts_paxos s \<and> log_in_wal s \<and> follows_ledger (get_balance s) [] s \<and> store_mirrors s"
proof -
  have "stored empty_db k v v" if "is_int32 v" for k v
    using that by (simp add: stored_def empty_db_def db_get_def)
  then have "stored empty_db ballot_key 0 0" and "accounts_stored empty_db c i (\<lambda>_. 10)"
    by (simp_all add: accounts_stored_def int_type_defs)
  moreover have "db_healthy empty_db" by (simp add: db_healthy_def empty_db_def)
  ultimately obtain s where s: "restart i name c (wal_init None True u) empty_db = RunServing s"
      "started i c (wal_init None True u) [] 0 (\<lambda>_. 10) s" "store_mirrors s"
    using startup [OF wal_rel_fresh] by blast
  moreover have "transferIndex (wal_init None True u) (-1) = None" "is_int32 0"
    by (simp_all add: wal_init_def int_type_defs)
  ultimately show ?thesis
    using started_invariants [OF s(2) wal_rel_fresh _ assms]
    by (intro exI [of _ s]) (auto simp: started_def map_filter_simps)
qed

theorem first_start_witness:
  "is_int32 4 \<and> (\<exists>s. restart 4 ''S4'' (setupApplicationState 3 3 initial_config)
      (wal_init None True error_entry) empty_db = RunServing s \<and> srv_log s = [] \<and> counts_paxos s)"
proof -
  have "is_int32 4" by (simp add: int_type_defs)
  with first_start [of 4 "''S4''" "setupApplicationState 3 3 initial_config" error_entry] show ?thesis by blast
qed

text \<open>The persistent half of a state of a run, and the process that starts on it.\<close>

lemma restart_of_reachable:
  assumes reach: "server_reach s0 s" and s0: "env_ok s0" "counts_paxos s0" "log_in_wal s0" "store_mirrors s0"
    and c: "getClusterIdFromServerId c i = cluster_id s" "num_clusters c = num_clusters (conf s)"
    and bal: "\<forall>a. own_account s a \<longrightarrow> is_int32 (get_balance s a)"
  shows "\<exists>s' rs. restart i name c (srv_wal s) (srv_db s) = RunServing s'
    \<and> started i c (srv_wal s) rs (ballot_num s) (get_balance s) s' \<and> srv_log s' = srv_log s
    \<and> paxos_index s' = paxos_index s \<and> (\<forall>a. own_account s a \<longrightarrow> get_balance s' a = get_balance s a)
    \<and> ballot_num s \<le> ballot_num s'"
proof -
  have inv: "env_ok s" "counts_paxos s" "log_in_wal s" "store_mirrors s"
    using reach s0 env_ok_reach paxos_count.I_reach wal_mirror.I_reach mirror.I_reach by blast+
  obtain rs where rs: "wal_rel (srv_wal s) rs" "srv_log s = List.map_filter entry_of_rec rs"
    using inv(3) by (auto simp: log_in_wal_def)
  have own: "own_account s a \<longleftrightarrow> 1 \<le> a \<and> a \<le> total_clients
      \<and> getClusterIdFromClientId c a = getClusterIdFromServerId c i" for a
    using c by (simp add: own_account_def isClientInCluster_def getClusterIdFromClientId_def)
  have db: "db_healthy (srv_db s)" "stored (srv_db s) ballot_key 0 (ballot_num s)"
      "accounts_stored (srv_db s) c i (get_balance s)"
    using inv(1,4) bal
    by (auto simp: store_mirrors_def mirrors_except_def stored_def accounts_stored_def env_ok_def own)
  obtain s' where s': "restart i name c (srv_wal s) (srv_db s) = RunServing s'"
      "started i c (srv_wal s) rs (ballot_num s) (get_balance s) s'"
    using startup [OF rs(1) db] by blast
  have "own_account s' a = own_account s a" for a
    using s'(2) own by (auto simp: started_def own_account_def isClientInCluster_def)
  then have "\<forall>a. own_account s a \<longrightarrow> get_balance s' a = get_balance s a"
    using s'(2) by (simp add: started_def get_balance_def)
  moreover have "srv_log s' = srv_log s" "paxos_index s' = paxos_index s" "ballot_num s \<le> ballot_num s'"
    using s'(2) rs(2) inv(2) max_ballot_bounds(1) by (simp_all add: started_def counts_paxos_def)
  ultimately show ?thesis using s' by blast
qed

text \<open>C1. Crash recovery.  Take a server that started well and ran through any events, and let
  it stop at any point between two events.  A process of the same shard that starts on its
  store and its log file reaches the event loop, and the log, the log file with the index of
  prepared transactions, the Paxos index and the balance of every account of the shard are
  what they were; the ballot number is not lower.\<close>

theorem crash_recovery:
  assumes "server_reach s0 s" and "env_ok s0" and "counts_paxos s0" and "log_in_wal s0" and "store_mirrors s0"
    and "getClusterIdFromServerId c i = cluster_id s" and "num_clusters c = num_clusters (conf s)"
    and "\<forall>a. own_account s a \<longrightarrow> is_int32 (get_balance s a)"
  shows "\<exists>s'. restart i name c (srv_wal s) (srv_db s) = RunServing s'
    \<and> srv_log s' = srv_log s \<and> srv_wal s' = srv_wal s \<and> paxos_index s' = paxos_index s
    \<and> (\<forall>a. own_account s a \<longrightarrow> get_balance s' a = get_balance s a) \<and> ballot_num s \<le> ballot_num s'"
  using restart_of_reachable [OF assms, of name] by (auto simp: started_def)

lemma sample_replica_shard:
  "getClusterIdFromServerId sample_conf 1 = cluster_id sample_replica"
  "num_clusters sample_conf = num_clusters (conf sample_replica)"
  "\<forall>a. own_account sample_replica a \<longrightarrow> is_int32 (get_balance sample_replica a)"
  by (simp_all add: sample_replica_fields int_type_defs)

theorem crash_recovery_witness:
  "server_reach sample_server sample_replica \<and>
   (\<exists>s'. restart 1 ''S1'' sample_conf (srv_wal sample_replica) (srv_db sample_replica) = RunServing s'
      \<and> srv_log s' = [entry_of_req sample_req sample_ballot CROSS PREPARED]
      \<and> (\<forall>a. own_account sample_replica a \<longrightarrow> get_balance s' a = 10))"
  using crash_recovery [OF sample_steps(2) sample_server_ok(1-4) sample_replica_shard, of "''S1''"] sample_steps(2)
  by (auto simp: sample_replica_fields)

text \<open>C24. What a restart does not bring back.  After the same crash the new process has no
  locks, no prepare time stamps and an empty set of applied transactions, although the
  prepared transactions are still open in its log: their accounts are free for others, the
  lock timeout never fires for them, and no commit is recognised as already applied.\<close>

theorem restart_forgets_volatile_state:
  assumes "server_reach s0 s" and "env_ok s0" and "counts_paxos s0" and "log_in_wal s0" and "store_mirrors s0"
    and "getClusterIdFromServerId c i = cluster_id s" and "num_clusters c = num_clusters (conf s)"
    and "\<forall>a. own_account s a \<longrightarrow> is_int32 (get_balance s a)"
  shows "\<exists>s'. restart i name c (srv_wal s) (srv_db s) = RunServing s'
    \<and> wal_pending (srv_wal s') = wal_pending (srv_wal s)
    \<and> locks s' = {} \<and> prepareTimestamps s' = [] \<and> balance_applied s' = {}"
  using restart_of_reachable [OF assms, of name] by (auto simp: started_def)

theorem restart_forgets_volatile_state_witness:
  "locks sample_replica = {12} \<and> wal_pending (srv_wal sample_replica) 77 = Some (entry_of_req sample_req sample_ballot CROSS PREPARED) \<and>
   (\<exists>s'. restart 1 ''S1'' sample_conf (srv_wal sample_replica) (srv_db sample_replica) = RunServing s'
      \<and> wal_pending (srv_wal s') 77 = Some (entry_of_req sample_req sample_ballot CROSS PREPARED) \<and> locks s' = {})"
proof -
  have "wal_pending (srv_wal sample_replica) 77 = Some (entry_of_req sample_req sample_ballot CROSS PREPARED)"
    using wal_pending_recs [OF sample_wal_rel, of 77]
    by (simp add: sample_replica_fields pending_of_recs_def pending_step_def entry_of_req_def sample_req_def)
  then show ?thesis
    using restart_forgets_volatile_state [OF sample_steps(2) sample_server_ok(1-4) sample_replica_shard, of "''S1''"]
    by (auto simp: sample_replica_fields)
qed

end
