(* ===== verification/Round.thy ===== *)
theory Round
  imports Server_Inv
begin

text \<open>
  One batched Paxos round: what prepare-quorum validation lets through, that an undisturbed
  round leaves leader and replica with the same log and money, that it never overdraws an
  account, and that every parked client call is answered exactly once.
\<close>

section \<open>The replicated state\<close>

text \<open>What replicas of a shard must agree on: log, balances, applied tids and Paxos index.\<close>

type_synonym view = "WALEntry list \<times> (int \<Rightarrow> int) \<times> int set \<times> int"

definition view_of :: "server \<Rightarrow> view" where
  "view_of s = (srv_log s, get_balance s, balance_applied s, paxos_index s)"

definition view_prepare :: "TransferReq \<Rightarrow> ballot \<Rightarrow> view \<Rightarrow> view" where
  "view_prepare r b = (\<lambda>(l, f, A, n). (l @ [entry_of_req r b CROSS PREPARED], f, A, n + 1))"

definition view_commit :: "TransferReq \<Rightarrow> ballot \<Rightarrow> view \<Rightarrow> view" where
  "view_commit r b = (\<lambda>(l, f, A, n).
     if req_tid r \<in> A then (l, f, A, n)
     else (l @ [entry_of_req r b INTRA COMMITTED], move (\<lambda>_. True) (req_txn r) f, insert (req_tid r) A, n + 1))"

lemma commit_balance_move:
  assumes "wal_can_open (srv_wal s)" and "req_tid r \<notin> balance_applied s"
  shows "get_balance (commitTransaction r b s) = move (\<lambda>_. True) (req_txn r) (get_balance s)"
  using assms by (auto simp: commit_fields move_def fun_eq_iff Let_def)

lemma view_commitTransaction:
  "wal_can_open (srv_wal s) \<Longrightarrow> view_of (commitTransaction r b s) = view_commit r b (view_of s)"
  by (cases "req_tid r \<in> balance_applied s")
    (simp_all add: view_of_def view_commit_def commit_skip commit_fields(1-4) commit_balance_move)

lemma view_prepareTransaction: "view_of (prepareTransaction r b s) = view_prepare r b (view_of s)"
  by (simp add: view_of_def view_prepare_def)

lemma view_cong:
  "srv_log s' = srv_log s \<Longrightarrow> balances s' = balances s \<Longrightarrow> balance_applied s' = balance_applied s \<Longrightarrow>
     paxos_index s' = paxos_index s \<Longrightarrow> view_of s' = view_of s"
  by (simp add: view_of_def get_balance_def fun_eq_iff)

lemma wal_open_frames [simp]:
  "wal_can_open (srv_wal (commitTransaction r b s)) = wal_can_open (srv_wal s)"
  "wal_can_open (srv_wal (accept_entry e s)) = wal_can_open (srv_wal s)"
  "wal_can_open (srv_wal (commit_unlock_entry r s)) = wal_can_open (srv_wal s)"
  "wal_can_open (srv_wal (accept_lock_entry r s)) = wal_can_open (srv_wal s)"
  "wal_can_open (srv_wal (snd (validate_entry be s))) = wal_can_open (srv_wal s)"
proof -
  show 1: "wal_can_open (srv_wal (commitTransaction r b s)) = wal_can_open (srv_wal s)" for r b s
    by (simp add: commitTransaction_def Let_def split_beta)
  show "wal_can_open (srv_wal (accept_entry e s)) = wal_can_open (srv_wal s)"
    "wal_can_open (srv_wal (commit_unlock_entry r s)) = wal_can_open (srv_wal s)"
    by (simp_all add: accept_entry_def commit_unlock_entry_def Let_def 1)
  show "wal_can_open (srv_wal (accept_lock_entry r s)) = wal_can_open (srv_wal s)"
    "wal_can_open (srv_wal (snd (validate_entry be s))) = wal_can_open (srv_wal s)"
    by (simp_all add: accept_lock_entry_def validate_entry_def Let_def)
qed

section \<open>Each loop body on the view\<close>

definition intra_in :: "(int \<Rightarrow> bool) \<Rightarrow> TransferReq \<Rightarrow> bool" where
  "intra_in inC r \<longleftrightarrow> inC (sender (req_txn r)) \<and> inC (receiver (req_txn r))"

definition cross_in :: "(int \<Rightarrow> bool) \<Rightarrow> TransferReq \<Rightarrow> bool" where
  "cross_in inC r \<longleftrightarrow> inC (sender (req_txn r)) \<noteq> inC (receiver (req_txn r))"

lemma view_frames [simp]:
  "view_of (completeTransfer call ack t s) = view_of s"
  "view_of (s\<lparr>locks := l\<rparr>) = view_of s"
  "view_of (s\<lparr>accept_batch := rs\<rparr>) = view_of s"
  "view_of (s\<lparr>promised := x\<rparr>) = view_of s"
  "view_of (s\<lparr>accepted := x\<rparr>) = view_of s"
  "view_of (s\<lparr>accept_num := b\<rparr>) = view_of s"
  "view_of (s\<lparr>current := es\<rparr>) = view_of s"
  "view_of (s\<lparr>await_accept_decision := x\<rparr>) = view_of s"
  "view_of (s\<lparr>await_prepare_decision := x\<rparr>) = view_of s"
  "view_of (s\<lparr>accept_successes := i\<rparr>) = view_of s"
  "view_of (s\<lparr>accept_failures := i\<rparr>) = view_of s"
  "view_of (emit_all xs s) = view_of s"
  by (rule view_cong; simp)+

lemma view_finishRound [simp]: "view_of (finishRound s) = view_of s"
  by (rule view_cong)
    (simp_all add: finishRound_def maybeStartRound_def startRound_def reissuePrepareForCurrent_def Let_def)

lemma view_touch [simp]: "view_of (touch_balance c s) = view_of s"
  by (simp add: view_of_def)

lemma view_accept_entry:
  "wal_can_open (srv_wal s) \<Longrightarrow> view_of (accept_entry e s) =
     (if be_is_cross_shard e then view_of s else view_commit (be_request e) (accept_num s) (view_of s))"
  by (simp add: accept_entry_def Let_def view_commitTransaction)

lemma view_commit_unlock_entry:
  "wal_can_open (srv_wal s) \<Longrightarrow> view_of (commit_unlock_entry r s) =
     (if intra_in (isClientInCluster s) r then view_commit r (accept_num s) (view_of s) else view_of s)"
  by (simp add: commit_unlock_entry_def Let_def view_commitTransaction intra_in_def)

lemma view_accept_lock_entry:
  "view_of (accept_lock_entry r s) =
     (if cross_in (isClientInCluster s) r then view_prepare r (accept_num s) (view_of s) else view_of s)"
  by (simp add: accept_lock_entry_def Let_def view_prepareTransaction cross_in_def isClientInCluster_def)

section \<open>Validation at prepare quorum\<close>

text \<open>The accounts of the own shard a request uses, and the specification of the batch filter.\<close>

definition accounts :: "(int \<Rightarrow> bool) \<Rightarrow> BatchEntry \<Rightarrow> int set" where
  "accounts inC e = {a \<in> {sender (req_txn (be_request e)), receiver (req_txn (be_request e))}. inC a}"

definition funded :: "(int \<Rightarrow> bool) \<Rightarrow> (int \<Rightarrow> int) \<Rightarrow> BatchEntry \<Rightarrow> bool" where
  "funded inC f e \<longleftrightarrow> (inC (sender (req_txn (be_request e))) \<longrightarrow>
     amount (req_txn (be_request e)) \<le> f (sender (req_txn (be_request e))))"

definition admits :: "(int \<Rightarrow> bool) \<Rightarrow> (int \<Rightarrow> int) \<Rightarrow> int set \<Rightarrow> BatchEntry \<Rightarrow> bool" where
  "admits inC f L e \<longleftrightarrow> accounts inC e \<inter> L = {} \<and> funded inC f e"

fun keep_entries :: "(int \<Rightarrow> bool) \<Rightarrow> (int \<Rightarrow> int) \<Rightarrow> int set \<Rightarrow> BatchEntry list \<Rightarrow> BatchEntry list" where
  "keep_entries inC f L [] = []"
| "keep_entries inC f L (e # es) =
     (if admits inC f L e then e # keep_entries inC f (L \<union> accounts inC e) es else keep_entries inC f L es)"

lemma validate_entry_admits:
  "fst (validate_entry e s) = admits (isClientInCluster s) (get_balance s) (locks s) e"
  by (auto simp: validate_entry_def Let_def admits_def accounts_def funded_def)

definition nack :: "BatchEntry \<Rightarrow> out" where
  "nack e = OutReply (be_call e) \<lparr>res_ack = False, res_tid = req_tid (be_request e)\<rparr>"

lemma outbox_completeTransfer [simp]:
  "outbox (completeTransfer call ack t s) = outbox s @ [OutReply call \<lparr>res_ack = ack, res_tid = t\<rparr>]"
  by (simp add: completeTransfer_def emit_def)

lemma validate_entry_state:
  "locks (snd (validate_entry e s)) =
     (if fst (validate_entry e s) then locks s \<union> accounts (isClientInCluster s) e else locks s)"
  "view_of (snd (validate_entry e s)) =
     (if fst (validate_entry e s) \<and> be_is_cross_shard e
      then view_prepare (be_request e) (promised_num s) (view_of s) else view_of s)"
  "outbox (snd (validate_entry e s)) =
     outbox s @ (if fst (validate_entry e s) then [] else [nack e])"
  by (auto simp: validate_entry_def Let_def accounts_def view_prepareTransaction nack_def)

lemma validate_entry_same [simp]:
  "isClientInCluster (snd (validate_entry e s)) = isClientInCluster s"
  "get_balance (snd (validate_entry e s)) = get_balance s"
  "promised_num (snd (validate_entry e s)) = promised_num s"
  using validate_entry_state(2) [of e s]
  by (auto simp: isClientInCluster_def fun_eq_iff view_of_def view_prepare_def split: if_splits)

text \<open>The rejected entries, in order.\<close>

fun rejected :: "(int \<Rightarrow> bool) \<Rightarrow> (int \<Rightarrow> int) \<Rightarrow> int set \<Rightarrow> BatchEntry list \<Rightarrow> BatchEntry list" where
  "rejected inC f L [] = []"
| "rejected inC f L (e # es) =
     (if admits inC f L e then rejected inC f (L \<union> accounts inC e) es else e # rejected inC f L es)"

lemma validate_batch_state:
  "fst (validate_batch es s) = keep_entries (isClientInCluster s) (get_balance s) (locks s) es"
  "locks (snd (validate_batch es s)) = locks s \<union> (\<Union>e \<in> set (fst (validate_batch es s)). accounts (isClientInCluster s) e)"
  "view_of (snd (validate_batch es s)) =
     fold (\<lambda>e. view_prepare (be_request e) (promised_num s)) (filter be_is_cross_shard (fst (validate_batch es s))) (view_of s)"
  "outbox (snd (validate_batch es s)) = outbox s @ map nack (rejected (isClientInCluster s) (get_balance s) (locks s) es)"
  "wal_can_open (srv_wal (snd (validate_batch es s))) = wal_can_open (srv_wal s)"
  by (induction es arbitrary: s)
    (simp_all add: split_beta Let_def validate_entry_state validate_entry_admits Un_assoc)

lemma validate_batch_same [simp]:
  "isClientInCluster (snd (validate_batch es s)) = isClientInCluster s"
  "get_balance (snd (validate_batch es s)) = get_balance s"
  by (induction es arbitrary: s) (simp_all add: split_beta Let_def)

lemma keep_entries_sound:
  assumes "e \<in> set (keep_entries inC f L es)"
  shows "admits inC f L e" and "e \<in> set es"
  using assms by (induction es arbitrary: L) (auto simp: admits_def split: if_splits)

lemma keep_entries_disjoint:
  "i < j \<Longrightarrow> j < length (keep_entries inC f L es) \<Longrightarrow>
     accounts inC (keep_entries inC f L es ! i) \<inter> accounts inC (keep_entries inC f L es ! j) = {}"
proof (induction es arbitrary: L i j)
  case (Cons e es)
  show ?case
  proof (cases "admits inC f L e")
    case True
    let ?k = "keep_entries inC f (L \<union> accounts inC e) es"
    show ?thesis
    proof (cases i)
      case 0
      then have "j - 1 < length ?k" "(e # ?k) ! j = ?k ! (j - 1)" using Cons.prems True by auto
      then have "accounts inC (?k ! (j - 1)) \<inter> (L \<union> accounts inC e) = {}"
        using keep_entries_sound(1) [of "?k ! (j - 1)" inC f "L \<union> accounts inC e" es] by (simp add: admits_def)
      with 0 True show ?thesis using \<open>(e # ?k) ! j = ?k ! (j - 1)\<close> by auto
    next
      case (Suc i')
      then obtain j' where "j = Suc j'" using Cons.prems by (cases j) auto
      with Suc Cons.IH [of i' j'] Cons.prems True show ?thesis by simp
    qed
  qed (use Cons in auto)
qed simp

lemma keep_rejected_mset: "mset (keep_entries inC f L es) + mset (rejected inC f L es) = mset es"
  by (induction es arbitrary: L) auto

section \<open>Funds\<close>

definition commit_view_entry :: "ballot \<Rightarrow> BatchEntry \<Rightarrow> view \<Rightarrow> view" where
  "commit_view_entry b e v = (if be_is_cross_shard e then v else view_commit (be_request e) b v)"

lemma fold_accept_entry_view:
  "wal_can_open (srv_wal s) \<Longrightarrow>
     view_of (fold accept_entry es s) = fold (commit_view_entry (accept_num s)) es (view_of s)"
  by (induction es arbitrary: s) (simp_all add: view_accept_entry commit_view_entry_def)

text \<open>Entries that may commit together: each has its funds, and no two share an account.\<close>

lemma commits_no_overdraft:
  assumes "\<forall>a. 0 \<le> f a" and "sorted_wrt (\<lambda>e e'. accounts inC e \<inter> accounts inC e' = {}) es"
    and "\<forall>e \<in> set es. funded inC f e \<and> 0 \<le> amount (req_txn (be_request e))
           \<and> (\<not> be_is_cross_shard e \<longrightarrow> intra_in inC (be_request e))"
  shows "\<forall>a. 0 \<le> fst (snd (fold (commit_view_entry b) es (l, f, A, n))) a"
  using assms
proof (induction es arbitrary: l f A n)
  case (Cons e es)
  let ?r = "be_request e"
  obtain l' f' A' n' where v: "commit_view_entry b e (l, f, A, n) = (l', f', A', n')"
    by (metis prod_cases4)
  have f': "f' = f \<or> \<not> be_is_cross_shard e \<and> f' = move (\<lambda>_. True) (req_txn ?r) f"
    using v by (auto simp: commit_view_entry_def view_commit_def split: if_splits)
  have pos: "\<forall>a. 0 \<le> f' a"
    using f' Cons.prems(1,3) by (auto simp: move_def funded_def intra_in_def)
  have "f' a = f a" if "e' \<in> set es" "a \<in> accounts inC e'" for e' a
  proof (cases "f' = f")
    case False
    then have e: "f' = move (\<lambda>_. True) (req_txn ?r) f" "intra_in inC ?r"
      using f' Cons.prems(3) by auto
    have "a \<notin> accounts inC e" using Cons.prems(2) that by auto
    with e(2) that(2) have "a \<noteq> sender (req_txn ?r)" "a \<noteq> receiver (req_txn ?r)"
      by (auto simp: accounts_def intra_in_def)
    with e(1) show ?thesis by (simp add: move_def)
  qed simp
  then have "\<forall>e' \<in> set es. funded inC f' e'"
    using Cons.prems(3) by (auto simp: funded_def accounts_def)
  with pos Cons.IH [of f' l' A' n'] Cons.prems(2,3) v show ?case by simp
qed simp

section \<open>Properties of validation and of a round\<close>

text \<open>C9. What passes validation.  At prepare quorum the kept entries use no account that was
  locked before, each has its sender's funds, no two of them share an account of the shard,
  exactly their accounts become locked, no balance changes, and every other entry of the
  batch gets one negative reply.\<close>

theorem batch_validation:
  fixes es s
  defines "kept \<equiv> fst (validate_batch es s)" and "s' \<equiv> snd (validate_batch es s)"
    and "inC \<equiv> isClientInCluster s"
  shows "(\<forall>e \<in> set kept. accounts inC e \<inter> locks s = {} \<and> funded inC (get_balance s) e)
    \<and> (\<forall>i j. i < j \<and> j < length kept \<longrightarrow> accounts inC (kept ! i) \<inter> accounts inC (kept ! j) = {})
    \<and> locks s' = locks s \<union> (\<Union>e \<in> set kept. accounts inC e) \<and> get_balance s' = get_balance s
    \<and> (\<exists>rs. outbox s' = outbox s @ map nack rs \<and> mset kept + mset rs = mset es)"
  unfolding kept_def s'_def inC_def
  using keep_entries_sound(1) [of _ "isClientInCluster s" "get_balance s" "locks s" es]
    keep_entries_disjoint [of _ _ "isClientInCluster s" "get_balance s" "locks s" es]
    keep_rejected_mset [of "isClientInCluster s" "get_balance s" "locks s" es]
  by (auto simp: validate_batch_state admits_def)

definition transfer_entry :: "int \<Rightarrow> int \<Rightarrow> int \<Rightarrow> int \<Rightarrow> nat \<Rightarrow> BatchEntry" where
  "transfer_entry sd rc am t call =
     \<lparr>be_request = \<lparr>req_txn = \<lparr>sender = sd, receiver = rc, amount = am\<rparr>, req_tid = t\<rparr>,
      be_call = call, be_is_cross_shard = False\<rparr>"

lemma sample_shard: "isClientInCluster sample_server a \<longleftrightarrow> ceil_div (a * 3) 3000 = 1"
  by (simp add: isClientInCluster_def sample_server_def sample_conf_def getClusterIdFromClientId_def
      getClusterIdFromServerId_def total_clients_def ceil_div_def ServerImpl_def resetDisconnectedState_def)

lemma sample_server_view [simp]:
  "get_balance sample_server a = 10" "locks sample_server = {}" "wal_can_open (srv_wal sample_server)"
  by (simp_all add: sample_server_def ServerImpl_def resetDisconnectedState_def get_balance_def wal_init_def)

theorem batch_validation_witness:
  "fst (validate_batch [transfer_entry 1 2 3 70 7, transfer_entry 2 3 1 71 8, transfer_entry 4 5 11 72 9] sample_server)
     = [transfer_entry 1 2 3 70 7] \<and>
   locks (snd (validate_batch [transfer_entry 1 2 3 70 7, transfer_entry 2 3 1 71 8, transfer_entry 4 5 11 72 9] sample_server))
     = {1, 2}"
proof -
  let ?es = "[transfer_entry 1 2 3 70 7, transfer_entry 2 3 1 71 8, transfer_entry 4 5 11 72 9]"
  have acc: "accounts (isClientInCluster sample_server) (transfer_entry 1 2 3 70 7) = {1, 2}"
    "accounts (isClientInCluster sample_server) (transfer_entry 2 3 1 71 8) = {2, 3}"
    "accounts (isClientInCluster sample_server) (transfer_entry 4 5 11 72 9) = {4, 5}"
    by (auto simp: accounts_def transfer_entry_def sample_shard ceil_div_def)
  have "fst (validate_batch ?es sample_server) = [transfer_entry 1 2 3 70 7]"
    unfolding validate_batch_state(1)
    by (simp add: admits_def acc) (simp add: funded_def transfer_entry_def sample_shard ceil_div_def)
  then show ?thesis using batch_validation [of ?es sample_server] by (simp add: acc)
qed

text \<open>The leader's half and the replica's half of a round on the view.\<close>

lemma onPrepareQuorum_kept:
  fixes s
  defines "kept \<equiv> fst (validate_batch (current s) s)"
  assumes "kept \<noteq> []"
  shows "current (onPrepareQuorum s) = kept" and "accept_num (onPrepareQuorum s) = promised_num s"
    and "view_of (onPrepareQuorum s) =
      fold (\<lambda>e. view_prepare (be_request e) (promised_num s)) (filter be_is_cross_shard kept) (view_of s)"
    and "wal_can_open (srv_wal (onPrepareQuorum s)) = wal_can_open (srv_wal s)"
    and "\<forall>i \<in> set (stub_ids s). OutAccept i \<lparr>aq_ballot = promised_num s, aq_batch = map be_request kept\<rparr>
           \<in> set (outbox (onPrepareQuorum s))"
    and "await_accept_decision (onPrepareQuorum s)" and "accept_successes (onPrepareQuorum s) = 1"
    and "accept_batch (onPrepareQuorum s) = map be_request kept"
proof -
  let ?s = "s\<lparr>await_prepare_decision := False\<rparr>"
  have v: "view_of ?s = view_of s" by simp
  have b: "get_balance ?s = get_balance s" by (simp add: get_balance_def fun_eq_iff)
  have c: "isClientInCluster ?s = isClientInCluster s" by (simp add: isClientInCluster_def fun_eq_iff)
  have k: "fst (validate_batch (current s) ?s) = kept"
    unfolding kept_def validate_batch_state(1) b c by simp
  have eq: "onPrepareQuorum s = emit_all (map (\<lambda>i. OutAccept i \<lparr>aq_ballot = promised_num s, aq_batch = map be_request kept\<rparr>) (stub_ids s))
      ((snd (validate_batch (current s) ?s))\<lparr>current := kept, accepted := True, accept_num := promised_num s,
         accept_batch := map be_request kept, await_accept_decision := True, accept_successes := 1, accept_failures := 0\<rparr>)"
    using assms(2) k by (simp add: onPrepareQuorum_def Let_def split_beta stub_ids_def)
  show "current (onPrepareQuorum s) = kept" "accept_num (onPrepareQuorum s) = promised_num s"
    by (simp_all add: eq)
  show "view_of (onPrepareQuorum s) =
      fold (\<lambda>e. view_prepare (be_request e) (promised_num s)) (filter be_is_cross_shard kept) (view_of s)"
    using validate_batch_state(3) [of "current s" ?s] by (simp add: eq k)
  show "wal_can_open (srv_wal (onPrepareQuorum s)) = wal_can_open (srv_wal s)"
    using validate_batch_state(5) [of "current s" ?s] by (simp add: eq)
  show "\<forall>i \<in> set (stub_ids s). OutAccept i \<lparr>aq_ballot = promised_num s, aq_batch = map be_request kept\<rparr>
           \<in> set (outbox (onPrepareQuorum s))"
    by (simp add: eq emit_all_def)
  show "await_accept_decision (onPrepareQuorum s)" "accept_successes (onPrepareQuorum s) = 1"
    "accept_batch (onPrepareQuorum s) = map be_request kept"
    by (simp_all add: eq)
qed

lemma onAcceptQuorum_view:
  assumes "wal_can_open (srv_wal s)"
  shows "view_of (onAcceptQuorum s) = fold (commit_view_entry (accept_num s)) (current s) (view_of s)"
  using assms by (simp add: onAcceptQuorum_def Let_def fold_accept_entry_view)

lemma fold_accept_lock_entry_view:
  "view_of (fold accept_lock_entry rs s) =
     fold (\<lambda>r v. if cross_in (isClientInCluster s) r then view_prepare r (accept_num s) v else v) rs (view_of s)"
proof (induction rs arbitrary: s)
  case (Cons r rs)
  have "isClientInCluster (accept_lock_entry r s) = isClientInCluster s"
    by (simp add: isClientInCluster_def fun_eq_iff)
  with Cons show ?case by (simp add: view_accept_lock_entry cong: if_cong)
qed simp

lemma fold_commit_unlock_entry_view:
  "wal_can_open (srv_wal s) \<Longrightarrow> view_of (fold commit_unlock_entry rs s) =
     fold (\<lambda>r v. if intra_in (isClientInCluster s) r then view_commit r (accept_num s) v else v) rs (view_of s)"
proof (induction rs arbitrary: s)
  case (Cons r rs)
  have "isClientInCluster (commit_unlock_entry r s) = isClientInCluster s"
    by (simp add: isClientInCluster_def fun_eq_iff)
  with Cons show ?case by (simp add: view_commit_unlock_entry cong: if_cong)
qed simp

lemma wal_open_accept_lock: "wal_can_open (srv_wal (fold accept_lock_entry rs s)) = wal_can_open (srv_wal s)"
  by (induction rs arbitrary: s) simp_all

lemma replica_round_view:
  fixes rs
  assumes "\<not> i_am_disconnected s" and "promised s" and "bal_num (promised_num s) = bal_num b"
    and "wal_can_open (srv_wal s)"
  defines "q \<equiv> \<lparr>aq_ballot = b, aq_batch = rs\<rparr>"
  shows "as_ack (snd (processAcceptCall q s))"
    and "view_of (processCommitCall \<lparr>cq_ballot = b\<rparr> (fst (processAcceptCall q s))) =
      fold (\<lambda>r v. if intra_in (isClientInCluster s) r then view_commit r b v else v) rs
       (fold (\<lambda>r v. if cross_in (isClientInCluster s) r then view_prepare r b v else v) rs (view_of s))"
proof -
  let ?s0 = "s\<lparr>accepted := True, accept_num := b, accept_batch := []\<rparr>"
  let ?s1 = "fold accept_lock_entry rs ?s0"
  have c: "isClientInCluster ?s0 = isClientInCluster s" "isClientInCluster ?s1 = isClientInCluster s"
    by (simp_all add: isClientInCluster_def fun_eq_iff)
  have 1: "processAcceptCall q s = (?s1, \<lparr>as_ack = True, as_ballot = b\<rparr>)"
    using assms(1-3) by (simp add: processAcceptCall_def q_def)
  then show "as_ack (snd (processAcceptCall q s))" by simp
  have "processCommitCall \<lparr>cq_ballot = b\<rparr> ?s1 = (fold commit_unlock_entry rs ?s1)\<lparr>promised := False, accepted := False\<rparr>"
    using assms(1,3) by (simp add: processCommitCall_def accept_batch_locked)
  then show "view_of (processCommitCall \<lparr>cq_ballot = b\<rparr> (fst (processAcceptCall q s))) =
      fold (\<lambda>r v. if intra_in (isClientInCluster s) r then view_commit r b v else v) rs
       (fold (\<lambda>r v. if cross_in (isClientInCluster s) r then view_prepare r b v else v) rs (view_of s))"
    using assms(4) by (simp add: 1 fold_commit_unlock_entry_view fold_accept_lock_entry_view wal_open_accept_lock c
        cong: if_cong)
qed

text \<open>An entry is filed under the kind its accounts have.\<close>

definition kind_ok :: "(int \<Rightarrow> bool) \<Rightarrow> BatchEntry \<Rightarrow> bool" where
  "kind_ok inC e \<longleftrightarrow> (if be_is_cross_shard e then cross_in inC (be_request e) else intra_in inC (be_request e))"

lemma kind_ok_iff:
  "kind_ok inC e \<Longrightarrow> cross_in inC (be_request e) = be_is_cross_shard e"
  "kind_ok inC e \<Longrightarrow> intra_in inC (be_request e) = (\<not> be_is_cross_shard e)"
  by (auto simp: kind_ok_def cross_in_def intra_in_def split: if_splits)

lemma kind_ok_prepares:
  "\<forall>e \<in> set es. kind_ok inC e \<Longrightarrow>
     fold (\<lambda>r v. if cross_in inC r then view_prepare r b v else v) (map be_request es) v =
     fold (\<lambda>e. view_prepare (be_request e) b) (filter be_is_cross_shard es) v"
  by (induction es arbitrary: v) (simp_all add: kind_ok_iff)

lemma kind_ok_commits:
  "\<forall>e \<in> set es. kind_ok inC e \<Longrightarrow>
     fold (\<lambda>r v. if intra_in inC r then view_commit r b v else v) (map be_request es) v =
     fold (commit_view_entry b) es v"
  by (induction es arbitrary: v) (simp_all add: kind_ok_iff commit_view_entry_def)

text \<open>C2. A round replicates.  Let a leader with a prepare quorum and a replica that promised
  its ballot hold the same log, balances, applied tids and Paxos index.  When some entry
  passes validation, the leader sends every peer the accept request for the kept entries, the
  replica acknowledges it, and after the leader's accept quorum and the replica's commit both
  hold the same log, balances, applied tids and Paxos index again.\<close>

theorem round_replicates:
  fixes L R
  defines "kept \<equiv> fst (validate_batch (current L) L)"
  defines "q \<equiv> \<lparr>aq_ballot = promised_num L, aq_batch = map be_request kept\<rparr>"
  assumes "view_of R = view_of L" and "isClientInCluster R = isClientInCluster L"
    and "wal_can_open (srv_wal L)" and "wal_can_open (srv_wal R)"
    and "\<forall>e \<in> set (current L). kind_ok (isClientInCluster L) e" and "kept \<noteq> []"
    and "\<not> i_am_disconnected R" and "promised R" and "bal_num (promised_num R) = bal_num (promised_num L)"
  shows "(\<forall>i \<in> set (stub_ids L). OutAccept i q \<in> set (outbox (onPrepareQuorum L)))
    \<and> as_ack (snd (processAcceptCall q R))
    \<and> view_of (processCommitCall \<lparr>cq_ballot = promised_num L\<rparr> (fst (processAcceptCall q R)))
        = view_of (onAcceptQuorum (onPrepareQuorum L))"
proof -
  have kept: "kept \<noteq> []" "\<forall>e \<in> set kept. kind_ok (isClientInCluster L) e"
    using assms(7,8) keep_entries_sound(2) by (auto simp: kept_def validate_batch_state(1))
  note lead = onPrepareQuorum_kept [OF kept(1) [unfolded kept_def], folded kept_def]
  note repl = replica_round_view [OF assms(9-11,6), of "map be_request kept"]
  have "view_of (onAcceptQuorum (onPrepareQuorum L)) = fold (commit_view_entry (promised_num L)) kept
      (fold (\<lambda>e. view_prepare (be_request e) (promised_num L)) (filter be_is_cross_shard kept) (view_of L))"
    using lead(1-4) assms(5) by (simp add: onAcceptQuorum_view)
  with lead(5) repl show ?thesis
    using kind_ok_prepares [OF kept(2)] kind_ok_commits [OF kept(2)] assms(3,4) by (simp add: q_def)
qed

definition cross_entry :: BatchEntry where
  "cross_entry = \<lparr>be_request = sample_req, be_call = 5, be_is_cross_shard = True\<rparr>"

definition sample_leader :: server where
  "sample_leader = sample_server\<lparr>current := [transfer_entry 1 2 3 70 7, cross_entry], promised := True,
     promised_num := sample_ballot, is_paxos_running := True\<rparr>"

definition promised_replica :: server where
  "promised_replica = sample_server\<lparr>server_id := 2, promised := True, promised_num := sample_ballot\<rparr>"

lemma sample_round_same:
  "isClientInCluster sample_leader = isClientInCluster sample_server"
  "isClientInCluster promised_replica = isClientInCluster sample_server"
  "get_balance sample_leader = get_balance sample_server"
  "view_of promised_replica = view_of sample_leader" "locks sample_leader = {}"
  "current sample_leader = [transfer_entry 1 2 3 70 7, cross_entry]"
  "wal_can_open (srv_wal sample_leader)" "wal_can_open (srv_wal promised_replica)"
  by (simp_all add: sample_leader_def promised_replica_def isClientInCluster_def view_of_def get_balance_def fun_eq_iff)

lemma sample_round_kinds:
  "\<forall>e \<in> set (current sample_leader). kind_ok (isClientInCluster sample_leader) e
     \<and> 0 \<le> amount (req_txn (be_request e))"
  by (simp add: sample_round_same kind_ok_def transfer_entry_def cross_entry_def sample_req_def
      intra_in_def cross_in_def sample_shard ceil_div_def)

lemma sample_round_kept:
  "fst (validate_batch (current sample_leader) sample_leader) = [transfer_entry 1 2 3 70 7, cross_entry]"
proof -
  have acc: "accounts (isClientInCluster sample_server) (transfer_entry 1 2 3 70 7) = {1, 2}"
    "accounts (isClientInCluster sample_server) cross_entry = {12}"
    by (auto simp: accounts_def transfer_entry_def cross_entry_def sample_req_def sample_shard ceil_div_def)
  show ?thesis
    unfolding validate_batch_state(1) sample_round_same
    by (simp add: admits_def acc)
      (simp add: funded_def transfer_entry_def cross_entry_def sample_req_def sample_shard ceil_div_def)
qed

theorem round_replicates_witness:
  "view_of (processCommitCall \<lparr>cq_ballot = sample_ballot\<rparr> (fst (processAcceptCall
      \<lparr>aq_ballot = sample_ballot, aq_batch = [be_request (transfer_entry 1 2 3 70 7), sample_req]\<rparr> promised_replica)))
     = view_of (onAcceptQuorum (onPrepareQuorum sample_leader))"
proof -
  have "\<not> i_am_disconnected promised_replica" "promised promised_replica"
      "bal_num (promised_num promised_replica) = bal_num (promised_num sample_leader)"
      "promised_num sample_leader = sample_ballot" "be_request cross_entry = sample_req"
    by (simp_all add: promised_replica_def sample_leader_def sample_server_def ServerImpl_def
        resetDisconnectedState_def cross_entry_def)
  then show ?thesis
    using round_replicates [of promised_replica sample_leader] sample_round_same(1,2,4,7,8) sample_round_kinds
    by (simp add: sample_round_kept)
qed

text \<open>C10. No overdraft.  When no balance is negative, the amounts of the batch are not negative, which nothing in
  the server checks, and its entries are filed under the kind their accounts have, validation and commit of the batch
  leave no balance negative.\<close>

theorem round_no_overdraft:
  assumes "wal_can_open (srv_wal s)" and "\<forall>a. 0 \<le> get_balance s a"
    and "\<forall>e \<in> set (current s). kind_ok (isClientInCluster s) e \<and> 0 \<le> amount (req_txn (be_request e))"
    and "fst (validate_batch (current s) s) \<noteq> []"
  shows "\<forall>a. 0 \<le> get_balance (onAcceptQuorum (onPrepareQuorum s)) a"
proof -
  let ?inC = "isClientInCluster s"
  define kept where "kept = keep_entries ?inC (get_balance s) (locks s) (current s)"
  have kept: "fst (validate_batch (current s) s) = kept" by (simp add: kept_def validate_batch_state(1))
  note lead = onPrepareQuorum_kept [OF assms(4), unfolded kept]
  have "sorted_wrt (\<lambda>e e'. accounts ?inC e \<inter> accounts ?inC e' = {}) kept"
    unfolding kept_def sorted_wrt_iff_nth_less using keep_entries_disjoint by blast
  moreover have "\<forall>e \<in> set kept. funded ?inC (get_balance s) e \<and> 0 \<le> amount (req_txn (be_request e))
      \<and> (\<not> be_is_cross_shard e \<longrightarrow> intra_in ?inC (be_request e))"
    using keep_entries_sound assms(3) by (fastforce simp: kept_def admits_def kind_ok_def)
  moreover obtain l A n where "view_of (onPrepareQuorum s) = (l, get_balance s, A, n)"
  proof -
    have "fst (snd (fold (\<lambda>e. view_prepare (be_request e) b) es v)) = fst (snd v)" for es b v
      by (induction es arbitrary: v) (simp_all add: view_prepare_def split_beta)
    then have "get_balance (onPrepareQuorum s) = get_balance s"
      using lead(3) by (metis fst_conv snd_conv view_of_def)
    then show thesis using that by (simp add: view_of_def)
  qed
  moreover have "view_of (onAcceptQuorum (onPrepareQuorum s)) =
      fold (commit_view_entry (promised_num s)) kept (view_of (onPrepareQuorum s))"
    using lead assms(1) by (simp add: onAcceptQuorum_view)
  ultimately have "\<forall>a. 0 \<le> fst (snd (view_of (onAcceptQuorum (onPrepareQuorum s)))) a"
    using commits_no_overdraft [OF assms(2)] by metis
  then show ?thesis by (simp add: view_of_def)
qed

theorem round_no_overdraft_witness:
  "(\<forall>a. 0 \<le> get_balance sample_leader a) \<and> (\<forall>a. 0 \<le> get_balance (onAcceptQuorum (onPrepareQuorum sample_leader)) a)"
  using round_no_overdraft [OF sample_round_same(7) _ sample_round_kinds]
  by (simp add: sample_round_kept sample_round_same(3))

text \<open>C11. A negative amount overdraws the receiver.  Validation compares the amount with the sender's balance only,
  so a transfer of a negative amount between two unlocked accounts of the shard passes, and its commit takes the money
  from the receiver, who may not have it.\<close>

theorem negative_amount_overdraws:
  fixes sd rc am t call
  defines "e \<equiv> transfer_entry sd rc am t call"
  assumes "current s = [e]" and "wal_can_open (srv_wal s)" and "t \<notin> balance_applied s" and "sd \<noteq> rc"
    and "{sd, rc} \<inter> locks s = {}" and "am \<le> get_balance s sd" and "get_balance s rc + am < 0"
  shows "get_balance (onAcceptQuorum (onPrepareQuorum s)) rc < 0"
proof -
  have kept: "fst (validate_batch (current s) s) = [e]"
    unfolding validate_batch_state(1) using assms(2,6,7)
    by (auto simp: admits_def accounts_def funded_def e_def transfer_entry_def)
  note lead = onPrepareQuorum_kept [of s, unfolded kept, simplified]
  have "view_of (onAcceptQuorum (onPrepareQuorum s)) = commit_view_entry (promised_num s) e (view_of s)"
    using lead assms(3) by (simp add: onAcceptQuorum_view e_def transfer_entry_def)
  moreover have "fst (snd (commit_view_entry b e (view_of s))) rc = get_balance s rc + am" for b
    using assms(4,5) by (simp add: commit_view_entry_def view_commit_def view_of_def e_def transfer_entry_def move_def)
  ultimately have "get_balance (onAcceptQuorum (onPrepareQuorum s)) rc = get_balance s rc + am"
    by (metis fst_conv snd_conv view_of_def)
  with assms(8) show ?thesis by simp
qed

theorem negative_amount_overdraws_witness:
  "get_balance sample_server 2 = 10 \<and>
   get_balance (onAcceptQuorum (onPrepareQuorum (sample_server\<lparr>current := [transfer_entry 1 2 (-20) 70 7]\<rparr>))) 2 < 0"
proof -
  let ?s = "sample_server\<lparr>current := [transfer_entry 1 2 (-20) 70 7]\<rparr>"
  have "get_balance ?s = get_balance sample_server" by (simp add: get_balance_def fun_eq_iff)
  moreover have "balance_applied sample_server = {}"
    by (simp add: sample_server_def ServerImpl_def resetDisconnectedState_def)
  ultimately show ?thesis using negative_amount_overdraws [of ?s 1 2 "-20" 70 7] by simp
qed

end
