(* ===== verification/Replica.thy ===== *)
theory Replica
  imports Round
begin

text \<open>
  The follower's side: a commit that arrives twice, the locks a commit releases, and the
  catch-up of a replica that is behind.
\<close>

section \<open>Commit on a replica\<close>

lemma view_commit_twice: "view_commit r b (view_commit r b v) = view_commit r b v"
  by (simp add: view_commit_def split_beta)

lemma view_commit_applied: "req_tid r \<in> fst (snd (snd v)) \<Longrightarrow> view_commit r b v = v"
  by (simp add: view_commit_def split_beta)

lemma view_commit_grows: "fst (snd (snd v)) \<subseteq> fst (snd (snd (view_commit r b v)))"
  "req_tid r \<in> fst (snd (snd (view_commit r b v)))"
  by (auto simp: view_commit_def split_beta)

definition commit_view :: "(int \<Rightarrow> bool) \<Rightarrow> ballot \<Rightarrow> TransferReq \<Rightarrow> view \<Rightarrow> view" where
  "commit_view inC b r v = (if intra_in inC r then view_commit r b v else v)"

lemma commit_view_fold_applied:
  "fst (snd (snd v)) \<subseteq> fst (snd (snd (fold (commit_view inC b) rs v)))"
  "r \<in> set rs \<Longrightarrow> intra_in inC r \<Longrightarrow> req_tid r \<in> fst (snd (snd (fold (commit_view inC b) rs v)))"
proof -
  have step: "fst (snd (snd v)) \<subseteq> fst (snd (snd (commit_view inC b r v)))" for r v
    using view_commit_grows(1) [of v r b] by (simp add: commit_view_def)
  show grow: "fst (snd (snd v)) \<subseteq> fst (snd (snd (fold (commit_view inC b) rs v)))" for rs v
  proof (induction rs arbitrary: v)
    case (Cons r rs)
    then show ?case using step [of v r] Cons [of "commit_view inC b r v"] by (auto simp: subset_iff)
  qed simp
  show "r \<in> set rs \<Longrightarrow> intra_in inC r \<Longrightarrow> req_tid r \<in> fst (snd (snd (fold (commit_view inC b) rs v)))"
  proof (induction rs arbitrary: v)
    case (Cons r' rs)
    show ?case
    proof (cases "r = r'")
      case True
      then have "req_tid r \<in> fst (snd (snd (commit_view inC b r' v)))"
        using view_commit_grows(2) [of r b v] Cons.prems(2) by (simp add: commit_view_def)
      then show ?thesis using grow [of "commit_view inC b r' v" rs] by auto
    qed (use Cons in auto)
  qed simp
qed

lemma commit_view_fold_done:
  "\<forall>r \<in> set rs. intra_in inC r \<longrightarrow> req_tid r \<in> fst (snd (snd v)) \<Longrightarrow> fold (commit_view inC b) rs v = v"
  by (induction rs) (auto simp: commit_view_def view_commit_applied)

lemma processCommitCall_view:
  assumes "wal_can_open (srv_wal s)"
  shows "view_of (processCommitCall q s) =
    (if \<not> i_am_disconnected s \<and> bal_num (promised_num s) = bal_num (cq_ballot q) \<and> bal_num (accept_num s) = bal_num (cq_ballot q)
     then fold (commit_view (isClientInCluster s) (accept_num s)) (accept_batch s) (view_of s) else view_of s)"
  using assms by (simp add: processCommitCall_def fold_commit_unlock_entry_view commit_view_def [abs_def])

lemma processCommitCall_same:
  "i_am_disconnected (processCommitCall q s) = i_am_disconnected s"
  "promised_num (processCommitCall q s) = promised_num s" "accept_num (processCommitCall q s) = accept_num s"
  "accept_batch (processCommitCall q s) = accept_batch s"
  "isClientInCluster (processCommitCall q s) = isClientInCluster s"
  "wal_can_open (srv_wal (processCommitCall q s)) = wal_can_open (srv_wal s)"
proof -
  have "wal_can_open (srv_wal (fold commit_unlock_entry rs s')) = wal_can_open (srv_wal s')" for rs s'
    by (induction rs arbitrary: s') simp_all
  then show "wal_can_open (srv_wal (processCommitCall q s)) = wal_can_open (srv_wal s)"
    by (simp add: processCommitCall_def)
qed (simp_all add: processCommitCall_def isClientInCluster_def fun_eq_iff)

text \<open>C19. A commit that arrives twice is harmless: handling the same commit message a second
  time, whatever it named, changes neither log, balances, applied tids nor the Paxos index.\<close>

theorem duplicate_commit_harmless:
  assumes "wal_can_open (srv_wal s)"
  shows "view_of (processCommitCall q (processCommitCall q s)) = view_of (processCommitCall q s)"
proof -
  let ?C = "commit_view (isClientInCluster s) (accept_num s)"
  have "fold ?C (accept_batch s) (fold ?C (accept_batch s) (view_of s)) = fold ?C (accept_batch s) (view_of s)"
    using commit_view_fold_applied(2) by (intro commit_view_fold_done) blast
  then show ?thesis using assms by (simp add: processCommitCall_view processCommitCall_same)
qed

theorem duplicate_commit_harmless_witness:
  "wal_can_open (srv_wal sample_leader) \<and>
   view_of (processCommitCall \<lparr>cq_ballot = sample_ballot\<rparr> (processCommitCall \<lparr>cq_ballot = sample_ballot\<rparr> sample_leader))
     = view_of (processCommitCall \<lparr>cq_ballot = sample_ballot\<rparr> sample_leader)"
  using duplicate_commit_harmless [OF sample_round_same(7)] sample_round_same(7) by blast

section \<open>Locks of cross-shard transactions on a replica\<close>

lemma commit_unlock_locks:
  "locks (commit_unlock_entry r s) = locks s - {a \<in> {sender (req_txn r), receiver (req_txn r)}. isClientInCluster s a}"
  by (auto simp: commit_unlock_entry_def Let_def)

lemma fold_commit_unlock_locks:
  "locks (fold commit_unlock_entry rs s) =
     locks s - (\<Union>r \<in> set rs. {a \<in> {sender (req_txn r), receiver (req_txn r)}. isClientInCluster s a})"
proof (induction rs arbitrary: s)
  case (Cons r rs)
  have "isClientInCluster (commit_unlock_entry r s) = isClientInCluster s"
    by (simp add: isClientInCluster_def fun_eq_iff)
  with Cons show ?case by (auto simp: commit_unlock_locks)
qed simp

lemma fold_commit_unlock_pending:
  assumes "wal_rel (srv_wal s) rs" and "\<forall>r \<in> set qs. req_fits r" and "ballot_fits (accept_num s)"
  shows "wal_pending (srv_wal (fold commit_unlock_entry qs s)) = wal_pending (srv_wal s)"
  using assms
proof (induction qs arbitrary: s rs)
  case (Cons r qs)
  let ?s = "commit_unlock_entry r s" and ?r' = "[(''IN_COMMIT'', entry_of_req r (accept_num s) INTRA COMMITTED)]"
  have "wal_pending (srv_wal ?s) = wal_pending (srv_wal s) \<and> (wal_rel (srv_wal ?s) rs \<or> wal_rel (srv_wal ?s) (rs @ ?r'))"
  proof (cases "intra_in (isClientInCluster s) r \<and> req_tid r \<notin> balance_applied s")
    case True
    then have "srv_wal ?s = fst (wal_commitTransaction r (accept_num s) (srv_wal s))"
      using wal_rel_open [OF Cons.prems(1)]
      by (simp add: commit_unlock_entry_def Let_def intra_in_def commit_fields(2))
    then show ?thesis
      using wal_pending_commit [OF Cons.prems(1), of r "accept_num s"] wal_rel_commit [OF Cons.prems(1), of r "accept_num s"]
        Cons.prems(2,3) by simp
  next
    case False
    then have "srv_wal ?s = srv_wal s"
      by (auto simp: commit_unlock_entry_def Let_def intra_in_def commit_skip)
    then show ?thesis using Cons.prems(1) by simp
  qed
  then show ?case using Cons.IH [of ?s] Cons.prems(2,3) by auto
qed simp

text \<open>C23. A replica gives up the locks of prepared transactions early.  The documentation says
  locks are held from prepare until the commit or abort decision; on a replica the Paxos
  commit of the round that carried the 2PC prepare already removes the lock of the account in
  the shard, while the transaction is still open in the log.\<close>

theorem replica_unlocks_prepared:
  assumes "log_in_wal s" and "env_ok s" and "\<not> i_am_disconnected s"
    and "bal_num (promised_num s) = bal_num (cq_ballot q)" and "bal_num (accept_num s) = bal_num (cq_ballot q)"
    and "r \<in> set (accept_batch s)" and "isClientInCluster s a"
    and "a \<in> {sender (req_txn r), receiver (req_txn r)}" and "wal_pending (srv_wal s) (req_tid r) = Some e"
  shows "a \<notin> locks (processCommitCall q s) \<and> wal_pending (srv_wal (processCommitCall q s)) (req_tid r) = Some e"
proof -
  obtain rs where "wal_rel (srv_wal s) rs" using assms(1) by (auto simp: log_in_wal_def)
  then have "wal_pending (srv_wal (fold commit_unlock_entry (accept_batch s) s)) = wal_pending (srv_wal s)"
    using assms(2) fold_commit_unlock_pending by (auto simp: env_ok_def)
  moreover have "a \<notin> locks (fold commit_unlock_entry (accept_batch s) s)"
    using assms(6-8) by (auto simp: fold_commit_unlock_locks)
  ultimately show ?thesis using assms(3-5,9) by (simp add: processCommitCall_def)
qed

theorem replica_unlocks_prepared_witness:
  "12 \<in> locks sample_replica \<and> 12 \<notin> locks (processCommitCall \<lparr>cq_ballot = sample_ballot\<rparr> sample_replica) \<and>
   wal_pending (srv_wal (processCommitCall \<lparr>cq_ballot = sample_ballot\<rparr> sample_replica)) 77
     = Some (entry_of_req sample_req sample_ballot CROSS PREPARED)"
proof -
  have inv: "log_in_wal sample_replica" "env_ok sample_replica"
    using wal_mirror.I_reach [OF sample_steps(2)] env_ok_reach [OF sample_steps(2)] sample_server_ok by blast+
  have ctl: "\<not> i_am_disconnected sample_replica" "promised_num sample_replica = sample_ballot"
    "accept_num sample_replica = sample_ballot" "accept_batch sample_replica = [sample_req]"
    by (simp_all add: sample_replica_def sample_accept_def sample_prepare_def processPrepareCall_def
        processAcceptCall_def accept_batch_locked sample_server_def ServerImpl_def resetDisconnectedState_def
        sample_ballot_def accept_lock_entry_def Let_def)
  have "wal_pending (srv_wal sample_replica) 77 = Some (entry_of_req sample_req sample_ballot CROSS PREPARED)"
    using wal_pending_recs [OF sample_wal_rel, of 77]
    by (simp add: sample_replica_fields pending_of_recs_def pending_step_def entry_of_req_def sample_req_def)
  moreover have "isClientInCluster sample_replica 12"
    by (simp add: isClientInCluster_def sample_replica_fields getClusterIdFromClientId_def ceil_div_def total_clients_def)
  ultimately show ?thesis
    using replica_unlocks_prepared [OF inv ctl(1), of "\<lparr>cq_ballot = sample_ballot\<rparr>" sample_req 12]
    by (simp add: ctl sample_replica_fields, simp add: sample_req_def)
qed

section \<open>Catching up\<close>



lemma fold_sync_frames [simp]:
  "isClientInCluster (fold sync_entry les s) = isClientInCluster s"
  "last_inserted (fold sync_entry les s) = last_inserted s"
  "current (fold sync_entry les s) = current s"
  by (induction les arbitrary: s) simp_all








text \<open>C25. A sync can take a ballot number back.  The ballot number is documented to increase
  only; after a sync it is the ballot of the peer's last entry, whatever the replica had
  promised before.  The replica then acknowledges a prepare with a ballot it had already
  refused.\<close>

theorem sync_lowers_ballot:
  assumes "ss_ack res" and "bal_num (ss_last_inserted_ballot res) < ballot_num s"
    and "current s = []" and "pending s = []" and "\<not> i_am_disconnected s"
    and "bal_num (ss_last_inserted_ballot res) < bal_num (pq_ballot q)" and "bal_num (pq_ballot q) \<le> ballot_num s"
    and "pq_paxos_index q = paxos_index (fold sync_entry (ss_logs res) s)"
  defines "s' \<equiv> handleSyncReply RpcOk res s"
  shows "ballot_num s' < ballot_num s \<and> \<not> ps_ack (snd (processPrepareCall q s)) \<and> ps_ack (snd (processPrepareCall q s'))"
proof -
  have s': "ballot_num s' = bal_num (ss_last_inserted_ballot res)" "i_am_disconnected s' = i_am_disconnected s"
    "paxos_index s' = paxos_index (fold sync_entry (ss_logs res) s)"
    using assms(1,3,4) by (simp_all add: s'_def handleSyncReply_def Let_def maybeStartRound_def)
  with assms(2,5-8) show ?thesis by (simp add: processPrepareCall_def Let_def)
qed

definition old_ballot_res :: SyncRes where
  "old_ballot_res = \<lparr>ss_ack = True, ss_logs = [], ss_last_inserted_ballot = \<lparr>bal_num = 4, bal_server_id = 2\<rparr>\<rparr>"

theorem sync_lowers_ballot_witness:
  "ballot_num (handleSyncReply RpcOk old_ballot_res (sample_server\<lparr>ballot_num := 9\<rparr>)) < 9 \<and>
   ps_ack (snd (processPrepareCall \<lparr>pq_ballot = \<lparr>bal_num = 7, bal_server_id = 3\<rparr>, pq_paxos_index = -1\<rparr>
     (handleSyncReply RpcOk old_ballot_res (sample_server\<lparr>ballot_num := 9\<rparr>))))"
  using sync_lowers_ballot [of old_ballot_res "sample_server\<lparr>ballot_num := 9\<rparr>"
      "\<lparr>pq_ballot = \<lparr>bal_num = 7, bal_server_id = 3\<rparr>, pq_paxos_index = -1\<rparr>"]
  by (simp add: old_ballot_res_def sample_server_def ServerImpl_def resetDisconnectedState_def)

end
