(* ===== verification/Tpc.thy ===== *)
theory Tpc
  imports Round
begin

text \<open>
  The participant's side of two-phase commit: what a decision does to the accounts and locks
  of a shard, that the first decision on a transaction is final, that a committed transfer
  conserves money across two shards, and what the lock timeout does.
\<close>

section \<open>A decision on a prepared transaction\<close>

text \<open>Transaction \<open>t\<close> is prepared on a reachable, connected server.\<close>

definition prepared_on :: "server \<Rightarrow> int \<Rightarrow> WALEntry \<Rightarrow> bool" where
  "prepared_on s t e \<longleftrightarrow> log_in_wal s \<and> \<not> i_am_disconnected s \<and> wal_pending (srv_wal s) t = Some e"

lemma prepared_on_result:
  assumes "prepared_on s t e"
  shows "snd (tpc_result c t (srv_wal s)) = e\<lparr>we_status := (if c then COMMITTED else ABORTED)\<rparr>"
    and "decided c t s" and "we_tid e = t" and "wal_pending (fst (tpc_result c t (srv_wal s))) t = None"
proof -
  obtain rs where rs: "wal_rel (srv_wal s) rs" and no: "transferIndex (srv_wal s) (-1) = None"
    using assms by (auto simp: prepared_on_def log_in_wal_def)
  have e: "wal_pending (srv_wal s) t = Some e" using assms by (simp add: prepared_on_def)
  show 1: "snd (tpc_result c t (srv_wal s)) = e\<lparr>we_status := (if c then COMMITTED else ABORTED)\<rparr>"
    by (rule tpc_result_pending(2) [OF rs e])
  show 2: "we_tid e = t" by (rule wal_pending_fits(2) [OF rs e])
  have "t \<noteq> -1" using e no by (auto simp: wal_pending_def)
  with 1 2 assms show "decided c t s" by (simp add: decided_def prepared_on_def)
  show "wal_pending (fst (tpc_result c t (srv_wal s))) t = None"
    using wal_pending_decision [OF rs, of t] by (simp add: tpc_result_def)
qed

lemma decision_locks:
  "locks (processTpcDecision t c s) = (let e = snd (tpc_result c t (srv_wal s)) in
     if decided c t s then locks s - {a \<in> {sender (we_txn e), receiver (we_txn e)}. isClientInCluster s a} else locks s)"
  by (auto simp: processTpcDecision_def decided_def Let_def split_beta tpc_result_def)

lemma decision_pending:
  "log_in_wal s \<Longrightarrow> wal_pending (srv_wal (processTpcDecision t c s)) =
     (if i_am_disconnected s then wal_pending (srv_wal s) else (wal_pending (srv_wal s))(t := None))"
  using wal_pending_decision by (auto simp: decision_fields tpc_result_def log_in_wal_def)

text \<open>C16. Commit and abort.  A decision on a prepared transaction appends one entry that
  carries the transaction and the decision, closes the transaction, and releases the locks of
  its accounts in the shard.  A commit moves the amount on the accounts of the shard the
  first time the tid is applied; an abort leaves every balance alone.\<close>

theorem decision_effect:
  fixes c
  assumes "prepared_on s t e"
  defines "s' \<equiv> processTpcDecision t c s"
  shows "srv_log s' = srv_log s @ [e\<lparr>we_status := (if c then COMMITTED else ABORTED)\<rparr>]
    \<and> wal_pending (srv_wal s') = (wal_pending (srv_wal s))(t := None)
    \<and> locks s' = locks s - {a \<in> {sender (we_txn e), receiver (we_txn e)}. isClientInCluster s a}
    \<and> get_balance s' = (if c \<and> t \<notin> balance_applied s then move (isClientInCluster s) (we_txn e) (get_balance s)
                        else get_balance s)"
  using assms(1) prepared_on_result(1,2) [OF assms(1), of c] prepared_on_result(3) [OF assms(1)]
  by (simp add: s'_def decision_fields(1) decision_locks decision_pending decision_balance Let_def prepared_on_def)

lemma sample_replica_prepared: "prepared_on sample_replica 77 (entry_of_req sample_req sample_ballot CROSS PREPARED)"
proof -
  have "log_in_wal sample_replica"
    by (rule wal_mirror.I_reach [OF sample_steps(2) sample_server_ok(3,1)])
  moreover have "\<not> i_am_disconnected sample_replica"
    by (simp add: sample_replica_def sample_accept_def sample_prepare_def processPrepareCall_def processAcceptCall_def
        sample_server_def ServerImpl_def resetDisconnectedState_def Let_def)
  moreover have "wal_pending (srv_wal sample_replica) 77 = Some (entry_of_req sample_req sample_ballot CROSS PREPARED)"
    using wal_pending_recs [OF sample_wal_rel, of 77]
    by (simp add: sample_replica_fields pending_of_recs_def pending_step_def entry_of_req_def sample_req_def)
  ultimately show ?thesis by (simp add: prepared_on_def)
qed

theorem decision_effect_witness:
  "prepared_on sample_replica 77 (entry_of_req sample_req sample_ballot CROSS PREPARED) \<and>
   locks (processTpcDecision 77 True sample_replica) = {} \<and>
   srv_log (processTpcDecision 77 False sample_replica) =
     [entry_of_req sample_req sample_ballot CROSS PREPARED, entry_of_req sample_req sample_ballot CROSS ABORTED]"
proof -
  have "isClientInCluster sample_replica 12"
    by (simp add: isClientInCluster_def sample_replica_fields getClusterIdFromClientId_def ceil_div_def total_clients_def)
  then show ?thesis
    using decision_effect [OF sample_replica_prepared, of True] decision_effect [OF sample_replica_prepared, of False]
      sample_replica_prepared
    by (auto simp: sample_replica_fields entry_of_req_def sample_req_def)
qed

section \<open>Two shards\<close>

lemma sum_move:
  assumes "finite A"
  shows "(\<Sum>a\<in>A. move inC x f a) = (\<Sum>a\<in>A. f a) - (if sender x \<in> A \<and> inC (sender x) then amount x else 0)
     + (if receiver x \<in> A \<and> inC (receiver x) then amount x else 0)"
proof -
  have ite: "(\<Sum>a\<in>A. if a = k \<and> inC a then v else 0) = (if k \<in> A \<and> inC k then v else (0::int))" for k v
  proof -
    have "(\<Sum>a\<in>A. if a = k \<and> inC a then v else 0) = (\<Sum>a\<in>A. if a = k then (if inC k then v else 0) else 0)"
      by (rule sum.cong) auto
    then show ?thesis using assms by (simp add: sum.delta)
  qed
  show ?thesis by (simp add: move_def sum.distrib sum_subtractf ite)
qed

text \<open>C6. Money is conserved across shards.  When a transfer is prepared with the same
  transaction on a server of the sender's shard and one of the receiver's shard and neither
  has applied it, the sum of the accounts of both shards is the same after both commit and
  after both abort; after the commit the sender has the amount less and the receiver the
  amount more.\<close>

theorem cross_shard_conservation:
  assumes "prepared_on s1 t e1" and "prepared_on s2 t e2" and "we_txn e1 = x" and "we_txn e2 = x"
    and "isClientInCluster s1 (sender x)" and "\<not> isClientInCluster s1 (receiver x)"
    and "isClientInCluster s2 (receiver x)" and "\<not> isClientInCluster s2 (sender x)"
    and "t \<notin> balance_applied s1" and "t \<notin> balance_applied s2"
    and "finite A" and "sender x \<in> A" and "finite B" and "receiver x \<in> B"
  shows "(\<Sum>a\<in>A. get_balance (processTpcDecision t c s1) a) + (\<Sum>b\<in>B. get_balance (processTpcDecision t c s2) b)
      = (\<Sum>a\<in>A. get_balance s1 a) + (\<Sum>b\<in>B. get_balance s2 b)
    \<and> get_balance (processTpcDecision t c s1) (sender x) = get_balance s1 (sender x) - (if c then amount x else 0)
    \<and> get_balance (processTpcDecision t c s2) (receiver x) = get_balance s2 (receiver x) + (if c then amount x else 0)"
proof -
  have "get_balance (processTpcDecision t c s1) = (if c then move (isClientInCluster s1) x (get_balance s1) else get_balance s1)"
    "get_balance (processTpcDecision t c s2) = (if c then move (isClientInCluster s2) x (get_balance s2) else get_balance s2)"
    using prepared_on_result(1,2) [OF assms(1), of c] prepared_on_result(1,2) [OF assms(2), of c]
      prepared_on_result(3) [OF assms(1)] prepared_on_result(3) [OF assms(2)] assms(3,4,9,10)
    by (simp_all add: decision_balance Let_def)
  moreover have "move (isClientInCluster s1) x f (sender x) = f (sender x) - amount x"
    "move (isClientInCluster s2) x f (receiver x) = f (receiver x) + amount x" for f
    using assms(5-8) by (auto simp: move_def)
  ultimately show ?thesis
    using assms(5-8,11-14) by (cases c) (simp_all add: sum_move)
qed

definition peer_replica :: server where
  "peer_replica = sample_replica\<lparr>server_id := 4, cluster_id := 2\<rparr>"

lemma peer_replica_prepared: "prepared_on peer_replica 77 (entry_of_req sample_req sample_ballot CROSS PREPARED)"
  using sample_replica_prepared by (simp add: prepared_on_def log_in_wal_def peer_replica_def)

lemma balance_applied_sample: "balance_applied sample_replica = {}"
  by (simp add: sample_replica_def sample_accept_def sample_prepare_def processPrepareCall_def processAcceptCall_def
      sample_server_def ServerImpl_def resetDisconnectedState_def Let_def)

theorem cross_shard_conservation_witness:
  "(\<Sum>a\<in>{12, 13}. get_balance (processTpcDecision 77 True sample_replica) a)
     + (\<Sum>b\<in>{1500}. get_balance (processTpcDecision 77 True peer_replica) b) = 30 \<and>
   get_balance (processTpcDecision 77 True peer_replica) 1500 = 14"
proof -
  have shards: "isClientInCluster sample_replica 12" "\<not> isClientInCluster sample_replica 1500"
    "isClientInCluster peer_replica 1500" "\<not> isClientInCluster peer_replica 12"
    by (simp_all add: isClientInCluster_def peer_replica_def sample_replica_fields getClusterIdFromClientId_def
        ceil_div_def total_clients_def)
  have peer: "balance_applied peer_replica = {}" "get_balance peer_replica = (\<lambda>_. 10)"
    using balance_applied_sample sample_replica_fields(4)
    by (simp_all add: peer_replica_def get_balance_def fun_eq_iff)
  show ?thesis
    using cross_shard_conservation [OF sample_replica_prepared peer_replica_prepared,
        of "\<lparr>sender = 12, receiver = 1500, amount = 4\<rparr>" "{12, 13}" "{1500}" True]
      shards peer sample_replica_fields(4) balance_applied_sample
    by (simp add: entry_of_req_def sample_req_def)
qed

section \<open>The first decision is final\<close>



lemma expire_pending:
  "log_in_wal s \<Longrightarrow> wal_pending (srv_wal (expire_prepare t s)) = (wal_pending (srv_wal s))(t := None)"
  using wal_pending_decision by (auto simp: expire_fields tpc_result_def log_in_wal_def)



section \<open>The lock timeout\<close>

lemma expire_timestamps: "prepareTimestamps (expire_prepare t s) = omap_erase t (prepareTimestamps s)"
  by (simp add: expire_prepare_def Let_def split_beta)

definition expired :: "int \<Rightarrow> (int \<times> int) list \<Rightarrow> int set" where
  "expired now ps = fst ` {p \<in> set ps. timed_out now (snd p)}"

lemma expired_simps [simp]:
  "expired now [] = {}"
  "expired now (p # ps) = (if timed_out now (snd p) then insert (fst p) (expired now ps) else expired now ps)"
  by (auto simp: expired_def)

lemma sweep_log_in_wal: "log_in_wal s \<Longrightarrow> log_in_wal (fold (sweep_step now) ps s)"
  by (induction ps arbitrary: s) (simp_all add: sweep_step_def wal_mirror.I_expire)

lemma sweep_balance: "get_balance (fold (sweep_step now) ps s) = get_balance s"
  by (induction ps arbitrary: s) (simp_all add: sweep_step_def expire_fields(3))

lemma sweep_timestamps:
  "prepareTimestamps (fold (sweep_step now) ps s) = filter (\<lambda>p. fst p \<notin> expired now ps) (prepareTimestamps s)"
  by (induction ps arbitrary: s)
    (auto simp: sweep_step_def expire_timestamps omap_erase_def intro: filter_cong)

lemma sweep_pending:
  "log_in_wal s \<Longrightarrow> wal_pending (srv_wal (fold (sweep_step now) ps s)) =
     (\<lambda>t. if t \<in> expired now ps then None else wal_pending (srv_wal s) t)"
proof (induction ps arbitrary: s)
  case (Cons p ps)
  then show ?case
    using wal_mirror.I_expire [of s "fst p"] by (auto simp: sweep_step_def expire_pending fun_eq_iff)
qed simp

lemma expire_locks:
  assumes "log_in_wal s" and "wal_pending (srv_wal s) t = Some e"
  shows "locks (expire_prepare t s) = locks s - {a \<in> {sender (we_txn e), receiver (we_txn e)}. isClientInCluster s a}"
proof -
  obtain rs where rs: "wal_rel (srv_wal s) rs" and no: "transferIndex (srv_wal s) (-1) = None"
    using assms(1) by (auto simp: log_in_wal_def)
  have "we_tid e \<noteq> -1" using wal_pending_fits(2) [OF rs assms(2)] assms(2) no by (auto simp: wal_pending_def)
  then show ?thesis
    using wal_decision_pending(2) [OF rs assms(2)]
    by (auto simp: expire_prepare_def Let_def split_beta)
qed

lemma sweep_locks_subset: "locks (fold (sweep_step now) ps s) \<subseteq> locks s"
proof (induction ps arbitrary: s)
  case (Cons p ps)
  have "locks (expire_prepare t s) \<subseteq> locks s" for t
    by (auto simp: expire_prepare_def Let_def split_beta)
  with Cons [of "sweep_step now p s"] show ?case by (auto simp: sweep_step_def split: if_splits)
qed simp

lemma sweep_locks:
  assumes "log_in_wal s" and "t \<in> expired now ps" and "wal_pending (srv_wal s) t = Some e"
    and "a \<in> {sender (we_txn e), receiver (we_txn e)}" and "isClientInCluster s a"
  shows "a \<notin> locks (fold (sweep_step now) ps s)"
  using assms
proof (induction ps arbitrary: s)
  case (Cons p ps)
  let ?s = "sweep_step now p s"
  show ?case
  proof (cases "timed_out now (snd p) \<and> fst p = t")
    case True
    then have "a \<notin> locks ?s" using expire_locks [OF Cons.prems(1,3)] Cons.prems(4,5) by (auto simp: sweep_step_def)
    then show ?thesis using sweep_locks_subset [of now ps ?s] by auto
  next
    case False
    then have "t \<in> expired now ps" using Cons.prems(2) by (auto split: if_splits)
    moreover have "wal_pending (srv_wal ?s) t = Some e" "log_in_wal ?s" "isClientInCluster ?s a"
      using False Cons.prems(1,3,5) wal_mirror.I_expire
      by (auto simp: sweep_step_def expire_pending)
    ultimately show ?thesis using Cons.IH Cons.prems(4) by simp
  qed
qed simp

text \<open>C18. The lock timeout.  One sweep of the event loop closes exactly the prepared
  transactions whose prepare is more than five seconds old: they leave the time stamps and
  the index of prepared transactions, and the locks of their accounts in the shard are gone;
  every younger transaction stays, no lock is taken and no balance changes.\<close>

theorem lock_timeout_sweep:
  fixes now
  assumes "log_in_wal s"
  defines "s' \<equiv> sweep_timeouts now s" and "old \<equiv> {t. \<exists>ts. (t, ts) \<in> set (prepareTimestamps s) \<and> (now - ts) div 1000000 > 5000}"
  shows "prepareTimestamps s' = filter (\<lambda>p. fst p \<notin> old) (prepareTimestamps s)
    \<and> wal_pending (srv_wal s') = (\<lambda>t. if t \<in> old then None else wal_pending (srv_wal s) t)
    \<and> (\<forall>t e a. t \<in> old \<and> wal_pending (srv_wal s) t = Some e \<and> a \<in> {sender (we_txn e), receiver (we_txn e)}
         \<and> isClientInCluster s a \<longrightarrow> a \<notin> locks s')
    \<and> locks s' \<subseteq> locks s \<and> get_balance s' = get_balance s"
proof -
  have old: "old = expired now (prepareTimestamps s)"
    by (force simp: old_def expired_def timed_out_def TPC_LOCK_TIMEOUT_MS_def)
  show ?thesis
    unfolding s'_def sweep_timeouts_def old
    using sweep_timestamps sweep_pending [OF assms(1)] sweep_locks [OF assms(1)] sweep_locks_subset sweep_balance
    by blast
qed

theorem lock_timeout_sweep_witness:
  "log_in_wal sample_replica \<and> prepareTimestamps (sweep_timeouts 5001000000 sample_replica) = [] \<and>
   12 \<notin> locks (sweep_timeouts 5001000000 sample_replica) \<and>
   prepareTimestamps (sweep_timeouts 5000000000 sample_replica) = [(77, 0)]"
proof -
  have log: "log_in_wal sample_replica"
    and pend: "wal_pending (srv_wal sample_replica) 77 = Some (entry_of_req sample_req sample_ballot CROSS PREPARED)"
    using sample_replica_prepared by (simp_all add: prepared_on_def)
  have "isClientInCluster sample_replica 12"
    by (simp add: isClientInCluster_def sample_replica_fields getClusterIdFromClientId_def ceil_div_def total_clients_def)
  then show ?thesis
    using lock_timeout_sweep [OF log, of 5001000000] lock_timeout_sweep [OF log, of 5000000000] log pend
    by (auto simp: sample_replica_fields entry_of_req_def sample_req_def)
qed

end
