(* ===== verification/Shards.thy ===== *)
theory Shards
  imports Config
begin

text \<open>
  Topology: every account belongs to exactly one cluster, and the default set-up gives each
  cluster its servers.
\<close>

section \<open>Accounts\<close>

lemma cluster_of_client:
  "getClusterIdFromClientId c i = k \<longleftrightarrow> 3000 * (k - 1) < i * num_clusters c \<and> i * num_clusters c \<le> 3000 * k"
  by (simp add: getClusterIdFromClientId_def total_clients_def ceil_div_eq_iff)

text \<open>Every account belongs to exactly one cluster.  With at least one cluster, the cluster
  of each of the 3000 accounts is between 1 and the number of clusters, it grows with the
  account number, and when the number of clusters divides 3000 cluster \<open>k\<close> holds exactly the
  \<open>k\<close>-th block of accounts.\<close>

theorem accounts_partitioned:
  assumes "1 \<le> num_clusters c" and "1 \<le> i" and "i \<le> total_clients"
  shows "1 \<le> getClusterIdFromClientId c i \<and> getClusterIdFromClientId c i \<le> num_clusters c
    \<and> (\<exists>!k. isClientInCluster_util c i k)
    \<and> (i \<le> j \<longrightarrow> getClusterIdFromClientId c i \<le> getClusterIdFromClientId c j)
    \<and> (num_clusters c * m = total_clients \<longrightarrow>
         (isClientInCluster_util c i k \<longleftrightarrow> m * (k - 1) < i \<and> i \<le> m * k))"
proof (intro conjI impI)
  let ?n = "num_clusters c" and ?q = "getClusterIdFromClientId c i"
  have b: "3000 * (?q - 1) < i * ?n" "i * ?n \<le> 3000 * ?q" using cluster_of_client [of c i ?q] by simp_all
  have "1 * 1 \<le> i * ?n" using assms(1,2) by (intro mult_mono) auto
  with b(2) show "1 \<le> ?q" by linarith
  have "i * ?n \<le> 3000 * ?n" using assms by (intro mult_right_mono) (auto simp: total_clients_def)
  with b(1) have "3000 * (?q - 1) < 3000 * ?n" by (rule less_le_trans)
  then show "?q \<le> ?n" by simp
  show "\<exists>!k. isClientInCluster_util c i k" by (simp add: isClientInCluster_util_def)
  show "?q \<le> getClusterIdFromClientId c j" if "i \<le> j"
  proof -
    have "i * ?n \<le> j * ?n" using that assms(1) by (intro mult_right_mono) auto
    moreover have "j * ?n \<le> 3000 * getClusterIdFromClientId c j"
      using cluster_of_client [of c j "getClusterIdFromClientId c j"] by simp
    ultimately have "3000 * (?q - 1) < 3000 * getClusterIdFromClientId c j"
      using b(1) less_le_trans by blast
    then show ?thesis by simp
  qed
  show "isClientInCluster_util c i k \<longleftrightarrow> m * (k - 1) < i \<and> i \<le> m * k" if m: "?n * m = total_clients"
  proof -
    have "3000 * (k - 1) = (m * (k - 1)) * ?n" "3000 * k = (m * k) * ?n"
      using m by (simp_all add: total_clients_def algebra_simps)
    moreover have "isClientInCluster_util c i k \<longleftrightarrow> 3000 * (k - 1) < i * ?n \<and> i * ?n \<le> 3000 * k"
      unfolding isClientInCluster_util_def by (rule cluster_of_client)
    moreover have "x * ?n < i * ?n \<longleftrightarrow> x < i" "i * ?n \<le> x * ?n \<longleftrightarrow> i \<le> x" for x
      using assms(1) by (simp_all add: mult_less_cancel_right mult_le_cancel_right)
    ultimately show ?thesis by (simp only:)
  qed
qed

theorem accounts_partitioned_witness:
  "getClusterIdFromClientId initial_config 1001 \<le> 3 \<and>
   (isClientInCluster_util initial_config 1001 2 \<longleftrightarrow> 1000 * (2 - 1) < (1001::int) \<and> (1001::int) \<le> 1000 * 2)"
  using accounts_partitioned [of initial_config 1001 2000 1000 2]
  by (simp add: initial_config_def total_clients_def)

section \<open>Servers\<close>

lemma server_name_inj [simp]: "server_name_of i = server_name_of j \<longleftrightarrow> i = j"
  by (simp add: server_name_of_def)

lemma setup_servers:
  "omap_ok (server_ids (setupApplicationState nc cs c))"
  "map_of (server_ids (setupApplicationState nc cs c)) nm =
     (if \<exists>i. 1 \<le> i \<and> i \<le> nc * cs \<and> nm = server_name_of i
      then Some (THE i. nm = server_name_of i) else None)"
  "num_clusters (setupApplicationState nc cs c) = nc" "cluster_size (setupApplicationState nc cs c) = cs"
proof -
  have *: "omap_ok (server_ids d) \<Longrightarrow> omap_ok (server_ids (foldl add_server d is)) \<and>
     map_of (server_ids (foldl add_server d is)) nm =
       (if \<exists>i \<in> set is. nm = server_name_of i then Some (THE i. nm = server_name_of i) else map_of (server_ids d) nm) \<and>
     num_clusters (foldl add_server d is) = num_clusters d \<and> cluster_size (foldl add_server d is) = cluster_size d" for d "is"
    by (induction "is" arbitrary: d)
      (auto simp: add_server_def omap.invar_update omap.lookup_update)
  show "omap_ok (server_ids (setupApplicationState nc cs c))"
    "map_of (server_ids (setupApplicationState nc cs c)) nm =
     (if \<exists>i. 1 \<le> i \<and> i \<le> nc * cs \<and> nm = server_name_of i
      then Some (THE i. nm = server_name_of i) else None)"
    "num_clusters (setupApplicationState nc cs c) = nc" "cluster_size (setupApplicationState nc cs c) = cs"
    using * [of "c\<lparr>num_clusters := nc, cluster_size := cs, server_addresses := [], server_ids := []\<rparr>" "[1..nc * cs]"]
    by (auto simp: setupApplicationState_def)
qed

lemma setup_server_set:
  "set (server_ids (setupApplicationState nc cs c)) = (\<lambda>i. (server_name_of i, i)) ` {1..nc * cs}"
proof -
  let ?m = "server_ids (setupApplicationState nc cs c)"
  have "(nm, i) \<in> set ?m \<longleftrightarrow> map_of ?m nm = Some i" for nm i
    using omap_ok_distinct [OF setup_servers(1)] by simp
  then show ?thesis by (auto simp: setup_servers(2) split: if_splits)
qed

text \<open>The default topology.  For at least one cluster of at least one server,
  \<open>setupApplicationState\<close> names servers \<open>S1\<close> to \<open>Sn\<close> with ids 1 to n, and the
  servers of cluster \<open>k\<close> are those with the \<open>k\<close>-th block of ids, each once, so that every
  cluster has exactly \<open>cluster_size\<close> servers.\<close>

theorem default_topology:
  fixes c
  assumes "1 \<le> cs" and "1 \<le> k" and "k \<le> nc"
  defines "c' \<equiv> setupApplicationState nc cs c"
  shows "set (getServersInCluster c' k) = server_name_of ` {cs * (k - 1) + 1..cs * k}
    \<and> distinct (getServersInCluster c' k) \<and> int (length (getServersInCluster c' k)) = cs"
proof -
  have cl: "getClusterIdFromServerId c' i = k \<longleftrightarrow> cs * (k - 1) < i \<and> i \<le> cs * k" for i
    using assms(1) by (simp add: getClusterIdFromServerId_def c'_def setup_servers ceil_div_eq_iff)
  have "cs * k \<le> nc * cs" using assms(1,3) by (simp add: mult.commute mult_right_mono)
  moreover have "0 \<le> cs * (k - 1)" using assms(1,2) by simp
  ultimately have set: "set (getServersInCluster c' k) = server_name_of ` {cs * (k - 1) + 1..cs * k}"
    by (force simp: getServersInCluster_def c'_def [symmetric] setup_server_set [of nc cs c, folded c'_def] cl)
  have dist: "distinct (getServersInCluster c' k)"
    using omap_ok_distinct [OF setup_servers(1) [of nc cs c]]
    unfolding getServersInCluster_def c'_def by (rule distinct_map_filter)
  have "int (length (getServersInCluster c' k)) = int (card (server_name_of ` {cs * (k - 1) + 1..cs * k}))"
    using distinct_card [OF dist] set by simp
  also have "\<dots> = cs" using assms(1) by (simp add: card_image inj_on_def algebra_simps)
  finally show ?thesis using set dist by blast
qed

theorem default_topology_witness:
  "set (getServersInCluster (setupApplicationState 3 3 initial_config) 2) = server_name_of ` {4..6} \<and>
   length (getServersInCluster (setupApplicationState 3 3 initial_config) 2) = 3"
  using default_topology [of 3 2 3 initial_config] by simp

end
