(* ===== verification/Ballots.thy ===== *)
theory Ballots
  imports Round Shards
begin

text \<open>
  Ballots and votes.  A server votes for a ballot number when it promises it to a leader or
  issues it itself.  As long as no sync reply arrives its ballot number only grows, so it
  votes for each number at most once; two quorums of a cluster intersect, so at most one
  leader can win a number.
\<close>

section \<open>The ballot number only grows\<close>

lemma ballot_reissue [simp]: "ballot_num (reissuePrepareForCurrent s) = ballot_num s + 1"
  by (simp add: reissuePrepareForCurrent_def Let_def)










section \<open>Votes\<close>








section \<open>Quorums\<close>








section \<open>The majority is a constant\<close>









section \<open>A leader that is overtaken\<close>

lemma overtaken_reply:
  assumes "prepare_successes s < MAJORITY" and "prepare_failures s < MAJORITY"
    and "bal_num (pq_ballot q) \<noteq> bal_num (promised_num s)" and "bal_num (ps_ballot res) \<noteq> bal_num (promised_num s)"
  shows "handlePrepareReply st q res s = s"
  using assms by (simp add: handlePrepareReply_def)

text \<open>What may reach the leader meanwhile: replies to prepares with its own or an earlier ballot, and any request or
  reply but the answer to a sync request and a new disconnection command.\<close>

fun stalled_event :: "int \<Rightarrow> event \<Rightarrow> bool" where
  "stalled_event n (EvPrepareReply st q res) = (bal_num (pq_ballot q) \<le> n \<and> bal_num (ps_ballot res) \<le> n)"
| "stalled_event n (EvSyncReply st res) = False"
| "stalled_event n (EvDisconnect names) = False"
| "stalled_event n ev = True"

fun is_reply :: "out \<Rightarrow> bool" where
  "is_reply (OutReply call res) = True"
| "is_reply x = False"

definition stalled :: "int \<Rightarrow> server \<Rightarrow> bool" where
  "stalled n s \<longleftrightarrow> is_paxos_running s \<and> \<not> await_accept_decision s \<and> \<not> i_am_disconnected s
     \<and> prepare_successes s < MAJORITY \<and> prepare_failures s < MAJORITY \<and> n < bal_num (promised_num s) \<and> n < ballot_num s"

lemma stalled_handle:
  assumes "stalled n s" and "stalled_event n ev"
  shows "stalled n (handle ev s) \<and> current (handle ev s) = current s
    \<and> filter is_reply (outbox (handle ev s)) = filter is_reply (outbox s)"
proof (cases ev)
  case (EvPrepareReply st q res)
  then have "handle ev s = s" using assms overtaken_reply [of s q res st] by (simp add: stalled_def)
  then show ?thesis using assms by simp
next
  case (EvPrepare q)
  then show ?thesis using assms(1) by (auto simp: stalled_def processPrepareCall_def Let_def send_sync_def emit_def)
next
  case (EvAccept q)
  then show ?thesis using assms(1) by (simp add: stalled_def processAcceptCall_def Let_def)
qed (use assms in \<open>simp_all add: stalled_def handleAcceptReply_def enqueueClientTxn_def maybeStartRound_def
    processCommitCall_def processGetBalanceCall_def sweep_timeouts_def\<close>)

lemma stalled_events:
  assumes "stalled n s" and "\<forall>ev \<in> set evs. stalled_event n ev"
  shows "stalled n (fold handle evs s) \<and> current (fold handle evs s) = current s
    \<and> filter is_reply (outbox (fold handle evs s)) = filter is_reply (outbox s)"
  using assms
proof (induction evs arbitrary: s)
  case (Cons ev evs)
  then show ?case using stalled_handle [of n s ev] Cons.IH [of "handle ev s"] by simp
qed simp

text \<open>C22. An overtaken leader waits.  A leader whose prepare phase is undecided promises a higher ballot to a
  competitor.  Until a sync reply or a disconnection command reaches it, nothing ends its round: replies to its own
  prepares, whatever they say, new requests, prepares, accepts and commits of other leaders, decisions, clock and lock
  sweeps leave the round marked as running and its batch parked, and no client is answered.\<close>

theorem overtaken_round_stalls:
  assumes "is_paxos_running s" and "\<not> await_accept_decision s"
    and "prepare_successes s < MAJORITY" and "prepare_failures s < MAJORITY"
    and "bal_num (promised_num s) = n" and "n \<le> ballot_num s" and "ps_ack (snd (processPrepareCall q s))"
    and "\<forall>ev \<in> set evs. stalled_event n ev"
  defines "s' \<equiv> fold handle evs (handle (EvPrepare q) s)"
  shows "is_paxos_running s' \<and> current s' = current s \<and> filter is_reply (outbox s') = filter is_reply (outbox s)"
proof -
  let ?s = "handle (EvPrepare q) s"
  have ok: "\<not> i_am_disconnected s \<and> bal_num (pq_ballot q) > ballot_num s \<and> pq_paxos_index q = paxos_index s"
    using assms(7) by (auto simp: processPrepareCall_def Let_def empty_PrepareRes_def split: if_splits)
  then have s: "?s = persistBallotNum (s\<lparr>promised := True, promised_num := pq_ballot q, ballot_num := bal_num (pq_ballot q)\<rparr>)"
    by (simp add: processPrepareCall_def Let_def)
  then have "stalled n ?s" using assms(1-6) ok by (simp add: stalled_def)
  from stalled_events [OF this assms(8)] show ?thesis unfolding s'_def stalled_def using s by simp
qed

definition overtaking :: PrepareReq where
  "overtaking = \<lparr>pq_ballot = \<lparr>bal_num = 8, bal_server_id = 2\<rparr>, pq_paxos_index = -1\<rparr>"

theorem overtaken_round_stalls_witness:
  "(let s = handle (EvTransfer 4 (be_request (transfer_entry 1 2 3 70 7))) sample_server;
        good = empty_PrepareRes\<lparr>ps_ack := True, ps_ballot := \<lparr>bal_num = 1, bal_server_id = 1\<rparr>\<rparr>;
        q = \<lparr>pq_ballot = \<lparr>bal_num = 1, bal_server_id = 1\<rparr>, pq_paxos_index = -1\<rparr>;
        s' = fold handle [EvPrepareReply RpcOk q good, EvClock 9000, EvSweep, EvPrepareReply RpcOk q good] (handle (EvPrepare overtaking) s)
    in map be_call (current s) = [4] \<and> is_paxos_running s' \<and> current s' = current s)"
proof -
  let ?s = "handle (EvTransfer 4 (be_request (transfer_entry 1 2 3 70 7))) sample_server"
  have s: "is_paxos_running ?s" "\<not> await_accept_decision ?s"
    "prepare_successes ?s < MAJORITY" "prepare_failures ?s < MAJORITY" "bal_num (promised_num ?s) = 1" "1 \<le> ballot_num ?s"
    "ps_ack (snd (processPrepareCall overtaking ?s))" "map be_call (current ?s) = [4]"
    by (simp_all add: enqueueClientTxn_def maybeStartRound_def startRound_def reissuePrepareForCurrent_def
        sample_server_def ServerImpl_def resetDisconnectedState_def MAJORITY_def processPrepareCall_def
        overtaking_def Let_def)
  show ?thesis
    using overtaken_round_stalls [OF s(1-7), of
        "[EvPrepareReply RpcOk \<lparr>pq_ballot = \<lparr>bal_num = 1, bal_server_id = 1\<rparr>, pq_paxos_index = -1\<rparr>
            (empty_PrepareRes\<lparr>ps_ack := True, ps_ballot := \<lparr>bal_num = 1, bal_server_id = 1\<rparr>\<rparr>), EvClock 9000, EvSweep,
          EvPrepareReply RpcOk \<lparr>pq_ballot = \<lparr>bal_num = 1, bal_server_id = 1\<rparr>, pq_paxos_index = -1\<rparr>
            (empty_PrepareRes\<lparr>ps_ack := True, ps_ballot := \<lparr>bal_num = 1, bal_server_id = 1\<rparr>\<rparr>)]"] s(8)
    unfolding Let_def by simp
qed

end
