(* ===== verification/Replies.thy ===== *)
theory Replies
  imports Round
begin

text \<open>
  Client calls: a call handed to the server is parked in the pending or the running batch, or
  has been answered.  No event loses a call or answers it twice.
\<close>

section \<open>Where the calls are\<close>

fun replied :: "out \<Rightarrow> nat option" where
  "replied (OutReply call res) = Some call"
| "replied _ = None"

definition replies :: "server \<Rightarrow> nat multiset" where
  "replies s = mset (List.map_filter replied (outbox s))"

definition parked :: "server \<Rightarrow> nat multiset" where
  "parked s = mset (map be_call (pending s)) + mset (map be_call (current s))"

definition calls :: "server \<Rightarrow> nat multiset" where
  "calls s = parked s + replies s"

definition round_ok :: "server \<Rightarrow> bool" where
  "round_ok s \<longleftrightarrow> is_paxos_running s \<or> current s = []"

lemma map_filter_append: "List.map_filter f (xs @ ys) = List.map_filter f xs @ List.map_filter f ys"
  by (simp add: List.map_filter_def)

lemma map_filter_None: "\<forall>x \<in> set xs. f x = None \<Longrightarrow> List.map_filter f xs = []"
  by (induction xs) (simp_all add: map_filter_simps)

lemma replies_completeTransfer [simp]: "replies (completeTransfer call ack t s) = replies s + {#call#}"
  by (simp add: replies_def map_filter_append map_filter_simps)

lemma replies_cong: "outbox s' = outbox s \<Longrightarrow> replies s' = replies s"
  by (simp add: replies_def)

lemma replies_emit_all: "\<forall>x \<in> set xs. replied x = None \<Longrightarrow> replies (emit_all xs s) = replies s"
  by (simp add: replies_def emit_all_def map_filter_append map_filter_None)

lemma replies_updates [simp]:
  "replies (s\<lparr>pending := bs\<rparr>) = replies s"
  "replies (s\<lparr>current := bs\<rparr>) = replies s"
  "replies (s\<lparr>locks := l\<rparr>) = replies s"
  "replies (s\<lparr>is_paxos_running := x\<rparr>) = replies s"
  "replies (s\<lparr>accept_batch := rs\<rparr>) = replies s"
  "replies (s\<lparr>promised := x\<rparr>) = replies s"
  "replies (s\<lparr>accepted := x\<rparr>) = replies s"
  "replies (s\<lparr>accept_num := b\<rparr>) = replies s"
  "replies (s\<lparr>promised_num := b\<rparr>) = replies s"
  "replies (s\<lparr>ballot_num := i\<rparr>) = replies s"
  "replies (s\<lparr>in_sync := x\<rparr>) = replies s"
  "replies (s\<lparr>await_prepare_decision := x\<rparr>) = replies s"
  "replies (s\<lparr>await_accept_decision := x\<rparr>) = replies s"
  "replies (s\<lparr>prepare_successes := i\<rparr>) = replies s"
  "replies (s\<lparr>prepare_failures := i\<rparr>) = replies s"
  "replies (s\<lparr>accept_successes := i\<rparr>) = replies s"
  "replies (s\<lparr>accept_failures := i\<rparr>) = replies s"
  "replies (persistBallotNum s) = replies s"
  "replies (commitTransaction r b s) = replies s"
  "replies (prepareTransaction r b s) = replies s"
  by (rule replies_cong; simp)+

lemma replies_send_sync [simp]: "replies (send_sync dst q s) = replies s"
  by (simp add: replies_def send_sync_def emit_def map_filter_append map_filter_simps)

section \<open>The round keeps every call\<close>

lemma calls_reissue [simp]:
  "calls (reissuePrepareForCurrent s) = calls s" "round_ok (reissuePrepareForCurrent s) = round_ok s"
  by (simp_all add: calls_def parked_def round_ok_def reissuePrepareForCurrent_def Let_def replies_emit_all)

lemma calls_maybeStart:
  "round_ok s \<Longrightarrow> calls (maybeStartRound s) = calls s"
  "round_ok s \<Longrightarrow> round_ok (maybeStartRound s)"
  by (auto simp: maybeStartRound_def startRound_def) (auto simp: calls_def parked_def round_ok_def)

lemma calls_finish:
  "calls (finishRound s) + mset (map be_call (current s)) = calls s" "round_ok (finishRound s)"
proof -
  let ?s = "s\<lparr>is_paxos_running := False, promised := False, accepted := False,
      await_prepare_decision := False, await_accept_decision := False, current := [], accept_batch := []\<rparr>"
  have "round_ok ?s" "calls ?s + mset (map be_call (current s)) = calls s"
    by (simp_all add: round_ok_def calls_def parked_def)
  then show "calls (finishRound s) + mset (map be_call (current s)) = calls s" "round_ok (finishRound s)"
    by (simp_all add: finishRound_def calls_maybeStart)
qed

lemma replies_entries:
  "replies (fold accept_entry es s) = replies s + mset (map be_call es)"
  "replies (fold (abort_entry p) es s) = replies s + mset (map be_call es)"
  by (induction es arbitrary: s)
    (simp_all add: accept_entry_def abort_entry_def Let_def ac_simps)

lemma replies_validate:
  "replies (snd (validate_batch es s)) + mset (map be_call (fst (validate_batch es s)))
     = replies s + mset (map be_call es)"
proof -
  let ?k = "keep_entries (isClientInCluster s) (get_balance s) (locks s) es"
  let ?r = "rejected (isClientInCluster s) (get_balance s) (locks s) es"
  have "List.map_filter replied (map nack rs) = map be_call rs" for rs
    by (induction rs) (simp_all add: map_filter_simps nack_def)
  then have "replies (snd (validate_batch es s)) = replies s + mset (map be_call ?r)"
    by (simp add: replies_def validate_batch_state(4) map_filter_append)
  moreover have "mset (map be_call ?k) + mset (map be_call ?r) = mset (map be_call es)"
    using arg_cong [OF keep_rejected_mset [of "isClientInCluster s" "get_balance s" "locks s" es], of "image_mset be_call"]
    by simp
  ultimately show ?thesis by (simp add: validate_batch_state(1) ac_simps)
qed

lemma calls_onPrepareQuorum:
  "round_ok s \<Longrightarrow> calls (onPrepareQuorum s) = calls s" "round_ok s \<Longrightarrow> round_ok (onPrepareQuorum s)"
proof -
  let ?s = "s\<lparr>await_prepare_decision := False\<rparr>"
  define kept s2 where "kept = fst (validate_batch (current s) ?s)" and "s2 = snd (validate_batch (current s) ?s)"
  have s2: "pending s2 = pending s" "is_paxos_running s2 = is_paxos_running s"
    "replies s2 + mset (map be_call kept) = replies s + mset (map be_call (current s))"
    using replies_validate [of "current s" ?s] by (simp_all add: s2_def kept_def)
  have keep: "calls (s2\<lparr>current := kept\<rparr>) = calls s"
    using s2(1,3) by (simp add: calls_def parked_def ac_simps)
  have eq: "onPrepareQuorum s = (if kept = [] then finishRound (s2\<lparr>current := kept\<rparr>)
      else emit_all (map (\<lambda>i. OutAccept i \<lparr>aq_ballot = promised_num s2, aq_batch = map be_request kept\<rparr>) (stub_ids s2))
        (s2\<lparr>current := kept, accepted := True, accept_num := promised_num s2, accept_batch := map be_request kept,
           await_accept_decision := True, accept_successes := 1, accept_failures := 0\<rparr>))"
    by (simp add: onPrepareQuorum_def Let_def split_beta kept_def s2_def stub_ids_def)
  show "calls (onPrepareQuorum s) = calls s"
    using keep calls_finish(1) [of "s2\<lparr>current := kept\<rparr>"] unfolding eq
    by (cases "kept = []") (simp_all add: calls_def parked_def replies_emit_all)
  assume "round_ok s"
  moreover have "current s = [] \<Longrightarrow> kept = []" by (simp add: kept_def)
  ultimately show "round_ok (onPrepareQuorum s)"
    using calls_finish(2) s2(2) unfolding eq by (auto simp: round_ok_def)
qed

lemma calls_onAcceptQuorum: "calls (onAcceptQuorum s) = calls s" "round_ok (onAcceptQuorum s)"
proof -
  define s2 where "s2 = emit_all (map (\<lambda>i. OutCommit i \<lparr>cq_ballot = accept_num s\<rparr>) (stub_ids s)) (s\<lparr>await_accept_decision := False\<rparr>)"
  have eq: "onAcceptQuorum s = finishRound (fold accept_entry (current s) s2)"
    by (simp add: onAcceptQuorum_def s2_def Let_def stub_ids_def)
  have "calls (fold accept_entry (current s) s2) = calls s + mset (map be_call (current s))"
    by (simp add: calls_def parked_def replies_entries s2_def replies_emit_all)
  then show "calls (onAcceptQuorum s) = calls s"
    using calls_finish(1) [of "fold accept_entry (current s) s2"] by (simp add: eq s2_def)
  show "round_ok (onAcceptQuorum s)" unfolding eq by (rule calls_finish(2))
qed

lemma calls_onRoundAbort: "calls (onRoundAbort p s) = calls s" "round_ok (onRoundAbort p s)"
proof -
  have "calls (fold (abort_entry p) (current s) s) = calls s + mset (map be_call (current s))"
    by (simp add: calls_def parked_def replies_entries)
  then show "calls (onRoundAbort p s) = calls s"
    using calls_finish(1) [of "fold (abort_entry p) (current s) s"] by (simp add: onRoundAbort_def)
  show "round_ok (onRoundAbort p s)" unfolding onRoundAbort_def by (rule calls_finish(2))
qed

section \<open>Every event\<close>

lemma calls_cong:
  "pending s' = pending s \<Longrightarrow> current s' = current s \<Longrightarrow> outbox s' = outbox s \<Longrightarrow> calls s' = calls s"
  "is_paxos_running s' = is_paxos_running s \<Longrightarrow> current s' = current s \<Longrightarrow> round_ok s' = round_ok s"
  by (simp_all add: calls_def parked_def replies_def round_ok_def)

lemma calls_enqueue:
  assumes "round_ok s"
  shows "calls (enqueueClientTxn call r x s) = calls s + {#call#}" and "round_ok (enqueueClientTxn call r x s)"
proof -
  let ?s = "s\<lparr>pending := pending s @ [\<lparr>be_request = r, be_call = call, be_is_cross_shard = x\<rparr>]\<rparr>"
  have "round_ok ?s" "calls ?s = calls s + {#call#}"
    using assms by (simp_all add: round_ok_def calls_def parked_def)
  then show "calls (enqueueClientTxn call r x s) = calls s + {#call#}" "round_ok (enqueueClientTxn call r x s)"
    using assms
    by (simp_all add: enqueueClientTxn_def calls_maybeStart calls_def [of "completeTransfer _ _ _ _"] parked_def
        calls_def [of s], simp_all add: round_ok_def)
qed

lemma calls_handlePrepareReply:
  assumes "round_ok s"
  shows "calls (handlePrepareReply st q res s) = calls s \<and> round_ok (handlePrepareReply st q res s)"
proof -
  have ctl: "calls (s\<lparr>prepare_successes := i\<rparr>) = calls s" "calls (s\<lparr>prepare_failures := i\<rparr>) = calls s"
    "round_ok (s\<lparr>prepare_successes := i\<rparr>) = round_ok s" "round_ok (s\<lparr>prepare_failures := i\<rparr>) = round_ok s" for i
    by (simp_all add: calls_def parked_def round_ok_def)
  have bal: "calls (persistBallotNum (s'\<lparr>ballot_num := n\<rparr>)) = calls s'"
    "round_ok (persistBallotNum (s'\<lparr>ballot_num := n\<rparr>)) = round_ok s'" for s' n
    by (rule calls_cong; simp)+
  have sync: "calls (send_sync d y (s'\<lparr>in_sync := True, await_prepare_decision := False\<rparr>)) = calls s'"
    "round_ok (send_sync d y (s'\<lparr>in_sync := True, await_prepare_decision := False\<rparr>)) = round_ok s'" for d y s'
    by (simp_all add: calls_def parked_def round_ok_def)
  show ?thesis
    using assms
    by (auto simp: handlePrepareReply_def Let_def ctl bal sync calls_onPrepareQuorum calls_onRoundAbort
        split: option.split)
qed

lemma calls_handleAcceptReply:
  assumes "round_ok s"
  shows "calls (handleAcceptReply st q res s) = calls s \<and> round_ok (handleAcceptReply st q res s)"
proof -
  have ctl: "calls (s\<lparr>accept_successes := i\<rparr>) = calls s" "calls (s\<lparr>accept_failures := i\<rparr>) = calls s"
    "round_ok (s\<lparr>accept_successes := i\<rparr>) = round_ok s" "round_ok (s\<lparr>accept_failures := i\<rparr>) = round_ok s" for i
    by (simp_all add: calls_def parked_def round_ok_def)
  show ?thesis
    using assms by (auto simp: handleAcceptReply_def Let_def ctl calls_onAcceptQuorum calls_onRoundAbort)
qed

lemma calls_handleSyncReply:
  assumes "round_ok s"
  shows "calls (handleSyncReply st res s) = calls s \<and> round_ok (handleSyncReply st res s)"
proof -
  let ?s = "(if st = RpcOk \<and> ss_ack res
     then let s = fold sync_entry (ss_logs res) s;
              s' = persistBallotNum (s\<lparr>ballot_num := bal_num (ss_last_inserted_ballot res)\<rparr>)
          in s'\<lparr>last_inserted := last_inserted s' + int (length (ss_logs res)),
                last_inserted_ballot := ss_last_inserted_ballot res\<rparr>
     else s)\<lparr>in_sync := False\<rparr>"
  have "calls ?s = calls s" "round_ok ?s = round_ok s"
    by (rule calls_cong; simp add: Let_def)+
  then show ?thesis
    using assms by (simp add: handleSyncReply_def Let_def calls_maybeStart)
qed

lemma calls_processPrepareCall:
  "calls (fst (processPrepareCall q s)) = calls s" "round_ok (fst (processPrepareCall q s)) = round_ok s"
  by (simp_all add: processPrepareCall_def Let_def calls_def parked_def round_ok_def)

fun new_calls :: "event \<Rightarrow> nat list" where
  "new_calls (EvTransfer call r) = [call]"
| "new_calls (EvTpcPrepare call r) = [call]"
| "new_calls _ = []"

lemma calls_disconnect:
  "calls (processDisconnectCall names s) = calls s" "round_ok (processDisconnectCall names s) = round_ok s"
proof -
  have "calls (mark_disconnected n s') = calls s' \<and> round_ok (mark_disconnected n s') = round_ok s'" for n s'
    by (auto simp: mark_disconnected_def lookup_server_id_def Let_def calls_def parked_def replies_def round_ok_def
        split: option.splits)
  then have "calls (fold mark_disconnected names s') = calls s' \<and> round_ok (fold mark_disconnected names s') = round_ok s'" for s'
    by (induction names arbitrary: s') simp_all
  moreover have "calls (resetDisconnectedState s) = calls s" "round_ok (resetDisconnectedState s) = round_ok s"
    by (rule calls_cong; simp add: resetDisconnectedState_def)+
  ultimately show "calls (processDisconnectCall names s) = calls s"
    "round_ok (processDisconnectCall names s) = round_ok s" by (simp_all add: processDisconnectCall_def)
qed

lemma calls_handle:
  assumes "round_ok s"
  shows "calls (handle ev s) = calls s + mset (new_calls ev) \<and> round_ok (handle ev s)"
proof (cases ev)
  case (EvTpcCommit t)
  then show ?thesis using assms calls_cong [of "processTpcDecision t True s" s] by simp
next
  case (EvTpcAbort t)
  then show ?thesis using assms calls_cong [of "processTpcDecision t False s" s] by simp
next
  case (EvAccept q)
  have "calls (fst (processAcceptCall q s)) = calls s" "round_ok (fst (processAcceptCall q s)) = round_ok s"
    by (rule calls_cong; simp add: processAcceptCall_def Let_def)+
  with EvAccept assms show ?thesis by simp
next
  case (EvCommit q)
  have "calls (processCommitCall q s) = calls s" "round_ok (processCommitCall q s) = round_ok s"
    by (rule calls_cong; simp add: processCommitCall_def Let_def)+
  with EvCommit assms show ?thesis by simp
next
  case (EvBalance c)
  then show ?thesis using assms calls_cong [of "touch_balance c s" s] by (simp add: processGetBalanceCall_def)
next
  case EvSweep
  have "calls (sweep_timeouts n s) = calls s" "round_ok (sweep_timeouts n s) = round_ok s" for n
    by (rule calls_cong; simp add: sweep_timeouts_def)+
  with EvSweep assms show ?thesis by simp
next
  case (EvClock n)
  then show ?thesis using assms calls_cong [of "s\<lparr>steady_now := n\<rparr>" s] by simp
qed (simp_all add: assms calls_enqueue calls_processPrepareCall calls_disconnect calls_handlePrepareReply
    calls_handleAcceptReply calls_handleSyncReply)

text \<open>C5. Every client call is answered once.  From a state without calls, after any
  sequence of events, the calls waiting in a batch together with the calls answered are
  exactly the calls handed in, each as often as it was handed in: none is lost, none is
  answered twice, and a waiting call has not been answered.\<close>

theorem every_call_answered_once:
  assumes "round_ok s" and "calls s = {#}"
  shows "parked (fold handle evs s) + replies (fold handle evs s) = mset (concat (map new_calls evs))"
proof -
  have "calls (fold handle evs s') = calls s' + mset (concat (map new_calls evs)) \<and> round_ok (fold handle evs s')"
    if "round_ok s'" for s'
    using that by (induction evs arbitrary: s') (simp_all add: calls_handle ac_simps)
  from this [OF assms(1)] show ?thesis using assms(2) by (simp add: calls_def)
qed

theorem every_call_answered_once_witness:
  "round_ok sample_server \<and> calls sample_server = {#} \<and>
   parked (fold handle [EvTransfer 4 (be_request (transfer_entry 1 2 3 70 7)), sample_accept, EvTpcPrepare 5 sample_req] sample_server)
   + replies (fold handle [EvTransfer 4 (be_request (transfer_entry 1 2 3 70 7)), sample_accept, EvTpcPrepare 5 sample_req] sample_server)
     = {#4, 5#}"
proof -
  have 0: "round_ok sample_server" "calls sample_server = {#}"
    by (simp_all add: round_ok_def calls_def parked_def replies_def sample_server_def ServerImpl_def
        resetDisconnectedState_def map_filter_simps)
  then show ?thesis
    using every_call_answered_once [OF 0, of "[EvTransfer 4 (be_request (transfer_entry 1 2 3 70 7)), sample_accept, EvTpcPrepare 5 sample_req]"]
    by (simp add: sample_accept_def)
qed

end
