(* ===== verification/Calls.thy ===== *)
theory Calls
  imports Replies "HOL-Library.Sublist"
begin

text \<open>
  The event loop and the call objects around the server: \<open>InCall\<close>
  (\<open>src/server/in_call.cc\<close>), \<open>OutCall\<close> (\<open>src/server/out_call.cc\<close>) and
  \<open>ServerImpl::HandleRPCs\<close>.  Objects live in a map from numbers; gRPC is the
  environment that fills the message fields of an object and hands its tag to the loop.
  Using the tag of a deleted object sets \<open>el_dangling\<close>.
\<close>

section \<open>The server only adds to its messages\<close>

lemma prefix_emit_all: "prefix (outbox s) (outbox (emit_all xs s))"
  by (simp add: emit_all_def)

lemma prefix_complete: "prefix (outbox s) (outbox (completeTransfer call ack t s))"
  by simp

lemma prefix_reissue: "prefix (outbox s) (outbox (reissuePrepareForCurrent s))"
  by (simp add: reissuePrepareForCurrent_def Let_def emit_all_def)

lemma prefix_maybeStart: "prefix (outbox s) (outbox (maybeStartRound s))"
  using prefix_reissue [of "s\<lparr>current := pending s, pending := [], is_paxos_running := True\<rparr>"]
  by (simp add: maybeStartRound_def startRound_def)

lemma prefix_finish: "prefix (outbox s) (outbox (finishRound s))"
  using prefix_maybeStart [of "s\<lparr>is_paxos_running := False, promised := False, accepted := False,
      await_prepare_decision := False, await_accept_decision := False, current := [], accept_batch := []\<rparr>"]
  by (simp add: finishRound_def)

lemma prefix_fold:
  assumes "\<And>x s. prefix (outbox s) (outbox (f x s))"
  shows "prefix (outbox s) (outbox (fold f xs s))"
  by (induction xs arbitrary: s) (simp, metis assms fold_simps(2) prefix_order.trans)

lemma prefix_entries:
  "prefix (outbox s) (outbox (fold accept_entry es s))" "prefix (outbox s) (outbox (fold (abort_entry p) es s))"
  by (rule prefix_fold; simp add: accept_entry_def abort_entry_def Let_def)+

lemma prefix_onPrepareQuorum: "prefix (outbox s) (outbox (onPrepareQuorum s))"
proof -
  let ?v = "validate_batch (current s) (s\<lparr>await_prepare_decision := False\<rparr>)"
  have v: "prefix (outbox s) (outbox (snd ?v))" by (simp add: validate_batch_state(4))
  show ?thesis
    using prefix_order.trans [OF v] prefix_finish [of "snd ?v\<lparr>current := []\<rparr>"]
    by (auto simp: onPrepareQuorum_def Let_def split_beta emit_all_def intro: prefix_order.trans [OF v])
qed

lemma prefix_onAcceptQuorum: "prefix (outbox s) (outbox (onAcceptQuorum s))"
proof -
  let ?t = "emit_all (map (\<lambda>i. OutCommit i \<lparr>cq_ballot = accept_num s\<rparr>) (stub_ids s)) (s\<lparr>await_accept_decision := False\<rparr>)"
  have "prefix (outbox s) (outbox ?t)" by (simp add: emit_all_def)
  also have "prefix (outbox ?t) (outbox (fold accept_entry (current s) ?t))" by (rule prefix_entries)
  also have "prefix \<dots> (outbox (finishRound (fold accept_entry (current s) ?t)))" by (rule prefix_finish)
  finally show ?thesis by (simp add: onAcceptQuorum_def Let_def stub_ids_def)
qed

lemma prefix_onRoundAbort: "prefix (outbox s) (outbox (onRoundAbort p s))"
  unfolding onRoundAbort_def by (rule prefix_order.trans [OF prefix_entries(2) prefix_finish])

lemma prefix_send_sync: "prefix (outbox s) (outbox (send_sync d q s))"
  by (simp add: send_sync_def emit_def)

lemma prefix_handlePrepareReply: "prefix (outbox s) (outbox (handlePrepareReply st q res s))"
proof -
  let ?y = "s\<lparr>prepare_successes := prepare_successes s + 1\<rparr>" and ?n = "s\<lparr>prepare_failures := prepare_failures s + 1\<rparr>"
  have reissue: "prefix (outbox s) (outbox (reissuePrepareForCurrent (persistBallotNum (?y\<lparr>ballot_num := m\<rparr>))))"
    "prefix (outbox s) (outbox (reissuePrepareForCurrent (persistBallotNum (?n\<lparr>ballot_num := m\<rparr>))))" for m
    using prefix_reissue [of "persistBallotNum (?y\<lparr>ballot_num := m\<rparr>)"]
      prefix_reissue [of "persistBallotNum (?n\<lparr>ballot_num := m\<rparr>)"] by simp_all
  have sync: "prefix (outbox s) (outbox (send_sync d q' (?y\<lparr>in_sync := True, await_prepare_decision := False\<rparr>)))"
    "prefix (outbox s) (outbox (send_sync d q' (?n\<lparr>in_sync := True, await_prepare_decision := False\<rparr>)))" for d q'
    by (simp_all add: send_sync_def emit_def)
  show ?thesis
    using prefix_onPrepareQuorum [of ?y] prefix_onPrepareQuorum [of ?n] prefix_onPrepareQuorum [of s]
      prefix_onRoundAbort [of ?y True] prefix_onRoundAbort [of ?n True] prefix_onRoundAbort [of s True] reissue sync
    by (auto simp: handlePrepareReply_def Let_def split: option.split)
qed

lemma prefix_handleAcceptReply: "prefix (outbox s) (outbox (handleAcceptReply st q res s))"
  using prefix_onAcceptQuorum [of "s\<lparr>accept_successes := accept_successes s + 1\<rparr>"]
    prefix_onAcceptQuorum [of "s\<lparr>accept_failures := accept_failures s + 1\<rparr>"] prefix_onAcceptQuorum [of s]
    prefix_onRoundAbort [of "s\<lparr>accept_successes := accept_successes s + 1\<rparr>" False]
    prefix_onRoundAbort [of "s\<lparr>accept_failures := accept_failures s + 1\<rparr>" False] prefix_onRoundAbort [of s False]
  by (simp add: handleAcceptReply_def Let_def)

lemma prefix_handleSyncReply: "prefix (outbox s) (outbox (handleSyncReply st res s))"
proof -
  let ?s = "(if st = RpcOk \<and> ss_ack res
     then let s = fold sync_entry (ss_logs res) s;
              s' = persistBallotNum (s\<lparr>ballot_num := bal_num (ss_last_inserted_ballot res)\<rparr>)
          in s'\<lparr>last_inserted := last_inserted s' + int (length (ss_logs res)),
                last_inserted_ballot := ss_last_inserted_ballot res\<rparr>
     else s)\<lparr>in_sync := False\<rparr>"
  have "outbox ?s = outbox s" by (simp add: Let_def)
  then show ?thesis
    using prefix_reissue [of ?s] prefix_maybeStart [of ?s] by (simp add: handleSyncReply_def Let_def)
qed

lemma prefix_enqueue: "prefix (outbox s) (outbox (enqueueClientTxn call r x s))"
  using prefix_maybeStart [of "s\<lparr>pending := pending s @ [\<lparr>be_request = r, be_call = call, be_is_cross_shard = x\<rparr>]\<rparr>"]
  by (simp add: enqueueClientTxn_def)

lemma prefix_handle: "prefix (outbox s) (outbox (handle ev s))"
proof (cases ev)
  case (EvDisconnect names)
  have "outbox (mark_disconnected n s') = outbox s'" for n s'
    by (auto simp: mark_disconnected_def lookup_server_id_def Let_def split: option.splits)
  then have "outbox (fold mark_disconnected names s') = outbox s'" for s'
    by (induction names arbitrary: s') simp_all
  with EvDisconnect show ?thesis by (simp add: processDisconnectCall_def resetDisconnectedState_def)
next
  case (EvPrepare q)
  then show ?thesis by (simp add: processPrepareCall_def Let_def send_sync_def emit_def)
qed (simp_all add: prefix_enqueue prefix_handlePrepareReply prefix_handleAcceptReply prefix_handleSyncReply
    processAcceptCall_def processCommitCall_def processGetBalanceCall_def sweep_timeouts_def Let_def)

section \<open>Call objects\<close>

datatype CallStatus = CREATE | PROCESS | RETRY | FINISH | AWAIT_BATCH

record InCall =
  ic_type :: RequestTypes
  ic_status :: CallStatus
  tpcTid :: int
  transferReq :: TransferReq
  balanceReq :: int
  prepareReq :: PrepareReq
  acceptReq :: AcceptReq
  commitReq :: CommitReq
  syncReq :: SyncReq
  disconnectReq :: "string list"

definition empty_req :: TransferReq where
  "empty_req = \<lparr>req_txn = \<lparr>sender = 0, receiver = 0, amount = 0\<rparr>, req_tid = 0\<rparr>"

definition new_InCall :: "RequestTypes \<Rightarrow> InCall" where
  "new_InCall t = \<lparr>ic_type = t, ic_status = CREATE, tpcTid = 0, transferReq = empty_req, balanceReq = 0,
     prepareReq = \<lparr>pq_ballot = default_ballot, pq_paxos_index = 0\<rparr>,
     acceptReq = \<lparr>aq_ballot = default_ballot, aq_batch = []\<rparr>, commitReq = \<lparr>cq_ballot = default_ballot\<rparr>,
     syncReq = \<lparr>sq_last_inserted = 0\<rparr>, disconnectReq = []\<rparr>"

text \<open>The message a responder's \<open>Finish\<close> sends.\<close>

datatype response =
    REmpty | RTransfer TransferRes | RBalance int | RLogs "LogEntry list" | RPrepare PrepareRes
  | RAccept AcceptRes | RSync SyncRes

record OutCall =
  oc_type :: RequestTypes
  oc_status :: rpc_status
  oc_prepareReq :: PrepareReq
  oc_prepareReply :: PrepareRes
  oc_acceptReq :: AcceptReq
  oc_acceptReply :: AcceptRes
  oc_syncReply :: SyncRes

definition new_OutCall :: "RequestTypes \<Rightarrow> OutCall" where
  "new_OutCall t = \<lparr>oc_type = t, oc_status = RpcOk, oc_prepareReq = \<lparr>pq_ballot = default_ballot, pq_paxos_index = 0\<rparr>,
     oc_prepareReply = empty_PrepareRes, oc_acceptReq = \<lparr>aq_ballot = default_ballot, aq_batch = []\<rparr>,
     oc_acceptReply = \<lparr>as_ack = False, as_ballot = default_ballot\<rparr>, oc_syncReply = empty_SyncRes\<rparr>"

definition sendPrepare :: "PrepareReq \<Rightarrow> OutCall" where
  "sendPrepare q = (new_OutCall PREPARE)\<lparr>oc_prepareReq := q\<rparr>"

definition sendAccept :: "AcceptReq \<Rightarrow> OutCall" where
  "sendAccept q = (new_OutCall ACCEPT)\<lparr>oc_acceptReq := q\<rparr>"

definition sendCommit :: "CommitReq \<Rightarrow> OutCall" where
  "sendCommit q = new_OutCall COMMIT"

definition sendSync :: "SyncReq \<Rightarrow> OutCall" where
  "sendSync q = new_OutCall SYNC"

section \<open>The event loop\<close>

record event_loop =
  el_server :: server
  el_calls :: "nat \<Rightarrow> InCall option"
  el_next :: nat
  el_finished :: "(nat \<times> response) list"
  el_out :: "(int \<times> out \<times> OutCall) list"
  el_dangling :: bool

definition set_status :: "nat \<Rightarrow> CallStatus \<Rightarrow> event_loop \<Rightarrow> event_loop" where
  "set_status c st el = el\<lparr>el_calls := (el_calls el)(c := map_option (\<lambda>ic. ic\<lparr>ic_status := st\<rparr>) (el_calls el c))\<rparr>"

definition finish_call :: "nat \<Rightarrow> response \<Rightarrow> event_loop \<Rightarrow> event_loop" where
  "finish_call c r el = set_status c FINISH (el\<lparr>el_finished := el_finished el @ [(c, r)]\<rparr>)"

text \<open>
  What a call into the server hands to gRPC: replies of parked calls through
  \<open>completeTransfer\<close>, which also finishes their objects, and RPCs to peers.
\<close>

fun deliver_one :: "out \<Rightarrow> event_loop \<Rightarrow> event_loop" where
  "deliver_one (OutReply c res) el = finish_call c (RTransfer res) el"
| "deliver_one (OutPrepare i q) el = el\<lparr>el_out := el_out el @ [(i, OutPrepare i q, sendPrepare q)]\<rparr>"
| "deliver_one (OutAccept i q) el = el\<lparr>el_out := el_out el @ [(i, OutAccept i q, sendAccept q)]\<rparr>"
| "deliver_one (OutCommit i q) el = el\<lparr>el_out := el_out el @ [(i, OutCommit i q, sendCommit q)]\<rparr>"
| "deliver_one (OutSync i q) el = el\<lparr>el_out := el_out el @ [(i, OutSync i q, sendSync q)]\<rparr>"

definition call_server :: "(server \<Rightarrow> server) \<Rightarrow> event_loop \<Rightarrow> event_loop" where
  "call_server f el = (let s = el_server el; s' = f s
     in fold deliver_one (drop (length (outbox s)) (outbox s')) (el\<lparr>el_server := s'\<rparr>))"

definition create_call :: "RequestTypes \<Rightarrow> event_loop \<Rightarrow> event_loop" where
  "create_call t el = set_status (el_next el) PROCESS
     (el\<lparr>el_calls := (el_calls el)(el_next el \<mapsto> new_InCall t), el_next := el_next el + 1\<rparr>)"

definition Proceed_process :: "nat \<Rightarrow> InCall \<Rightarrow> event_loop \<Rightarrow> event_loop" where
  "Proceed_process c ic el0 =
     (let el = (if ic_status ic = PROCESS then create_call (ic_type ic) el0 else el0); s = el_server el
      in case ic_type ic of
        TPC_PREPARE \<Rightarrow> call_server (enqueueClientTxn c (transferReq ic) True) (set_status c AWAIT_BATCH el)
      | TPC_COMMIT \<Rightarrow> finish_call c REmpty (call_server (processTpcDecision (tpcTid ic) True) el)
      | TPC_ABORT \<Rightarrow> finish_call c REmpty (call_server (processTpcDecision (tpcTid ic) False) el)
      | TRANSFER \<Rightarrow> call_server (enqueueClientTxn c (transferReq ic) False) (set_status c AWAIT_BATCH el)
      | PREPARE \<Rightarrow> finish_call c (RPrepare (snd (processPrepareCall (prepareReq ic) s)))
          (call_server (\<lambda>s. fst (processPrepareCall (prepareReq ic) s)) el)
      | ACCEPT \<Rightarrow> finish_call c (RAccept (snd (processAcceptCall (acceptReq ic) s)))
          (call_server (\<lambda>s. fst (processAcceptCall (acceptReq ic) s)) el)
      | COMMIT \<Rightarrow> finish_call c REmpty (call_server (processCommitCall (commitReq ic)) el)
      | SYNC \<Rightarrow> finish_call c (RSync (processSyncCall (syncReq ic) s)) el
      | BALANCE \<Rightarrow> finish_call c (RBalance (snd (processGetBalanceCall (balanceReq ic) s)))
          (call_server (\<lambda>s. fst (processGetBalanceCall (balanceReq ic) s)) el)
      | LOGS \<Rightarrow> finish_call c (RLogs (processGetLogsCall s)) el
      | DISCONNECT \<Rightarrow> finish_call c REmpty (call_server (processDisconnectCall (disconnectReq ic)) el))"

definition Proceed :: "nat \<Rightarrow> event_loop \<Rightarrow> event_loop" where
  "Proceed c el =
     (case el_calls el c of
        None \<Rightarrow> el\<lparr>el_dangling := True\<rparr>
      | Some ic \<Rightarrow>
          (case ic_status ic of
             CREATE \<Rightarrow> set_status c PROCESS el
           | PROCESS \<Rightarrow> Proceed_process c ic el
           | RETRY \<Rightarrow> Proceed_process c ic el
           | FINISH \<Rightarrow> el\<lparr>el_calls := (el_calls el)(c := None)\<rparr>
           | AWAIT_BATCH \<Rightarrow> el))"

definition HandleRPCResponse :: "OutCall \<Rightarrow> event_loop \<Rightarrow> event_loop" where
  "HandleRPCResponse oc el =
     (case oc_type oc of
        PREPARE \<Rightarrow> call_server (handlePrepareReply (oc_status oc) (oc_prepareReq oc) (oc_prepareReply oc)) el
      | ACCEPT \<Rightarrow> call_server (handleAcceptReply (oc_status oc) (oc_acceptReq oc) (oc_acceptReply oc)) el
      | SYNC \<Rightarrow> call_server (handleSyncReply (oc_status oc) (oc_syncReply oc)) el
      | _ \<Rightarrow> el)"

text \<open>
  One turn of the loop: what the two queues returned, the clock while the handlers ran and
  when the sweep started.  A queue gives a tag and the flag \<open>ok\<close>.
\<close>

definition set_clock :: "int \<Rightarrow> event_loop \<Rightarrow> event_loop" where
  "set_clock t el = el\<lparr>el_server := (el_server el)\<lparr>steady_now := t\<rparr>\<rparr>"

definition HandleRPCs_turn :: "(nat \<times> bool) option \<Rightarrow> (OutCall \<times> bool) option \<Rightarrow> int \<Rightarrow> int \<Rightarrow> event_loop \<Rightarrow> event_loop" where
  "HandleRPCs_turn req resp t1 t2 el0 =
     (let el1 = set_clock t1 el0;
          el2 = (case req of Some (c, True) \<Rightarrow> Proceed c el1 | _ \<Rightarrow> el1);
          el3 = (case resp of Some (oc, True) \<Rightarrow> HandleRPCResponse oc el2 | _ \<Rightarrow> el2);
          el4 = set_clock t2 el3
      in call_server (\<lambda>s. sweep_timeouts (steady_now s) s) el4)"

definition HandleRPCs_start :: "server \<Rightarrow> event_loop" where
  "HandleRPCs_start s = fold create_call
     [TPC_PREPARE, TPC_COMMIT, TPC_ABORT, TRANSFER, BALANCE, LOGS, PREPARE, ACCEPT, COMMIT, SYNC, DISCONNECT]
     \<lparr>el_server = s, el_calls = Map.empty, el_next = 0, el_finished = [], el_out = [], el_dangling = False\<rparr>"

section \<open>The loop runs the handlers\<close>

lemma el_server_simps [simp]:
  "el_server (set_status c st el) = el_server el" "el_server (finish_call c r el) = el_server el"
  "el_server (create_call t el) = el_server el" "el_server (deliver_one x el) = el_server el"
  by (simp_all add: set_status_def finish_call_def create_call_def, cases x)
    (simp_all add: finish_call_def set_status_def)

lemma el_server_deliver [simp]: "el_server (fold deliver_one xs el) = el_server el"
  by (induction xs arbitrary: el) simp_all

lemma el_server_call [simp]: "el_server (call_server f el) = f (el_server el)"
  by (simp add: call_server_def Let_def)

text \<open>The server events behind a tag of the request queue and a finished outgoing call.\<close>

definition call_event :: "nat \<Rightarrow> InCall \<Rightarrow> event" where
  "call_event c ic =
     (case ic_type ic of
        TPC_PREPARE \<Rightarrow> EvTpcPrepare c (transferReq ic)
      | TPC_COMMIT \<Rightarrow> EvTpcCommit (tpcTid ic)
      | TPC_ABORT \<Rightarrow> EvTpcAbort (tpcTid ic)
      | TRANSFER \<Rightarrow> EvTransfer c (transferReq ic)
      | PREPARE \<Rightarrow> EvPrepare (prepareReq ic)
      | ACCEPT \<Rightarrow> EvAccept (acceptReq ic)
      | COMMIT \<Rightarrow> EvCommit (commitReq ic)
      | SYNC \<Rightarrow> EvSync (syncReq ic)
      | BALANCE \<Rightarrow> EvBalance (balanceReq ic)
      | LOGS \<Rightarrow> EvLogs
      | DISCONNECT \<Rightarrow> EvDisconnect (disconnectReq ic))"

definition request_events :: "(nat \<times> bool) option \<Rightarrow> event_loop \<Rightarrow> event list" where
  "request_events req el =
     (case req of
        Some (c, True) \<Rightarrow>
          (case el_calls el c of
             Some ic \<Rightarrow> (if ic_status ic \<in> {PROCESS, RETRY} then [call_event c ic] else [])
           | None \<Rightarrow> [])
      | _ \<Rightarrow> [])"

definition response_events :: "(OutCall \<times> bool) option \<Rightarrow> event list" where
  "response_events resp =
     (case resp of
        Some (oc, True) \<Rightarrow>
          (case oc_type oc of
             PREPARE \<Rightarrow> [EvPrepareReply (oc_status oc) (oc_prepareReq oc) (oc_prepareReply oc)]
           | ACCEPT \<Rightarrow> [EvAcceptReply (oc_status oc) (oc_acceptReq oc) (oc_acceptReply oc)]
           | SYNC \<Rightarrow> [EvSyncReply (oc_status oc) (oc_syncReply oc)]
           | _ \<Rightarrow> [])
      | _ \<Rightarrow> [])"

definition fill :: "(nat \<Rightarrow> InCall option) \<Rightarrow> event_loop \<Rightarrow> event_loop" where
  "fill req el = el\<lparr>el_calls := (\<lambda>c. case (el_calls el c, req c) of
     (Some ic, Some m) \<Rightarrow> Some (m\<lparr>ic_type := ic_type ic, ic_status := ic_status ic\<rparr>)
   | (o', _) \<Rightarrow> o')\<rparr>"

record loop_turn =
  lt_messages :: "nat \<Rightarrow> InCall option"
  lt_request :: "(nat \<times> bool) option"
  lt_response :: "(OutCall \<times> bool) option"
  lt_clock :: int
  lt_sweep_clock :: int

text \<open>
  A pass of the loop as the environment drives it: gRPC fills the message fields of request
  objects (never their type or state), then the turn runs.
\<close>

definition turn :: "loop_turn \<Rightarrow> event_loop \<Rightarrow> event_loop" where
  "turn lt el = HandleRPCs_turn (lt_request lt) (lt_response lt) (lt_clock lt) (lt_sweep_clock lt) (fill (lt_messages lt) el)"

fun turn_events :: "loop_turn list \<Rightarrow> event_loop \<Rightarrow> event list" where
  "turn_events [] el = []"
| "turn_events (lt # lts) el =
     EvClock (lt_clock lt) # request_events (lt_request lt) (fill (lt_messages lt) el) @ response_events (lt_response lt)
       @ [EvClock (lt_sweep_clock lt), EvSweep] @ turn_events lts (turn lt el)"

lemma el_server_Proceed:
  "el_server (Proceed c el) = fold handle (request_events (Some (c, True)) el) (el_server el)"
proof (cases "el_calls el c")
  case (Some ic)
  have "el_server (Proceed_process c ic el) = handle (call_event c ic) (el_server el)"
    by (cases "ic_type ic") (simp_all add: Proceed_process_def call_event_def Let_def)
  with Some show ?thesis
    by (cases "ic_status ic") (simp_all add: Proceed_def request_events_def)
qed (simp add: Proceed_def request_events_def)

lemma el_server_HandleRPCResponse:
  "el_server (HandleRPCResponse oc el) = fold handle (response_events (Some (oc, True))) (el_server el)"
  by (cases "oc_type oc") (simp_all add: HandleRPCResponse_def response_events_def)

lemma request_events_clock: "request_events req (set_clock n el) = request_events req el"
proof -
  have "el_calls (set_clock n el) = el_calls el" by (simp add: set_clock_def)
  then show ?thesis unfolding request_events_def by (simp only:)
qed

lemma el_server_turn:
  "el_server (turn lt el) = fold handle (turn_events [lt] el) (el_server el)"
proof -
  define el1 where "el1 = set_clock (lt_clock lt) (fill (lt_messages lt) el)"
  define el2 where "el2 = (case lt_request lt of Some (c, True) \<Rightarrow> Proceed c el1 | _ \<Rightarrow> el1)"
  define el3 where "el3 = (case lt_response lt of Some (oc, True) \<Rightarrow> HandleRPCResponse oc el2 | _ \<Rightarrow> el2)"
  have "el_server el1 = handle (EvClock (lt_clock lt)) (el_server el)"
    by (simp add: el1_def set_clock_def fill_def)
  moreover have "el_server el2 = fold handle (request_events (lt_request lt) (fill (lt_messages lt) el)) (el_server el1)"
  proof -
    have "request_events (lt_request lt) (fill (lt_messages lt) el) = request_events (lt_request lt) el1"
      unfolding el1_def by (rule request_events_clock [symmetric])
    moreover have "el_server el2 = fold handle (request_events (lt_request lt) el1) (el_server el1)"
    proof (cases "\<exists>c. lt_request lt = Some (c, True)")
      case True
      then show ?thesis by (auto simp: el2_def el_server_Proceed simp del: fold_simps)
    next
      case False
      then show ?thesis by (auto simp: el2_def request_events_def split: option.split bool.split)
    qed
    ultimately show ?thesis by simp
  qed
  moreover have "el_server el3 = fold handle (response_events (lt_response lt)) (el_server el2)"
  proof (cases "\<exists>oc. lt_response lt = Some (oc, True)")
    case True
    then show ?thesis by (auto simp: el3_def el_server_HandleRPCResponse simp del: fold_simps)
  next
    case False
    then show ?thesis by (auto simp: el3_def response_events_def split: option.split bool.split)
  qed
  moreover have "turn lt el = call_server (\<lambda>s. sweep_timeouts (steady_now s) s) (set_clock (lt_sweep_clock lt) el3)"
    unfolding turn_def HandleRPCs_turn_def Let_def el3_def el2_def el1_def by (rule refl)
  ultimately show ?thesis by (simp add: set_clock_def)
qed

section \<open>Call objects are used safely\<close>

definition call_status :: "event_loop \<Rightarrow> nat \<Rightarrow> CallStatus option" where
  "call_status el c = map_option ic_status (el_calls el c)"

definition listening :: "event_loop \<Rightarrow> RequestTypes \<Rightarrow> nat set" where
  "listening el t = {c. \<exists>ic. el_calls el c = Some ic \<and> ic_type ic = t \<and> ic_status ic = PROCESS}"

definition answered :: "event_loop \<Rightarrow> nat list" where
  "answered el = map fst (el_finished el)"

text \<open>
  The objects against the server, with \<open>new\<close> the calls about to be handed to it: a parked
  object is a call in a batch, an answered one is finished or deleted.
\<close>

definition objects_ok :: "nat multiset \<Rightarrow> event_loop \<Rightarrow> bool" where
  "objects_ok new el \<longleftrightarrow> \<not> el_dangling el \<and> round_ok (el_server el)
     \<and> (\<forall>c. call_status el c \<in> {None, Some PROCESS, Some AWAIT_BATCH, Some FINISH})
     \<and> (\<forall>c \<ge> el_next el. call_status el c = None)
     \<and> (\<forall>c. count (parked (el_server el) + new) c = (if call_status el c = Some AWAIT_BATCH then 1 else 0))
     \<and> distinct (answered el)
     \<and> (\<forall>c. c \<in> set (answered el) \<longleftrightarrow> c < el_next el \<and> call_status el c \<in> {None, Some FINISH})"

definition finish_all :: "nat set \<Rightarrow> (nat \<Rightarrow> InCall option) \<Rightarrow> nat \<Rightarrow> InCall option" where
  "finish_all R m = (\<lambda>c. if c \<in> R then map_option (\<lambda>ic. ic\<lparr>ic_status := FINISH\<rparr>) (m c) else m c)"

lemma finish_all_Un: "finish_all (A \<union> B) m = finish_all B (finish_all A m)"
  by (auto simp: finish_all_def fun_eq_iff option.map_comp comp_def)

lemma fold_deliver:
  "el_calls (fold deliver_one xs el) = finish_all (set (List.map_filter replied xs)) (el_calls el)"
  "answered (fold deliver_one xs el) = answered el @ List.map_filter replied xs"
  "el_next (fold deliver_one xs el) = el_next el"
  "el_dangling (fold deliver_one xs el) = el_dangling el"
proof (induction xs arbitrary: el)
  case (Cons x xs)
  have one: "el_calls (deliver_one x el) = finish_all (set (List.map_filter replied [x])) (el_calls el)"
    "answered (deliver_one x el) = answered el @ List.map_filter replied [x]"
    "el_next (deliver_one x el) = el_next el" "el_dangling (deliver_one x el) = el_dangling el" for el
    by (cases x; auto simp: finish_call_def set_status_def answered_def finish_all_def map_filter_simps fun_eq_iff)+
  have split: "List.map_filter replied (x # xs) = List.map_filter replied [x] @ List.map_filter replied xs"
    using map_filter_append [of replied "[x]" xs] by simp
  { case 1 show ?case unfolding split set_append finish_all_Un fold_simps comp_def Cons.IH(1) one(1) by (rule refl) }
  { case 2 show ?case unfolding split fold_simps Cons.IH(2) one(2) by simp }
  { case 3 show ?case by (simp add: Cons.IH(3) one(3)) }
  { case 4 show ?case by (simp add: Cons.IH(4) one(4)) }
qed (simp_all add: finish_all_def map_filter_simps)

lemma call_status_finish_all:
  "map_option ic_status (finish_all R m c) = (if c \<in> R \<and> m c \<noteq> None then Some FINISH else map_option ic_status (m c))"
  by (cases "m c") (simp_all add: finish_all_def)

lemma call_server_ok:
  assumes ok: "objects_ok (mset (new_calls ev)) el"
  shows "objects_ok {#} (call_server (handle ev) el)"
    and "call_status el c \<noteq> Some AWAIT_BATCH \<Longrightarrow> el_calls (call_server (handle ev) el) c = el_calls el c"
    and "listening (call_server (handle ev) el) t = listening el t"
    and "el_next (call_server (handle ev) el) = el_next el"
proof -
  define s s' where "s = el_server el" and "s' = handle ev s"
  define R where "R = List.map_filter replied (drop (length (outbox s)) (outbox s'))"
  define el' where "el' = call_server (handle ev) el"
  from prefix_handle [of s ev] have "outbox s' = outbox s @ drop (length (outbox s)) (outbox s')"
    by (auto simp: s'_def prefix_def)
  then have "replies s' = replies s + mset R"
    using arg_cong [of _ _ "\<lambda>xs. mset (List.map_filter replied xs)"]
    by (simp add: replies_def R_def) (metis map_filter_append mset_append)
  moreover have rd: "round_ok s" using ok by (simp add: objects_ok_def s_def)
  ultimately have bal: "parked s' + mset R = parked s + mset (new_calls ev)" and rd': "round_ok s'"
    using calls_handle [OF rd, of ev] by (simp_all add: calls_def s'_def ac_simps)
  have el': "el_calls el' = finish_all (set R) (el_calls el)" "answered el' = answered el @ R"
    "el_next el' = el_next el" "el_dangling el' = el_dangling el" "el_server el' = s'"
    by (simp_all add: el'_def call_server_def Let_def fold_deliver R_def s'_def s_def) (simp add: answered_def)
  have cnt: "count (parked s') c + count (mset R) c = (if call_status el c = Some AWAIT_BATCH then 1 else 0)" for c
    using ok arg_cong [OF bal, of "\<lambda>m. count m c"] by (simp add: objects_ok_def s_def)
  have inR: "c \<in> set R \<Longrightarrow> call_status el c = Some AWAIT_BATCH" for c
    using cnt [of c] by (auto simp: count_mset_0_iff split: if_splits)
  have "count (mset R) c \<le> 1" for c
  proof -
    have "count (mset R) c \<le> (if call_status el c = Some AWAIT_BATCH then 1 else 0)"
      unfolding cnt [of c, symmetric] by (rule le_add2)
    also have "\<dots> \<le> 1" by simp
    finally show ?thesis .
  qed
  then have "distinct R"
    by (simp add: distinct_count_atmost_1) (metis One_nat_def count_eq_zero_iff le_Suc_eq le_zero_eq set_mset_mset)
  then have cR: "count (mset R) c = (if c \<in> set R then 1 else 0)" for c
    by (simp add: distinct_count_atmost_1)
  have st: "call_status el' c = (if c \<in> set R then Some FINISH else call_status el c)" for c
    using inR [of c] by (auto simp: call_status_def el'(1) call_status_finish_all)
  show "objects_ok {#} (call_server (handle ev) el)"
    unfolding el'_def [symmetric] objects_ok_def
  proof (intro conjI allI)
    show "count (parked (el_server el') + {#}) c = (if call_status el' c = Some AWAIT_BATCH then 1 else 0)" for c
      using cnt [of c] inR [of c] by (auto simp: el'(5) st cR split: if_splits)
    show "c \<in> set (answered el') \<longleftrightarrow> c < el_next el' \<and> call_status el' c \<in> {None, Some FINISH}" for c
      using ok inR [of c] by (auto simp: el' st objects_ok_def)
    show "distinct (answered el')"
      using ok inR \<open>distinct R\<close> by (auto simp: el' objects_ok_def)
  qed (use ok rd' inR in \<open>auto simp: el' st objects_ok_def\<close>)
  show keep: "el_calls (call_server (handle ev) el) c = el_calls el c" if "call_status el c \<noteq> Some AWAIT_BATCH" for c
    using inR [of c] that unfolding el'_def [symmetric] by (auto simp: el'(1) finish_all_def)
  show "el_next (call_server (handle ev) el) = el_next el" using el'(3) by (simp add: el'_def)
  show "listening (call_server (handle ev) el) t = listening el t"
    unfolding el'_def [symmetric] listening_def el'(1) finish_all_def
    using inR by (auto simp: call_status_def split: if_splits) fastforce
qed

lemma objects_clock [simp]:
  "objects_ok new (set_clock n el) = objects_ok new el" "listening (set_clock n el) = listening el"
  "call_status (set_clock n el) = call_status el" "el_next (set_clock n el) = el_next el"
  "answered (set_clock n el) = answered el" "el_calls (set_clock n el) = el_calls el"
  by (simp_all add: objects_ok_def call_status_def listening_def answered_def set_clock_def parked_def round_ok_def fun_eq_iff)

lemma objects_fill [simp]:
  "objects_ok new (fill m el) = objects_ok new el" "listening (fill m el) = listening el"
  "call_status (fill m el) = call_status el" "el_next (fill m el) = el_next el" "answered (fill m el) = answered el"
proof -
  show st: "call_status (fill m el) = call_status el"
    by (auto simp: call_status_def fill_def fun_eq_iff split: option.split)
  show "listening (fill m el) = listening el"
    by (auto simp: listening_def fill_def fun_eq_iff split: option.splits)
  show "el_next (fill m el) = el_next el" "answered (fill m el) = answered el"
    by (simp_all add: answered_def fill_def)
  then show "objects_ok new (fill m el) = objects_ok new el"
    unfolding objects_ok_def st by (simp add: fill_def)
qed

lemma create_call_ok:
  assumes "objects_ok new el"
  shows "objects_ok new (create_call t el)"
    and "listening (create_call t el) t' = listening el t' \<union> (if t' = t then {el_next el} else {})"
    and "el_calls el c = Some ic \<Longrightarrow> el_calls (create_call t el) c = Some ic"
    and "call_status (create_call t el) = (call_status el)(el_next el := Some PROCESS)"
    and "el_next (create_call t el) = Suc (el_next el)"
proof -
  have fresh: "el_calls el (el_next el) = None" using assms by (auto simp: objects_ok_def call_status_def)
  show st: "call_status (create_call t el) = (call_status el)(el_next el := Some PROCESS)"
    by (simp add: call_status_def create_call_def set_status_def new_InCall_def fun_eq_iff)
  show nx: "el_next (create_call t el) = Suc (el_next el)" by (simp add: create_call_def set_status_def)
  have an: "answered (create_call t el) = answered el" "el_dangling (create_call t el) = el_dangling el"
    by (simp_all add: answered_def create_call_def set_status_def)
  have "call_status el (el_next el) = None" using fresh by (simp add: call_status_def)
  then show "objects_ok new (create_call t el)"
    using assms unfolding objects_ok_def st nx an by (auto simp: less_Suc_eq)
  show "listening (create_call t el) t' = listening el t' \<union> (if t' = t then {el_next el} else {})"
    using fresh by (auto simp: listening_def create_call_def set_status_def new_InCall_def)
  show "el_calls el c = Some ic \<Longrightarrow> el_calls (create_call t el) c = Some ic"
    using fresh by (auto simp: create_call_def set_status_def)
qed

lemma set_status_view:
  "call_status el c \<noteq> None \<Longrightarrow> call_status (set_status c st el) = (call_status el)(c := Some st)"
  "st \<noteq> PROCESS \<Longrightarrow> listening (set_status c st el) t = listening el t - {c}"
  by (auto simp: call_status_def set_status_def listening_def fun_eq_iff)

lemma park_ok:
  assumes "objects_ok {#} el" and "call_status el c = Some PROCESS"
  shows "objects_ok {#c#} (set_status c AWAIT_BATCH el)"
proof -
  have st: "call_status (set_status c AWAIT_BATCH el) = (call_status el)(c := Some AWAIT_BATCH)"
    using assms(2) by (simp add: set_status_view)
  have "c < el_next el" using assms by (auto simp: objects_ok_def not_le [symmetric])
  moreover have "el_next (set_status c AWAIT_BATCH el) = el_next el" "answered (set_status c AWAIT_BATCH el) = answered el"
    "el_dangling (set_status c AWAIT_BATCH el) = el_dangling el"
    by (simp_all add: answered_def set_status_def)
  ultimately show ?thesis
    using assms unfolding objects_ok_def st by auto
qed

lemma finish_ok:
  assumes "objects_ok {#} el" and "call_status el c = Some PROCESS"
  shows "objects_ok {#} (finish_call c r el)"
    and "call_status (finish_call c r el) = (call_status el)(c := Some FINISH)"
    and "listening (finish_call c r el) t = listening el t - {c}"
    and "el_next (finish_call c r el) = el_next el"
proof -
  let ?el = "el\<lparr>el_finished := el_finished el @ [(c, r)]\<rparr>"
  have "call_status ?el = call_status el" "listening ?el = listening el"
    by (simp_all add: call_status_def listening_def fun_eq_iff)
  then show st: "call_status (finish_call c r el) = (call_status el)(c := Some FINISH)"
    and "listening (finish_call c r el) t = listening el t - {c}"
    using assms(2) by (simp_all add: finish_call_def set_status_view)
  have "c < el_next el" using assms by (auto simp: objects_ok_def not_le [symmetric])
  moreover show nx: "el_next (finish_call c r el) = el_next el" by (simp add: finish_call_def set_status_def)
  moreover have "answered (finish_call c r el) = answered el @ [c]" "el_dangling (finish_call c r el) = el_dangling el"
    by (simp_all add: answered_def finish_call_def set_status_def)
  ultimately show "objects_ok {#} (finish_call c r el)"
    using assms unfolding objects_ok_def st nx by auto
qed

lemma Proceed_process_cases:
  assumes "ic_status ic = PROCESS"
  obtains (park) "new_calls (call_event c ic) = [c]"
      "Proceed_process c ic el = call_server (handle (call_event c ic)) (set_status c AWAIT_BATCH (create_call (ic_type ic) el))"
    | (reply) r where "new_calls (call_event c ic) = []"
      "Proceed_process c ic el = finish_call c r (call_server (handle (call_event c ic)) (create_call (ic_type ic) el))"
proof -
  have id: "call_server (handle ev) el' = el'" if "handle ev = (\<lambda>s. s)" for ev el'
    by (simp add: call_server_def Let_def that)
  have "handle (EvSync q) = (\<lambda>s. s)" "handle EvLogs = (\<lambda>s. s)" for q by (simp_all add: fun_eq_iff)
  note id = this [THEN id]
  have ev: "handle (EvPrepare q) = (\<lambda>s. fst (processPrepareCall q s))" "handle (EvAccept q') = (\<lambda>s. fst (processAcceptCall q' s))"
    "handle (EvBalance b) = (\<lambda>s. fst (processGetBalanceCall b s))" "handle (EvTransfer c r) = enqueueClientTxn c r False"
    "handle (EvTpcPrepare c r) = enqueueClientTxn c r True" "handle (EvTpcCommit t) = processTpcDecision t True"
    "handle (EvTpcAbort t) = processTpcDecision t False" "handle (EvCommit k) = processCommitCall k"
    "handle (EvDisconnect ns) = processDisconnectCall ns" for q q' b r t k ns
    by (simp_all add: fun_eq_iff)
  show thesis
    using assms
    by (cases "ic_type ic") (rule that; (simp add: Proceed_process_def call_event_def Let_def ev id; fail))+
qed

text \<open>
  The completion queue returns the tag of an operation once.  \<open>ops_started\<close> counts the
  operations started on an object: the request it was registered for and its \<open>Finish\<close>.
\<close>

definition ops_started :: "event_loop \<Rightarrow> nat \<Rightarrow> nat" where
  "ops_started el c = (if c < el_next el then 1 else 0) + count (mset (answered el)) c"

definition returned :: "loop_turn \<Rightarrow> nat multiset" where
  "returned lt = (case lt_request lt of Some (c, ok) \<Rightarrow> {#c#} | None \<Rightarrow> {#})"

fun queue_ok :: "loop_turn list \<Rightarrow> nat multiset \<Rightarrow> event_loop \<Rightarrow> bool" where
  "queue_ok [] H el = True"
| "queue_ok (lt # lts) H el =
     ((case lt_request lt of Some (c, ok) \<Rightarrow> count H c < ops_started el c | None \<Rightarrow> True)
      \<and> queue_ok lts (H + returned lt) (turn lt el))"

definition tags_ok :: "nat multiset \<Rightarrow> event_loop \<Rightarrow> bool" where
  "tags_ok H el \<longleftrightarrow> (\<forall>c < el_next el. (call_status el c = None \<longrightarrow> 2 \<le> count H c)
     \<and> (call_status el c \<in> {Some AWAIT_BATCH, Some FINISH} \<longrightarrow> 1 \<le> count H c))"

definition loop_ok :: "event_loop \<Rightarrow> bool" where
  "loop_ok el \<longleftrightarrow> objects_ok {#} el \<and> (\<forall>t. \<exists>c. listening el t = {c})"

lemma tags_call_server:
  assumes "objects_ok (mset (new_calls ev)) el" and "tags_ok H el"
  shows "tags_ok H (call_server (handle ev) el)"
proof -
  let ?el = "call_server (handle ev) el"
  have "call_status ?el c = call_status el c \<or> call_status el c = Some AWAIT_BATCH \<and> call_status ?el c \<noteq> None" for c
  proof (cases "call_status el c = Some AWAIT_BATCH")
    case True
    then have "el_calls ?el c \<noteq> None"
      by (auto simp: call_server_def Let_def fold_deliver finish_all_def call_status_def)
    with True show ?thesis by (auto simp: call_status_def)
  next
    case False
    then show ?thesis using call_server_ok(2) [OF assms(1) False] by (simp add: call_status_def)
  qed
  then show ?thesis
    using assms(2) unfolding tags_ok_def call_server_ok(4) [OF assms(1)]
    by (metis insertI1 insert_iff option.distinct(1))
qed

lemma loop_call_server:
  assumes "loop_ok el" and "tags_ok H el" and "new_calls ev = []"
  shows "loop_ok (call_server (handle ev) el) \<and> tags_ok H (call_server (handle ev) el)"
  using assms call_server_ok [of ev el] tags_call_server [of ev el H] by (simp add: loop_ok_def)

lemma returned_tag_live:
  assumes obj: "objects_ok {#} el" and tags: "tags_ok H el" and q: "count H c < ops_started el c"
  shows "c < el_next el" and "call_status el c \<in> {Some PROCESS, Some FINISH}"
proof -
  from obj have an: "c \<in> set (answered el) \<Longrightarrow> c < el_next el \<and> call_status el c \<in> {None, Some FINISH}"
    and dist: "distinct (answered el)"
    unfolding objects_ok_def by blast+
  have zero: "count (mset (answered el)) c = 0" if "c \<notin> set (answered el)"
    using that by (simp add: count_mset_0_iff)
  show "c < el_next el"
  proof (rule ccontr)
    assume out: "\<not> c < el_next el"
    then have "ops_started el c = 0" using an zero by (auto simp: ops_started_def)
    with q show False by simp
  qed
  have notin: "c \<notin> set (answered el)" if "call_status el c = Some AWAIT_BATCH" using an that by auto
  have "count (mset (answered el)) c \<le> 1" using dist by (simp add: distinct_count_atmost_1)
  then have le2: "ops_started el c \<le> 2" using \<open>c < el_next el\<close> by (simp add: ops_started_def)
  have seen: "call_status el c = None \<Longrightarrow> 2 \<le> count H c" "call_status el c = Some AWAIT_BATCH \<Longrightarrow> 1 \<le> count H c"
    using tags \<open>c < el_next el\<close> unfolding tags_ok_def by blast+
  have "call_status el c \<noteq> None"
  proof
    assume "call_status el c = None"
    from q le2 seen(1) [OF this] show False by linarith
  qed
  moreover have "call_status el c \<noteq> Some AWAIT_BATCH"
  proof
    assume parked: "call_status el c = Some AWAIT_BATCH"
    then have "count (mset (answered el)) c = 0" using notin zero by blast
    then have "ops_started el c \<le> 1" using \<open>c < el_next el\<close> by (simp add: ops_started_def)
    with q seen(2) [OF parked] show False by linarith
  qed
  moreover have "call_status el c \<in> {None, Some PROCESS, Some AWAIT_BATCH, Some FINISH}"
    using obj by (simp add: objects_ok_def)
  ultimately show "call_status el c \<in> {Some PROCESS, Some FINISH}" by auto
qed

lemma loop_Proceed_process:
  assumes ok: "loop_ok el" and tags: "tags_ok H el" and ic: "el_calls el c = Some ic"
    and True: "ic_status ic = PROCESS" and lt: "c < el_next el"
  shows "loop_ok (Proceed c el) \<and> tags_ok (H + {#c#}) (Proceed c el)"
proof -
  have obj: "objects_ok {#} el" using ok by (simp add: loop_ok_def)
  define el1 where "el1 = create_call (ic_type ic) el"
  note cr = create_call_ok [OF obj, where t = "ic_type ic", folded el1_def]
  have st: "call_status el1 c = Some PROCESS" using cr(3) [OF ic] True by (simp add: call_status_def)
  have "tags_ok H el1" using tags by (auto simp: tags_ok_def cr(4,5) less_Suc_eq)
  then have tags1: "tags_ok (H + {#c#}) (el2) \<and> el_next el2 = el_next el1" if "call_status el2 = (call_status el1)(c := Some x)" "el_next el2 = el_next el1" for el2 x
    using that by (auto simp: tags_ok_def)
  have P: "Proceed c el = Proceed_process c ic el" using ic True by (simp add: Proceed_def)
  have lis: "\<exists>d. listening el1 t - {c} = {d}" for t
  proof -
    obtain d where d: "listening el t = {d}" using ok by (auto simp: loop_ok_def)
    have "c \<in> listening el (ic_type ic)" using ic True by (simp add: listening_def)
    moreover have "c \<noteq> el_next el" using lt by simp
    moreover have "t \<noteq> ic_type ic \<Longrightarrow> c \<notin> listening el t" using ic by (auto simp: listening_def)
    ultimately show ?thesis using d by (cases "t = ic_type ic") (auto simp: cr(2))
  qed
  from True show ?thesis
  proof (cases rule: Proceed_process_cases [where c = c and el = el])
    case park
    define el2 where "el2 = set_status c AWAIT_BATCH el1"
    have o2: "objects_ok {#c#} el2" unfolding el2_def by (rule park_ok [OF cr(1) st])
    have "call_status el2 = (call_status el1)(c := Some AWAIT_BATCH)" "el_next el2 = el_next el1"
      using st by (simp_all add: el2_def set_status_view) (simp add: set_status_def)
    then have "tags_ok (H + {#c#}) el2" using tags1 by blast
    moreover have "listening el2 t = listening el1 t - {c}" for t by (simp add: el2_def set_status_view)
    ultimately show ?thesis
      using o2 lis call_server_ok(1,3) [of "call_event c ic" el2] tags_call_server [of "call_event c ic" el2]
      unfolding P park(2) el1_def [symmetric] el2_def [symmetric] by (simp add: park(1) loop_ok_def)
  next
    case (reply r)
    define el2 where "el2 = call_server (handle (call_event c ic)) el1"
    have pre: "objects_ok (mset (new_calls (call_event c ic))) el1" using cr(1) reply(1) by simp
    note cs = call_server_ok [OF pre, folded el2_def]
    have st2: "call_status el2 c = Some PROCESS" using cs(2) [of c] st by (auto simp: call_status_def)
    note fin = finish_ok [OF cs(1) st2, of r]
    have "tags_ok H el2" unfolding el2_def by (rule tags_call_server [OF pre \<open>tags_ok H el1\<close>])
    then have "tags_ok (H + {#c#}) (finish_call c r el2)"
      using fin(2,4) by (auto simp: tags_ok_def)
    then show ?thesis
      using fin(1) lis unfolding P reply(2) el1_def [symmetric] el2_def [symmetric]
      by (simp add: loop_ok_def fin(3) cs(3))
  qed
qed

lemma loop_Proceed_finish:
  assumes ok: "loop_ok el" and tags: "tags_ok H el" and ic: "el_calls el c = Some ic"
    and f: "ic_status ic = FINISH" and lt: "c < el_next el"
  shows "loop_ok (Proceed c el) \<and> tags_ok (H + {#c#}) (Proceed c el)"
proof -
  have obj: "objects_ok {#} el" using ok by (simp add: loop_ok_def)
  have P: "Proceed c el = el\<lparr>el_calls := (el_calls el)(c := None)\<rparr>" using ic f by (simp add: Proceed_def)
  have st: "call_status (Proceed c el) = (call_status el)(c := None)" "call_status el c = Some FINISH"
    using ic f by (auto simp: P call_status_def)
  have "listening (Proceed c el) t = listening el t" for t using ic f by (auto simp: P listening_def)
  moreover have "objects_ok {#} (Proceed c el)"
    using obj st(2) lt unfolding objects_ok_def st(1) by (auto simp: P answered_def)
  moreover have "tags_ok (H + {#c#}) (Proceed c el)"
    using tags st(2) lt unfolding tags_ok_def st(1) by (auto simp: P)
  ultimately show ?thesis using ok by (simp add: loop_ok_def)
qed

lemma loop_Proceed:
  assumes ok: "loop_ok el" and tags: "tags_ok H el" and q: "count H c < ops_started el c"
  shows "loop_ok (Proceed c el) \<and> tags_ok (H + {#c#}) (Proceed c el)"
proof -
  have "objects_ok {#} el" using ok by (simp add: loop_ok_def)
  note live = returned_tag_live [OF this tags q]
  then obtain ic where "el_calls el c = Some ic" "ic_status ic \<in> {PROCESS, FINISH}"
    by (auto simp: call_status_def)
  then show ?thesis
    using loop_Proceed_process [OF ok tags _ _ live(1)] loop_Proceed_finish [OF ok tags _ _ live(1)] by auto
qed

lemma loop_HandleRPCResponse:
  assumes "loop_ok el" and "tags_ok H el"
  shows "loop_ok (HandleRPCResponse oc el) \<and> tags_ok H (HandleRPCResponse oc el)"
proof -
  have ev: "handlePrepareReply st q res = handle (EvPrepareReply st q res)"
    "handleAcceptReply st q' res' = handle (EvAcceptReply st q' res')"
    "handleSyncReply st res'' = handle (EvSyncReply st res'')" for st q res q' res' res''
    by (simp_all add: fun_eq_iff)
  show ?thesis
    using assms by (cases "oc_type oc") (simp_all add: HandleRPCResponse_def ev loop_call_server del: handle.simps)
qed

lemma loop_turn_ok:
  assumes ok: "loop_ok el" "tags_ok H el"
    and q: "case lt_request lt of Some (c, ok) \<Rightarrow> count H c < ops_started el c | None \<Rightarrow> True"
  shows "loop_ok (turn lt el) \<and> tags_ok (H + returned lt) (turn lt el)"
proof -
  define el1 where "el1 = set_clock (lt_clock lt) (fill (lt_messages lt) el)"
  define el2 where "el2 = (case lt_request lt of Some (c, True) \<Rightarrow> Proceed c el1 | _ \<Rightarrow> el1)"
  define el3 where "el3 = (case lt_response lt of Some (oc, True) \<Rightarrow> HandleRPCResponse oc el2 | _ \<Rightarrow> el2)"
  have 1: "loop_ok el1" "tags_ok H el1" "ops_started el1 = ops_started el"
    using ok by (simp_all add: el1_def loop_ok_def tags_ok_def ops_started_def fun_eq_iff)
  then have more: "tags_ok (add_mset c H) el1" for c
  proof -
    have "count H d \<le> count (add_mset c H) d" for d by simp
    with 1(2) show ?thesis unfolding tags_ok_def by (meson order_trans)
  qed
  have 2: "loop_ok el2 \<and> tags_ok (H + returned lt) el2"
    using 1 q more loop_Proceed [OF 1(1,2)]
    by (auto simp: el2_def returned_def split: option.split bool.split)
  then have 3: "loop_ok el3 \<and> tags_ok (H + returned lt) el3"
    by (auto simp: el3_def loop_HandleRPCResponse split: option.split bool.split)
  have "turn lt el = call_server (handle EvSweep) (set_clock (lt_sweep_clock lt) el3)"
    unfolding turn_def HandleRPCs_turn_def Let_def el3_def el2_def el1_def handle.simps by (rule refl)
  moreover have "loop_ok (set_clock (lt_sweep_clock lt) el3)" "tags_ok (H + returned lt) (set_clock (lt_sweep_clock lt) el3)"
    using 3 by (simp_all add: loop_ok_def tags_ok_def)
  ultimately show ?thesis using loop_call_server [of _ _ EvSweep] by simp
qed

lemma loop_start_ok:
  assumes "round_ok s" and "parked s = {#}"
  shows "loop_ok (HandleRPCs_start s) \<and> tags_ok {#} (HandleRPCs_start s)"
proof -
  let ?e = "\<lparr>el_server = s, el_calls = Map.empty, el_next = 0, el_finished = [], el_out = [], el_dangling = False\<rparr>"
  let ?ts = "[TPC_PREPARE, TPC_COMMIT, TPC_ABORT, TRANSFER, BALANCE, LOGS, PREPARE, ACCEPT, COMMIT, SYNC, DISCONNECT]"
  have e: "objects_ok {#} ?e" "tags_ok {#} ?e" "listening ?e t = {}" for t
    using assms by (simp_all add: objects_ok_def tags_ok_def call_status_def answered_def listening_def)
  have step: "objects_ok {#} (fold create_call ts el) \<and> tags_ok {#} (fold create_call ts el)
      \<and> (t \<notin> set ts \<longrightarrow> listening (fold create_call ts el) t = listening el t)
      \<and> (distinct ts \<and> t \<in> set ts \<and> listening el t = {} \<longrightarrow> (\<exists>c. listening (fold create_call ts el) t = {c}))"
    if "objects_ok {#} el" "tags_ok {#} el" for ts el t
    using that
  proof (induction ts arbitrary: el)
    case (Cons t0 ts)
    note cr = create_call_ok [OF Cons.prems(1), where t = t0]
    have "tags_ok {#} (create_call t0 el)" using Cons.prems(2) by (auto simp: tags_ok_def cr(4,5) less_Suc_eq)
    then show ?case using Cons.IH [OF cr(1)] cr(2) [where t' = t] by (cases "t = t0") auto
  qed simp
  have "t \<in> set ?ts" for t by (cases t) simp_all
  then show ?thesis
    using step [OF e(1,2), of ?ts] e(3) unfolding HandleRPCs_start_def loop_ok_def by simp
qed

lemma loop_turns_ok:
  "loop_ok el \<Longrightarrow> tags_ok H el \<Longrightarrow> queue_ok lts H el \<Longrightarrow> loop_ok (fold turn lts el)"
proof (induction lts arbitrary: H el)
  case (Cons lt lts)
  then show ?case using loop_turn_ok [of el H lt] by auto
qed simp

text \<open>The event loop runs the handlers.  Whatever the queues return, the server after any
  number of passes of \<open>HandleRPCs\<close> is the result of handling, in order, the events behind the
  returned tags: the clock, the request, the reply, then the lock sweep.  So every property of
  event sequences is a property of the loop.\<close>

theorem loop_refines_handlers:
  "el_server (fold turn lts (HandleRPCs_start s)) = fold handle (turn_events lts (HandleRPCs_start s)) s"
proof -
  have run: "el_server (fold turn lts el) = fold handle (turn_events lts el) (el_server el)" for el
    by (induction lts arbitrary: el) (simp_all add: el_server_turn)
  have "el_server (fold create_call ts el) = el_server el" for ts el
    by (induction ts arbitrary: el) simp_all
  then have "el_server (HandleRPCs_start s) = s" by (simp add: HandleRPCs_start_def del: fold_simps)
  with run show ?thesis by simp
qed

text \<open>C8. Call objects are used safely.  If the completion queue returns the tag of each started
  operation at most once, then after any number of passes no tag of a deleted object was used,
  exactly one object listens for each kind of request, no call was answered twice, and the
  objects waiting for their batch are exactly the calls in the server's batches.\<close>

theorem call_objects_safe:
  assumes "round_ok s" and "parked s = {#}" and "queue_ok lts {#} (HandleRPCs_start s)" and "fold turn lts (HandleRPCs_start s) = el"
  shows "\<not> el_dangling el \<and> (\<forall>t. \<exists>!c. c \<in> listening el t) \<and> distinct (map fst (el_finished el))
    \<and> set_mset (parked (el_server el)) = {c. call_status el c = Some AWAIT_BATCH}
    \<and> (\<forall>c. count (parked (el_server el)) c \<le> 1)"
proof -
  have ok: "loop_ok el" using loop_start_ok [OF assms(1,2)] assms(3,4) by (auto intro: loop_turns_ok)
  then have obj: "objects_ok {#} el" by (simp add: loop_ok_def)
  then have cnt: "count (parked (el_server el)) c = (if call_status el c = Some AWAIT_BATCH then 1 else 0)" for c
    by (simp add: objects_ok_def)
  have "\<not> el_dangling el" "distinct (map fst (el_finished el))"
    using obj by (simp_all add: objects_ok_def answered_def)
  moreover have "\<exists>!c. c \<in> listening el t" for t
  proof -
    obtain c where "listening el t = {c}" using ok by (auto simp: loop_ok_def)
    then show ?thesis by auto
  qed
  moreover have "set_mset (parked (el_server el)) = {c. call_status el c = Some AWAIT_BATCH}"
    by (auto simp: set_mset_def cnt)
  ultimately show ?thesis by (simp add: cnt)
qed

definition sample_turn :: "nat \<Rightarrow> loop_turn" where
  "sample_turn c = \<lparr>lt_messages = Map.empty, lt_request = Some (c, True), lt_response = None, lt_clock = 5, lt_sweep_clock = 6\<rparr>"

lemma answered_call_server [simp]:
  "set (answered el) \<subseteq> set (answered (call_server f el))" "el_next (call_server f el) = el_next el"
  by (simp_all add: call_server_def Let_def fold_deliver) (simp add: answered_def)

lemma balance_turn:
  assumes "el_calls el c = Some ic" and "ic_type ic = BALANCE" and "ic_status ic = PROCESS"
  shows "c \<in> set (answered (turn (sample_turn c) el))" and "el_next (turn (sample_turn c) el) = Suc (el_next el)"
proof -
  define el1 where "el1 = set_clock 5 (fill Map.empty el)"
  obtain r f where P: "Proceed c el1 = finish_call c r (call_server f (create_call BALANCE el1))"
    using assms by (simp add: el1_def fill_def set_clock_def Proceed_def Proceed_process_def Let_def)
  have T: "turn (sample_turn c) el = call_server (\<lambda>s. sweep_timeouts (steady_now s) s) (set_clock 6 (Proceed c el1))"
    by (simp add: turn_def HandleRPCs_turn_def Let_def sample_turn_def el1_def)
  have "c \<in> set (answered (set_clock 6 (Proceed c el1)))"
    unfolding P objects_clock by (simp add: answered_def finish_call_def set_status_def)
  then show "c \<in> set (answered (turn (sample_turn c) el))"
    unfolding T using answered_call_server(1) by blast
  have "el_next (Proceed c el1) = Suc (el_next el1)"
    unfolding P by (simp add: finish_call_def set_status_def create_call_def)
  then show "el_next (turn (sample_turn c) el) = Suc (el_next el)"
    unfolding T by (simp add: el1_def)
qed

theorem call_objects_safe_witness:
  "queue_ok [sample_turn 4, sample_turn 4] {#} (HandleRPCs_start sample_server)
   \<and> \<not> el_dangling (fold turn [sample_turn 4, sample_turn 4] (HandleRPCs_start sample_server))
   \<and> (\<exists>!c. c \<in> listening (fold turn [sample_turn 4, sample_turn 4] (HandleRPCs_start sample_server)) BALANCE)"
proof -
  let ?el = "HandleRPCs_start sample_server"
  have s: "round_ok sample_server" "parked sample_server = {#}"
    by (simp_all add: round_ok_def parked_def sample_server_def ServerImpl_def resetDisconnectedState_def)
  have c4: "el_calls ?el 4 = Some (new_InCall BALANCE\<lparr>ic_status := PROCESS\<rparr>)" and nx: "el_next ?el = 11"
    by (simp_all add: HandleRPCs_start_def create_call_def set_status_def)
  have "4 \<in> set (answered (turn (sample_turn 4) ?el))" "el_next (turn (sample_turn 4) ?el) = 12"
    using balance_turn [OF c4] nx by (simp_all add: new_InCall_def)
  then have "1 < ops_started (turn (sample_turn 4) ?el) 4" "0 < ops_started ?el 4"
    using nx by (simp_all add: ops_started_def count_greater_zero_iff)
  then have q: "queue_ok [sample_turn 4, sample_turn 4] {#} ?el"
    by (simp add: returned_def) (simp add: sample_turn_def)
  show ?thesis using q call_objects_safe [OF s q refl] by blast
qed

end
