(* ===== verification/Workload.thy ===== *)
theory Workload
  imports Config
begin

text \<open>
  The workload file and the command line of the driver: \<open>CSVReader\<close>
  (\<open>src/utils/csv_reader.cc\<close>) and \<open>CommandsParser\<close>
  (\<open>src/utils/commands_parser.cc\<close>).  C++ exceptions are the left side of a sum; an
  exception inside \<open>readNextSet\<close> leaves the reader as it was at that moment.
\<close>

section \<open>Exceptions\<close>

definition ebind :: "'e + 'a \<Rightarrow> ('a \<Rightarrow> 'e + 'b) \<Rightarrow> 'e + 'b" where
  "ebind m f = (case m of Inl e \<Rightarrow> Inl e | Inr x \<Rightarrow> f x)"

lemma ebind_simps [simp]: "ebind (Inl e) f = Inl e" "ebind (Inr x) f = f x"
  by (simp_all add: ebind_def)

definition at :: "'a list \<Rightarrow> nat \<Rightarrow> cpp_exn + 'a" where
  "at xs i = (if i < length xs then Inr (xs ! i) else Inl OutOfRange)"

section \<open>Reading a line\<close>

definition quote :: char where "quote = CHR 0x22"

definition strips :: "char \<Rightarrow> bool" where
  "strips c \<longleftrightarrow> c = CHR 0x0D \<or> c = newline \<or> c = CHR '' ''"

definition stripLineEndings :: "string \<Rightarrow> string" where
  "stripLineEndings line = filter (\<lambda>c. \<not> strips c) line"

text \<open>The two field loops differ in the characters they skip.\<close>

fun split_loop :: "(char \<Rightarrow> bool) \<Rightarrow> string \<Rightarrow> string list \<Rightarrow> string \<Rightarrow> string list" where
  "split_loop skip field fs [] = fs @ [field]"
| "split_loop skip field fs (c # cs) =
     (if skip c then split_loop skip field fs cs
      else if c = CHR '','' then split_loop skip [] (fs @ [field]) cs
      else split_loop skip (field @ [c]) fs cs)"

definition parseTransaction :: "string \<Rightarrow> cpp_exn + transaction" where
  "parseTransaction column =
     (let fs = split_loop (\<lambda>c. c = CHR ''('' \<or> c = CHR '')'' \<or> c = CHR '' '') [] [] column
      in ebind (ebind (at fs 0) stoi) (\<lambda>s.
         ebind (ebind (at fs 1) stoi) (\<lambda>r.
         ebind (ebind (at fs 2) stoi) (\<lambda>a.
         Inr \<lparr>sender = s, receiver = r, amount = a\<rparr>))))"

definition parseServers :: "string \<Rightarrow> string list" where
  "parseServers column = split_loop (\<lambda>c. c = CHR ''['' \<or> c = CHR '']'' \<or> c = CHR '' '') [] [] column"

fun column_loop :: "bool \<Rightarrow> string \<Rightarrow> string list \<Rightarrow> string \<Rightarrow> string list" where
  "column_loop inQuotes column columns [] = columns @ [column]"
| "column_loop inQuotes column columns (c # cs) =
     (if c = quote then column_loop (\<not> inQuotes) column columns cs
      else if c = CHR '','' \<and> \<not> inQuotes then column_loop inQuotes [] (columns @ [column]) cs
      else column_loop inQuotes (column @ [c]) columns cs)"

definition parseCSVLine :: "string \<Rightarrow> cpp_exn + CSVLine" where
  "parseCSVLine line =
     (let columns = column_loop False [] [] line
      in ebind (at columns 0) (\<lambda>c0.
         ebind (if c0 \<noteq> [] then stoi c0 else Inr (-1)) (\<lambda>n.
         ebind (ebind (at columns 1) parseTransaction) (\<lambda>t.
         ebind (at columns 2) (\<lambda>c2.
         ebind (at columns 3) (\<lambda>c3.
         Inr \<lparr>cl_set_no = n, cl_transaction = t,
              cl_servers = (if c2 \<noteq> [] then parseServers c2 else []),
              cl_leaders = (if c3 \<noteq> [] then parseServers c3 else [])\<rparr>))))))"

section \<open>Reading a set\<close>

record csv_reader =
  cr_file :: string
  currentSetNo :: int
  currentTransactionSet :: TransactionSet
  nextTransactionSet :: TransactionSet

definition empty_set :: TransactionSet where
  "empty_set = \<lparr>ts_set_no = 0, ts_transactions = [], ts_servers = [], ts_leaders = [], ts_disconnected = []\<rparr>"

definition CSVReader :: "string option \<Rightarrow> cpp_exn + csv_reader" where
  "CSVReader file =
     (case file of
        None \<Rightarrow> Inl RuntimeError
      | Some s \<Rightarrow> Inr \<lparr>cr_file = s, currentSetNo = 0, currentTransactionSet = empty_set, nextTransactionSet = empty_set\<rparr>)"

definition start_row :: "CSVLine \<Rightarrow> TransactionSet \<Rightarrow> TransactionSet" where
  "start_row l t = t\<lparr>ts_transactions := ts_transactions t @ [cl_transaction l],
     ts_servers := cl_servers l, ts_leaders := cl_leaders l\<rparr>"

definition more_row :: "CSVLine \<Rightarrow> TransactionSet \<Rightarrow> TransactionSet" where
  "more_row l t = t\<lparr>ts_transactions := ts_transactions t @ [cl_transaction l]\<rparr>"

function read_rows :: "csv_reader \<Rightarrow> cpp_exn option \<times> csv_reader" where
  "read_rows r =
     (if cr_file r = [] then (None, r)
      else let line = stripLineEndings (line_of (cr_file r)); r = r\<lparr>cr_file := after_line (cr_file r)\<rparr>
      in case parseCSVLine line of
           Inl e \<Rightarrow> (Some e, r)
         | Inr l \<Rightarrow>
             if cl_set_no l = currentSetNo r
             then read_rows (r\<lparr>currentTransactionSet := start_row l (currentTransactionSet r)\<rparr>)
             else if cl_set_no l = currentSetNo r + 1
             then (None, r\<lparr>nextTransactionSet := start_row l (nextTransactionSet r)\<rparr>)
             else read_rows (r\<lparr>currentTransactionSet := more_row l (currentTransactionSet r)\<rparr>))"
  by pat_completeness auto

termination
  by (relation "measure (\<lambda>r. length (cr_file r))") (auto simp: after_line_shrinks)

declare read_rows.simps [simp del]

definition swap_sets :: "csv_reader \<Rightarrow> csv_reader" where
  "swap_sets r = (let c = currentTransactionSet r; n = nextTransactionSet r in
     r\<lparr>currentSetNo := currentSetNo r + 1,
       currentTransactionSet := c\<lparr>ts_servers := ts_servers n, ts_leaders := ts_leaders n, ts_transactions := ts_transactions n\<rparr>,
       nextTransactionSet := n\<lparr>ts_servers := [], ts_leaders := ts_leaders c, ts_transactions := []\<rparr>\<rparr>)"

text \<open>The result, the reader and the set the caller passed by reference.\<close>

definition readNextSet :: "config \<Rightarrow> csv_reader \<Rightarrow> TransactionSet
    \<Rightarrow> (cpp_exn + int) \<times> csv_reader \<times> TransactionSet" where
  "readNextSet cf r0 t =
     (case read_rows (swap_sets r0) of
        (Some e, r) \<Rightarrow> (Inl e, r, t)
      | (None, r) \<Rightarrow>
          let c = currentTransactionSet r in
          if ts_transactions c = [] then (Inr 0, r, t)
          else (Inr (int (length (ts_transactions c))), r,
                \<lparr>ts_set_no = currentSetNo r, ts_transactions = ts_transactions c, ts_servers = ts_servers c,
                 ts_leaders = ts_leaders c,
                 ts_disconnected = filter (\<lambda>s. s \<notin> set (ts_servers c)) (map fst (server_ids cf))\<rparr>))"

section \<open>Files in the documented format\<close>

text \<open>
  A set of a workload: its transactions, the servers that are up and the leaders.  The first
  row of a set carries its number and the two lists, the other rows only a transaction.
\<close>

type_synonym workload_set = "transaction list \<times> string list \<times> string list"

fun commas :: "string list \<Rightarrow> string" where
  "commas [] = []"
| "commas [x] = x"
| "commas (x # xs) = x @ '', '' @ commas xs"

definition quoted :: "string \<Rightarrow> string" where
  "quoted s = quote # s @ [quote]"

definition csv_txn :: "transaction \<Rightarrow> string" where
  "csv_txn t = ''('' @ commas [to_string (sender t), to_string (receiver t), to_string (amount t)] @ '')''"

definition csv_names :: "string list \<Rightarrow> string" where
  "csv_names ns = ''['' @ commas ns @ '']''"

definition csv_first :: "int \<Rightarrow> transaction \<Rightarrow> string list \<Rightarrow> string list \<Rightarrow> string" where
  "csv_first k t sv ld = to_string k @ '','' @ quoted (csv_txn t) @ '','' @ quoted (csv_names sv) @ '','' @ quoted (csv_names ld)"

definition csv_more :: "transaction \<Rightarrow> string" where
  "csv_more t = '','' @ quoted (csv_txn t) @ '',,''"

fun csv_text :: "int \<Rightarrow> workload_set list \<Rightarrow> string" where
  "csv_text k [] = []"
| "csv_text k ((ts, sv, ld) # ws) = csv_first k (hd ts) sv ld @ [newline]
     @ concat (map (\<lambda>t. csv_more t @ [newline]) (tl ts)) @ csv_text (k + 1) ws"

definition name_ok :: "string \<Rightarrow> bool" where
  "name_ok n \<longleftrightarrow> (\<forall>c \<in> set n. \<not> strips c \<and> c \<noteq> quote \<and> c \<noteq> CHR '','' \<and> c \<noteq> CHR ''['' \<and> c \<noteq> CHR '']'')"

definition txn_ok :: "transaction \<Rightarrow> bool" where
  "txn_ok t \<longleftrightarrow> is_int32 (sender t) \<and> is_int32 (receiver t) \<and> is_int32 (amount t)"

definition set_ok :: "workload_set \<Rightarrow> bool" where
  "set_ok w = (case w of (ts, sv, ld) \<Rightarrow> ts \<noteq> [] \<and> sv \<noteq> [] \<and> ld \<noteq> []
     \<and> (\<forall>t \<in> set ts. txn_ok t) \<and> (\<forall>n \<in> set sv. name_ok n) \<and> (\<forall>n \<in> set ld. name_ok n))"

text \<open>Calling \<open>readNextSet\<close> a number of times, with the set of each successful call.\<close>

fun read_sets :: "config \<Rightarrow> nat \<Rightarrow> csv_reader \<Rightarrow> TransactionSet \<Rightarrow> (cpp_exn + TransactionSet option) list" where
  "read_sets cf 0 r t = []"
| "read_sets cf (Suc n) r t =
     (case readNextSet cf r t of
        (Inl e, r', t') \<Rightarrow> Inl e # read_sets cf n r' t'
      | (Inr k, r', t') \<Rightarrow> Inr (if k = 0 then None else Some t') # read_sets cf n r' t')"

definition set_of :: "config \<Rightarrow> int \<Rightarrow> workload_set \<Rightarrow> TransactionSet" where
  "set_of cf k w = (case w of (ts, sv, ld) \<Rightarrow>
     \<lparr>ts_set_no = k, ts_transactions = ts, ts_servers = sv, ts_leaders = ld,
      ts_disconnected = filter (\<lambda>s. s \<notin> set sv) (map fst (server_ids cf))\<rparr>)"

section \<open>A row is read back\<close>

lemma split_loop_word:
  "(\<forall>c \<in> set w. \<not> skip c \<and> c \<noteq> CHR '','') \<Longrightarrow> split_loop skip f fs (w @ s) = split_loop skip (f @ w) fs s"
  by (induction w arbitrary: f) simp_all

lemma column_loop_word:
  "(\<forall>c \<in> set w. c \<noteq> quote \<and> (c = CHR '','' \<longrightarrow> q)) \<Longrightarrow> column_loop q col cols (w @ s) = column_loop q (col @ w) cols s"
  by (induction w arbitrary: col) auto

definition commas' :: "string list \<Rightarrow> string" where
  "commas' xs = stripLineEndings (commas xs)"

lemma strip_append [simp]: "stripLineEndings (xs @ ys) = stripLineEndings xs @ stripLineEndings ys"
  by (simp add: stripLineEndings_def)

lemma strip_clean: "(\<forall>c \<in> set w. \<not> strips c) \<Longrightarrow> stripLineEndings w = w"
  by (simp add: stripLineEndings_def)

lemma commas'_simps:
  "\<forall>n \<in> set ns. \<forall>c \<in> set n. \<not> strips c \<Longrightarrow> commas' ns = concat (case ns of [] \<Rightarrow> [] | x # xs \<Rightarrow> x # map (\<lambda>y. CHR '','' # y) xs)"
proof (induction ns rule: commas.induct)
  case (3 x y ys)
  have "stripLineEndings ('', '' @ s) = CHR '','' # stripLineEndings s" for s
    by (simp add: stripLineEndings_def strips_def newline_def)
  with 3 show ?case by (simp add: commas'_def strip_clean)
qed (simp_all add: commas'_def strip_clean)

lemma split_commas':
  assumes "ns \<noteq> []" and "\<forall>n \<in> set ns. \<forall>c \<in> set n. \<not> strips c \<and> \<not> skip c \<and> c \<noteq> CHR '',''" and "\<not> skip (CHR '','')"
    and "skip z"
  shows "split_loop skip [] [] (commas' ns @ [z]) = ns"
proof -
  have more: "split_loop skip f fs (concat (map (\<lambda>y. CHR '','' # y) xs) @ [z]) = fs @ f # xs"
    if "\<forall>n \<in> set xs. \<forall>c \<in> set n. \<not> strips c \<and> \<not> skip c \<and> c \<noteq> CHR '',''" for f fs xs
    using that assms(3,4) by (induction xs arbitrary: f fs) (simp_all add: split_loop_word)
  obtain x xs where "ns = x # xs" using assms(1) by (cases ns) auto
  with assms(2) more [of xs] show ?thesis by (simp add: commas'_simps split_loop_word)
qed

lemma to_string_clean:
  "c \<in> set (to_string i) \<Longrightarrow> \<not> strips c \<and> c \<noteq> quote \<and> c \<noteq> CHR '','' \<and> c \<noteq> CHR ''('' \<and> c \<noteq> CHR '')'' \<and> c \<noteq> CHR '' ''"
  using to_string_chars [of c i] by (auto simp: is_digit_def strips_def newline_def quote_def)

lemma parseTransaction_row: "txn_ok t \<Longrightarrow> parseTransaction (stripLineEndings (csv_txn t)) = Inr t"
proof -
  let ?ns = "[to_string (sender t), to_string (receiver t), to_string (amount t)]"
  let ?skip = "\<lambda>c. c = CHR ''('' \<or> c = CHR '')'' \<or> c = CHR '' ''"
  assume "txn_ok t"
  have strip: "stripLineEndings (csv_txn t) = CHR ''('' # commas' ?ns @ [CHR '')'']"
    by (simp add: csv_txn_def commas'_def) (simp add: stripLineEndings_def strips_def newline_def)
  have "split_loop ?skip [] [] (commas' ?ns @ [CHR '')'']) = ?ns"
    by (rule split_commas') (use to_string_clean in auto)
  then have "split_loop ?skip [] [] (stripLineEndings (csv_txn t)) = ?ns" unfolding strip by simp
  with \<open>txn_ok t\<close> show ?thesis by (simp add: parseTransaction_def Let_def at_def txn_ok_def stoi_to_string)
qed

lemma parseServers_row:
  assumes "ns \<noteq> []" and "\<forall>n \<in> set ns. name_ok n"
  shows "parseServers (stripLineEndings (csv_names ns)) = ns"
proof -
  let ?skip = "\<lambda>c. c = CHR ''['' \<or> c = CHR '']'' \<or> c = CHR '' ''"
  have strip: "stripLineEndings (csv_names ns) = CHR ''['' # commas' ns @ [CHR '']'']"
    by (simp add: csv_names_def commas'_def) (simp add: stripLineEndings_def strips_def newline_def)
  have "split_loop ?skip [] [] (commas' ns @ [CHR '']'']) = ns"
    by (rule split_commas') (use assms in \<open>auto simp: name_ok_def strips_def\<close>)
  then show ?thesis unfolding strip parseServers_def by simp
qed

lemma commas_chars: "c \<in> set (commas ns) \<Longrightarrow> c \<in> {CHR '','', CHR '' ''} \<union> (\<Union>n \<in> set ns. set n)"
  by (induction ns rule: commas.induct) auto

lemma strip_subset: "c \<in> set (stripLineEndings s) \<Longrightarrow> c \<in> set s"
  by (simp add: stripLineEndings_def)

lemma csv_txn_chars: "c \<in> set (csv_txn t) \<Longrightarrow> c \<noteq> quote \<and> c \<noteq> newline"
  using to_string_clean by (auto simp: csv_txn_def quote_def newline_def strips_def)

lemma csv_names_chars: "\<forall>n \<in> set ns. name_ok n \<Longrightarrow> c \<in> set (csv_names ns) \<Longrightarrow> c \<noteq> quote \<and> c \<noteq> newline"
  by (auto simp: csv_names_def name_ok_def quote_def newline_def strips_def dest!: commas_chars)

lemma column_loop_quoted:
  "\<forall>c \<in> set w. c \<noteq> quote \<Longrightarrow> column_loop False [] cols (stripLineEndings (quoted w) @ s) = column_loop False (stripLineEndings w) cols s"
proof -
  assume "\<forall>c \<in> set w. c \<noteq> quote"
  then have "\<forall>c \<in> set (stripLineEndings w). c \<noteq> quote" using strip_subset by blast
  then have "column_loop True [] cols (stripLineEndings w @ quote # s) = column_loop False (stripLineEndings w) cols s"
    by (simp add: column_loop_word)
  moreover have "\<not> strips quote" by (simp add: strips_def quote_def newline_def)
  ultimately show ?thesis by (simp add: quoted_def stripLineEndings_def)
qed

lemma strip_comma [simp]: "stripLineEndings (CHR '','' # s) = CHR '','' # stripLineEndings s"
  by (simp add: stripLineEndings_def strips_def newline_def)

lemma comma_not_quote [simp]: "CHR '','' \<noteq> quote" by (simp add: quote_def)

lemma parse_more:
  "txn_ok t \<Longrightarrow> parseCSVLine (stripLineEndings (csv_more t)) = Inr \<lparr>cl_set_no = -1, cl_transaction = t, cl_servers = [], cl_leaders = []\<rparr>"
  using csv_txn_chars
  by (simp add: parseCSVLine_def Let_def csv_more_def column_loop_quoted at_def parseTransaction_row numeral_nat
      stripLineEndings_def [of "[]"])

lemma parse_first:
  assumes "is_int32 k" "txn_ok t" "sv \<noteq> []" "ld \<noteq> []" "\<forall>n \<in> set sv. name_ok n" "\<forall>n \<in> set ld. name_ok n"
  shows "parseCSVLine (stripLineEndings (csv_first k t sv ld)) = Inr \<lparr>cl_set_no = k, cl_transaction = t, cl_servers = sv, cl_leaders = ld\<rparr>"
proof -
  have k: "stripLineEndings (to_string k) = to_string k" using to_string_clean by (simp add: strip_clean)
  have col: "column_loop False [] [] (to_string k @ s) = column_loop False (to_string k) [] s" for s
    using to_string_clean by (subst column_loop_word) auto
  have ne: "stripLineEndings (csv_names ns) \<noteq> []" for ns
    by (simp add: csv_names_def) (simp add: stripLineEndings_def strips_def newline_def)
  have last: "column_loop False [] cols (stripLineEndings (quoted (csv_names ld))) = cols @ [stripLineEndings (csv_names ld)]" for cols
    using column_loop_quoted [of "csv_names ld" cols "[]"] csv_names_chars [OF assms(6)] by simp
  have "column_loop False [] [] (stripLineEndings (csv_first k t sv ld)) =
      [to_string k, stripLineEndings (csv_txn t), stripLineEndings (csv_names sv), stripLineEndings (csv_names ld)]"
    using csv_txn_chars csv_names_chars [OF assms(5)]
    by (simp add: csv_first_def k col column_loop_quoted last)
  then show ?thesis
    using assms ne by (simp add: parseCSVLine_def Let_def at_def numeral_nat stoi_to_string parseTransaction_row parseServers_row)
qed

lemma row_no_newline:
  "newline \<notin> set (csv_more t)"
  "\<forall>n \<in> set sv. name_ok n \<Longrightarrow> \<forall>n \<in> set ld. name_ok n \<Longrightarrow> newline \<notin> set (csv_first k t sv ld)"
  using csv_txn_chars [of newline t] csv_names_chars [of sv newline] csv_names_chars [of ld newline]
  by (auto simp: csv_more_def csv_first_def quoted_def quote_def newline_def to_string_no_newline [unfolded newline_def])

section \<open>Sets are read back\<close>

lemma reader_updates [simp]:
  "r\<lparr>currentTransactionSet := c, cr_file := s\<rparr> = r\<lparr>cr_file := s, currentTransactionSet := c\<rparr>"
  "r\<lparr>nextTransactionSet := c, cr_file := s\<rparr> = r\<lparr>cr_file := s, nextTransactionSet := c\<rparr>"
  by (cases r; simp)+

lemma reader_eta: "cr_file r = s \<Longrightarrow> r\<lparr>cr_file := s\<rparr> = r"
  by (cases r) simp

lemma read_rows_line:
  assumes "newline \<notin> set l" and "parseCSVLine (stripLineEndings l) = Inr row"
  shows "read_rows (r\<lparr>cr_file := l @ newline # s\<rparr>) =
    (if cl_set_no row = currentSetNo r
     then read_rows (r\<lparr>cr_file := s, currentTransactionSet := start_row row (currentTransactionSet r)\<rparr>)
     else if cl_set_no row = currentSetNo r + 1
     then (None, r\<lparr>cr_file := s, nextTransactionSet := start_row row (nextTransactionSet r)\<rparr>)
     else read_rows (r\<lparr>cr_file := s, currentTransactionSet := more_row row (currentTransactionSet r)\<rparr>))"
  using assms by (subst read_rows.simps) (simp add: text_simps Let_def)

definition add_txns :: "transaction list \<Rightarrow> TransactionSet \<Rightarrow> TransactionSet" where
  "add_txns ts t = t\<lparr>ts_transactions := ts_transactions t @ ts\<rparr>"

lemma read_rows_more:
  assumes "\<forall>t \<in> set ts. txn_ok t" and "0 \<le> currentSetNo r"
  shows "read_rows (r\<lparr>cr_file := concat (map (\<lambda>t. csv_more t @ [newline]) ts) @ s\<rparr>) =
    read_rows (r\<lparr>cr_file := s, currentTransactionSet := add_txns ts (currentTransactionSet r)\<rparr>)"
  using assms
proof (induction ts arbitrary: r)
  case Nil
  then show ?case by (simp add: add_txns_def)
next
  case (Cons t ts)
  let ?r = "r\<lparr>currentTransactionSet := add_txns [t] (currentTransactionSet r)\<rparr>"
  let ?rest = "concat (map (\<lambda>t. csv_more t @ [newline]) ts) @ s"
  have t: "txn_ok t" and r: "\<forall>t \<in> set ts. txn_ok t" "0 \<le> currentSetNo ?r" using Cons.prems by simp_all
  have "read_rows (r\<lparr>cr_file := csv_more t @ newline # ?rest\<rparr>) = read_rows (?r\<lparr>cr_file := ?rest\<rparr>)"
    using Cons.prems(2) by (simp add: read_rows_line [OF row_no_newline(1) parse_more [OF t]] more_row_def add_txns_def)
  then show ?case using Cons.IH [OF r] by (simp add: add_txns_def)
qed

text \<open>
  Between two calls: the rest of the text, with the first row of the next set already read
  into \<open>nextTransactionSet\<close> unless no set was read yet.
\<close>

fun ahead :: "int \<Rightarrow> workload_set list \<Rightarrow> csv_reader \<Rightarrow> bool" where
  "ahead k [] r \<longleftrightarrow> cr_file r = [] \<and> ts_transactions (nextTransactionSet r) = []"
| "ahead k ((ts, sv, ld) # ws) r \<longleftrightarrow>
     cr_file r = concat (map (\<lambda>t. csv_more t @ [newline]) (tl ts)) @ csv_text (k + 2) ws
     \<and> ts_transactions (nextTransactionSet r) = [hd ts] \<and> ts_servers (nextTransactionSet r) = sv
     \<and> ts_leaders (nextTransactionSet r) = ld"

definition before :: "int \<Rightarrow> workload_set list \<Rightarrow> csv_reader \<Rightarrow> bool" where
  "before k ws r \<longleftrightarrow> currentSetNo r = k \<and> (ahead k ws r
     \<or> cr_file r = csv_text (k + 1) ws \<and> ts_transactions (nextTransactionSet r) = [])"

lemma read_rows_Nil: "cr_file r = [] \<Longrightarrow> read_rows r = (None, r)"
  by (subst read_rows.simps) simp

lemma read_first_row:
  assumes "set_ok (ts, sv, ld)" and "is_int32 k" and "currentSetNo r + 1 = k" and "cr_file r = csv_text k ((ts, sv, ld) # ws)"
    and "ts_transactions (nextTransactionSet r) = []"
  shows "read_rows r = (None, r\<lparr>cr_file := concat (map (\<lambda>t. csv_more t @ [newline]) (tl ts)) @ csv_text (k + 1) ws,
    nextTransactionSet := (nextTransactionSet r)\<lparr>ts_transactions := [hd ts], ts_servers := sv, ts_leaders := ld\<rparr>\<rparr>)"
proof -
  let ?s = "concat (map (\<lambda>t. csv_more t @ [newline]) (tl ts)) @ csv_text (k + 1) ws"
  let ?row = "\<lparr>cl_set_no = k, cl_transaction = hd ts, cl_servers = sv, cl_leaders = ld\<rparr>"
  have ok: "newline \<notin> set (csv_first k (hd ts) sv ld)" "parseCSVLine (stripLineEndings (csv_first k (hd ts) sv ld)) = Inr ?row"
    using assms(1,2) by (simp_all add: set_ok_def row_no_newline(2) parse_first)
  have "read_rows r = read_rows (r\<lparr>cr_file := csv_first k (hd ts) sv ld @ newline # ?s\<rparr>)"
    by (subst reader_eta) (simp_all add: assms(4))
  also have "\<dots> = (None, r\<lparr>cr_file := ?s, nextTransactionSet := start_row ?row (nextTransactionSet r)\<rparr>)"
    using assms(3) by (subst read_rows_line [OF ok]) auto
  finally show ?thesis using assms(5) by (simp add: start_row_def)
qed

lemma read_rest:
  assumes "set_ok (ts, sv, ld)" and "\<forall>w \<in> set ws. set_ok w" and "0 \<le> currentSetNo r" and "is_int32 (currentSetNo r + 1)"
    and "cr_file r = concat (map (\<lambda>t. csv_more t @ [newline]) (tl ts)) @ csv_text (currentSetNo r + 1) ws"
    and "ts_transactions (currentTransactionSet r) = [hd ts]" and "ts_transactions (nextTransactionSet r) = []"
  shows "\<exists>r'. read_rows r = (None, r') \<and> before (currentSetNo r) ws r'
    \<and> currentTransactionSet r' = (currentTransactionSet r)\<lparr>ts_transactions := ts\<rparr>"
proof -
  let ?r = "r\<lparr>cr_file := csv_text (currentSetNo r + 1) ws, currentTransactionSet := add_txns (tl ts) (currentTransactionSet r)\<rparr>"
  have all: "ts = hd ts # tl ts" using assms(1) by (simp add: set_ok_def)
  have "\<forall>t \<in> set (tl ts). txn_ok t" using assms(1) by (simp add: set_ok_def) (meson list.set_sel(2))
  then have "read_rows r = read_rows ?r"
    using read_rows_more [of "tl ts" r "csv_text (currentSetNo r + 1) ws"] reader_eta [OF assms(5)] assms(3) by simp
  moreover have cur: "currentTransactionSet ?r = (currentTransactionSet r)\<lparr>ts_transactions := ts\<rparr>"
    using all assms(6) by (simp add: add_txns_def)
  ultimately show ?thesis
  proof (cases ws)
    case Nil
    then show ?thesis using \<open>read_rows r = read_rows ?r\<close> cur assms(7) by (simp add: read_rows_Nil before_def)
  next
    case (Cons w ws')
    obtain ts' sv' ld' where w: "w = (ts', sv', ld')" by (cases w)
    have "read_rows ?r = (None, ?r\<lparr>cr_file := concat (map (\<lambda>t. csv_more t @ [newline]) (tl ts')) @ csv_text (currentSetNo r + 2) ws',
      nextTransactionSet := (nextTransactionSet r)\<lparr>ts_transactions := [hd ts'], ts_servers := sv', ts_leaders := ld'\<rparr>\<rparr>)"
      using read_first_row [of ts' sv' ld' "currentSetNo r + 1" ?r ws'] assms(2,4,7) Cons w by (simp add: add.assoc)
    then show ?thesis using \<open>read_rows r = read_rows ?r\<close> cur by (simp add: before_def Cons w)
  qed
qed

lemma read_set_before:
  assumes "before k ((ts, sv, ld) # ws) r" and "0 \<le> k" and "is_int32 (k + 1)" and "is_int32 (k + 2)"
    and "set_ok (ts, sv, ld)" and "\<forall>w \<in> set ws. set_ok w"
  shows "\<exists>r'. readNextSet cf r t = (Inr (int (length ts)), r', set_of cf (k + 1) (ts, sv, ld)) \<and> before (k + 1) ws r'"
proof -
  let ?w = "(ts, sv, ld)"
  define r1 where "r1 = swap_sets r"
  have r1: "currentSetNo r1 = k + 1" "ts_transactions (nextTransactionSet r1) = []" "cr_file r1 = cr_file r"
    "ts_transactions (currentTransactionSet r1) = ts_transactions (nextTransactionSet r)"
    "ts_servers (currentTransactionSet r1) = ts_servers (nextTransactionSet r)"
    "ts_leaders (currentTransactionSet r1) = ts_leaders (nextTransactionSet r)"
    using assms(1) by (simp_all add: r1_def swap_sets_def Let_def before_def)
  have "\<exists>r2. read_rows r1 = read_rows r2 \<and> currentSetNo r2 = k + 1
      \<and> cr_file r2 = concat (map (\<lambda>t. csv_more t @ [newline]) (tl ts)) @ csv_text (currentSetNo r2 + 1) ws
      \<and> ts_transactions (currentTransactionSet r2) = [hd ts] \<and> ts_servers (currentTransactionSet r2) = sv
      \<and> ts_leaders (currentTransactionSet r2) = ld \<and> ts_transactions (nextTransactionSet r2) = []"
  proof (cases "ahead k (?w # ws) r")
    case True
    then show ?thesis using r1 by (intro exI [of _ r1]) (simp add: add.assoc)
  next
    case False
    let ?s = "concat (map (\<lambda>t. csv_more t @ [newline]) (tl ts)) @ csv_text (k + 2) ws"
    let ?row = "\<lparr>cl_set_no = k + 1, cl_transaction = hd ts, cl_servers = sv, cl_leaders = ld\<rparr>"
    from False assms(1) have f: "cr_file r1 = csv_first (k + 1) (hd ts) sv ld @ newline # ?s" "ts_transactions (nextTransactionSet r) = []"
      unfolding before_def r1(3) by (simp_all add: add.assoc del: ahead.simps)
    have ok: "newline \<notin> set (csv_first (k + 1) (hd ts) sv ld)" "parseCSVLine (stripLineEndings (csv_first (k + 1) (hd ts) sv ld)) = Inr ?row"
      using assms(3,5) by (simp_all add: set_ok_def row_no_newline(2) parse_first)
    have "read_rows r1 = read_rows (r1\<lparr>cr_file := csv_first (k + 1) (hd ts) sv ld @ newline # ?s\<rparr>)"
      by (subst reader_eta) (simp_all add: f)
    also have "\<dots> = read_rows (r1\<lparr>cr_file := ?s, currentTransactionSet := start_row ?row (currentTransactionSet r1)\<rparr>)"
      using r1(1) by (subst read_rows_line [OF ok]) simp
    finally show ?thesis
      using r1 f(2) by (intro exI conjI) (assumption, simp_all add: start_row_def add.assoc)
  qed
  then obtain r2 where r2: "read_rows r1 = read_rows r2" "currentSetNo r2 = k + 1"
      "cr_file r2 = concat (map (\<lambda>t. csv_more t @ [newline]) (tl ts)) @ csv_text (currentSetNo r2 + 1) ws"
      "ts_transactions (currentTransactionSet r2) = [hd ts]" "ts_servers (currentTransactionSet r2) = sv"
      "ts_leaders (currentTransactionSet r2) = ld" "ts_transactions (nextTransactionSet r2) = []" by blast
  then obtain r3 where r3: "read_rows r1 = (None, r3)" "before (k + 1) ws r3"
      "currentTransactionSet r3 = (currentTransactionSet r2)\<lparr>ts_transactions := ts\<rparr>"
    using read_rest [OF assms(5,6), of r2] assms(2,4) by (auto simp: add.assoc)
  moreover have "currentSetNo r3 = k + 1" using r3(2) by (simp add: before_def)
  moreover have "ts \<noteq> []" using assms(5) by (simp add: set_ok_def)
  ultimately show ?thesis
    using r2(5,6) by (simp add: readNextSet_def r1_def [symmetric] Let_def set_of_def)
qed

lemma read_sets_before:
  assumes "before k ws r" and "0 \<le> k" and "k + int (length ws) < int_max" and "\<forall>w \<in> set ws. set_ok w"
  shows "read_sets cf (length ws + 1) r t = map (\<lambda>i. Inr (Some (set_of cf (k + int i + 1) (ws ! i)))) [0..<length ws] @ [Inr None]"
  using assms
proof (induction ws arbitrary: k r t)
  case Nil
  then have r: "cr_file (swap_sets r) = []" "ts_transactions (currentTransactionSet (swap_sets r)) = []"
    by (simp_all add: before_def swap_sets_def Let_def)
  then show ?case by (simp add: readNextSet_def read_rows_Nil)
next
  case (Cons w ws)
  obtain ts sv ld where w: "w = (ts, sv, ld)" by (cases w)
  have "is_int32 (k + 1)" "is_int32 (k + 2)" using Cons.prems(2,3) by (simp_all add: is_int32_def int_range_defs)
  then obtain r' where r': "readNextSet cf r t = (Inr (int (length ts)), r', set_of cf (k + 1) w)" "before (k + 1) ws r'"
    using read_set_before [of k ts sv ld ws r] Cons.prems w by (metis list.set_intros)
  have "ts \<noteq> []" using Cons.prems(4) w by (simp add: set_ok_def)
  moreover have eqn: "map (\<lambda>i. Inr (Some (set_of cf (k + int i + 1) ((w # ws) ! i)))) [0..<length (w # ws)]
    = Inr (Some (set_of cf (k + 1) w)) # map (\<lambda>i. Inr (Some (set_of cf (k + 1 + int i + 1) (ws ! i)))) [0..<length ws]"
    by (simp add: upt_conv_Cons map_Suc_upt [symmetric] ac_simps del: upt_Suc)
  moreover have "read_sets cf (length (w # ws) + 1) r t = Inr (Some (set_of cf (k + 1) w)) # read_sets cf (length ws + 1) r' (set_of cf (k + 1) w)"
    using r'(1) calculation(1) by simp
  ultimately show ?case
    unfolding eqn using Cons.IH [OF r'(2)] Cons.prems(2-4) by (simp del: read_sets.simps)
qed

section \<open>Commands\<close>

text \<open>\<open>regex_match\<close> asks that the whole command matches.\<close>

definition is_number_pattern :: "string \<Rightarrow> bool" where
  "is_number_pattern s \<longleftrightarrow> s \<noteq> [] \<and> (\<forall>c \<in> set s. is_digit c) \<and> hd s \<noteq> CHR ''0''"

definition isValidCommand :: "string \<Rightarrow> bool" where
  "isValidCommand s \<longleftrightarrow> s = ''processNextSet''
     \<or> take 13 s = ''printBalance '' \<and> is_number_pattern (drop 13 s)
     \<or> s = ''printDatastore'' \<or> s = ''printPerformance'' \<or> s = ''exit''"

function token_loop :: "istream \<Rightarrow> string \<Rightarrow> string list \<Rightarrow> string list" where
  "token_loop is token tokens =
     (let (token', is') = extract_string token is
      in if good is' then token_loop is' token' (tokens @ [token']) else tokens)"
  by pat_completeness auto

termination
  by (relation "measure (\<lambda>(is, t, ts). length (unread is))") (simp_all, metis extract_string_shrinks snd_conv)

declare token_loop.simps [simp del]

definition tokenizeCommand :: "string \<Rightarrow> string list" where
  "tokenizeCommand command = token_loop (open_stream command) [] []"

definition parseCommand :: "string \<Rightarrow> cpp_exn + AppCommand" where
  "parseCommand command =
     (if \<not> isValidCommand command then Inl InvalidArgument
      else let tokens = tokenizeCommand command
      in ebind (at tokens 0) (\<lambda>t0.
         if t0 = ''processNextSet'' then Inr \<lparr>ac_command = PROCESS_NEXT_SET, ac_client_id = -1\<rparr>
         else if t0 = ''printBalance''
         then ebind (ebind (at tokens 1) stoi) (\<lambda>i. Inr \<lparr>ac_command = PRINT_BALANCE, ac_client_id = i\<rparr>)
         else if t0 = ''printDatastore'' then Inr \<lparr>ac_command = PRINT_DATASTORE, ac_client_id = -1\<rparr>
         else if t0 = ''printPerformance'' then Inr \<lparr>ac_command = PRINT_PERFORMANCE, ac_client_id = -1\<rparr>
         else Inr \<lparr>ac_command = EXIT, ac_client_id = -1\<rparr>))"

lemma extract_string_blank:
  "extract_string old \<lparr>unread = CHR '' '' # s, good = g\<rparr> = extract_string old \<lparr>unread = s, good = g\<rparr>"
  by (simp add: extract_string_def skip_ws_def text_simps)

lemma token_loop_word:
  assumes "w \<noteq> []" and "\<And>c. c \<in> set w \<Longrightarrow> \<not> is_space c" and "rest = [] \<or> is_space (hd rest)"
  shows "token_loop \<lparr>unread = w @ rest, good = True\<rparr> t ts = token_loop \<lparr>unread = rest, good = True\<rparr> w (ts @ [w])"
  by (subst token_loop.simps) (simp add: extract_string_word [OF assms])

lemma token_loop_end: "token_loop \<lparr>unread = [], good = True\<rparr> t ts = ts"
  by (subst token_loop.simps) (simp add: extract_string_def skip_ws_def)

lemma tokenize_balance: "tokenizeCommand (''printBalance '' @ to_string n) = [''printBalance'', to_string n]"
proof -
  have 1: "token_loop \<lparr>unread = ''printBalance'' @ CHR '' '' # to_string n, good = True\<rparr> [] [] =
      token_loop \<lparr>unread = CHR '' '' # to_string n, good = True\<rparr> ''printBalance'' ([] @ [''printBalance''])"
    by (rule token_loop_word) (auto simp: is_space_def)
  have "token_loop \<lparr>unread = CHR '' '' # to_string n, good = True\<rparr> t ts = token_loop \<lparr>unread = to_string n @ [], good = True\<rparr> t ts" for t ts
    by (subst (1 2) token_loop.simps) (simp only: extract_string_blank append_Nil2)
  moreover have "token_loop \<lparr>unread = to_string n @ [], good = True\<rparr> t ts = ts @ [to_string n]" for t ts
    by (subst token_loop_word) (use to_string_no_space in \<open>auto simp: token_loop_end\<close>)
  ultimately show ?thesis using 1 by (simp add: tokenizeCommand_def open_stream_def)
qed

lemma show_nat_hd: "0 < n \<Longrightarrow> hd (show_nat n) \<noteq> CHR ''0''"
proof (induction n rule: show_nat.induct)
  case (1 n)
  show ?case
  proof (cases "n < 10")
    case True
    then have "n \<in> {1, 2, 3, 4, 5, 6, 7, 8, 9}" using 1(2) by auto
    with True show ?thesis by (auto simp: show_nat.simps [of n] digit_char_def)
  next
    case False
    then show ?thesis using 1 by (simp add: show_nat.simps [of n])
  qed
qed

lemma parse_balance_command:
  assumes "0 < n"
  shows "parseCommand (''printBalance '' @ to_string n) =
    (if n \<le> int_max then Inr \<lparr>ac_command = PRINT_BALANCE, ac_client_id = n\<rparr> else Inl OutOfRange)"
proof -
  have "is_number_pattern (to_string n)"
    using assms show_nat_digits show_nat_hd [of "nat n"] by (simp add: is_number_pattern_def to_string_def)
  then have "isValidCommand (''printBalance '' @ to_string n)" by (simp add: isValidCommand_def)
  moreover have "is_int32 n \<longleftrightarrow> n \<le> int_max" using assms by (auto simp: is_int32_def int_range_defs)
  ultimately show ?thesis
    using stoi_to_string [of n] stoi_to_string_out_of_range [of n]
    unfolding parseCommand_def tokenize_balance by (auto simp: at_def Let_def)
qed

text \<open>C28. A workload file is read back.  For a file that lists any number of sets in the
  documented format, numbered from 1, successive calls of \<open>readNextSet\<close> return the sets
  one by one with their transactions, servers and leaders in order, mark as disconnected every
  known server that is not listed, and then report the end of the file.\<close>

theorem workload_roundtrip:
  assumes "\<forall>w \<in> set ws. set_ok w" and "int (length ws) < int_max"
  shows "\<exists>r. CSVReader (Some (csv_text 1 ws)) = Inr r
    \<and> read_sets cf (length ws + 1) r t = map (\<lambda>i. Inr (Some (set_of cf (int i + 1) (ws ! i)))) [0..<length ws] @ [Inr None]"
proof -
  have "read_sets cf (length ws + 1) r t = map (\<lambda>i. Inr (Some (set_of cf (k + int i + 1) (ws ! i)))) [0..<length ws] @ [Inr None]"
    if "before k ws r" "0 \<le> k" "k + int (length ws) < int_max" "\<forall>w \<in> set ws. set_ok w" for k ws r t
    using that by (rule read_sets_before)
  from this [of 0 ws "\<lparr>cr_file = csv_text 1 ws, currentSetNo = 0, currentTransactionSet = empty_set, nextTransactionSet = empty_set\<rparr>"]
  show ?thesis using assms by (simp add: CSVReader_def before_def empty_set_def)
qed

definition sample_set :: workload_set where
  "sample_set = ([\<lparr>sender = 11, receiver = 1024, amount = 2\<rparr>, \<lparr>sender = 1024, receiver = 11, amount = 2\<rparr>], [''S1'', ''S2''], [''S1'', ''S4''])"

theorem workload_roundtrip_witness:
  "set_ok sample_set \<and>
   (\<exists>r. CSVReader (Some (csv_text 1 [sample_set, sample_set])) = Inr r \<and>
     read_sets initial_config 3 r empty_set =
       [Inr (Some (set_of initial_config 1 sample_set)), Inr (Some (set_of initial_config 2 sample_set)), Inr None])"
proof -
  have ok: "set_ok sample_set"
    by (simp add: set_ok_def sample_set_def txn_ok_def name_ok_def int_type_defs strips_def newline_def quote_def)
  then show ?thesis
    using workload_roundtrip [of "[sample_set, sample_set]" initial_config empty_set]
    by (simp add: int_max_def numeral_3_eq_3 upt_conv_Cons del: csv_text.simps read_sets.simps)
qed

end
