(* ===== verification/Client.thy ===== *)
theory Client
  imports Workload
begin

text \<open>
  The client (\<open>src/client/client.cc\<close>): it routes transfers to leaders, coordinates
  two-phase commit across two clusters, and prints balances, logs and latencies.  RPCs it sends
  are collected in \<open>sent\<close>; a finished RPC comes back as a \<open>ClientCall\<close>.  Indexing a
  vector out of range and calling through a missing stub are undefined behaviour, the value
  \<open>None\<close>.  Output is the text written to the standard output.
\<close>

section \<open>State\<close>

record TpcPrepareRes =
  pr_txn :: transaction
  pr_successes :: int
  pr_failures :: int
  pr_start_ns :: int
  pr_is_cross_shard :: bool

record ClientCall =
  cc_type :: RequestTypes
  cc_is_cross_shard :: bool
  cc_status_ok :: bool
  cc_reply :: TransferRes

datatype rpc =
    RpcDisconnect string "string list" | RpcTransfer string TransferReq | RpcTpcPrepare string TransferReq
  | RpcTpcCommit string int | RpcTpcAbort string int

record client =
  channels :: "(string, string) omap"
  client_stubs :: "string list"
  processing :: "(int, TpcPrepareRes) omap"
  latencies :: "int list"
  intra_latencies :: "int list"
  cross_latencies :: "int list"
  current_is_cross_shard :: bool
  transactions_processed :: int
  wall_start :: int
  wall_end :: int
  wall_started :: bool
  cq_shutdown :: bool
  sent :: "rpc list"

definition Client_new :: "config \<Rightarrow> client" where
  "Client_new cf = \<lparr>channels = map (\<lambda>s. (fst s, case map_of (server_addresses cf) (fst s) of Some a \<Rightarrow> a | None \<Rightarrow> [])) (server_ids cf),
     client_stubs = map fst (server_ids cf), processing = [], latencies = [], intra_latencies = [], cross_latencies = [],
     current_is_cross_shard = False, transactions_processed = 0, wall_start = 0, wall_end = 0, wall_started = False,
     cq_shutdown = False, sent = []\<rparr>"

text \<open>The names \<open>waitForServersReady\<close> warns about, given which channels connect in time.\<close>

definition waitForServersReady :: "(string \<Rightarrow> bool) \<Rightarrow> client \<Rightarrow> string list" where
  "waitForServersReady connects c = filter (\<lambda>n. \<not> connects n) (map fst (channels c))"

definition client_shutdown :: "client \<Rightarrow> client" where
  "client_shutdown c = c\<lparr>cq_shutdown := True\<rparr>"

definition send :: "rpc \<Rightarrow> client \<Rightarrow> client" where
  "send m c = c\<lparr>sent := sent c @ [m]\<rparr>"

definition updateDisconnected :: "string list \<Rightarrow> client \<Rightarrow> client" where
  "updateDisconnected names c = fold (\<lambda>s. send (RpcDisconnect s names)) (client_stubs c) c"

section \<open>Sending transactions\<close>

definition via_stub :: "string \<Rightarrow> rpc \<Rightarrow> client \<Rightarrow> client option" where
  "via_stub name m c = (if name \<in> set (client_stubs c) then Some (send m c) else None)"

definition sendTransfer :: "TransferReq \<Rightarrow> string \<Rightarrow> client \<Rightarrow> client option" where
  "sendTransfer r leader = via_stub leader (RpcTransfer leader r)"

definition tpcPrepare :: "TransferReq \<Rightarrow> string \<Rightarrow> client \<Rightarrow> client option" where
  "tpcPrepare r leader = via_stub leader (RpcTpcPrepare leader r)"

definition decision_targets :: "config \<Rightarrow> int \<Rightarrow> int \<Rightarrow> string list" where
  "decision_targets cf sc rc = map fst (filter (\<lambda>s. getClusterIdFromServerId cf (snd s) = sc
     \<or> getClusterIdFromServerId cf (snd s) = rc) (server_ids cf))"

fun send_all :: "(string \<Rightarrow> rpc) \<Rightarrow> string list \<Rightarrow> client \<Rightarrow> client option" where
  "send_all f [] c = Some c"
| "send_all f (n # ns) c = Option.bind (via_stub n (f n) c) (send_all f ns)"

definition tpcCommit :: "config \<Rightarrow> int \<Rightarrow> int \<Rightarrow> int \<Rightarrow> client \<Rightarrow> client option" where
  "tpcCommit cf tid sc rc = send_all (\<lambda>n. RpcTpcCommit n tid) (decision_targets cf sc rc)"

definition tpcAbort :: "config \<Rightarrow> int \<Rightarrow> int \<Rightarrow> int \<Rightarrow> client \<Rightarrow> client option" where
  "tpcAbort cf tid sc rc = send_all (\<lambda>n. RpcTpcAbort n tid) (decision_targets cf sc rc)"

definition leader_at :: "string list \<Rightarrow> int \<Rightarrow> string option" where
  "leader_at leaders i = (if 0 \<le> i \<and> i < int (length leaders) then Some (leaders ! nat i) else None)"

text \<open>The clocks read for one transaction: the system clock for its tid, the steady clock twice.\<close>

record clocks =
  ck_tid :: int
  ck_wall :: int
  ck_start_ns :: int

definition processTransaction :: "config \<Rightarrow> string list \<Rightarrow> transaction \<Rightarrow> clocks \<Rightarrow> client \<Rightarrow> client option" where
  "processTransaction cf leaders t ck c0 =
     (let sc = getClusterIdFromClientId cf (sender t); rc = getClusterIdFromClientId cf (receiver t)
      in Option.bind (leader_at leaders (sc - 1)) (\<lambda>sl.
         Option.bind (leader_at leaders (rc - 1)) (\<lambda>rl.
         let r = \<lparr>req_txn = t, req_tid = ck_tid ck\<rparr>;
             c = c0\<lparr>current_is_cross_shard := (sc \<noteq> rc)\<rparr>;
             c = (if \<not> wall_started c then c\<lparr>wall_start := ck_wall ck, wall_started := True\<rparr> else c)
         in if sc = rc then sendTransfer r sl c
            else Option.bind (tpcPrepare r sl (c\<lparr>processing := omap_set (ck_tid ck)
                   \<lparr>pr_txn = t, pr_successes = 0, pr_failures = 0, pr_start_ns = ck_start_ns ck, pr_is_cross_shard = True\<rparr>
                   (processing c)\<rparr>)) (tpcPrepare r rl))))"

fun processTransactions :: "config \<Rightarrow> string list \<Rightarrow> (transaction \<times> clocks) list \<Rightarrow> client \<Rightarrow> client option" where
  "processTransactions cf leaders [] c = Some c"
| "processTransactions cf leaders (t # ts) c =
     Option.bind (processTransaction cf leaders (fst t) (snd t) c) (processTransactions cf leaders ts)"

section \<open>Consuming replies\<close>

definition empty_prepare_res :: TpcPrepareRes where
  "empty_prepare_res = \<lparr>pr_txn = \<lparr>sender = 0, receiver = 0, amount = 0\<rparr>, pr_successes = 0, pr_failures = 0,
     pr_start_ns = 0, pr_is_cross_shard = False\<rparr>"

text \<open>\<open>processing[tid]\<close> makes a zeroed entry when there is none.\<close>

definition processing_at :: "int \<Rightarrow> client \<Rightarrow> TpcPrepareRes" where
  "processing_at t c = (case map_of (processing c) t of Some p \<Rightarrow> p | None \<Rightarrow> empty_prepare_res)"

definition count_reply :: "bool \<Rightarrow> TpcPrepareRes \<Rightarrow> TpcPrepareRes" where
  "count_reply success p = (if success then p\<lparr>pr_successes := pr_successes p + 1\<rparr> else p\<lparr>pr_failures := pr_failures p + 1\<rparr>)"

definition add_latency :: "int \<Rightarrow> bool \<Rightarrow> int \<Rightarrow> client \<Rightarrow> client" where
  "add_latency wall cross l c =
     c\<lparr>wall_end := wall, latencies := latencies c @ [l],
       cross_latencies := (if cross then cross_latencies c @ [l] else cross_latencies c),
       intra_latencies := (if cross then intra_latencies c else intra_latencies c @ [l]),
       transactions_processed := transactions_processed c + 1\<rparr>"

text \<open>One finished RPC: the call, the flag \<open>ok\<close> of the queue and the clocks read for it.\<close>

record finished =
  fi_call :: ClientCall
  fi_ok :: bool
  fi_system_ns :: int
  fi_steady :: int
  fi_steady_ns :: int

definition decided_prepare :: "TpcPrepareRes \<Rightarrow> bool option" where
  "decided_prepare p =
     (if pr_successes p = 2 then Some True
      else if pr_failures p > 0 \<and> pr_successes p + pr_failures p = 2 then Some False
      else None)"

definition prepare_reply :: "config \<Rightarrow> finished \<Rightarrow> client \<Rightarrow> client option" where
  "prepare_reply cf f c0 =
     (let call = fi_call f; t = res_tid (cc_reply call);
          p = count_reply (cc_status_ok call \<and> res_ack (cc_reply call)) (processing_at t c0);
          c = c0\<lparr>processing := omap_set t p (processing c0)\<rparr>
      in case decided_prepare p of
           None \<Rightarrow> Some c
         | Some commit \<Rightarrow>
             let c = add_latency (fi_steady f) (pr_is_cross_shard p) (fi_steady_ns f - pr_start_ns p) c;
                 sc = getClusterIdFromClientId cf (sender (pr_txn p)); rc = getClusterIdFromClientId cf (receiver (pr_txn p))
             in map_option (\<lambda>c. c\<lparr>processing := omap_erase t (processing c)\<rparr>)
                  ((if commit then tpcCommit cf t sc rc else tpcAbort cf t sc rc) c))"

definition consume_one :: "config \<Rightarrow> finished \<Rightarrow> client \<Rightarrow> client option" where
  "consume_one cf f c =
     (let call = fi_call f in
      if \<not> fi_ok f then Some c
      else if cc_type call = TRANSFER \<and> cc_status_ok call
      then Some (add_latency (fi_steady f) (cc_is_cross_shard call) (fi_system_ns f - res_tid (cc_reply call)) c)
      else if cc_type call = TPC_PREPARE
      then (if res_tid (cc_reply call) = 0 then Some c else prepare_reply cf f c)
      else Some c)"

fun consumeReplies :: "config \<Rightarrow> finished list \<Rightarrow> client \<Rightarrow> client option" where
  "consumeReplies cf [] c = Some c"
| "consumeReplies cf (f # fs) c = Option.bind (consume_one cf f c) (consumeReplies cf fs)"

section \<open>Printing\<close>

definition setw :: "nat \<Rightarrow> string \<Rightarrow> string" where
  "setw n s = replicate (n - length s) (CHR '' '') @ s"

definition printBalance :: "config \<Rightarrow> (string \<Rightarrow> int option) \<Rightarrow> int \<Rightarrow> client \<Rightarrow> string option" where
  "printBalance cf rpc client_id c =
     (let servers = getServersInCluster cf (getClusterIdFromClientId cf client_id);
          shown = (\<lambda>s. case rpc s of Some b \<Rightarrow> to_string b | None \<Rightarrow> ''-'')
      in if \<forall>s \<in> set servers. s \<in> set (client_stubs c)
         then Some (setw 10 ''Server|'' @ setw 10 ''Balance|'' @ [newline]
           @ concat (map (\<lambda>s. setw 10 (s @ ''|'') @ setw 10 (shown s @ ''|'') @ [newline]) servers))
         else None)"

fun status_text :: "TransactionStatus \<Rightarrow> string" where
  "status_text PREPARED = ''P''"
| "status_text COMMITTED = ''C''"
| "status_text ABORTED = ''A''"
| "status_text NO_STATUS = ''NS''"

definition entry_text :: "WALEntry \<Rightarrow> string" where
  "entry_text e = ''[<'' @ to_string (we_ballot_num e) @ '','' @ to_string (we_ballot_server_id e) @ ''>, ''
     @ (if we_type e = CROSS then status_text (we_status e) @ '', '' else [])
     @ ''('' @ to_string (sender (we_txn e)) @ '', '' @ to_string (receiver (we_txn e)) @ '', '' @ to_string (amount (we_txn e)) @ '')]''"

fun entries_text :: "WALEntry list \<Rightarrow> string" where
  "entries_text [] = []"
| "entries_text [e] = entry_text e"
| "entries_text (e # es) = entry_text e @ '' -> '' @ entries_text es"

definition printDatastore :: "config \<Rightarrow> (string \<Rightarrow> LogEntry list option) \<Rightarrow> client \<Rightarrow> string option" where
  "printDatastore cf rpc c =
     (let names = map fst (server_ids cf);
          logs = (\<lambda>s. case rpc s of Some les \<Rightarrow> map entry_of_LogEntry les | None \<Rightarrow> [])
      in if \<forall>s \<in> set names. s \<in> set (client_stubs c)
         then Some (setw 10 ''Server|'' @ setw 10 '' '' @ ''Datastore'' @ [newline]
           @ concat (map (\<lambda>s. setw 10 (s @ ''|'') @ setw 10 '' '' @ entries_text (logs s) @ [newline, newline]) names))
         else None)"

text \<open>
  The figures of \<open>printPerformance\<close>, in nanoseconds before they are scaled to
  milliseconds for printing: total, number of samples, median and 99th percentile.
\<close>

definition latency_stats :: "int list \<Rightarrow> (int \<times> nat \<times> int \<times> int) option" where
  "latency_stats samples =
     (if samples = [] then None
      else let sorted = sort samples
      in Some (sum_list sorted, length sorted, sorted ! (length sorted * 50 div 100), sorted ! (length sorted * 99 div 100)))"

record performance =
  pf_wall :: int
  pf_overall :: "(int \<times> nat \<times> int \<times> int) option"
  pf_intra :: "nat \<times> (int \<times> nat \<times> int \<times> int) option"
  pf_cross :: "nat \<times> (int \<times> nat \<times> int \<times> int) option"

definition printPerformance :: "client \<Rightarrow> int \<times> performance option" where
  "printPerformance c =
     (transactions_processed c,
      if latencies c = [] then None
      else Some \<lparr>pf_wall = wall_end c - wall_start c, pf_overall = latency_stats (latencies c),
        pf_intra = (length (intra_latencies c), latency_stats (intra_latencies c)),
        pf_cross = (length (cross_latencies c), latency_stats (cross_latencies c))\<rparr>)"

section \<open>The coordinator\<close>

fun is_decision :: "int \<Rightarrow> rpc \<Rightarrow> bool" where
  "is_decision t (RpcTpcCommit n t') = (t' = t)"
| "is_decision t (RpcTpcAbort n t') = (t' = t)"
| "is_decision t _ = False"

definition decisions :: "int \<Rightarrow> client \<Rightarrow> rpc list" where
  "decisions t c = filter (is_decision t) (sent c)"

definition prepare_reply_of :: "int \<Rightarrow> finished \<Rightarrow> bool" where
  "prepare_reply_of t f \<longleftrightarrow> fi_ok f \<and> cc_type (fi_call f) = TPC_PREPARE \<and> res_tid (cc_reply (fi_call f)) = t"

definition prepared :: "finished \<Rightarrow> bool" where
  "prepared f \<longleftrightarrow> cc_status_ok (fi_call f) \<and> res_ack (cc_reply (fi_call f))"

definition stubs_ok :: "config \<Rightarrow> client \<Rightarrow> bool" where
  "stubs_ok cf c \<longleftrightarrow> fst ` set (server_ids cf) \<subseteq> set (client_stubs c)"

definition the_decision :: "config \<Rightarrow> transaction \<Rightarrow> int \<Rightarrow> bool \<Rightarrow> rpc list" where
  "the_decision cf x t commit = map (\<lambda>n. if commit then RpcTpcCommit n t else RpcTpcAbort n t)
     (decision_targets cf (getClusterIdFromClientId cf (sender x)) (getClusterIdFromClientId cf (receiver x)))"

lemma send_all_ok:
  "set ns \<subseteq> set (client_stubs c) \<Longrightarrow> send_all g ns c = Some (c\<lparr>sent := sent c @ map g ns\<rparr>)"
proof (induction ns arbitrary: c)
  case (Cons n ns)
  have "set ns \<subseteq> set (client_stubs (send (g n) c))" using Cons.prems by (simp add: send_def)
  from Cons.IH [OF this] show ?case using Cons.prems by (simp add: via_stub_def send_def)
qed simp

lemma targets_sub: "stubs_ok cf c \<Longrightarrow> set (decision_targets cf sc rc) \<subseteq> set (client_stubs c)"
  by (auto simp: stubs_ok_def decision_targets_def)

lemma send_decision:
  assumes "stubs_ok cf c"
  shows "tpcCommit cf t (getClusterIdFromClientId cf (sender x)) (getClusterIdFromClientId cf (receiver x)) c
      = Some (c\<lparr>sent := sent c @ the_decision cf x t True\<rparr>)"
    and "tpcAbort cf t (getClusterIdFromClientId cf (sender x)) (getClusterIdFromClientId cf (receiver x)) c
      = Some (c\<lparr>sent := sent c @ the_decision cf x t False\<rparr>)"
  by (simp_all add: tpcCommit_def tpcAbort_def send_all_ok targets_sub [OF assms] the_decision_def)

lemma add_latency_keeps [simp]:
  "sent (add_latency w x l c) = sent c" "processing (add_latency w x l c) = processing c"
  "client_stubs (add_latency w x l c) = client_stubs c"
  by (simp_all add: add_latency_def)

lemma prepare_reply_eq:
  fixes f c
  defines "t \<equiv> res_tid (cc_reply (fi_call f))"
  defines "p \<equiv> count_reply (prepared f) (processing_at t c)"
  assumes "stubs_ok cf c"
  shows "\<exists>c'. prepare_reply cf f c = Some c' \<and> client_stubs c' = client_stubs c
    \<and> (case decided_prepare p of
         None \<Rightarrow> sent c' = sent c \<and> map_of (processing c') = (map_of (processing c))(t \<mapsto> p)
       | Some commit \<Rightarrow> sent c' = sent c @ the_decision cf (pr_txn p) t commit
           \<and> map_of (processing c') = (map_of (processing c))(t := None))"
proof -
  define c1 where "c1 = c\<lparr>processing := omap_set t p (processing c)\<rparr>"
  have "stubs_ok cf (add_latency w x l c1)" for w x l using assms(3) by (simp add: stubs_ok_def c1_def)
  then show ?thesis
    unfolding prepare_reply_def Let_def
    unfolding t_def [symmetric] prepared_def [symmetric] p_def [symmetric] c1_def [symmetric]
    by (auto simp: send_decision map_of_omap_erase split: option.split) (simp_all add: c1_def map_of_omap_set fun_eq_iff)
qed

lemma decision_other: "t \<noteq> t' \<Longrightarrow> filter (is_decision t) (the_decision cf x t' b) = []"
  by (auto simp: the_decision_def filter_empty_conv)

lemma decision_same: "filter (is_decision t) (the_decision cf x t b) = the_decision cf x t b"
  by (auto simp: the_decision_def filter_id_conv)

lemma consume_other:
  assumes "stubs_ok cf c" and "\<not> prepare_reply_of t f"
  shows "\<exists>c'. consume_one cf f c = Some c' \<and> stubs_ok cf c' \<and> decisions t c' = decisions t c
    \<and> map_of (processing c') t = map_of (processing c) t"
proof (cases "fi_ok f \<and> cc_type (fi_call f) = TPC_PREPARE \<and> res_tid (cc_reply (fi_call f)) \<noteq> 0")
  case True
  then have "res_tid (cc_reply (fi_call f)) \<noteq> t" using assms(2) by (auto simp: prepare_reply_of_def)
  with prepare_reply_eq [OF assms(1), of f] show ?thesis
    using True assms(1)
    by (auto simp: consume_one_def Let_def decisions_def decision_other stubs_ok_def split: option.splits)
next
  case False
  then show ?thesis using assms by (auto simp: consume_one_def Let_def decisions_def stubs_ok_def)
qed

lemma consume_mine:
  assumes "stubs_ok cf c" and "prepare_reply_of t f" and "t \<noteq> 0" and "map_of (processing c) t = Some p"
  defines "p' \<equiv> count_reply (prepared f) p"
  shows "\<exists>c'. consume_one cf f c = Some c' \<and> stubs_ok cf c'
    \<and> decisions t c' = decisions t c @ (case decided_prepare p' of None \<Rightarrow> [] | Some b \<Rightarrow> the_decision cf (pr_txn p') t b)
    \<and> map_of (processing c') t = (case decided_prepare p' of None \<Rightarrow> Some p' | Some b \<Rightarrow> None)"
  using prepare_reply_eq [OF assms(1), of f] assms
  by (auto simp: consume_one_def Let_def prepare_reply_of_def processing_at_def decisions_def decision_same stubs_ok_def
      split: option.splits)

lemma consume_none:
  assumes "stubs_ok cf c" and "filter (prepare_reply_of t) fs = []"
  shows "\<exists>c'. consumeReplies cf fs c = Some c' \<and> stubs_ok cf c' \<and> decisions t c' = decisions t c
    \<and> map_of (processing c') t = map_of (processing c) t"
  using assms
proof (induction fs arbitrary: c)
  case (Cons f fs)
  then have "\<not> prepare_reply_of t f" by (auto split: if_splits)
  from consume_other [OF Cons.prems(1) this] Cons.IH Cons.prems(2) show ?case by (fastforce split: if_splits)
qed simp

lemma consume_append:
  "consumeReplies cf (fs @ gs) c = Option.bind (consumeReplies cf fs c) (consumeReplies cf gs)"
  by (induction fs arbitrary: c) (auto simp: Option.bind_eq_Some_conv split: Option.bind_split)

lemma consume_next:
  assumes "stubs_ok cf c" and "filter (prepare_reply_of t) fs = f # gs" and "t \<noteq> 0" and "map_of (processing c) t = Some p"
  defines "p' \<equiv> count_reply (prepared f) p"
  shows "\<exists>c' fs'. consumeReplies cf fs c = consumeReplies cf fs' c' \<and> stubs_ok cf c' \<and> filter (prepare_reply_of t) fs' = gs
    \<and> decisions t c' = decisions t c @ (case decided_prepare p' of None \<Rightarrow> [] | Some b \<Rightarrow> the_decision cf (pr_txn p') t b)
    \<and> map_of (processing c') t = (case decided_prepare p' of None \<Rightarrow> Some p' | Some b \<Rightarrow> None)"
proof -
  obtain us vs where fs: "fs = us @ f # vs" "filter (prepare_reply_of t) us = []" "prepare_reply_of t f" "filter (prepare_reply_of t) vs = gs"
    using assms(2) by (auto simp: filter_eq_Cons_iff filter_empty_conv)
  obtain c1 where c1: "consumeReplies cf us c = Some c1" "stubs_ok cf c1" "decisions t c1 = decisions t c"
      "map_of (processing c1) t = Some p"
    using consume_none [OF assms(1) fs(2)] assms(4) by auto
  obtain c2 where "consume_one cf f c1 = Some c2" "stubs_ok cf c2"
      "decisions t c2 = decisions t c1 @ (case decided_prepare p' of None \<Rightarrow> [] | Some b \<Rightarrow> the_decision cf (pr_txn p') t b)"
      "map_of (processing c2) t = (case decided_prepare p' of None \<Rightarrow> Some p' | Some b \<Rightarrow> None)"
    using consume_mine [OF c1(2) fs(3) assms(3) c1(4)] unfolding p'_def by blast
  then show ?thesis using c1 fs by (intro exI [of _ c2] exI [of _ vs]) (simp add: consume_append)
qed

definition registered :: "transaction \<Rightarrow> int \<Rightarrow> TpcPrepareRes" where
  "registered x ns = \<lparr>pr_txn = x, pr_successes = 0, pr_failures = 0, pr_start_ns = ns, pr_is_cross_shard = True\<rparr>"

lemma cross_shard_sent:
  assumes "processTransaction cf leaders x ck c = Some c1"
    and "getClusterIdFromClientId cf (sender x) \<noteq> getClusterIdFromClientId cf (receiver x)"
  shows "map_of (processing c1) (ck_tid ck) = Some (registered x (ck_start_ns ck))"
    and "client_stubs c1 = client_stubs c" and "decisions t c1 = decisions t c"
  using assms
  by (auto simp: processTransaction_def tpcPrepare_def via_stub_def send_def map_of_omap_set registered_def decisions_def Let_def
      Option.bind_eq_Some_conv split: if_splits)

lemma coordinator_open:
  assumes "stubs_ok cf c" and "t \<noteq> 0" and "map_of (processing c) t = Some (registered x ns)" and "decisions t c = []"
    and "length (filter (prepare_reply_of t) fs) < 2"
  shows "\<exists>c'. consumeReplies cf fs c = Some c' \<and> decisions t c' = [] \<and> map_of (processing c') t \<noteq> None"
proof (cases "filter (prepare_reply_of t) fs")
  case Nil
  then show ?thesis using consume_none [OF assms(1) Nil] assms(3,4) by auto
next
  case (Cons f gs)
  with assms(5) have gs: "gs = []" by simp
  have "decided_prepare (count_reply (prepared f) (registered x ns)) = None"
    by (simp add: decided_prepare_def count_reply_def registered_def)
  with consume_next [OF assms(1) Cons assms(2,3)] gs assms(4)
  obtain c' fs' where "consumeReplies cf fs c = consumeReplies cf fs' c'" "stubs_ok cf c'" "filter (prepare_reply_of t) fs' = []"
      "decisions t c' = []" "map_of (processing c') t \<noteq> None" by auto
  with consume_none [of cf c' t fs'] show ?thesis by auto
qed

lemma coordinator_closed:
  assumes "stubs_ok cf c" and "t \<noteq> 0" and "map_of (processing c) t = Some (registered x ns)" and "decisions t c = []"
    and "filter (prepare_reply_of t) fs = [f, g]"
  shows "\<exists>c'. consumeReplies cf fs c = Some c' \<and> decisions t c' = the_decision cf x t (prepared f \<and> prepared g)
    \<and> map_of (processing c') t = None"
proof -
  let ?p = "count_reply (prepared f) (registered x ns)"
  have "decided_prepare ?p = None"
    by (simp add: decided_prepare_def count_reply_def registered_def)
  with consume_next [OF assms(1,5,2,3)] assms(4) obtain c1 fs1 where
    1: "consumeReplies cf fs c = consumeReplies cf fs1 c1" "stubs_ok cf c1" "filter (prepare_reply_of t) fs1 = [g]"
      "decisions t c1 = []" "map_of (processing c1) t = Some ?p" by auto
  have "decided_prepare (count_reply (prepared g) ?p) = Some (prepared f \<and> prepared g)"
    "pr_txn (count_reply (prepared g) ?p) = x"
    by (simp_all add: decided_prepare_def count_reply_def registered_def)
  with consume_next [OF 1(2,3) assms(2) 1(5)] 1(4) obtain c2 fs2 where
    2: "consumeReplies cf fs1 c1 = consumeReplies cf fs2 c2" "stubs_ok cf c2" "filter (prepare_reply_of t) fs2 = []"
      "decisions t c2 = the_decision cf x t (prepared f \<and> prepared g)" "map_of (processing c2) t = None" by auto
  with consume_none [of cf c2 t fs2] 1(1) show ?thesis by auto
qed

definition client_conf :: config where
  "client_conf = \<lparr>num_clusters = 3, cluster_size = 3, server_addresses = [(''S1'', ''a:1''), (''S4'', ''a:4'')],
     server_ids = [(''S1'', 1), (''S4'', 4)]\<rparr>"

definition sample_transfer :: transaction where
  "sample_transfer = \<lparr>sender = 11, receiver = 1024, amount = 2\<rparr>"

definition sample_clocks :: clocks where
  "sample_clocks = \<lparr>ck_tid = 70, ck_wall = 5, ck_start_ns = 6\<rparr>"

definition sample_finished :: "bool \<Rightarrow> int \<Rightarrow> bool \<Rightarrow> finished" where
  "sample_finished st t ack = \<lparr>fi_call = \<lparr>cc_type = TPC_PREPARE, cc_is_cross_shard = True, cc_status_ok = st,
     cc_reply = \<lparr>res_ack = ack, res_tid = t\<rparr>\<rparr>, fi_ok = True, fi_system_ns = 90, fi_steady = 10, fi_steady_ns = 11\<rparr>"

definition sample_client :: client where
  "sample_client = the (processTransaction client_conf [''S1'', ''S4''] sample_transfer sample_clocks (Client_new client_conf))"

lemma sample_client_clusters:
  "getClusterIdFromClientId client_conf 11 = 1" "getClusterIdFromClientId client_conf 1024 = 2"
  "getClusterIdFromServerId client_conf 1 = 1" "getClusterIdFromServerId client_conf 4 = 2"
  by (simp_all add: getClusterIdFromClientId_def getClusterIdFromServerId_def client_conf_def ceil_div_def total_clients_def)

lemma sample_servers: "server_ids client_conf = [(''S1'', 1), (''S4'', 4)]"
  by (simp add: client_conf_def)

lemma sample_targets: "decision_targets client_conf 1 2 = [''S1'', ''S4'']"
  by (simp add: decision_targets_def sample_client_clusters sample_servers)

lemma sample_sent:
  "processTransaction client_conf [''S1'', ''S4''] sample_transfer sample_clocks (Client_new client_conf) = Some sample_client"
  "getClusterIdFromClientId client_conf (sender sample_transfer) \<noteq> getClusterIdFromClientId client_conf (receiver sample_transfer)"
  "decisions 70 (Client_new client_conf) = []" "stubs_ok client_conf (Client_new client_conf)" "ck_tid sample_clocks = 70"
  by (simp_all add: sample_client_def processTransaction_def sample_transfer_def sample_client_clusters leader_at_def Let_def
      Client_new_def sample_servers tpcPrepare_def via_stub_def send_def decisions_def stubs_ok_def sample_clocks_def
      del: One_nat_def)

text \<open>C7. The coordinator decides once, and commits only what both leaders prepared.  After a
  cross-shard transfer was sent, whatever replies arrive in whatever order, the client sends no
  decision before both leaders answered; then it sends one decision to every server of the
  two clusters, commit if both prepared it and abort otherwise, and forgets the transfer.\<close>

theorem coordinator_decides:
  assumes "processTransaction cf leaders x ck c = Some c1"
    and "getClusterIdFromClientId cf (sender x) \<noteq> getClusterIdFromClientId cf (receiver x)"
    and "ck_tid ck \<noteq> 0" and "decisions (ck_tid ck) c = []" and "stubs_ok cf c"
    and "length (filter (prepare_reply_of (ck_tid ck)) fs) \<le> 2"
  shows "\<exists>c'. consumeReplies cf fs c1 = Some c' \<and>
    (case filter (prepare_reply_of (ck_tid ck)) fs of
       [f, g] \<Rightarrow> decisions (ck_tid ck) c' = the_decision cf x (ck_tid ck) (prepared f \<and> prepared g)
         \<and> map_of (processing c') (ck_tid ck) = None
     | _ \<Rightarrow> decisions (ck_tid ck) c' = [] \<and> map_of (processing c') (ck_tid ck) \<noteq> None)"
proof -
  note s = cross_shard_sent [OF assms(1,2)]
  have c1: "stubs_ok cf c1" "decisions (ck_tid ck) c1 = []"
    using assms(4,5) s(2,3) by (simp_all add: stubs_ok_def)
  show ?thesis
  proof (cases "length (filter (prepare_reply_of (ck_tid ck)) fs) < 2")
    case True
    with coordinator_open [OF c1(1) assms(3) s(1) c1(2) True] show ?thesis
      by (auto split: list.splits)
  next
    case False
    with assms(6) obtain f g where "filter (prepare_reply_of (ck_tid ck)) fs = [f, g]"
      by (auto simp: numeral_2_eq_2 length_Suc_conv le_Suc_eq)
    with coordinator_closed [OF c1(1) assms(3) s(1) c1(2)] show ?thesis by auto
  qed
qed

theorem coordinator_decides_witness:
  "\<exists>c'. consumeReplies client_conf [sample_finished True 70 True, sample_finished True 33 True, sample_finished True 70 True] sample_client = Some c'
    \<and> decisions 70 c' = [RpcTpcCommit ''S1'' 70, RpcTpcCommit ''S4'' 70] \<and> map_of (processing c') 70 = None"
  using coordinator_decides [OF sample_sent(1,2), of "[sample_finished True 70 True, sample_finished True 33 True, sample_finished True 70 True]"]
    sample_sent(3-5)
  by (simp add: prepare_reply_of_def sample_finished_def prepared_def the_decision_def sample_transfer_def
      sample_client_clusters sample_targets)

text \<open>A lost prepare is never aborted.  When the prepare RPC to one leader fails, its call
  comes back with an empty reply, whose tid is 0, and the client skips it.  So with only the
  other leader's answer the client never sends a decision, and the transfer stays in its
  table.\<close>

theorem failed_prepare_never_decided:
  assumes "processTransaction cf leaders x ck c = Some c1"
    and "getClusterIdFromClientId cf (sender x) \<noteq> getClusterIdFromClientId cf (receiver x)"
    and "ck_tid ck \<noteq> 0" and "decisions (ck_tid ck) c = []" and "stubs_ok cf c"
    and "res_tid (cc_reply (fi_call failed)) = 0" and "\<not> cc_status_ok (fi_call failed)" and "prepare_reply_of (ck_tid ck) answer"
    and "filter (prepare_reply_of (ck_tid ck)) others = []"
  shows "\<exists>c'. consumeReplies cf (failed # answer # others) c1 = Some c' \<and> decisions (ck_tid ck) c' = []
    \<and> map_of (processing c') (ck_tid ck) \<noteq> None"
proof -
  note s = cross_shard_sent [OF assms(1,2)]
  have "\<not> prepare_reply_of (ck_tid ck) failed" using assms(3,6) by (auto simp: prepare_reply_of_def)
  then have "length (filter (prepare_reply_of (ck_tid ck)) (failed # answer # others)) < 2" using assms(8,9) by simp
  moreover have "stubs_ok cf c1" "decisions (ck_tid ck) c1 = []" using assms(4,5) s(2,3) by (simp_all add: stubs_ok_def)
  ultimately show ?thesis using coordinator_open [OF _ assms(3) s(1)] by blast
qed

theorem failed_prepare_never_decided_witness:
  "\<exists>c'. consumeReplies client_conf [sample_finished False 0 False, sample_finished True 70 True] sample_client = Some c'
    \<and> decisions 70 c' = [] \<and> map_of (processing c') 70 \<noteq> None"
  using failed_prepare_never_decided [OF sample_sent(1,2), of "sample_finished False 0 False" "sample_finished True 70 True" "[]"]
    sample_sent(3-5)
  by (simp add: prepare_reply_of_def sample_finished_def)

end
