(* ===== verification/Driver.thy ===== *)
theory Driver
  imports Client Server
begin

text \<open>
  The two programs: the driver (\<open>src/driver.cc\<close>), which starts the servers, reads
  commands and drives the client, and the \<open>main\<close> of a server process
  (\<open>src/server/server.cc\<close>).  The environment gives the lines of the standard input,
  the results of system calls and RPCs, and the replies that the consumer thread takes from the
  client's queue between two commands.
\<close>

section \<open>The command loop\<close>

record driver =
  dr_reader :: csv_reader
  dr_client :: client
  dr_set :: TransactionSet
  dr_pids :: "(string, int) omap"
  dr_out :: "string list"

record command_env =
  ce_replies :: "finished list"
  ce_clocks :: "nat \<Rightarrow> clocks"
  ce_balance :: "string \<Rightarrow> int option"
  ce_logs :: "string \<Rightarrow> LogEntry list option"
  ce_kill :: "int \<Rightarrow> bool"
  ce_waitpid :: "int \<Rightarrow> bool"

definition say :: "string \<Rightarrow> driver \<Rightarrow> driver" where
  "say m d = d\<lparr>dr_out := dr_out d @ [m]\<rparr>"

text \<open>
  What one command does: go on, leave the loop, raise an exception, or run into undefined
  behaviour of the client.
\<close>

datatype outcome = Continue driver | Leave driver | Raise cpp_exn driver | Undefined

definition kill_servers :: "command_env \<Rightarrow> driver \<Rightarrow> cpp_exn option \<times> driver" where
  "kill_servers e d = (case killAllServers (ce_kill e) (ce_waitpid e) (dr_pids d) of (x, ps) \<Rightarrow> (x, d\<lparr>dr_pids := ps\<rparr>))"

definition run_command :: "config \<Rightarrow> command_env \<Rightarrow> AppCommand \<Rightarrow> driver \<Rightarrow> outcome" where
  "run_command cf e c d =
     (case ac_command c of
        PROCESS_NEXT_SET \<Rightarrow>
          (case readNextSet cf (dr_reader d) (dr_set d) of
             (Inl x, r, t) \<Rightarrow> Raise x (d\<lparr>dr_reader := r, dr_set := t\<rparr>)
           | (Inr n, r, t) \<Rightarrow>
               let d = d\<lparr>dr_reader := r, dr_set := t\<rparr> in
               if n = 0 then Continue (say ''No more transaction sets to read...'' d)
               else case processTransactions cf (ts_leaders t) (zip (ts_transactions t) (map (ce_clocks e) [0..<length (ts_transactions t)]))
                        (updateDisconnected (ts_disconnected t) (dr_client d)) of
                      None \<Rightarrow> Undefined
                    | Some cl \<Rightarrow> Continue (d\<lparr>dr_client := cl\<rparr>))
      | PRINT_BALANCE \<Rightarrow>
          (case printBalance cf (ce_balance e) (ac_client_id c) (dr_client d) of
             None \<Rightarrow> Undefined | Some m \<Rightarrow> Continue (say m d))
      | PRINT_DATASTORE \<Rightarrow>
          (case printDatastore cf (ce_logs e) (dr_client d) of None \<Rightarrow> Undefined | Some m \<Rightarrow> Continue (say m d))
      | PRINT_PERFORMANCE \<Rightarrow> Continue d
      | EXIT \<Rightarrow>
          (case kill_servers e (say ''Exiting...'' d) of
             (Some x, d) \<Rightarrow> Raise x d
           | (None, d) \<Rightarrow> Leave d))"

text \<open>
  One pass of the loop on a line of input.  Only \<open>invalid_argument\<close> of the parser is
  caught there; every exception of the command itself is caught and printed.
\<close>

definition loop_pass :: "config \<Rightarrow> command_env \<Rightarrow> string \<Rightarrow> driver \<Rightarrow> outcome" where
  "loop_pass cf e line d0 =
     (case consumeReplies cf (ce_replies e) (dr_client d0) of
        None \<Rightarrow> Undefined
      | Some cl \<Rightarrow>
          let d = d0\<lparr>dr_client := cl\<rparr> in
          case parseCommand line of
            Inl InvalidArgument \<Rightarrow> Continue (say ''Invalid command. Try again. '' d)
          | Inl x \<Rightarrow> Raise x d
          | Inr c \<Rightarrow>
              (case run_command cf e c d of
                 Raise x d \<Rightarrow> Continue (say ''Exception: '' d)
               | r \<Rightarrow> r))"

fun mainloop :: "config \<Rightarrow> command_env \<Rightarrow> (string \<times> command_env) list \<Rightarrow> driver \<Rightarrow> outcome" where
  "mainloop cf eof [] d =
     (case kill_servers eof d of (Some x, d) \<Rightarrow> Raise x d | (None, d) \<Rightarrow> Leave d)"
| "mainloop cf eof (l # ls) d =
     (case loop_pass cf (snd l) (fst l) d of Continue d \<Rightarrow> mainloop cf eof ls d | r \<Rightarrow> r)"

section \<open>The driver program\<close>

datatype exit_status = Exit int "(string, int) omap" | Terminated cpp_exn | Crashed

record driver_env =
  de_files :: "string \<Rightarrow> string option"
  de_fork :: "string \<Rightarrow> int"
  de_input :: "(string \<times> command_env) list"
  de_eof :: command_env

text \<open>The arguments are those after the program name; the exit status carries the processes still running.\<close>

definition driver_main :: "driver_env \<Rightarrow> string list \<Rightarrow> exit_status" where
  "driver_main e argv =
     (if length argv \<noteq> 3 \<and> length argv \<noteq> 4 then Exit 1 []
      else case (stoi (argv ! 0), stoi (argv ! 1)) of
        (Inl x, _) \<Rightarrow> Terminated x
      | (Inr nc, Inl x) \<Rightarrow> Terminated x
      | (Inr nc, Inr cs) \<Rightarrow>
          let cf = setupApplicationState nc cs initial_config;
              cf = (if length argv = 4 then snd (loadConfig (de_files e (argv ! 3)) cf) else cf)
          in case startAllServers (de_fork e) cf [] of
               (Some x, pids) \<Rightarrow> Exit 1 pids
             | (None, pids) \<Rightarrow>
                 (case CSVReader (de_files e (argv ! 2)) of
                    Inl x \<Rightarrow> Exit 0 pids
                  | Inr r \<Rightarrow>
                      (case mainloop cf (de_eof e) (de_input e)
                          \<lparr>dr_reader = r, dr_client = Client_new cf, dr_set = empty_set, dr_pids = pids, dr_out = []\<rparr> of
                         Undefined \<Rightarrow> Crashed
                       | Continue d \<Rightarrow> Exit 0 (dr_pids d)
                       | Leave d \<Rightarrow> Exit 0 (dr_pids d)
                       | Raise x d \<Rightarrow> Exit 0 (dr_pids d))))"

section \<open>A server process\<close>

definition RunServer :: "config \<Rightarrow> string \<Rightarrow> wal \<Rightarrow> kvdb \<Rightarrow> bool \<Rightarrow> run_result" where
  "RunServer cf name w d opened =
     (let i = (case map_of (server_ids cf) name of Some i \<Rightarrow> i | None \<Rightarrow> 0)
      in run opened (ServerImpl i name cf w d))"

datatype server_exit = ServerExit int | ServerResult run_result

definition server_main :: "(string \<Rightarrow> string option) \<Rightarrow> wal \<Rightarrow> kvdb \<Rightarrow> bool \<Rightarrow> string list \<Rightarrow> server_exit" where
  "server_main files w d opened argv =
     (if length argv \<noteq> 3 \<and> length argv \<noteq> 4 then ServerExit 1
      else case (stoi (argv ! 1), stoi (argv ! 2)) of
        (Inr nc, Inr cs) \<Rightarrow>
          let cf = setupApplicationState nc cs initial_config;
              cf = (if length argv = 4 then snd (loadConfig (files (argv ! 3)) cf) else cf)
          in (case RunServer cf (argv ! 0) w d opened of
                RunThrew x \<Rightarrow> ServerExit 0
              | r \<Rightarrow> ServerResult r)
      | _ \<Rightarrow> ServerExit 0)"

section \<open>How a session ends\<close>

lemma killAll_ok: "(\<forall>p. k p) \<Longrightarrow> (\<forall>p. w p) \<Longrightarrow> killAllServers k w ps = (None, [])"
  by (induction ps) simp_all

definition kills :: "command_env \<Rightarrow> bool" where
  "kills e \<longleftrightarrow> (\<forall>p. ce_kill e p) \<and> (\<forall>p. ce_waitpid e p)"

lemma kill_servers_ok: "kills e \<Longrightarrow> kill_servers e d = (None, d\<lparr>dr_pids := []\<rparr>)"
  by (simp add: kill_servers_def kills_def killAll_ok)

lemma run_command_pids:
  "kills e \<Longrightarrow> run_command cf e c d = Leave d' \<Longrightarrow> dr_pids d' = []"
  by (auto simp: run_command_def kill_servers_ok Let_def say_def split: Command.splits prod.splits sum.splits option.splits if_splits)

lemma mainloop_leave:
  "kills eof \<Longrightarrow> \<forall>l \<in> set ls. kills (snd l) \<Longrightarrow> mainloop cf eof ls d = Leave d' \<Longrightarrow> dr_pids d' = []"
proof (induction ls arbitrary: d)
  case Nil
  then show ?case by (auto simp: kill_servers_ok)
next
  case (Cons l ls)
  then show ?case
    by (auto simp: loop_pass_def Let_def dest: run_command_pids split: outcome.splits option.splits sum.splits cpp_exn.splits)
qed

lemma mainloop_not_continue: "mainloop cf eof ls d \<noteq> Continue d'"
  by (induction ls arbitrary: d) (auto split: outcome.split prod.split option.split)

definition accepted_line :: "string \<Rightarrow> bool" where
  "accepted_line l = (case parseCommand l of Inl x \<Rightarrow> x = InvalidArgument | Inr c \<Rightarrow> True)"

lemma run_command_caught: "loop_pass cf e l d = Raise x d' \<Longrightarrow> \<not> accepted_line l"
  by (auto simp: loop_pass_def accepted_line_def Let_def split: option.splits sum.splits cpp_exn.splits outcome.splits)

lemma mainloop_raise:
  "kills eof \<Longrightarrow> \<forall>l \<in> set ls. accepted_line (fst l) \<Longrightarrow> mainloop cf eof ls d \<noteq> Raise x d'"
proof (induction ls arbitrary: d)
  case Nil
  then show ?case by (auto simp: kill_servers_ok)
next
  case (Cons l ls)
  then show ?case by (auto dest: run_command_caught split: outcome.split)
qed

text \<open>C29. A session leaves no server running.  When the workload file opens, signals and waits
  succeed and every input line is either rejected as invalid or parses, a driver that exits
  normally, by the \<open>exit\<close> command or at the end of its input, has stopped every server.\<close>

theorem session_stops_servers:
  assumes "driver_main e argv = Exit 0 ps" and "de_files e (argv ! 2) \<noteq> None"
    and "kills (de_eof e)" and "\<forall>l \<in> set (de_input e). kills (snd l) \<and> accepted_line (fst l)"
  shows "ps = []"
proof -
  from assms(2) obtain r where r: "CSVReader (de_files e (argv ! 2)) = Inr r" by (auto simp: CSVReader_def)
  have all: "\<forall>l \<in> set (de_input e). kills (snd l)" "\<forall>l \<in> set (de_input e). accepted_line (fst l)"
    using assms(4) by simp_all
  show ?thesis
    using assms(1) mainloop_leave [OF assms(3) all(1)] mainloop_raise [OF assms(3) all(2)] mainloop_not_continue
    by (auto simp: driver_main_def r Let_def split: if_splits sum.splits prod.splits option.splits outcome.splits)
qed

text \<open>C30. An account number that does not fit an \<open>int\<close> ends the session with the servers
  running.  The command matches the pattern, \<open>stoi\<close> raises \<open>out_of_range\<close>, which the
  command loop does not catch; the driver prints the exception and exits with status 0 without
  stopping any server.\<close>

theorem oversized_account_ends_session:
  assumes "is_int32 nc" and "is_int32 cs" and "de_files e csv = Some contents"
    and "startAllServers (de_fork e) (setupApplicationState nc cs initial_config) [] = (None, pids)"
    and "de_input e = (''printBalance '' @ to_string n, ce) # rest" and "ce_replies ce = []" and "int_max < n"
  shows "driver_main e [to_string nc, to_string cs, csv] = Exit 0 pids"
proof -
  have "0 < n" using assms(7) by (simp add: int_max_def)
  from parse_balance_command [OF this] assms(7) have "parseCommand (''printBalance '' @ to_string n) = Inl OutOfRange" by simp
  then have "loop_pass cf ce (''printBalance '' @ to_string n) d = Raise OutOfRange d" for cf d
    using assms(6) by (simp add: loop_pass_def)
  then have "mainloop cf (de_eof e) (de_input e) d = Raise OutOfRange d" for cf d
    unfolding assms(5) by simp
  then show ?thesis
    using assms(1-4) by (simp add: driver_main_def stoi_to_string CSVReader_def)
qed

definition sample_command_env :: command_env where
  "sample_command_env = \<lparr>ce_replies = [], ce_clocks = (\<lambda>_. sample_clocks), ce_balance = Map.empty, ce_logs = Map.empty,
     ce_kill = (\<lambda>_. True), ce_waitpid = (\<lambda>_. True)\<rparr>"

definition sample_driver_env :: "(string \<times> command_env) list \<Rightarrow> driver_env" where
  "sample_driver_env ls = \<lparr>de_files = (\<lambda>_. Some []), de_fork = (\<lambda>_. 400), de_input = ls, de_eof = sample_command_env\<rparr>"

lemma sample_start:
  "startAllServers (\<lambda>_. 400) (setupApplicationState 1 1 initial_config) [] = (None, [(''S1'', 400)])"
  by (simp add: startAllServers_def setupApplicationState_def add_server_def server_name_of_def server_address_of_def
      to_string_def show_nat.simps digit_char_def)

theorem session_stops_servers_witness:
  "driver_main (sample_driver_env [(''exit'', sample_command_env)]) [''1'', ''1'', ''w.csv''] = Exit 0 []"
proof -
  let ?e = "sample_driver_env [(''exit'', sample_command_env)]"
  have k: "kills sample_command_env" and none: "ce_replies sample_command_env = []"
    by (simp_all add: kills_def sample_command_env_def)
  have tok: "tokenizeCommand ''exit'' = [''exit'']"
    using token_loop_word [of "''exit''" "[]" "[]" "[]"] token_loop_end
    by (auto simp: tokenizeCommand_def open_stream_def is_space_def)
  have parse: "parseCommand ''exit'' = Inr \<lparr>ac_command = EXIT, ac_client_id = -1\<rparr>"
    by (simp add: parseCommand_def isValidCommand_def tok at_def)
  have one: "stoi ''1'' = Inr 1"
    using stoi_to_string [of 1] by (simp add: to_string_def show_nat.simps digit_char_def int_type_defs)
  have "loop_pass cf sample_command_env ''exit'' d = Leave (d\<lparr>dr_out := dr_out d @ [''Exiting...''], dr_pids := []\<rparr>)" for cf d
    using k none by (simp add: loop_pass_def parse run_command_def kill_servers_ok say_def)
  then obtain ps where ex: "driver_main ?e [''1'', ''1'', ''w.csv''] = Exit 0 ps"
    by (simp add: driver_main_def one sample_driver_env_def sample_start CSVReader_def)
  have "ps = []"
    by (rule session_stops_servers [OF ex]) (simp_all add: sample_driver_env_def k accepted_line_def parse)
  with ex show ?thesis by simp
qed

theorem oversized_account_ends_session_witness:
  "driver_main (sample_driver_env [(''printBalance '' @ to_string 5000000000, sample_command_env)]) [to_string 1, to_string 1, ''w.csv'']
     = Exit 0 [(''S1'', 400)]"
  by (rule oversized_account_ends_session [where n = 5000000000 and ce = sample_command_env and rest = "[]" and contents = "[]"])
    (simp_all add: sample_driver_env_def sample_start int_type_defs, simp_all add: sample_command_env_def)

end
