(* ===== verification/Ldb_Coding.thy ===== *)
theory Ldb_Coding
  imports Prelude "HOL-Library.Word"
begin

text \<open>
  Byte encodings of LevelDB, the store under every server (\<open>src/leveldb/util/coding.h\<close>
  and \<open>coding.cc\<close>): fixed-width little-endian integers, variable-length integers and
  length-prefixed slices.  Machine integers are words; a \<open>Slice\<close> and a
  \<open>std::string\<close> are lists of bytes; a pointer into a buffer is the bytes that follow,
  and \<open>None\<close> is the null pointer or \<open>false\<close>.
\<close>

unbundle bit_operations_syntax

type_synonym byte = "8 word"
type_synonym slice = "byte list"

section \<open>Fixed-width integers\<close>

definition EncodeFixed32 :: "32 word \<Rightarrow> slice" where
  "EncodeFixed32 v = [ucast v, ucast (drop_bit 8 v), ucast (drop_bit 16 v), ucast (drop_bit 24 v)]"

definition EncodeFixed64 :: "64 word \<Rightarrow> slice" where
  "EncodeFixed64 v = [ucast v, ucast (drop_bit 8 v), ucast (drop_bit 16 v), ucast (drop_bit 24 v),
     ucast (drop_bit 32 v), ucast (drop_bit 40 v), ucast (drop_bit 48 v), ucast (drop_bit 56 v)]"

definition DecodeFixed32 :: "slice \<Rightarrow> 32 word" where
  "DecodeFixed32 b = ucast (b ! 0) OR push_bit 8 (ucast (b ! 1)) OR push_bit 16 (ucast (b ! 2)) OR push_bit 24 (ucast (b ! 3))"

definition DecodeFixed64 :: "slice \<Rightarrow> 64 word" where
  "DecodeFixed64 b = ucast (b ! 0) OR push_bit 8 (ucast (b ! 1)) OR push_bit 16 (ucast (b ! 2)) OR push_bit 24 (ucast (b ! 3))
     OR push_bit 32 (ucast (b ! 4)) OR push_bit 40 (ucast (b ! 5)) OR push_bit 48 (ucast (b ! 6)) OR push_bit 56 (ucast (b ! 7))"

definition PutFixed32 :: "slice \<Rightarrow> 32 word \<Rightarrow> slice" where
  "PutFixed32 dst v = dst @ EncodeFixed32 v"

definition PutFixed64 :: "slice \<Rightarrow> 64 word \<Rightarrow> slice" where
  "PutFixed64 dst v = dst @ EncodeFixed64 v"

lemma length_EncodeFixed [simp]: "length (EncodeFixed32 v) = 4" "length (EncodeFixed64 w) = 8"
  by (simp_all add: EncodeFixed32_def EncodeFixed64_def)

lemma bit_byte:
  fixes v :: "'a::len word"
  shows "bit (push_bit k (ucast (ucast (drop_bit k v) :: byte)) :: 'a word) n \<longleftrightarrow> k \<le> n \<and> n < k + 8 \<and> bit v n"
    and "bit (ucast (ucast v :: byte) :: 'a word) n \<longleftrightarrow> n < 8 \<and> bit v n"
proof -
  have len: "bit v n \<Longrightarrow> n < LENGTH('a)" by (rule bit_imp_le_length)
  show "bit (ucast (ucast v :: byte) :: 'a word) n \<longleftrightarrow> n < 8 \<and> bit v n"
    using len by (auto simp: bit_simps)
  show "bit (push_bit k (ucast (ucast (drop_bit k v) :: byte)) :: 'a word) n \<longleftrightarrow> k \<le> n \<and> n < k + 8 \<and> bit v n"
  proof (cases "k \<le> n")
    case True
    then have "k + (n - k) = n" by simp
    then show ?thesis using True len by (auto simp: bit_simps less_diff_conv2)
  next
    case False
    then show ?thesis by (simp add: bit_simps)
  qed
qed

lemma DecodeFixed32_Encode [simp]: "DecodeFixed32 (EncodeFixed32 v @ s) = v"
proof (rule bit_word_eqI)
  fix n assume "n < LENGTH(32)"
  then show "bit (DecodeFixed32 (EncodeFixed32 v @ s)) n = bit v n"
    by (auto simp: DecodeFixed32_def EncodeFixed32_def bit_or_iff bit_byte)
qed

lemma DecodeFixed64_Encode [simp]: "DecodeFixed64 (EncodeFixed64 v @ s) = v"
proof (rule bit_word_eqI)
  fix n assume "n < LENGTH(64)"
  then show "bit (DecodeFixed64 (EncodeFixed64 v @ s)) n = bit v n"
    by (auto simp: DecodeFixed64_def EncodeFixed64_def bit_or_iff bit_byte)
qed

section \<open>Variable-length integers\<close>

text \<open>\<open>EncodeVarint32\<close> is unrolled; \<open>EncodeVarint64\<close> is the loop.\<close>

definition EncodeVarint32 :: "32 word \<Rightarrow> slice" where
  "EncodeVarint32 v =
     (if v < push_bit 7 1 then [ucast v]
      else if v < push_bit 14 1 then [ucast (v OR 128), ucast (drop_bit 7 v)]
      else if v < push_bit 21 1 then [ucast (v OR 128), ucast (drop_bit 7 v OR 128), ucast (drop_bit 14 v)]
      else if v < push_bit 28 1
      then [ucast (v OR 128), ucast (drop_bit 7 v OR 128), ucast (drop_bit 14 v OR 128), ucast (drop_bit 21 v)]
      else [ucast (v OR 128), ucast (drop_bit 7 v OR 128), ucast (drop_bit 14 v OR 128), ucast (drop_bit 21 v OR 128),
            ucast (drop_bit 28 v)])"

lemma varint_more: "(128 :: 64 word) \<le> v \<longleftrightarrow> 128 \<le> unat v"
  by (simp add: word_le_nat_alt)

lemma unat_shift7: "unat (drop_bit 7 v) = unat v div 128" for v :: "'a::len word"
  by (simp only: unat_drop_bit_eq) (simp add: drop_bit_eq_div)

function EncodeVarint64 :: "64 word \<Rightarrow> slice" where
  "EncodeVarint64 v = (if v \<ge> 128 then ucast (v OR 128) # EncodeVarint64 (drop_bit 7 v) else [ucast v])"
  by pat_completeness auto

termination
  by (relation "measure unat") (simp_all add: varint_more unat_shift7)

declare EncodeVarint64.simps [simp del]

function VarintLength :: "64 word \<Rightarrow> int" where
  "VarintLength v = (if v \<ge> 128 then VarintLength (drop_bit 7 v) + 1 else 1)"
  by pat_completeness auto

termination
  by (relation "measure unat") (simp_all add: varint_more unat_shift7)

declare VarintLength.simps [simp del]

definition PutVarint32 :: "slice \<Rightarrow> 32 word \<Rightarrow> slice" where
  "PutVarint32 dst v = dst @ EncodeVarint32 v"

definition PutVarint64 :: "slice \<Rightarrow> 64 word \<Rightarrow> slice" where
  "PutVarint64 dst v = dst @ EncodeVarint64 v"

fun varint32_loop :: "nat \<Rightarrow> 32 word \<Rightarrow> slice \<Rightarrow> (32 word \<times> slice) option" where
  "varint32_loop shift result [] = None"
| "varint32_loop shift result (b # p) =
     (if 28 < shift then None
      else let byte = ucast b :: 32 word in
        if byte AND 128 \<noteq> 0 then varint32_loop (shift + 7) (result OR push_bit shift (byte AND 127)) p
        else Some (result OR push_bit shift byte, p))"

definition GetVarint32PtrFallback :: "slice \<Rightarrow> (32 word \<times> slice) option" where
  "GetVarint32PtrFallback p = varint32_loop 0 0 p"

definition GetVarint32Ptr :: "slice \<Rightarrow> (32 word \<times> slice) option" where
  "GetVarint32Ptr p =
     (if p \<noteq> [] \<and> (ucast (hd p) :: 32 word) AND 128 = 0 then Some (ucast (hd p), tl p)
      else GetVarint32PtrFallback p)"

fun varint64_loop :: "nat \<Rightarrow> 64 word \<Rightarrow> slice \<Rightarrow> (64 word \<times> slice) option" where
  "varint64_loop shift result [] = None"
| "varint64_loop shift result (b # p) =
     (if 63 < shift then None
      else let byte = ucast b :: 64 word in
        if byte AND 128 \<noteq> 0 then varint64_loop (shift + 7) (result OR push_bit shift (byte AND 127)) p
        else Some (result OR push_bit shift byte, p))"

definition GetVarint64Ptr :: "slice \<Rightarrow> (64 word \<times> slice) option" where
  "GetVarint64Ptr p = varint64_loop 0 0 p"

text \<open>The \<open>Get\<close> routines return the value and the advanced input.\<close>

definition GetVarint32 :: "slice \<Rightarrow> (32 word \<times> slice) option" where
  "GetVarint32 input = GetVarint32Ptr input"

definition GetVarint64 :: "slice \<Rightarrow> (64 word \<times> slice) option" where
  "GetVarint64 input = GetVarint64Ptr input"

definition PutLengthPrefixedSlice :: "slice \<Rightarrow> slice \<Rightarrow> slice" where
  "PutLengthPrefixedSlice dst v = PutVarint32 dst (word_of_nat (length v)) @ v"

definition GetLengthPrefixedSlice :: "slice \<Rightarrow> (slice \<times> slice) option" where
  "GetLengthPrefixedSlice input =
     (case GetVarint32 input of
        Some (len, rest) \<Rightarrow> (if unat len \<le> length rest then Some (take (unat len) rest, drop (unat len) rest) else None)
      | None \<Rightarrow> None)"

section \<open>Round trips\<close>

lemma bit_128: "bit (128 :: 'b::len word) n \<longleftrightarrow> n = 7 \<and> 7 < LENGTH('b)"
proof -
  have eq: "(128 :: 'b word) = push_bit 7 1" by simp
  show ?thesis unfolding eq bit_push_bit_iff bit_1_iff possible_bit_word by auto
qed

lemma bit_127: "bit (127 :: 'b::len word) n \<longleftrightarrow> n < 7 \<and> n < LENGTH('b)"
proof -
  have eq: "(127 :: 'b word) = mask 7" by (simp add: mask_eq_exp_minus_1)
  show ?thesis unfolding eq bit_mask_iff possible_bit_word by auto
qed

lemma cont_byte:
  fixes v :: "64 word"
  shows "7 < LENGTH('a) \<Longrightarrow> (ucast (ucast (v OR 128) :: byte) :: 'a::len word) AND 128 = 128"
    and "(ucast (ucast (v OR 128) :: byte) :: 'a word) AND 127 = take_bit 7 (ucast v)"
  by (rule bit_word_eqI, auto simp: bit_simps bit_128 bit_127 simp del: bit_numeral_word_iff)+

lemma low_bits:
  fixes v :: "64 word"
  assumes "\<not> 128 \<le> v"
  shows "bit v n \<Longrightarrow> n < 7"
proof -
  have "unat v < 2 ^ 7" using assms by (simp add: varint_more)
  then have "take_bit 7 v = v" by (simp add: unsigned_take_bit_eq take_bit_nat_eq_self word_unat_eq_iff)
  then show "bit v n \<Longrightarrow> n < 7" by (metis bit_take_bit_iff)
qed

lemma last_byte:
  fixes v :: "64 word"
  assumes "\<not> 128 \<le> v"
  shows "(ucast (ucast v :: byte) :: 'a::len word) AND 128 = 0" and "(ucast (ucast v :: byte) :: 'a word) = ucast v"
proof -
  have low: "bit v n \<Longrightarrow> n < 7 \<and> n < 8" for n using low_bits [OF assms, of n] by simp
  show "(ucast (ucast v :: byte) :: 'a word) AND 128 = 0"
    by (rule bit_word_eqI) (auto simp: bit_simps bit_128 dest: low simp del: bit_numeral_word_iff)
  show "(ucast (ucast v :: byte) :: 'a word) = ucast v"
    by (rule bit_word_eqI) (auto simp: bit_simps dest: low)
qed

lemma split_bits:
  fixes v :: "64 word"
  shows "ucast v = (take_bit 7 (ucast v) OR push_bit 7 (ucast (drop_bit 7 v)) :: 'a::len word)"
proof (rule bit_word_eqI)
  fix n assume "n < LENGTH('a)"
  then show "bit (ucast v :: 'a word) n = bit (take_bit 7 (ucast v) OR push_bit 7 (ucast (drop_bit 7 v)) :: 'a word) n"
    by (cases "n < 7") (auto simp: bit_simps)
qed

lemma push_bit_or_word: "push_bit n (a OR b) = push_bit n a OR push_bit n (b :: 'a::len word)"
  by (rule bit_word_eqI) (auto simp: bit_simps)

lemma shift_step:
  fixes v :: "64 word"
  shows "(r OR push_bit shift (take_bit 7 (ucast v))) OR push_bit (shift + 7) (ucast (drop_bit 7 v)) = r OR push_bit shift (ucast v :: 'a::len word)"
proof -
  have "push_bit shift (ucast v :: 'a word) = push_bit shift (take_bit 7 (ucast v)) OR push_bit (shift + 7) (ucast (drop_bit 7 v))"
    by (subst split_bits) (simp add: push_bit_or_word)
  then show ?thesis by (simp add: or.assoc)
qed

lemma shift_fits:
  fixes n :: nat
  assumes "128 \<le> n" and "n * 2 ^ shift < 2 ^ k"
  shows "shift + 7 < k" and "n div 128 * 2 ^ (shift + 7) < 2 ^ k"
proof -
  have "(2::nat) ^ (shift + 7) \<le> n * 2 ^ shift" using assms(1) by (simp add: power_add)
  with assms(2) have "(2::nat) ^ (shift + 7) < 2 ^ k" by linarith
  then show "shift + 7 < k" by simp
  have "n div 128 * 2 ^ (shift + 7) = n div 128 * 128 * 2 ^ shift" by (simp add: power_add)
  also have "\<dots> \<le> n * 2 ^ shift" by (intro mult_le_mono1) (simp add: div_times_less_eq_dividend)
  finally show "n div 128 * 2 ^ (shift + 7) < 2 ^ k" using assms(2) by linarith
qed

lemma varint64_loop_Encode:
  "unat v * 2 ^ shift < 2 ^ 64 \<Longrightarrow> shift \<le> 63 \<Longrightarrow>
   varint64_loop shift r (EncodeVarint64 v @ s) = Some (r OR push_bit shift v, s)"
proof (induction v arbitrary: shift r rule: EncodeVarint64.induct)
  case (1 v)
  show ?case
  proof (cases "128 \<le> v")
    case True
    note fits = shift_fits [of "unat v" shift 64, OF _ "1.prems"(1)]
    have "varint64_loop (shift + 7) r' (EncodeVarint64 (drop_bit 7 v) @ s) = Some (r' OR push_bit (shift + 7) (drop_bit 7 v), s)" for r'
      using True fits by (intro "1.IH") (simp_all add: varint_more unat_shift7)
    then show ?thesis
      using True "1.prems"(2) cont_byte [of v, where 'a = 64] shift_step [of r shift v]
      by (simp add: EncodeVarint64.simps [of v] Let_def)
  next
    case False
    then show ?thesis
      using "1.prems"(2) last_byte [OF False, where 'a = 64] by (simp add: EncodeVarint64.simps [of v] Let_def)
  qed
qed

lemma varint32_loop_Encode:
  "unat v * 2 ^ shift < 2 ^ 32 \<Longrightarrow> shift \<in> {0, 7, 14, 21, 28} \<Longrightarrow>
   varint32_loop shift r (EncodeVarint64 v @ s) = Some (r OR push_bit shift (ucast v), s)"
proof (induction v arbitrary: shift r rule: EncodeVarint64.induct)
  case (1 v)
  show ?case
  proof (cases "128 \<le> v")
    case True
    note fits = shift_fits [of "unat v" shift 32, OF _ "1.prems"(1)]
    have "shift + 7 \<in> {0, 7, 14, 21, 28}" using True fits(1) "1.prems"(2) by (auto simp: varint_more)
    then have "varint32_loop (shift + 7) r' (EncodeVarint64 (drop_bit 7 v) @ s) = Some (r' OR push_bit (shift + 7) (ucast (drop_bit 7 v)), s)" for r'
      using True fits by (intro "1.IH") (simp_all add: varint_more unat_shift7)
    moreover have "shift \<le> 28" using "1.prems"(2) by auto
    ultimately show ?thesis
      using True cont_byte [of v, where 'a = 32] shift_step [of r shift v]
      by (simp add: EncodeVarint64.simps [of v] Let_def)
  next
    case False
    have "shift \<le> 28" using "1.prems"(2) by auto
    then show ?thesis
      using False last_byte [OF False, where 'a = 32] by (simp add: EncodeVarint64.simps [of v] Let_def)
  qed
qed

lemma unat_range: "unat v < 2 ^ LENGTH('a)" for v :: "'a::len word"
  by (rule unsigned_less)

lemma unat_up [simp]: "unat (ucast v :: 64 word) = unat v" for v :: "32 word"
  using unat_range [of v] by (simp add: unsigned_ucast_eq take_bit_nat_eq_self)

lemma Encode_ucast:
  fixes v :: "32 word"
  shows "EncodeVarint64 (ucast v) = (if 128 \<le> unat v then ucast (v OR 128) # EncodeVarint64 (ucast (drop_bit 7 v)) else [ucast v])"
proof -
  have "(ucast (ucast v OR 128 :: 64 word) :: byte) = ucast (v OR 128)"
    by (rule bit_word_eqI) (auto simp: bit_simps bit_128 simp del: bit_numeral_word_iff)
  moreover have "drop_bit 7 (ucast v :: 64 word) = ucast (drop_bit 7 v)"
    by (rule bit_word_eqI) (auto simp: bit_simps dest: bit_imp_le_length)
  moreover have "(ucast (ucast v :: 64 word) :: byte) = ucast v"
    by (rule bit_word_eqI) (auto simp: bit_simps)
  ultimately show ?thesis by (subst EncodeVarint64.simps) (simp add: varint_more unat_up)
qed

text \<open>The unrolled encoder writes what the loop writes.\<close>

lemma EncodeVarint32_loop: "EncodeVarint32 v = EncodeVarint64 (ucast v)"
proof -
  have un: "unat (drop_bit k v) = unat v div 2 ^ k" for k
    by (simp only: unat_drop_bit_eq) (simp add: drop_bit_eq_div)
  have small: "\<not> 128 \<le> unat v div 2 ^ 28" using unat_range [of v] by simp
  have lt: "v < push_bit 7 1 \<longleftrightarrow> \<not> 128 \<le> unat v" "v < push_bit 14 1 \<longleftrightarrow> \<not> 128 \<le> unat v div 2 ^ 7"
    "v < push_bit 21 1 \<longleftrightarrow> \<not> 128 \<le> unat v div 2 ^ 14" "v < push_bit 28 1 \<longleftrightarrow> \<not> 128 \<le> unat v div 2 ^ 21"
    by (auto simp: word_less_nat_alt)
  have drop: "drop_bit 7 (drop_bit 7 v) = drop_bit 14 v" "drop_bit 7 (drop_bit 14 v) = drop_bit 21 v" "drop_bit 7 (drop_bit 21 v) = drop_bit 28 v"
    by simp_all
  show ?thesis
    unfolding EncodeVarint32_def lt
    by (simp only: Encode_ucast [of v] Encode_ucast [of "drop_bit 7 v"] Encode_ucast [of "drop_bit 14 v"]
        Encode_ucast [of "drop_bit 21 v"] Encode_ucast [of "drop_bit 28 v"] drop un small if_False split: if_split) auto
qed

lemma GetVarint32Ptr_loop: "GetVarint32Ptr p = varint32_loop 0 0 p"
  by (cases p) (auto simp: GetVarint32Ptr_def GetVarint32PtrFallback_def Let_def)

lemma GetVarint32_Encode [simp]: "GetVarint32 (EncodeVarint32 v @ s) = Some (v, s)"
proof -
  have "varint32_loop 0 0 (EncodeVarint64 (ucast v) @ s) = Some (0 OR push_bit 0 (ucast (ucast v :: 64 word)), s)"
    using unat_range [of v] by (intro varint32_loop_Encode) (simp_all add: unat_up)
  moreover have "(ucast (ucast v :: 64 word) :: 32 word) = v" by (rule bit_word_eqI) (auto simp: bit_simps)
  ultimately show ?thesis by (simp add: GetVarint32_def GetVarint32Ptr_loop EncodeVarint32_loop)
qed

lemma GetVarint64_Encode [simp]: "GetVarint64 (EncodeVarint64 v @ s) = Some (v, s)"
  using varint64_loop_Encode [of v 0 0 s] unat_range [of v] by (simp add: GetVarint64_def GetVarint64Ptr_def)

lemma GetLengthPrefixedSlice_Put [simp]:
  assumes "length v < 2 ^ 32"
  shows "GetLengthPrefixedSlice (PutLengthPrefixedSlice [] v @ s) = Some (v, s)"
proof -
  have "unat (word_of_nat (length v) :: 32 word) = length v" using assms by (simp add: unat_of_nat take_bit_nat_eq_self)
  then show ?thesis by (simp add: GetLengthPrefixedSlice_def PutLengthPrefixedSlice_def PutVarint32_def)
qed

lemma PutLengthPrefixedSlice_append: "PutLengthPrefixedSlice dst v = dst @ PutLengthPrefixedSlice [] v"
  by (simp add: PutLengthPrefixedSlice_def PutVarint32_def)

lemma VarintLength_Encode: "VarintLength v = int (length (EncodeVarint64 v))"
proof (induction v rule: EncodeVarint64.induct)
  case (1 v)
  then show ?case by (simp add: EncodeVarint64.simps [of v] VarintLength.simps [of v])
qed

lemma length_EncodeVarint64: "unat v < 128 ^ k \<Longrightarrow> 0 < k \<Longrightarrow> length (EncodeVarint64 v) \<le> k"
proof (induction v arbitrary: k rule: EncodeVarint64.induct)
  case (1 v)
  show ?case
  proof (cases "128 \<le> v")
    case True
    then have k: "1 < k" using "1.prems" by (cases "k = 1") (auto simp: varint_more)
    then obtain j where j: "k = Suc j" "0 < j" by (cases k) auto
    with "1.prems"(1) have "unat (drop_bit 7 v) < 128 ^ j" by (simp add: unat_shift7 less_mult_imp_div_less mult.commute)
    with "1.IH" [OF True this j(2)] True j show ?thesis by (simp add: EncodeVarint64.simps [of v])
  next
    case False
    then show ?thesis using "1.prems"(2) by (simp add: EncodeVarint64.simps [of v])
  qed
qed

lemma varint32_loop_shorter: "varint32_loop sh r p = Some (v, rest) \<Longrightarrow> length rest < length p"
  by (induction sh r p rule: varint32_loop.induct) (auto simp: Let_def less_SucI split: if_splits)

lemma GetLengthPrefixedSlice_shorter: "GetLengthPrefixedSlice p = Some (x, rest) \<Longrightarrow> length rest < length p"
  by (auto simp: GetLengthPrefixedSlice_def GetVarint32_def GetVarint32Ptr_loop less_imp_diff_less dest!: varint32_loop_shorter
      split: option.splits if_splits)

text \<open>The unrolled integer encoder agrees with the loop, and integers survive their encoding.
  The unrolled 32-bit encoder writes the same bytes as the 64-bit loop; decoding either width, from
  the bytes the encoder wrote followed by anything, gives back the integer and the bytes that
  follow; and the encodings are as long as \<open>VarintLength\<close> says, at most 5 and 10 bytes, the
  sizes of the buffers they are written to.\<close>

theorem varint_roundtrip:
  "PutVarint32 dst v = PutVarint64 dst (ucast v)
   \<and> GetVarint32 (PutVarint32 [] v @ s) = Some (v, s) \<and> GetVarint64 (PutVarint64 [] w @ s) = Some (w, s)
   \<and> int (length (PutVarint64 [] w)) = VarintLength w
   \<and> length (PutVarint32 [] v) \<le> 5 \<and> length (PutVarint64 [] w) \<le> 10"
proof -
  have loop: "PutVarint32 d v = PutVarint64 d (ucast v)" for d
    by (simp add: PutVarint32_def PutVarint64_def EncodeVarint32_loop)
  have "GetVarint32 (PutVarint32 [] v @ s) = Some (v, s)" "GetVarint64 (PutVarint64 [] w @ s) = Some (w, s)"
    by (simp_all add: PutVarint32_def PutVarint64_def)
  moreover have "unat w < 128 ^ 10" "unat (ucast v :: 64 word) < 128 ^ 5"
    using unat_range [of w] unat_range [of v] by (simp_all add: unat_up)
  ultimately show ?thesis using length_EncodeVarint64 [of w 10] length_EncodeVarint64 [of "ucast v" 5]
    unfolding loop by (simp add: PutVarint64_def VarintLength_Encode)
qed

end
