(* ===== verification/Ldb_Log.thy ===== *)
theory Ldb_Log
  imports Ldb_Coding Cpp_Text
begin

text \<open>
  The write-ahead log of LevelDB (\<open>src/leveldb/db/log_format.h\<close>,
  \<open>log_writer.cc\<close>, \<open>log_reader.cc\<close> and the masking of \<open>util/crc32c.h\<close>):
  records cut into fragments that never cross a block of 32768 bytes, and the reader that joins
  them.  The checksum \<open>crc32c::Extend\<close> is a parameter.  A file is its bytes and the
  outcomes of the next calls, all successful once the list is empty; a call that fails writes
  or delivers nothing.
\<close>

section \<open>Format\<close>

datatype RecordType = kZeroType | kFullType | kFirstType | kMiddleType | kLastType

fun record_code :: "RecordType \<Rightarrow> byte" where
  "record_code kZeroType = 0"
| "record_code kFullType = 1"
| "record_code kFirstType = 2"
| "record_code kMiddleType = 3"
| "record_code kLastType = 4"

definition kBlockSize :: nat where "kBlockSize = 32768"

definition kHeaderSize :: nat where "kHeaderSize = 7"

type_synonym crc_extend = "32 word \<Rightarrow> slice \<Rightarrow> 32 word"

definition crc_Value :: "crc_extend \<Rightarrow> slice \<Rightarrow> 32 word" where
  "crc_Value ext data = ext 0 data"

definition kMaskDelta :: "32 word" where "kMaskDelta = 0xa282ead8"

definition Mask :: "32 word \<Rightarrow> 32 word" where
  "Mask crc = (drop_bit 15 crc OR push_bit 17 crc) + kMaskDelta"

definition Unmask :: "32 word \<Rightarrow> 32 word" where
  "Unmask masked_crc = (let rot = masked_crc - kMaskDelta in drop_bit 17 rot OR push_bit 15 rot)"

section \<open>Writer\<close>

record log_file =
  lf_bytes :: slice
  lf_outcomes :: "bool list"

definition lf_Append :: "slice \<Rightarrow> log_file \<Rightarrow> bool \<times> log_file" where
  "lf_Append data f =
     (case lf_outcomes f of
        [] \<Rightarrow> (True, f\<lparr>lf_bytes := lf_bytes f @ data\<rparr>)
      | ok # os \<Rightarrow> (ok, \<lparr>lf_bytes = (if ok then lf_bytes f @ data else lf_bytes f), lf_outcomes = os\<rparr>))"

definition lf_Flush :: "log_file \<Rightarrow> bool \<times> log_file" where
  "lf_Flush f = (case lf_outcomes f of [] \<Rightarrow> (True, f) | ok # os \<Rightarrow> (ok, f\<lparr>lf_outcomes := os\<rparr>))"

record log_writer =
  lw_dest :: log_file
  lw_block_offset :: nat

text \<open>A writer at the end of a file of \<open>dest_length\<close> bytes.\<close>

definition log_Writer :: "log_file \<Rightarrow> nat \<Rightarrow> log_writer" where
  "log_Writer dest dest_length = \<lparr>lw_dest = dest, lw_block_offset = dest_length mod kBlockSize\<rparr>"

definition record_header :: "crc_extend \<Rightarrow> RecordType \<Rightarrow> slice \<Rightarrow> slice" where
  "record_header ext t data =
     EncodeFixed32 (Mask (ext (crc_Value ext [record_code t]) data))
       @ [word_of_nat (length data), word_of_nat (length data div 256), record_code t]"

definition EmitPhysicalRecord :: "crc_extend \<Rightarrow> RecordType \<Rightarrow> slice \<Rightarrow> log_writer \<Rightarrow> bool \<times> log_writer" where
  "EmitPhysicalRecord ext t data w =
     (let (s, f) = lf_Append (record_header ext t data) (lw_dest w);
          (s, f) = (if s then (let (s, f) = lf_Append data f in if s then lf_Flush f else (s, f)) else (s, f))
      in (s, \<lparr>lw_dest = f, lw_block_offset = lw_block_offset w + kHeaderSize + length data\<rparr>))"

text \<open>The next block when fewer bytes than a header are left in the current one.\<close>

definition switch_block :: "log_writer \<Rightarrow> log_writer" where
  "switch_block w =
     (let leftover = kBlockSize - lw_block_offset w in
      if leftover < kHeaderSize
      then \<lparr>lw_dest = (if leftover > 0 then snd (lf_Append (replicate leftover 0) (lw_dest w)) else lw_dest w),
            lw_block_offset = 0\<rparr>
      else w)"

definition fragment_type :: "bool \<Rightarrow> bool \<Rightarrow> RecordType" where
  "fragment_type bgn lst =
     (if bgn \<and> lst then kFullType else if bgn then kFirstType else if lst then kLastType else kMiddleType)"

lemma offset_Emit: "lw_block_offset (snd (EmitPhysicalRecord ext t data w)) = lw_block_offset w + kHeaderSize + length data"
  by (simp add: EmitPhysicalRecord_def split: prod.split)

lemma offset_switch:
  "lw_block_offset (switch_block w) = (if kBlockSize - lw_block_offset w < kHeaderSize then 0 else lw_block_offset w)"
  by (simp add: switch_block_def Let_def)

text \<open>The loop ends: a fragment is empty only when exactly a header fits, and then the next
  block is empty.\<close>

function AddRecord_loop :: "crc_extend \<Rightarrow> bool \<Rightarrow> slice \<Rightarrow> log_writer \<Rightarrow> bool \<times> log_writer" where
  "AddRecord_loop ext bgn data w =
     (let w1 = switch_block w;
          avail = kBlockSize - lw_block_offset w1 - kHeaderSize;
          fragment_length = (if length data < avail then length data else avail);
          r = EmitPhysicalRecord ext (fragment_type bgn (length data = fragment_length)) (take fragment_length data) w1
      in if fst r \<and> length data - fragment_length > 0
         then AddRecord_loop ext False (drop fragment_length data) (snd r)
         else r)"
  by pat_completeness auto

termination
proof (relation "measure (\<lambda>(ext, bgn, data, w). 2 * length data + (if kBlockSize - lw_block_offset w = kHeaderSize then 1 else 0))", goal_cases)
  case (2 ext bgn data w w1 avail n r)
  have r: "lw_block_offset (snd r) = lw_block_offset w1 + kHeaderSize + length (take n data)" unfolding 2(4) by (rule offset_Emit)
  show ?case
  proof (cases "avail = 0")
    case True
    then have "lw_block_offset w1 \<noteq> 0" "lw_block_offset w1 = lw_block_offset w" "kBlockSize - lw_block_offset w = kHeaderSize"
      using 2(2) unfolding 2(1) by (auto simp: offset_switch kBlockSize_def kHeaderSize_def split: if_splits)
    moreover have "kBlockSize - lw_block_offset (snd r) \<noteq> kHeaderSize"
      using calculation(2,3) by (simp add: r kBlockSize_def kHeaderSize_def)
    ultimately show ?thesis using 2(3,5) True by simp
  next
    case False
    then show ?thesis using 2(3,5) by (auto split: if_splits)
  qed
qed simp

declare AddRecord_loop.simps [simp del]

definition AddRecord :: "crc_extend \<Rightarrow> slice \<Rightarrow> log_writer \<Rightarrow> bool \<times> log_writer" where
  "AddRecord ext data w = AddRecord_loop ext True data w"

section \<open>Reader\<close>

datatype drop_reason = IoReason | Corruption string

record log_reader =
  rd_file :: slice
  rd_outcomes :: "bool list"
  rd_checksum :: bool
  rd_buffer :: slice
  rd_eof :: bool
  rd_last_record_offset :: "64 word"
  rd_end_of_buffer_offset :: "64 word"
  rd_initial_offset :: "64 word"
  rd_resyncing :: bool
  rd_drops :: "(64 word \<times> drop_reason) list"

definition log_Reader :: "slice \<Rightarrow> bool list \<Rightarrow> bool \<Rightarrow> 64 word \<Rightarrow> log_reader" where
  "log_Reader file outcomes checksum initial_offset =
     \<lparr>rd_file = file, rd_outcomes = outcomes, rd_checksum = checksum, rd_buffer = [], rd_eof = False,
      rd_last_record_offset = 0, rd_end_of_buffer_offset = 0, rd_initial_offset = initial_offset,
      rd_resyncing = (initial_offset > 0), rd_drops = []\<rparr>"

definition file_ok :: "log_reader \<Rightarrow> bool \<times> log_reader" where
  "file_ok r = (case rd_outcomes r of [] \<Rightarrow> (True, r) | ok # os \<Rightarrow> (ok, r\<lparr>rd_outcomes := os\<rparr>))"

definition ReportDrop :: "64 word \<Rightarrow> drop_reason \<Rightarrow> log_reader \<Rightarrow> log_reader" where
  "ReportDrop bytes reason r =
     (if rd_end_of_buffer_offset r - word_of_nat (length (rd_buffer r)) - bytes \<ge> rd_initial_offset r
      then r\<lparr>rd_drops := rd_drops r @ [(bytes, reason)]\<rparr> else r)"

definition ReportCorruption :: "nat \<Rightarrow> string \<Rightarrow> log_reader \<Rightarrow> log_reader" where
  "ReportCorruption bytes reason r = ReportDrop (word_of_nat bytes) (Corruption reason) r"

definition SkipToInitialBlock :: "log_reader \<Rightarrow> bool \<times> log_reader" where
  "SkipToInitialBlock r =
     (let offset_in_block = rd_initial_offset r mod word_of_nat kBlockSize;
          block_start = rd_initial_offset r - offset_in_block;
          block_start = (if offset_in_block > word_of_nat (kBlockSize - 6) then block_start + word_of_nat kBlockSize else block_start);
          r = r\<lparr>rd_end_of_buffer_offset := block_start\<rparr>
      in if block_start > 0
         then case file_ok r of (ok, r) \<Rightarrow>
           if ok then (True, r\<lparr>rd_file := drop (unat block_start) (rd_file r)\<rparr>)
           else (False, ReportDrop block_start IoReason r)
         else (True, r))"

text \<open>One read of a block; \<open>false\<close> when it failed.\<close>

definition read_block :: "log_reader \<Rightarrow> bool \<times> log_reader" where
  "read_block r =
     (case file_ok r of (ok, r) \<Rightarrow>
        if ok
        then let data = take kBlockSize (rd_file r)
             in (True, r\<lparr>rd_file := drop kBlockSize (rd_file r), rd_buffer := data,
                   rd_end_of_buffer_offset := rd_end_of_buffer_offset r + word_of_nat (length data),
                   rd_eof := (length data < kBlockSize)\<rparr>)
        else (False, (ReportDrop (word_of_nat kBlockSize) IoReason (r\<lparr>rd_buffer := []\<rparr>))\<lparr>rd_eof := True\<rparr>))"

lemma read_block_full: "fst (read_block r) \<Longrightarrow> rd_eof (snd (read_block r)) \<or> kBlockSize \<le> length (rd_buffer (snd (read_block r)))"
  by (auto simp: read_block_def Let_def split: prod.splits if_splits)

text \<open>The head of the loop of \<open>ReadPhysicalRecord\<close>: whether a header is in the buffer.\<close>

function fill_buffer :: "log_reader \<Rightarrow> bool \<times> log_reader" where
  "fill_buffer r =
     (if length (rd_buffer r) < kHeaderSize
      then if \<not> rd_eof r
           then let b = read_block r in if fst b then fill_buffer (snd b) else (False, snd b)
           else (False, r\<lparr>rd_buffer := []\<rparr>)
      else (True, r))"
  by pat_completeness auto

termination
  by (relation "measure (\<lambda>r. (if length (rd_buffer r) < kHeaderSize then 1 else 0) + (if rd_eof r then 0 else 1))")
    (use read_block_full in \<open>force simp: kBlockSize_def kHeaderSize_def\<close>)+

declare fill_buffer.simps [simp del]

definition kEof :: "32 word" where "kEof = 5"

definition kBadRecord :: "32 word" where "kBadRecord = 6"

text \<open>The type, the fragment, which keeps its value where the code does not assign it, and the reader.\<close>

definition ReadPhysicalRecord :: "crc_extend \<Rightarrow> slice \<Rightarrow> log_reader \<Rightarrow> 32 word \<times> slice \<times> log_reader" where
  "ReadPhysicalRecord ext fragment r =
     (case fill_buffer r of (filled, r) \<Rightarrow>
        if \<not> filled then (kEof, fragment, r)
        else let header = rd_buffer r;
                 a = ucast (header ! 4) AND 0xff :: 32 word; b = ucast (header ! 5) AND 0xff;
                 t = scast (header ! 6); len = unat (a OR push_bit 8 b)
             in if kHeaderSize + len > length (rd_buffer r)
                then let drop_size = length (rd_buffer r); r = r\<lparr>rd_buffer := []\<rparr>
                     in if \<not> rd_eof r then (kBadRecord, fragment, ReportCorruption drop_size ''bad record length'' r)
                        else (kEof, fragment, r)
                else if t = 0 \<and> len = 0 then (kBadRecord, fragment, r\<lparr>rd_buffer := []\<rparr>)
                else if rd_checksum r \<and> crc_Value ext (take (1 + len) (drop 6 header)) \<noteq> Unmask (DecodeFixed32 header)
                then let drop_size = length (rd_buffer r)
                     in (kBadRecord, fragment, ReportCorruption drop_size ''checksum mismatch'' (r\<lparr>rd_buffer := []\<rparr>))
                else let r = r\<lparr>rd_buffer := drop (kHeaderSize + len) (rd_buffer r)\<rparr>
                     in if rd_end_of_buffer_offset r - word_of_nat (length (rd_buffer r)) - word_of_nat kHeaderSize - word_of_nat len
                             < rd_initial_offset r
                        then (kBadRecord, [], r)
                        else (t, take len (drop kHeaderSize header), r))"

text \<open>The bytes not consumed yet; every physical record but the end of the file takes some.\<close>

definition rd_left :: "log_reader \<Rightarrow> nat" where
  "rd_left r = length (rd_buffer r) + length (rd_file r)"

lemma Report_left [simp]: "rd_left (ReportDrop n why r) = rd_left r" "rd_left (ReportCorruption m s r) = rd_left r"
  by (simp_all add: ReportDrop_def ReportCorruption_def rd_left_def)

lemma rd_left_resync: "rd_left (r\<lparr>rd_resyncing := v\<rparr>) = rd_left r"
  by (simp add: rd_left_def)

lemma fill_buffer_left:
  "rd_left (snd (fill_buffer r)) \<le> rd_left r \<and> (fst (fill_buffer r) \<longrightarrow> kHeaderSize \<le> length (rd_buffer (snd (fill_buffer r))))"
proof (induction r rule: fill_buffer.induct)
  case (1 r)
  have b: "rd_left (snd (read_block r)) \<le> rd_left r"
    by (auto simp: read_block_def Let_def file_ok_def rd_left_def ReportDrop_def split: prod.splits if_splits list.splits)
  show ?case
  proof (cases "length (rd_buffer r) < kHeaderSize \<and> \<not> rd_eof r \<and> fst (read_block r)")
    case True
    then have eq: "fill_buffer r = fill_buffer (snd (read_block r))" by (subst fill_buffer.simps) (simp add: Let_def)
    from 1 [OF _ _ refl] True have "rd_left (snd (fill_buffer (snd (read_block r)))) \<le> rd_left (snd (read_block r))
        \<and> (fst (fill_buffer (snd (read_block r))) \<longrightarrow> kHeaderSize \<le> length (rd_buffer (snd (fill_buffer (snd (read_block r))))))" by blast
    with b show ?thesis unfolding eq using order_trans by blast
  next
    case False
    then show ?thesis using b by (subst (1 2 3) fill_buffer.simps) (auto simp: Let_def rd_left_def)
  qed
qed

lemma ReadPhysicalRecord_left:
  "fst (ReadPhysicalRecord ext f r) \<noteq> kEof \<Longrightarrow> rd_left (snd (snd (ReadPhysicalRecord ext f r))) < rd_left r"
proof -
  assume ne: "fst (ReadPhysicalRecord ext f r) \<noteq> kEof"
  obtain filled r1 where fill: "fill_buffer r = (filled, r1)" by (rule prod.exhaust)
  then have l: "rd_left r1 \<le> rd_left r" "filled \<Longrightarrow> kHeaderSize \<le> length (rd_buffer r1)" using fill_buffer_left [of r] by simp_all
  have "filled" using ne fill by (cases filled) (simp_all add: ReadPhysicalRecord_def)
  then have "rd_left (snd (snd (ReadPhysicalRecord ext f r))) < rd_left r1"
    using ne l(2) by (auto simp: ReadPhysicalRecord_def fill Let_def rd_left_def kHeaderSize_def ReportCorruption_def ReportDrop_def split: if_splits)
  with l(1) show ?thesis by simp
qed

function ReadRecord_loop :: "crc_extend \<Rightarrow> bool \<Rightarrow> slice \<Rightarrow> 64 word \<Rightarrow> slice \<Rightarrow> log_reader \<Rightarrow> slice option \<times> log_reader" where
  "ReadRecord_loop ext in_fragmented scratch prospective fragment r =
     (let p = ReadPhysicalRecord ext fragment r; t = fst p; fragment = fst (snd p); r = snd (snd p);
          physical = rd_end_of_buffer_offset r - word_of_nat (length (rd_buffer r)) - word_of_nat kHeaderSize - word_of_nat (length fragment)
      in if t = kEof then (None, r\<lparr>rd_resyncing := False\<rparr>)
         else if rd_resyncing r \<and> t = 3 then ReadRecord_loop ext in_fragmented scratch prospective fragment r
         else if rd_resyncing r \<and> t = 4
         then ReadRecord_loop ext in_fragmented scratch prospective fragment (r\<lparr>rd_resyncing := False\<rparr>)
         else let r = r\<lparr>rd_resyncing := False\<rparr> in
           if t = 1
           then let r = (if in_fragmented \<and> scratch \<noteq> [] then ReportCorruption (length scratch) ''partial record without end(1)'' r else r)
                in (Some fragment, r\<lparr>rd_last_record_offset := physical\<rparr>)
           else if t = 2
           then let r = (if in_fragmented \<and> scratch \<noteq> [] then ReportCorruption (length scratch) ''partial record without end(2)'' r else r)
                in ReadRecord_loop ext True fragment physical fragment r
           else if t = 3
           then if \<not> in_fragmented
                then ReadRecord_loop ext in_fragmented scratch prospective fragment
                       (ReportCorruption (length fragment) ''missing start of fragmented record(1)'' r)
                else ReadRecord_loop ext in_fragmented (scratch @ fragment) prospective fragment r
           else if t = 4
           then if \<not> in_fragmented
                then ReadRecord_loop ext in_fragmented scratch prospective fragment
                       (ReportCorruption (length fragment) ''missing start of fragmented record(2)'' r)
                else (Some (scratch @ fragment), r\<lparr>rd_last_record_offset := prospective\<rparr>)
           else if t = kBadRecord
           then if in_fragmented
                then ReadRecord_loop ext False [] prospective fragment (ReportCorruption (length scratch) ''error in middle of record'' r)
                else ReadRecord_loop ext in_fragmented scratch prospective fragment r
           else ReadRecord_loop ext False [] prospective fragment
                  (ReportCorruption (length fragment + (if in_fragmented then length scratch else 0)) (''unknown record type '' @ show_nat (unat t)) r))"
  by pat_completeness auto

termination
  by (relation "measure (\<lambda>x. rd_left (snd (snd (snd (snd (snd x))))))")
    (simp_all add: rd_left_resync ReadPhysicalRecord_left)

declare ReadRecord_loop.simps [simp del]

definition ReadRecord :: "crc_extend \<Rightarrow> log_reader \<Rightarrow> slice option \<times> log_reader" where
  "ReadRecord ext r =
     (if rd_last_record_offset r < rd_initial_offset r
      then case SkipToInitialBlock r of (ok, r) \<Rightarrow> if ok then ReadRecord_loop ext False [] 0 [] r else (None, r)
      else ReadRecord_loop ext False [] 0 [] r)"

end
