(* ===== verification/Ldb_Replay.thy ===== *)
theory Ldb_Replay
  imports Ldb_Log
begin

text \<open>
  Reading back the write-ahead log: what the writer of \<open>Ldb_Log\<close> puts into a file as a
  sequence of fragments, and that on any prefix of the file the reader returns exactly the records
  that are complete in it and reports no corruption.
\<close>

section \<open>The bytes of a record\<close>

lemma Unmask_Mask: "Unmask (Mask c) = c"
proof -
  have "drop_bit 17 (drop_bit 15 c OR push_bit 17 c) OR push_bit 15 (drop_bit 15 c OR push_bit 17 c) = c"
  proof (rule bit_word_eqI)
    fix n assume n: "n < LENGTH(32)"
    show "bit (drop_bit 17 (drop_bit 15 c OR push_bit 17 c) OR push_bit 15 (drop_bit 15 c OR push_bit 17 c)) n = bit c n"
    proof (cases "n < 15")
      case False
      then have "15 + (n - 15) = n" by simp
      then show ?thesis using n by (auto simp: bit_simps)
    qed (auto simp: bit_simps)
  qed
  then show ?thesis by (simp add: Mask_def Unmask_def Let_def)
qed

text \<open>The zero bytes that fill a block at file position \<open>pos\<close>, and the fragments of a record
  written there: filler, type and payload.\<close>

definition trailer :: "nat \<Rightarrow> nat" where
  "trailer pos = (if kBlockSize - pos mod kBlockSize < kHeaderSize then kBlockSize - pos mod kBlockSize else 0)"

definition room_at :: "nat \<Rightarrow> nat" where
  "room_at pos = kBlockSize - (pos + trailer pos) mod kBlockSize - kHeaderSize"

type_synonym chunk = "nat \<times> RecordType \<times> slice"

lemma trailer_mod: "(pos + trailer pos) mod kBlockSize + kHeaderSize \<le> kBlockSize"
  "kBlockSize - pos mod kBlockSize < kHeaderSize \<Longrightarrow> (pos + trailer pos) mod kBlockSize = 0"
proof -
  have lt: "pos mod kBlockSize < kBlockSize" by (simp add: kBlockSize_def)
  show z: "(pos + trailer pos) mod kBlockSize = 0" if "kBlockSize - pos mod kBlockSize < kHeaderSize"
  proof -
    have "(pos + (kBlockSize - pos mod kBlockSize)) mod kBlockSize = (pos mod kBlockSize + (kBlockSize - pos mod kBlockSize)) mod kBlockSize"
      by (simp add: mod_add_left_eq)
    then show ?thesis using that lt by (simp add: trailer_def)
  qed
  show "(pos + trailer pos) mod kBlockSize + kHeaderSize \<le> kBlockSize"
    by (cases "kBlockSize - pos mod kBlockSize < kHeaderSize")
      (use z lt in \<open>simp_all add: trailer_def kBlockSize_def kHeaderSize_def\<close>)
qed

lemma room_next: "room_at pos = 0 \<Longrightarrow> 0 < room_at (pos + trailer pos + kHeaderSize)"
proof -
  assume "room_at pos = 0"
  then have m: "(pos + trailer pos) mod kBlockSize = kBlockSize - kHeaderSize"
    using trailer_mod(1) [of pos] by (simp add: room_at_def)
  then have "(pos + trailer pos + kHeaderSize) mod kBlockSize = (kBlockSize - kHeaderSize + kHeaderSize) mod kBlockSize"
    by (metis mod_add_left_eq)
  then have "(pos + trailer pos + kHeaderSize) mod kBlockSize = 0" by (simp add: kBlockSize_def kHeaderSize_def)
  then show ?thesis by (simp add: room_at_def trailer_def kBlockSize_def kHeaderSize_def)
qed

function chunks :: "nat \<Rightarrow> bool \<Rightarrow> slice \<Rightarrow> chunk list" where
  "chunks pos bgn data =
     (let n = min (length data) (room_at pos)
      in (trailer pos, fragment_type bgn (length data = n), take n data)
         # (if length data = n then [] else chunks (pos + trailer pos + kHeaderSize + n) False (drop n data)))"
  by pat_completeness auto

termination
proof (relation "measure (\<lambda>(pos, bgn, data). 2 * length data + (if room_at pos = 0 then 1 else 0))", goal_cases)
  case (2 pos bgn data n)
  then show ?case using room_next [of pos] by (cases "room_at pos = 0") auto
qed simp

declare chunks.simps [simp del]

definition chunk_bytes :: "crc_extend \<Rightarrow> chunk \<Rightarrow> slice" where
  "chunk_bytes ext c = replicate (fst c) 0 @ record_header ext (fst (snd c)) (snd (snd c)) @ snd (snd c)"

definition record_bytes :: "crc_extend \<Rightarrow> nat \<Rightarrow> bool \<Rightarrow> slice \<Rightarrow> slice" where
  "record_bytes ext pos bgn data = concat (map (chunk_bytes ext) (chunks pos bgn data))"

fun log_bytes :: "crc_extend \<Rightarrow> nat \<Rightarrow> slice list \<Rightarrow> slice" where
  "log_bytes ext pos [] = []"
| "log_bytes ext pos (d # ds) =
     record_bytes ext pos True d @ log_bytes ext (pos + length (record_bytes ext pos True d)) ds"

lemma length_chunk_bytes: "length (chunk_bytes ext c) = fst c + kHeaderSize + length (snd (snd c))"
  by (simp add: chunk_bytes_def record_header_def kHeaderSize_def)

lemma record_bytes_simps:
  "record_bytes ext pos bgn data =
    (let n = min (length data) (room_at pos); c = (trailer pos, fragment_type bgn (length data = n), take n data)
     in chunk_bytes ext c @ (if length data = n then [] else record_bytes ext (pos + length (chunk_bytes ext c)) False (drop n data)))"
  unfolding record_bytes_def by (subst chunks.simps) (simp add: Let_def length_chunk_bytes add.assoc)

section \<open>Writing a record\<close>

definition writer_at :: "slice \<Rightarrow> log_writer \<Rightarrow> bool" where
  "writer_at bytes w \<longleftrightarrow> lw_dest w = \<lparr>lf_bytes = bytes, lf_outcomes = []\<rparr>
     \<and> lw_block_offset w \<le> kBlockSize \<and> lw_block_offset w mod kBlockSize = length bytes mod kBlockSize"

lemma writer_new: "writer_at [] (log_Writer \<lparr>lf_bytes = [], lf_outcomes = []\<rparr> 0)"
  by (simp add: writer_at_def log_Writer_def)

lemma switch_block_at:
  assumes "writer_at bytes w"
  shows "lw_dest (switch_block w) = \<lparr>lf_bytes = bytes @ replicate (trailer (length bytes)) 0, lf_outcomes = []\<rparr>"
    and "lw_block_offset (switch_block w) = (length bytes + trailer (length bytes)) mod kBlockSize"
proof -
  let ?o = "lw_block_offset w" and ?p = "length bytes"
  have w: "lw_dest w = \<lparr>lf_bytes = bytes, lf_outcomes = []\<rparr>" "?o \<le> kBlockSize" "?o mod kBlockSize = ?p mod kBlockSize"
    using assms by (simp_all add: writer_at_def)
  have "lw_dest (switch_block w) = \<lparr>lf_bytes = bytes @ replicate (trailer ?p) 0, lf_outcomes = []\<rparr>
      \<and> lw_block_offset (switch_block w) = (?p + trailer ?p) mod kBlockSize"
  proof (cases "?o = kBlockSize")
    case True
    then have "trailer ?p = 0" "?p mod kBlockSize = 0" using w(3) by (simp_all add: trailer_def kBlockSize_def kHeaderSize_def)
    then show ?thesis using True w(1) by (simp add: switch_block_def Let_def kHeaderSize_def)
  next
    case False
    then have o: "?o = ?p mod kBlockSize" using w(2,3) by simp
    then show ?thesis using w(1) False w(2) trailer_mod(2) [of ?p]
      by (auto simp: switch_block_def Let_def trailer_def lf_Append_def)
  qed
  then show "lw_dest (switch_block w) = \<lparr>lf_bytes = bytes @ replicate (trailer ?p) 0, lf_outcomes = []\<rparr>"
    and "lw_block_offset (switch_block w) = (?p + trailer ?p) mod kBlockSize" by simp_all
qed

lemma AddRecord_loop_at:
  "writer_at bytes w \<Longrightarrow> \<exists>w'. AddRecord_loop ext bgn data w = (True, w') \<and> writer_at (bytes @ record_bytes ext (length bytes) bgn data) w'"
proof (induction ext bgn data w arbitrary: bytes rule: AddRecord_loop.induct)
  case (1 ext bgn data w)
  let ?p = "length bytes"
  define n where "n = min (length data) (room_at ?p)"
  define c where "c = (trailer ?p, fragment_type bgn (length data = n), take n data)"
  define w1 where "w1 = switch_block w"
  define r where "r = EmitPhysicalRecord ext (fragment_type bgn (length data = n)) (take n data) w1"
  note sw = switch_block_at [OF "1.prems", folded w1_def]
  have n: "n = (if length data < kBlockSize - lw_block_offset w1 - kHeaderSize then length data else kBlockSize - lw_block_offset w1 - kHeaderSize)"
    by (simp add: n_def room_at_def sw(2) min_def)
  have fits: "lw_block_offset w1 + kHeaderSize + n \<le> kBlockSize"
    using trailer_mod(1) [of ?p] by (simp add: n_def room_at_def sw(2))
  have len: "length (chunk_bytes ext c) = trailer ?p + kHeaderSize + n" by (simp add: length_chunk_bytes c_def n_def)
  have "fst r" "lw_dest (snd r) = \<lparr>lf_bytes = bytes @ chunk_bytes ext c, lf_outcomes = []\<rparr>"
    by (simp_all add: r_def EmitPhysicalRecord_def lf_Append_def lf_Flush_def sw(1) c_def chunk_bytes_def)
  moreover have "lw_block_offset (snd r) = lw_block_offset w1 + kHeaderSize + n"
    by (simp add: r_def offset_Emit n_def)
  moreover have "(lw_block_offset w1 + kHeaderSize + n) mod kBlockSize = (?p + length (chunk_bytes ext c)) mod kBlockSize"
    unfolding len sw(2) by (simp add: mod_add_left_eq add.assoc)
  ultimately have r: "fst r" "writer_at (bytes @ chunk_bytes ext c) (snd r)" using fits by (simp_all add: writer_at_def)
  have step: "AddRecord_loop ext bgn data w = (if length data - n > 0 then AddRecord_loop ext False (drop n data) (snd r) else r)"
    using AddRecord_loop.simps [of ext bgn data w, unfolded Let_def, folded w1_def, folded n, folded r_def] r(1) by simp
  have bytes: "record_bytes ext ?p bgn data = chunk_bytes ext c
      @ (if length data = n then [] else record_bytes ext (?p + length (chunk_bytes ext c)) False (drop n data))"
    by (rule record_bytes_simps [of ext ?p bgn data, unfolded Let_def, folded n_def, folded c_def])
  show ?case
  proof (cases "length data = n")
    case True
    then show ?thesis using step bytes r by (intro exI [of _ "snd r"]) (simp add: prod_eq_iff)
  next
    case False
    then have "length data - n > 0" by (simp add: n_def)
    moreover from "1.IH" [OF refl refl refl refl, folded w1_def, folded n, folded r_def, OF _ r(2)] calculation r(1)
    obtain w' where "AddRecord_loop ext False (drop n data) (snd r) = (True, w')"
        "writer_at ((bytes @ chunk_bytes ext c) @ record_bytes ext (length (bytes @ chunk_bytes ext c)) False (drop n data)) w'"
      by blast
    ultimately show ?thesis using step bytes False by simp
  qed
qed

section \<open>Reading fragments\<close>

text \<open>A reader at file position \<open>pos\<close> with \<open>rest\<close> still to come: the buffer ends with its
  block, or, at the end of the file, before.\<close>

definition rd_ok :: "log_reader \<Rightarrow> nat \<Rightarrow> slice \<Rightarrow> bool" where
  "rd_ok r pos rest \<longleftrightarrow> rest = rd_buffer r @ rd_file r \<and> rd_outcomes r = [] \<and> rd_initial_offset r = 0
     \<and> \<not> rd_resyncing r \<and> rd_drops r = []
     \<and> (if rd_eof r then rd_file r = [] \<and> pos mod kBlockSize + length rest < kBlockSize
        else length (rd_buffer r) = kBlockSize - pos mod kBlockSize \<or> rd_buffer r = [] \<and> pos mod kBlockSize = 0)"

lemma rd_ok_offset: "rd_ok (r\<lparr>rd_last_record_offset := v\<rparr>) pos rest = rd_ok r pos rest"
  by (simp add: rd_ok_def)

lemma rd_ok_new: "rd_ok (log_Reader bytes [] checksum 0) 0 bytes"
  by (simp add: rd_ok_def log_Reader_def)

definition block_read :: "log_reader \<Rightarrow> log_reader" where
  "block_read r = r\<lparr>rd_file := drop kBlockSize (rd_file r), rd_buffer := take kBlockSize (rd_file r),
     rd_end_of_buffer_offset := rd_end_of_buffer_offset r + word_of_nat (length (take kBlockSize (rd_file r))),
     rd_eof := (length (take kBlockSize (rd_file r)) < kBlockSize)\<rparr>"

lemma read_block_ok: "rd_outcomes r = [] \<Longrightarrow> read_block r = (True, block_read r)"
  by (simp add: read_block_def file_ok_def block_read_def Let_def)

lemma rd_ok_block_read:
  assumes "rd_ok r pos rest" and "\<not> rd_eof r" and "p mod kBlockSize = 0"
  shows "rd_ok (block_read r) p (rd_file r)"
  using assms by (auto simp: rd_ok_def block_read_def)

lemma refill:
  assumes "rd_ok r pos rest" and "\<not> rd_eof r" and "length (rd_buffer r) < kHeaderSize"
  shows "rd_file r = drop (trailer pos) rest" and "(pos + trailer pos) mod kBlockSize = 0" and "fill_buffer r = fill_buffer (block_read r)"
proof -
  have lt: "pos mod kBlockSize < kBlockSize" by (simp add: kBlockSize_def)
  have r: "rest = rd_buffer r @ rd_file r" "rd_outcomes r = []"
      "length (rd_buffer r) = kBlockSize - pos mod kBlockSize \<or> rd_buffer r = [] \<and> pos mod kBlockSize = 0"
    using assms(1,2) by (auto simp: rd_ok_def)
  then have "length (rd_buffer r) = trailer pos \<and> (pos + trailer pos) mod kBlockSize = 0"
  proof (cases "kBlockSize - pos mod kBlockSize < kHeaderSize")
    case True
    then show ?thesis using r(3) lt trailer_mod(2) [OF True] by (auto simp: trailer_def kBlockSize_def kHeaderSize_def)
  next
    case False
    then show ?thesis using r(3) assms(3) by (auto simp: trailer_def)
  qed
  then show "rd_file r = drop (trailer pos) rest" "(pos + trailer pos) mod kBlockSize = 0" using r(1) by simp_all
  show "fill_buffer r = fill_buffer (block_read r)"
    using assms(2,3) by (subst fill_buffer.simps) (simp add: Let_def read_block_ok [OF r(2)])
qed

lemma fill_stay:
  assumes "rd_ok r pos rest" and "kHeaderSize \<le> length (rd_buffer r)"
  shows "trailer pos = 0" and "rd_buffer r = take (kBlockSize - pos mod kBlockSize) rest" and "fill_buffer r = (True, r)"
proof -
  show "trailer pos = 0" "rd_buffer r = take (kBlockSize - pos mod kBlockSize) rest"
    using assms by (auto simp: rd_ok_def trailer_def kHeaderSize_def split: if_splits)
  show "fill_buffer r = (True, r)" using assms(2) by (subst fill_buffer.simps) simp
qed

lemma fill_header:
  assumes "rd_ok r pos rest" and "trailer pos + kHeaderSize \<le> length rest"
  shows "\<exists>r'. fill_buffer r = (True, r') \<and> rd_ok r' (pos + trailer pos) (drop (trailer pos) rest)
    \<and> rd_buffer r' = take (kBlockSize - (pos + trailer pos) mod kBlockSize) (drop (trailer pos) rest) \<and> rd_checksum r' = rd_checksum r"
proof (cases "kHeaderSize \<le> length (rd_buffer r)")
  case True
  show ?thesis using fill_stay [OF assms(1) True] assms(1) by simp
next
  case False
  have "\<not> rd_eof r" using assms False by (auto simp: rd_ok_def)
  note f = refill [OF assms(1) this] and ok = rd_ok_block_read [OF assms(1) this, of "pos + trailer pos"]
  have "kHeaderSize \<le> length (rd_buffer (block_read r))"
    using assms(2) f(1) False by (simp add: block_read_def kBlockSize_def kHeaderSize_def)
  note st = fill_stay [OF ok this]
  show ?thesis using f st ok False by (simp add: block_read_def)
qed

lemma fill_end:
  assumes "rd_ok r pos rest" and "length rest < trailer pos + kHeaderSize"
  shows "\<exists>r'. fill_buffer r = (False, r') \<and> rd_drops r' = [] \<and> rd_left r' = 0"
proof (cases "kHeaderSize \<le> length (rd_buffer r)")
  case True
  then have "trailer pos = 0" using fill_stay [OF assms(1)] by simp
  then show ?thesis using assms True by (simp add: rd_ok_def)
next
  case small: False
  show ?thesis
  proof (cases "rd_eof r")
    case True
    then have "fill_buffer r = (False, r\<lparr>rd_buffer := []\<rparr>)" using small by (subst fill_buffer.simps) simp
    then show ?thesis using assms(1) True by (simp add: rd_ok_def rd_left_def)
  next
    case False
    note f = refill [OF assms(1) False] small
    let ?r = "block_read r"
    have "length (rd_file r) < kHeaderSize" using f assms(2) by simp
    then have "length (rd_buffer ?r) < kHeaderSize" "rd_eof ?r" "rd_file ?r = []" "rd_drops ?r = []"
      using assms(1) by (simp_all add: block_read_def rd_ok_def kBlockSize_def kHeaderSize_def)
    then show ?thesis using f by (simp add: fill_buffer.simps [of ?r] rd_left_def)
  qed
qed

lemma and_255: "(ucast (b :: byte) AND 255 :: 32 word) = ucast b"
proof -
  have "(255 :: 32 word) = mask 8" by (simp add: mask_eq_exp_minus_1)
  then show ?thesis
    by (simp only: take_bit_eq_mask [symmetric]) (rule bit_word_eqI, auto simp: bit_simps dest: bit_imp_le_length)
qed

lemma bit_two_bytes:
  assumes "bit n k \<Longrightarrow> k < 16" and "k < 32"
  shows "bit (ucast (word_of_nat n :: byte) OR push_bit 8 (ucast (word_of_nat (drop_bit 8 n) :: byte)) :: 32 word) k = bit (word_of_nat n :: 32 word) k"
proof (cases "k < 8")
  case True
  then show ?thesis by (auto simp: bit_simps)
next
  case False
  then have "8 + (k - 8) = k" by simp
  then show ?thesis using assms False by (auto simp: bit_simps)
qed

lemma decode_length:
  assumes "n < 2 ^ 16"
  shows "unat (ucast (word_of_nat n :: byte) AND 255 OR push_bit 8 (ucast (word_of_nat (n div 256) :: byte) AND 255) :: 32 word) = n"
proof -
  have hi: "k < 16" if "bit n k" for k
  proof -
    have "bit (take_bit 16 n) k" using that assms by (simp add: take_bit_nat_eq_self)
    then show ?thesis by (simp add: bit_take_bit_iff)
  qed
  have "n div 256 = drop_bit 8 n" by (simp add: drop_bit_eq_div)
  then have "(ucast (word_of_nat n :: byte) OR push_bit 8 (ucast (word_of_nat (n div 256) :: byte)) :: 32 word) = word_of_nat n"
    by (simp only:) (rule bit_word_eqI, rule bit_two_bytes [OF hi], simp_all)
  then have "unat (ucast (word_of_nat n :: byte) OR push_bit 8 (ucast (word_of_nat (n div 256) :: byte)) :: 32 word) = unat (word_of_nat n :: 32 word)"
    by (simp only:)
  also have "\<dots> = n" using assms by (simp add: unat_of_nat take_bit_nat_eq_self)
  finally show ?thesis unfolding and_255 .
qed

text \<open>The checksum of a concatenation, as \<open>crc32c.h\<close> documents \<open>Extend\<close>.\<close>

definition crc_extends :: "crc_extend \<Rightarrow> bool" where
  "crc_extends ext \<longleftrightarrow> (\<forall>c a b. ext (ext c a) b = ext c (a @ b))"

definition chunk_at :: "nat \<Rightarrow> chunk \<Rightarrow> bool" where
  "chunk_at pos c \<longleftrightarrow> fst c = trailer pos \<and> (pos + trailer pos) mod kBlockSize + kHeaderSize + length (snd (snd c)) \<le> kBlockSize
     \<and> fst (snd c) \<noteq> kZeroType"

lemma header_fields:
  assumes "length p < 2 ^ 16"
  shows "unat (ucast ((record_header ext t p @ s) ! 4) AND 0xff OR push_bit 8 (ucast ((record_header ext t p @ s) ! 5) AND 0xff) :: 32 word) = length p"
    and "(record_header ext t p @ s) ! 6 = record_code t"
    and "DecodeFixed32 (record_header ext t p @ s) = Mask (ext (crc_Value ext [record_code t]) p)"
    and "drop 6 (record_header ext t p @ s) = record_code t # s"
    and "drop kHeaderSize (record_header ext t p @ s) = s"
proof -
  have 4: "(record_header ext t p @ s) ! 4 = word_of_nat (length p)" "(record_header ext t p @ s) ! 5 = word_of_nat (length p div 256)"
    by (simp_all add: record_header_def nth_append)
  show "unat (ucast ((record_header ext t p @ s) ! 4) AND 0xff OR push_bit 8 (ucast ((record_header ext t p @ s) ! 5) AND 0xff) :: 32 word) = length p"
    unfolding 4 using decode_length [OF assms] .
  show "(record_header ext t p @ s) ! 6 = record_code t" "drop 6 (record_header ext t p @ s) = record_code t # s"
      "drop kHeaderSize (record_header ext t p @ s) = s"
    by (simp_all add: record_header_def nth_append kHeaderSize_def)
  show "DecodeFixed32 (record_header ext t p @ s) = Mask (ext (crc_Value ext [record_code t]) p)"
    by (simp add: record_header_def)
qed

lemma record_code_scast: "scast (record_code t) = (0 :: 32 word) \<longleftrightarrow> t = kZeroType"
  by (cases t) simp_all

lemma rd_ok_consume:
  assumes "rd_ok r pos rest" and "n \<le> length (rd_buffer r)" and "pos mod kBlockSize + n \<le> kBlockSize"
  shows "rd_ok (r\<lparr>rd_buffer := drop n (rd_buffer r)\<rparr>) (pos + n) (drop n rest)"
proof -
  have B: "0 < kBlockSize" by (simp add: kBlockSize_def)
  have m: "(pos + n) mod kBlockSize = (if pos mod kBlockSize + n = kBlockSize then 0 else pos mod kBlockSize + n)"
    using assms(3) by (metis B le_neq_implies_less mod_add_left_eq mod_less mod_self)
  show ?thesis using assms m B by (auto simp: rd_ok_def)
qed

lemma read_chunk:
  assumes "rd_ok r pos (chunk_bytes ext c @ rest)" and "chunk_at pos c" and "crc_extends ext"
  shows "\<exists>r'. ReadPhysicalRecord ext f r = (scast (record_code (fst (snd c))), snd (snd c), r')
    \<and> rd_ok r' (pos + length (chunk_bytes ext c)) rest"
proof -
  obtain t p where c: "c = (trailer pos, t, p)" using assms(2) by (cases c) (auto simp: chunk_at_def)
  let ?q = "pos + trailer pos" and ?B = "chunk_bytes ext c @ rest" and ?H = "record_header ext t p"
  have fits: "?q mod kBlockSize + kHeaderSize + length p \<le> kBlockSize" "t \<noteq> kZeroType" using assms(2) by (simp_all add: chunk_at_def c)
  have B: "drop (trailer pos) ?B = ?H @ p @ rest" by (simp add: c chunk_bytes_def)
  have hl: "length ?H = kHeaderSize" by (simp add: record_header_def kHeaderSize_def)
  have "trailer pos + kHeaderSize \<le> length ?B" by (simp add: length_chunk_bytes c)
  from fill_header [OF assms(1) this] obtain r1 where fill: "fill_buffer r = (True, r1)" and ok: "rd_ok r1 ?q (?H @ p @ rest)"
      and buf: "rd_buffer r1 = take (kBlockSize - ?q mod kBlockSize) (?H @ p @ rest)"
    unfolding B by blast
  have "kHeaderSize + length p \<le> kBlockSize - ?q mod kBlockSize" using fits(1) by simp
  then obtain s where s: "rd_buffer r1 = ?H @ p @ s"
    unfolding buf using hl by (simp add: take_append)
  have p16: "length p < 2 ^ 16" using fits(1) by (simp add: kBlockSize_def)
  note hdr = header_fields [OF p16, of ext t "p @ s"]
  have crc: "crc_Value ext (take (1 + length p) (drop 6 (rd_buffer r1))) = Unmask (DecodeFixed32 (rd_buffer r1))"
    unfolding s hdr(3,4) Unmask_Mask using assms(3) by (simp add: crc_Value_def crc_extends_def)
  define r2 where "r2 = r1\<lparr>rd_buffer := drop (kHeaderSize + length p) (rd_buffer r1)\<rparr>"
  have "rd_initial_offset r1 = 0" using ok by (simp add: rd_ok_def)
  then have "ReadPhysicalRecord ext f r = (scast (record_code t), p, r2)"
    using fits(2) crc hl unfolding ReadPhysicalRecord_def fill Let_def prod.case s hdr(1,2,5) r2_def
    by (simp add: record_code_scast)
  moreover have "rd_ok r2 (?q + (kHeaderSize + length p)) (drop (kHeaderSize + length p) (?H @ p @ rest))"
    unfolding r2_def using fits(1) hl by (intro rd_ok_consume [OF ok]) (simp_all add: s)
  ultimately show ?thesis by (intro exI [of _ r2]) (simp add: c length_chunk_bytes hl add.assoc)
qed

lemma read_cut_chunk:
  assumes "rd_ok r pos rest" and "chunk_at pos c" and "chunk_bytes ext c = rest @ x" and "x \<noteq> []"
  shows "\<exists>r'. ReadPhysicalRecord ext f r = (kEof, f, r') \<and> rd_drops r' = [] \<and> rd_left r' = 0"
proof -
  obtain t p where c: "c = (trailer pos, t, p)" using assms(2) by (cases c) (auto simp: chunk_at_def)
  let ?q = "pos + trailer pos" and ?H = "record_header ext t p"
  have hl: "length ?H = kHeaderSize" by (simp add: record_header_def kHeaderSize_def)
  have fits: "?q mod kBlockSize + kHeaderSize + length p \<le> kBlockSize" using assms(2) by (simp add: chunk_at_def c)
  have len: "length rest < trailer pos + kHeaderSize + length p"
    using arg_cong [OF assms(3), of length] assms(4) by (simp add: length_chunk_bytes c)
  show ?thesis
  proof (cases "length rest < trailer pos + kHeaderSize")
    case True
    then show ?thesis using fill_end [OF assms(1) True] by (auto simp: ReadPhysicalRecord_def)
  next
    case False
    then obtain r1 where fill: "fill_buffer r = (True, r1)" and ok: "rd_ok r1 ?q (drop (trailer pos) rest)"
        and buf: "rd_buffer r1 = take (kBlockSize - ?q mod kBlockSize) (drop (trailer pos) rest)"
      using fill_header [OF assms(1)] by auto
    have "drop (trailer pos) rest @ x = ?H @ p"
      using arg_cong [OF assms(3), of "drop (trailer pos)"] False by (simp add: c chunk_bytes_def)
    then have "drop (trailer pos) rest = take (length rest - trailer pos) (?H @ p)"
      by (metis append_eq_conv_conj length_drop)
    then obtain s where s: "drop (trailer pos) rest = ?H @ s"
      using False hl by (simp add: take_append)
    have "length rest - trailer pos \<le> kBlockSize - ?q mod kBlockSize" using len fits by simp
    then have b: "rd_buffer r1 = ?H @ s" unfolding buf s [symmetric] by simp
    have ls: "length s < length p" using len arg_cong [OF s, of length] hl False by simp
    have eof: "rd_eof r1"
    proof (rule ccontr)
      assume "\<not> rd_eof r1"
      then have "length (rd_buffer r1) = kBlockSize - ?q mod kBlockSize \<or> rd_buffer r1 = []" using ok by (auto simp: rd_ok_def)
      then show False using b ls fits hl by (auto simp: kHeaderSize_def)
    qed
    have p16: "length p < 2 ^ 16" using fits by (simp add: kBlockSize_def)
    note hdr = header_fields [OF p16, of ext t s]
    have "rd_file r1 = []" "rd_drops r1 = []" using ok eof by (simp_all add: rd_ok_def)
    moreover have "ReadPhysicalRecord ext f r = (kEof, f, r1\<lparr>rd_buffer := []\<rparr>)"
      using ls eof hl unfolding ReadPhysicalRecord_def fill Let_def prod.case b hdr(1) by simp
    ultimately show ?thesis by (simp add: rd_left_def)
  qed
qed

section \<open>Reading records\<close>

lemma chunks_at:
  "chunk_at pos (trailer pos, fragment_type bgn lst, take (min (length data) (room_at pos)) data)"
  using trailer_mod(1) [of pos] by (simp add: chunk_at_def room_at_def fragment_type_def)

lemma read_record:
  assumes "rd_ok r pos (record_bytes ext pos bgn data @ rest)" and "crc_extends ext"
  shows "\<exists>r'. ReadRecord_loop ext (\<not> bgn) s q f r = (Some ((if bgn then [] else s) @ data), r')
    \<and> rd_ok r' (pos + length (record_bytes ext pos bgn data)) rest"
  using assms(1)
proof (induction pos bgn data arbitrary: r s q f rule: chunks.induct)
  case (1 pos bgn data)
  define n where "n = min (length data) (room_at pos)"
  define c where "c = (trailer pos, fragment_type bgn (length data = n), take n data)"
  have bytes: "record_bytes ext pos bgn data = chunk_bytes ext c
      @ (if length data = n then [] else record_bytes ext (pos + length (chunk_bytes ext c)) False (drop n data))"
    by (rule record_bytes_simps [of ext pos bgn data, unfolded Let_def, folded n_def, folded c_def])
  define more where "more = (if length data = n then [] else record_bytes ext (pos + length (chunk_bytes ext c)) False (drop n data)) @ rest"
  have "rd_ok r pos (chunk_bytes ext c @ more)" using "1.prems" by (simp add: bytes more_def)
  moreover have "chunk_at pos c" unfolding c_def n_def by (rule chunks_at)
  ultimately obtain r1 where r1: "ReadPhysicalRecord ext f r = (scast (record_code (fragment_type bgn (length data = n))), take n data, r1)"
      "rd_ok r1 (pos + length (chunk_bytes ext c)) more"
    using read_chunk [OF _ _ assms(2)] unfolding c_def by fastforce
  have nr: "\<not> rd_resyncing r1" "r1\<lparr>rd_resyncing := False\<rparr> = r1" using r1(2) by (simp_all add: rd_ok_def)
  let ?ph = "rd_end_of_buffer_offset r1 - word_of_nat (length (rd_buffer r1)) - word_of_nat kHeaderSize - word_of_nat (length (take n data))"
  show ?case
  proof (cases "length data = n")
    case True
    have step: "ReadRecord_loop ext (\<not> bgn) s q f r = (Some ((if bgn then [] else s) @ data),
        r1\<lparr>rd_last_record_offset := (if bgn then ?ph else q)\<rparr>)"
      using r1(1) True by (subst ReadRecord_loop.simps) (simp add: Let_def fragment_type_def kEof_def nr)
    then show ?thesis using r1(2) True by (simp add: bytes more_def rd_ok_offset)
  next
    case False
    have step: "ReadRecord_loop ext (\<not> bgn) s q f r
        = ReadRecord_loop ext True ((if bgn then [] else s) @ take n data) (if bgn then ?ph else q) (take n data) r1"
      using r1(1) False by (subst ReadRecord_loop.simps) (simp add: Let_def fragment_type_def kEof_def nr)
    have pos: "pos + trailer pos + kHeaderSize + n = pos + length (chunk_bytes ext c)"
      by (simp add: length_chunk_bytes c_def n_def)
    from "1.IH" [OF n_def False, unfolded pos, where r = r1 and s = "(if bgn then [] else s) @ take n data" and q = "if bgn then ?ph else q" and f = "take n data"]
      r1(2) False
    show ?thesis unfolding step by (simp add: more_def bytes add.assoc)
  qed
qed

lemma read_cut_record:
  assumes "rd_ok r pos rest" and "record_bytes ext pos bgn data = rest @ x" and "x \<noteq> []" and "crc_extends ext"
  shows "\<exists>r'. ReadRecord_loop ext (\<not> bgn) s q f r = (None, r') \<and> rd_drops r' = []"
  using assms(1,2)
proof (induction pos bgn data arbitrary: r s q f rest rule: chunks.induct)
  case (1 pos bgn data)
  define n where "n = min (length data) (room_at pos)"
  define c where "c = (trailer pos, fragment_type bgn (length data = n), take n data)"
  define more where "more = (if length data = n then [] else record_bytes ext (pos + length (chunk_bytes ext c)) False (drop n data))"
  have bytes: "chunk_bytes ext c @ more = rest @ x"
    using "1.prems"(2) unfolding more_def by (subst (asm) record_bytes_simps) (simp only: Let_def n_def [symmetric] c_def [symmetric])
  have c: "chunk_at pos c" unfolding c_def n_def by (rule chunks_at)
  show ?case
  proof (cases "length rest < length (chunk_bytes ext c)")
    case True
    then have "take (length rest) (chunk_bytes ext c) = rest" using arg_cong [OF bytes, of "take (length rest)"] by simp
    then have "chunk_bytes ext c = rest @ drop (length rest) (chunk_bytes ext c)" by (metis append_take_drop_id)
    moreover have "drop (length rest) (chunk_bytes ext c) \<noteq> []" using True by simp
    ultimately obtain r' where
      r': "ReadPhysicalRecord ext f r = (kEof, f, r')" "rd_drops r' = []"
      using read_cut_chunk [OF "1.prems"(1) c, of ext _ f] by blast
    then show ?thesis by (subst ReadRecord_loop.simps) (simp add: Let_def)
  next
    case False
    define rest' where "rest' = drop (length (chunk_bytes ext c)) rest"
    have "take (length (chunk_bytes ext c)) rest = chunk_bytes ext c"
      using False arg_cong [OF bytes, of "take (length (chunk_bytes ext c))"] by simp
    then have rest: "rest = chunk_bytes ext c @ rest'" unfolding rest'_def by (metis append_take_drop_id)
    then have "more = rest' @ x" using bytes by simp
    note rest = rest this
    have ne: "length data \<noteq> n" using rest(2) assms(3) by (auto simp: more_def)
    obtain r1 where r1: "ReadPhysicalRecord ext f r = (scast (record_code (fragment_type bgn False)), take n data, r1)"
        "rd_ok r1 (pos + length (chunk_bytes ext c)) rest'"
      using read_chunk [OF "1.prems"(1) [unfolded rest(1)] c assms(4), of f] ne by (auto simp: c_def)
    have nr: "\<not> rd_resyncing r1" "r1\<lparr>rd_resyncing := False\<rparr> = r1" using r1(2) by (simp_all add: rd_ok_def)
    let ?ph = "rd_end_of_buffer_offset r1 - word_of_nat (length (rd_buffer r1)) - word_of_nat kHeaderSize - word_of_nat (length (take n data))"
    have step: "ReadRecord_loop ext (\<not> bgn) s q f r
        = ReadRecord_loop ext (\<not> False) ((if bgn then [] else s) @ take n data) (if bgn then ?ph else q) (take n data) r1"
      using r1(1) by (subst ReadRecord_loop.simps) (simp add: Let_def fragment_type_def kEof_def nr)
    have pos: "pos + trailer pos + kHeaderSize + n = pos + length (chunk_bytes ext c)"
      by (simp add: length_chunk_bytes c_def n_def)
    show ?thesis unfolding step
      by (rule "1.IH" [OF n_def ne, unfolded pos, OF r1(2)]) (use rest(2) ne in \<open>simp add: more_def\<close>)
  qed
qed

text \<open>Reading until no record is left.\<close>

lemma ReadRecord_loop_left:
  "fst (ReadRecord_loop ext i s q f r) = Some d \<Longrightarrow> rd_left (snd (ReadRecord_loop ext i s q f r)) < rd_left r"
proof (induction "rd_left r" arbitrary: i s q f r rule: less_induct)
  case less
  let ?p = "ReadPhysicalRecord ext f r"
  have upd: "rd_left (x\<lparr>rd_last_record_offset := v\<rparr>) = rd_left x" for x v by (simp add: rd_left_def)
  show ?case
  proof (cases "fst ?p = kEof")
    case True
    then show ?thesis using less.prems by (subst (asm) ReadRecord_loop.simps) (simp add: Let_def)
  next
    case False
    then have left: "rd_left (snd (snd ?p)) < rd_left r" by (rule ReadPhysicalRecord_left)
    have IH: "rd_left (snd (ReadRecord_loop ext i s q f r')) < rd_left r"
      if "fst (ReadRecord_loop ext i s q f r') = Some d" "rd_left r' = rd_left (snd (snd ?p))" for i s q f r'
      using less.hyps [of r' i s q f] that left by simp
    show ?thesis using less.prems left
      by (subst ReadRecord_loop.simps, subst (asm) ReadRecord_loop.simps)
        (auto simp: Let_def upd rd_left_resync kBadRecord_def False intro!: IH split: if_splits)
  qed
qed

lemma ReadRecord_left: "fst (ReadRecord ext r) = Some d \<Longrightarrow> rd_left (snd (ReadRecord ext r)) < rd_left r"
proof -
  assume some: "fst (ReadRecord ext r) = Some d"
  have "rd_left (snd (SkipToInitialBlock r)) \<le> rd_left r"
    by (auto simp: SkipToInitialBlock_def Let_def file_ok_def rd_left_def ReportDrop_def split: prod.splits if_splits list.splits)
  then show ?thesis using some ReadRecord_loop_left
    by (auto simp: ReadRecord_def split: prod.splits if_splits) (meson less_le_trans)
qed

lemma ReadRecord_at: "rd_ok r pos rest \<Longrightarrow> ReadRecord ext r = ReadRecord_loop ext (\<not> True) [] 0 [] r"
  by (simp add: ReadRecord_def rd_ok_def)

text \<open>The three outcomes of a read at a record boundary of a log cut off anywhere.\<close>

lemma read_log_end:
  assumes "rd_ok r pos []"
  shows "\<exists>r'. ReadRecord ext r = (None, r') \<and> rd_drops r' = []"
proof -
  have "length ([] :: slice) < trailer pos + kHeaderSize" by (simp add: kHeaderSize_def)
  from fill_end [OF assms this] obtain r' where "fill_buffer r = (False, r')" "rd_drops r' = []" by blast
  then show ?thesis unfolding ReadRecord_at [OF assms]
    by (subst ReadRecord_loop.simps) (simp add: ReadPhysicalRecord_def Let_def)
qed

lemma read_log_record:
  assumes "rd_ok r pos (record_bytes ext pos True d @ rest)" and "crc_extends ext"
  shows "\<exists>r'. ReadRecord ext r = (Some d, r') \<and> rd_ok r' (pos + length (record_bytes ext pos True d)) rest"
  using read_record [OF assms, of "[]" 0 "[]"] unfolding ReadRecord_at [OF assms(1)] by simp

lemma read_log_cut:
  assumes "rd_ok r pos rest" and "record_bytes ext pos True d = rest @ x" and "x \<noteq> []" and "crc_extends ext"
  shows "\<exists>r'. ReadRecord ext r = (None, r') \<and> rd_drops r' = []"
  using read_cut_record [OF assms, of "[]" 0 "[]"] unfolding ReadRecord_at [OF assms(1)] .

text \<open>Appending records one after the other.\<close>

fun AddRecords :: "crc_extend \<Rightarrow> slice list \<Rightarrow> log_writer \<Rightarrow> bool \<times> log_writer" where
  "AddRecords ext [] w = (True, w)"
| "AddRecords ext (d # ds) w = (case AddRecord ext d w of (ok, w) \<Rightarrow> if ok then AddRecords ext ds w else (False, w))"

lemma AddRecords_at:
  "writer_at bytes w \<Longrightarrow> \<exists>w'. AddRecords ext ds w = (True, w') \<and> writer_at (bytes @ log_bytes ext (length bytes) ds) w'"
proof (induction ds arbitrary: bytes w)
  case (Cons d ds)
  obtain w1 where w1: "AddRecord_loop ext True d w = (True, w1)" "writer_at (bytes @ record_bytes ext (length bytes) True d) w1"
    using AddRecord_loop_at [OF Cons.prems] by blast
  then show ?case using Cons.IH [OF w1(2)] by (simp add: AddRecord_def)
qed simp

end
