(* ===== verification/Ldb_Format.thy ===== *)
theory Ldb_Format
  imports Ldb_Coding
begin

text \<open>
  Keys of LevelDB: the bytewise order of slices (\<open>src/leveldb/include/leveldb/slice.h\<close>,
  \<open>util/comparator.cc\<close>) and internal keys (\<open>db/dbformat.h\<close>,
  \<open>db/dbformat.cc\<close>), a user key followed by a sequence number and a value type packed into
  eight bytes.  The assertions of the code are facts proved here.
\<close>

section \<open>Slices\<close>

fun memcmp :: "slice \<Rightarrow> slice \<Rightarrow> int" where
  "memcmp (a # as) (b # bs) = (if a < b then -1 else if b < a then 1 else memcmp as bs)"
| "memcmp _ _ = 0"

definition slice_compare :: "slice \<Rightarrow> slice \<Rightarrow> int" where
  "slice_compare a b =
     (let min_len = (if length a < length b then length a else length b);
          r = memcmp (take min_len a) (take min_len b)
      in if r = 0 then (if length a < length b then -1 else if length a > length b then 1 else r) else r)"

definition starts_with :: "slice \<Rightarrow> slice \<Rightarrow> bool" where
  "starts_with s x \<longleftrightarrow> length x \<le> length s \<and> memcmp (take (length x) s) x = 0"

section \<open>The bytewise comparator\<close>

fun diff_index :: "slice \<Rightarrow> slice \<Rightarrow> nat" where
  "diff_index (a # as) (b # bs) = (if a = b then Suc (diff_index as bs) else 0)"
| "diff_index _ _ = 0"

definition FindShortestSeparator :: "slice \<Rightarrow> slice \<Rightarrow> slice" where
  "FindShortestSeparator start limit =
     (let i = diff_index start limit in
      if min (length start) (length limit) \<le> i then start
      else let d = start ! i in
        if d < 0xff \<and> unat d + 1 < unat (limit ! i) then take (i + 1) (start[i := d + 1]) else start)"

fun FindShortSuccessor :: "slice \<Rightarrow> slice" where
  "FindShortSuccessor [] = []"
| "FindShortSuccessor (b # bs) = (if b \<noteq> 0xff then [b + 1] else b # FindShortSuccessor bs)"

section \<open>Internal keys\<close>

datatype ValueType = kTypeDeletion | kTypeValue

fun type_byte :: "ValueType \<Rightarrow> 64 word" where
  "type_byte kTypeDeletion = 0"
| "type_byte kTypeValue = 1"

definition kValueTypeForSeek :: ValueType where "kValueTypeForSeek = kTypeValue"

definition kMaxSequenceNumber :: "64 word" where "kMaxSequenceNumber = push_bit 56 1 - 1"

record ParsedInternalKey =
  pk_user_key :: slice
  pk_sequence :: "64 word"
  pk_type :: ValueType

definition InternalKeyEncodingLength :: "ParsedInternalKey \<Rightarrow> nat" where
  "InternalKeyEncodingLength k = length (pk_user_key k) + 8"

definition PackSequenceAndType :: "64 word \<Rightarrow> ValueType \<Rightarrow> 64 word" where
  "PackSequenceAndType seq t = push_bit 8 seq OR type_byte t"

definition AppendInternalKey :: "slice \<Rightarrow> ParsedInternalKey \<Rightarrow> slice" where
  "AppendInternalKey result k = PutFixed64 (result @ pk_user_key k) (PackSequenceAndType (pk_sequence k) (pk_type k))"

definition ExtractUserKey :: "slice \<Rightarrow> slice" where
  "ExtractUserKey k = take (length k - 8) k"

definition key_tag :: "slice \<Rightarrow> 64 word" where
  "key_tag k = DecodeFixed64 (drop (length k - 8) k)"

definition ParseInternalKey :: "slice \<Rightarrow> ParsedInternalKey option" where
  "ParseInternalKey k =
     (if length k < 8 then None
      else let num = key_tag k; c = num AND 0xff in
        if c = 0 then Some \<lparr>pk_user_key = take (length k - 8) k, pk_sequence = drop_bit 8 num, pk_type = kTypeDeletion\<rparr>
        else if c = 1 then Some \<lparr>pk_user_key = take (length k - 8) k, pk_sequence = drop_bit 8 num, pk_type = kTypeValue\<rparr>
        else None)"

definition internal_compare :: "slice \<Rightarrow> slice \<Rightarrow> int" where
  "internal_compare akey bkey =
     (let r = slice_compare (ExtractUserKey akey) (ExtractUserKey bkey) in
      if r = 0 then (if key_tag akey > key_tag bkey then -1 else if key_tag akey < key_tag bkey then 1 else r) else r)"

definition internal_FindShortestSeparator :: "slice \<Rightarrow> slice \<Rightarrow> slice" where
  "internal_FindShortestSeparator start limit =
     (let user_start = ExtractUserKey start; user_limit = ExtractUserKey limit;
          tmp = FindShortestSeparator user_start user_limit
      in if length tmp < length user_start \<and> slice_compare user_start tmp < 0
         then PutFixed64 tmp (PackSequenceAndType kMaxSequenceNumber kValueTypeForSeek) else start)"

definition internal_FindShortSuccessor :: "slice \<Rightarrow> slice" where
  "internal_FindShortSuccessor k =
     (let user_key = ExtractUserKey k; tmp = FindShortSuccessor user_key
      in if length tmp < length user_key \<and> slice_compare user_key tmp < 0
         then PutFixed64 tmp (PackSequenceAndType kMaxSequenceNumber kValueTypeForSeek) else k)"

record LookupKey =
  memtable_key :: slice
  lk_internal_key :: slice
  lk_user_key :: slice

definition LookupKey_new :: "slice \<Rightarrow> 64 word \<Rightarrow> LookupKey" where
  "LookupKey_new user_key s =
     (let k = user_key @ EncodeFixed64 (PackSequenceAndType s kValueTypeForSeek)
      in \<lparr>memtable_key = EncodeVarint32 (word_of_nat (length user_key + 8)) @ k, lk_internal_key = k, lk_user_key = user_key\<rparr>)"

section \<open>The order of slices\<close>

lemma memcmp_take:
  "slice_compare (a # as) (b # bs) = (if a < b then -1 else if b < a then 1 else slice_compare as bs)"
  by (simp add: slice_compare_def Let_def)

lemma slice_compare_Nil: "slice_compare [] b = (if b = [] then 0 else - 1)" "slice_compare a [] = (if a = [] then 0 else 1)"
  by (cases b; simp add: slice_compare_def) (cases a; simp add: slice_compare_def)

lemma slice_compare_both: "(slice_compare a b < 0 \<longleftrightarrow> a < b) \<and> (slice_compare a b = 0 \<longleftrightarrow> a = b)"
proof (induction a b rule: memcmp.induct)
  case (1 a as b bs)
  show ?case
  proof (cases a b rule: linorder_cases)
    case equal
    then show ?thesis using 1 by (simp add: memcmp_take)
  qed (auto simp: memcmp_take)
qed (auto simp: slice_compare_Nil neq_Nil_conv)

lemma slice_compare_order:
  "slice_compare a b < 0 \<longleftrightarrow> a < b" "slice_compare a b = 0 \<longleftrightarrow> a = b" "0 < slice_compare a b \<longleftrightarrow> b < a"
  using slice_compare_both [of a b] by (auto simp: linorder_neq_iff)

lemma slice_split:
  "a = b \<or> (\<exists>p x xs y ys. a = p @ x # xs \<and> b = p @ y # ys \<and> x \<noteq> y \<and> diff_index a b = length p)
   \<or> (diff_index a b = min (length a) (length b))"
proof (induction a b rule: diff_index.induct)
  case (1 a as b bs)
  show ?case
  proof (cases "a = b")
    case True
    from 1 [OF True] show ?thesis
    proof (elim disjE exE conjE)
      fix p x xs y ys
      assume "as = p @ x # xs" "bs = p @ y # ys" "x \<noteq> y" "diff_index as bs = length p"
      then have "a # as = (a # p) @ x # xs \<and> b # bs = (a # p) @ y # ys \<and> x \<noteq> y \<and> diff_index (a # as) (b # bs) = length (a # p)"
        using True by simp
      then show ?thesis by blast
    qed (use True in simp_all)
  next
    case False
    then have "a # as = [] @ a # as \<and> b # bs = [] @ b # bs \<and> a \<noteq> b \<and> diff_index (a # as) (b # bs) = length ([] :: slice)" by simp
    then show ?thesis by blast
  qed
qed simp_all

lemma append_less_iff: "p @ x # xs < p @ y # (ys :: slice) \<longleftrightarrow> x < y \<or> x = y \<and> xs < ys"
  by (induction p) auto

lemma byte_succ: "b < 0xff \<Longrightarrow> b < b + 1 \<and> unat (b + 1) = unat b + 1" for b :: byte
  by (simp add: word_less_nat_alt unat_word_ariths)

text \<open>A shortened separator lies between its arguments.\<close>

lemma FindShortestSeparator_between:
  assumes "start < limit"
  shows "start \<le> FindShortestSeparator start limit" and "FindShortestSeparator start limit < limit"
proof -
  define i where "i = diff_index start limit"
  have "start \<le> FindShortestSeparator start limit \<and> FindShortestSeparator start limit < limit"
  proof (cases "FindShortestSeparator start limit = start")
    case True
    with assms show ?thesis by simp
  next
    case False
    then have i: "\<not> min (length start) (length limit) \<le> i" "start ! i < 0xff" "unat (start ! i) + 1 < unat (limit ! i)"
      and eq: "FindShortestSeparator start limit = take (i + 1) (start[i := start ! i + 1])"
      by (auto simp: FindShortestSeparator_def Let_def i_def split: if_splits)
    from i(1) slice_split [of start limit] assms obtain p x xs y ys where
      p: "start = p @ x # xs" "limit = p @ y # ys" "i = length p" by (auto simp: i_def)
    have sep: "FindShortestSeparator start limit = p @ [x + 1]" unfolding eq by (simp add: p)
    have "x < x + 1" "x + 1 < y" using byte_succ [of x] i(2,3) p by (auto simp: word_less_nat_alt)
    then show ?thesis unfolding sep by (simp add: p less_imp_le append_less_iff)
  qed
  then show "start \<le> FindShortestSeparator start limit" "FindShortestSeparator start limit < limit" by simp_all
qed

lemma FindShortSuccessor_above: "k \<le> FindShortSuccessor k"
proof (induction k)
  case (Cons b bs)
  have "b \<noteq> 0xff \<Longrightarrow> b < b + 1"
  proof -
    assume "b \<noteq> 0xff"
    moreover have "b \<le> 0xff" using unat_range [of b] by (simp add: word_le_nat_alt)
    ultimately show ?thesis using byte_succ [of b] by simp
  qed
  then show ?case using Cons by auto
qed simp

section \<open>The order of internal keys\<close>

lemma internal_compare_order:
  "internal_compare a b < 0 \<longleftrightarrow> ExtractUserKey a < ExtractUserKey b \<or> ExtractUserKey a = ExtractUserKey b \<and> key_tag b < key_tag a"
  "internal_compare a b = 0 \<longleftrightarrow> ExtractUserKey a = ExtractUserKey b \<and> key_tag a = key_tag b"
  "0 < internal_compare a b \<longleftrightarrow> internal_compare b a < 0"
  by (auto simp: internal_compare_def Let_def slice_compare_order)

lemma internal_parts [simp]:
  "ExtractUserKey (u @ EncodeFixed64 t) = u" "key_tag (u @ EncodeFixed64 t) = t"
  using DecodeFixed64_Encode [of t "[]"] by (simp_all add: ExtractUserKey_def key_tag_def)

lemma type_byte_bit: "bit (type_byte t) n \<longleftrightarrow> n = 0 \<and> t = kTypeValue"
  by (cases t) (auto simp: bit_1_iff)

lemma unat_Pack:
  assumes "seq \<le> kMaxSequenceNumber"
  shows "unat (PackSequenceAndType seq t) = unat seq * 256 + unat (type_byte t)"
proof -
  have small: "unat seq < 2 ^ 56" using assms by (simp add: word_le_nat_alt kMaxSequenceNumber_def)
  have sh: "unat (push_bit 8 seq) = unat seq * 256"
    using small by (simp only: unsigned_push_bit_eq) (simp add: push_bit_eq_mult take_bit_nat_eq_self)
  have "push_bit 8 seq OR type_byte t = push_bit 8 seq + type_byte t"
    by (rule disjunctive_add [symmetric]) (auto simp: bit_push_bit_iff type_byte_bit)
  moreover have "unat (type_byte t) \<le> 1" by (cases t) simp_all
  ultimately show ?thesis
    using small by (simp add: PackSequenceAndType_def unat_word_ariths sh)
qed

lemma Pack_parts:
  assumes "seq \<le> kMaxSequenceNumber"
  shows "drop_bit 8 (PackSequenceAndType seq t) = seq" and "PackSequenceAndType seq t AND 0xff = type_byte t"
proof -
  have t: "unat (type_byte t) < 256" by (cases t) simp_all
  have "unat (drop_bit 8 (PackSequenceAndType seq t)) = unat seq"
    using t by (simp only: unat_drop_bit_eq unat_Pack [OF assms]) (simp add: drop_bit_eq_div)
  then show "drop_bit 8 (PackSequenceAndType seq t) = seq" by (simp add: word_unat_eq_iff)
  have m: "(0xff :: 64 word) = mask 8" by (simp add: mask_eq_exp_minus_1)
  have "unat (PackSequenceAndType seq t AND 0xff) = unat (type_byte t)"
    unfolding m take_bit_eq_mask [symmetric] using t
    by (simp only: unsigned_take_bit_eq unat_Pack [OF assms]) (simp add: take_bit_eq_mod)
  then show "PackSequenceAndType seq t AND 0xff = type_byte t" by (simp add: word_unat_eq_iff)
qed

lemma Pack_less:
  "s \<le> kMaxSequenceNumber \<Longrightarrow> s' \<le> kMaxSequenceNumber \<Longrightarrow>
   PackSequenceAndType s t < PackSequenceAndType s' t' \<longleftrightarrow> s < s' \<or> s = s' \<and> type_byte t < type_byte t'"
  by (cases t; cases t') (auto simp: word_less_nat_alt unat_Pack word_unat_eq_iff)

text \<open>An internal key parses back to its parts.\<close>

lemma ParseInternalKey_Append:
  assumes "pk_sequence k \<le> kMaxSequenceNumber"
  shows "ParseInternalKey (AppendInternalKey [] k) = Some k"
proof -
  let ?t = "PackSequenceAndType (pk_sequence k) (pk_type k)"
  have "key_tag (AppendInternalKey [] k) = ?t" by (simp add: AppendInternalKey_def PutFixed64_def)
  moreover have "take (length (AppendInternalKey [] k) - 8) (AppendInternalKey [] k) = pk_user_key k" "8 \<le> length (AppendInternalKey [] k)"
    by (simp_all add: AppendInternalKey_def PutFixed64_def)
  ultimately show ?thesis
    using Pack_parts [OF assms, of "pk_type k"] by (cases "pk_type k") (simp_all add: ParseInternalKey_def Let_def)
qed

lemma compare_refl: "internal_compare start start \<le> 0"
  using internal_compare_order(2) [of start start] by simp

lemma separator_bounds:
  assumes "8 \<le> length start" and "internal_compare start limit < 0"
  defines "sep \<equiv> internal_FindShortestSeparator start limit"
  shows "internal_compare start sep \<le> 0 \<and> internal_compare sep limit < 0 \<and> length sep \<le> length start
    \<and> (sep = start \<or> ExtractUserKey sep < ExtractUserKey limit)"
proof -
  define us ul where "us = ExtractUserKey start" and "ul = ExtractUserKey limit"
  have len: "length start = length us + 8" using assms(1) by (simp add: us_def ExtractUserKey_def)
  show ?thesis
  proof (cases "length (FindShortestSeparator us ul) < length us \<and> us < FindShortestSeparator us ul")
    case True
    then have sep: "sep = FindShortestSeparator us ul @ EncodeFixed64 (PackSequenceAndType kMaxSequenceNumber kValueTypeForSeek)"
      by (simp add: sep_def internal_FindShortestSeparator_def Let_def us_def ul_def PutFixed64_def slice_compare_order)
    have "us < ul"
    proof (rule ccontr)
      assume "\<not> us < ul"
      then have "us = ul" using assms(2) by (auto simp: internal_compare_order us_def ul_def)
      then have "FindShortestSeparator us ul = us" using slice_split [of us ul] by (auto simp: FindShortestSeparator_def Let_def)
      with True show False by simp
    qed
    from FindShortestSeparator_between [OF this] have "internal_compare sep limit < 0" "ExtractUserKey sep < ExtractUserKey limit"
      by (simp_all add: sep internal_compare_order ul_def)
    moreover have "internal_compare start sep < 0" using True by (simp add: sep internal_compare_order us_def)
    ultimately show ?thesis using True len by (simp add: sep)
  next
    case False
    then have "sep = start" by (auto simp: sep_def internal_FindShortestSeparator_def Let_def us_def ul_def slice_compare_order)
    then show ?thesis using assms(2) compare_refl by simp
  qed
qed

lemma successor_bounds:
  assumes "8 \<le> length start"
  shows "internal_compare start (internal_FindShortSuccessor start) \<le> 0 \<and> length (internal_FindShortSuccessor start) \<le> length start"
proof -
  define us where "us = ExtractUserKey start"
  have len: "length start = length us + 8" using assms(1) by (simp add: us_def ExtractUserKey_def)
  show ?thesis
  proof (cases "length (FindShortSuccessor us) < length us \<and> us < FindShortSuccessor us")
    case True
    then have "internal_FindShortSuccessor start = FindShortSuccessor us @ EncodeFixed64 (PackSequenceAndType kMaxSequenceNumber kValueTypeForSeek)"
      by (simp add: internal_FindShortSuccessor_def Let_def us_def PutFixed64_def slice_compare_order)
    with True len show ?thesis using internal_compare_order(1) [of start] by (simp add: us_def less_imp_le)
  next
    case False
    then have "internal_FindShortSuccessor start = start"
      by (auto simp: internal_FindShortSuccessor_def Let_def us_def slice_compare_order)
    then show ?thesis using compare_refl by simp
  qed
qed

text \<open>An index key separates its blocks.  For internal keys with \<open>start\<close> before
  \<open>limit\<close>, the key \<open>FindShortestSeparator\<close> of the internal comparator returns is not
  before \<open>start\<close> and is before \<open>limit\<close>, and \<open>FindShortSuccessor\<close> is not before its
  argument; neither is longer than the key it replaces.\<close>

theorem separator_between:
  assumes "8 \<le> length start" and "internal_compare start limit < 0"
  shows "internal_compare start (internal_FindShortestSeparator start limit) \<le> 0
    \<and> internal_compare (internal_FindShortestSeparator start limit) limit < 0
    \<and> length (internal_FindShortestSeparator start limit) \<le> length start
    \<and> internal_compare start (internal_FindShortSuccessor start) \<le> 0
    \<and> length (internal_FindShortSuccessor start) \<le> length start"
  using separator_bounds [OF assms] successor_bounds [OF assms(1)] by blast

theorem separator_between_witness:
  "internal_compare ([97, 98, 99, 100] @ EncodeFixed64 0x501) ([97, 104] @ EncodeFixed64 0x301) < 0
   \<and> internal_compare (internal_FindShortestSeparator ([97, 98, 99, 100] @ EncodeFixed64 0x501) ([97, 104] @ EncodeFixed64 0x301)) ([97, 104] @ EncodeFixed64 0x301) < 0
   \<and> length (internal_FindShortestSeparator ([97, 98, 99, 100] @ EncodeFixed64 0x501) ([97, 104] @ EncodeFixed64 0x301)) \<le> 12"
proof -
  have "8 \<le> length ([97, 98, 99, 100] @ EncodeFixed64 0x501)" by simp
  moreover have lt: "internal_compare ([97, 98, 99, 100] @ EncodeFixed64 0x501) ([97, 104] @ EncodeFixed64 0x301) < 0"
    unfolding internal_compare_order internal_parts by simp
  ultimately show ?thesis using separator_between [OF _ lt] by simp
qed

end
