(* ===== verification/Ldb_Skiplist.thy ===== *)
theory Ldb_Skiplist
  imports Ldb_Coding
begin

text \<open>
  The skip list under LevelDB's memtable (\<open>src/leveldb/db/skiplist.h\<close>) and its random
  number generator (\<open>src/leveldb/util/random.h\<close>).  The list of nodes linked by
  \<open>next_[i]\<close> is lane \<open>i\<close>; a node is its key, and \<open>None\<close> is the head as
  a start of a search and the null pointer as a result.  The two nested moves of the search
  loops, forward in a lane and down a level, are the recursions \<open>advance\<close> and
  \<open>descend\<close>.
\<close>

section \<open>Random numbers\<close>

definition Random_new :: "32 word \<Rightarrow> 32 word" where
  "Random_new s = (let seed = s AND 0x7fffffff in if seed = 0 \<or> seed = 2147483647 then 1 else seed)"

definition Random_Next :: "32 word \<Rightarrow> 32 word" where
  "Random_Next seed =
     (let product = ucast seed * 16807 :: 64 word;
          seed' = ucast (drop_bit 31 product + (product AND 2147483647)) :: 32 word
      in if seed' > 2147483647 then seed' - 2147483647 else seed')"

definition Random_Uniform :: "nat \<Rightarrow> 32 word \<Rightarrow> nat \<times> 32 word" where
  "Random_Uniform n seed = (let seed' = Random_Next seed in (unat seed' mod n, seed'))"

definition Random_OneIn :: "nat \<Rightarrow> 32 word \<Rightarrow> bool \<times> 32 word" where
  "Random_OneIn n seed = (let seed' = Random_Next seed in (unat seed' mod n = 0, seed'))"

definition Random_Skewed :: "nat \<Rightarrow> 32 word \<Rightarrow> nat \<times> 32 word" where
  "Random_Skewed max_log seed = (case Random_Uniform (max_log + 1) seed of (b, seed') \<Rightarrow> Random_Uniform (2 ^ b) seed')"

section \<open>The list\<close>

definition kMaxHeight :: nat where "kMaxHeight = 12"

record 'k skiplist =
  sl_lanes :: "'k list list"
  sl_max_height :: nat
  sl_rnd :: "32 word"

definition SkipList :: "'k skiplist" where
  "SkipList = \<lparr>sl_lanes = replicate kMaxHeight [], sl_max_height = 1, sl_rnd = Random_new 0xdeadbeef\<rparr>"

definition lane_from :: "'k option \<Rightarrow> 'k list \<Rightarrow> 'k list" where
  "lane_from x lane = (case x of None \<Rightarrow> lane | Some k \<Rightarrow> tl (dropWhile (\<lambda>y. y \<noteq> k) lane))"

fun advance :: "('k \<Rightarrow> bool) \<Rightarrow> 'k option \<Rightarrow> 'k list \<Rightarrow> 'k option \<times> 'k list" where
  "advance before x [] = (x, [])"
| "advance before x (y # ys) = (if before y then advance before (Some y) ys else (x, y # ys))"

text \<open>The nodes left on the levels from 0 up, and the nodes that follow on level 0.\<close>

fun descend :: "('k \<Rightarrow> bool) \<Rightarrow> 'k list list \<Rightarrow> nat \<Rightarrow> 'k option \<Rightarrow> 'k option list \<times> 'k list" where
  "descend before lanes 0 x =
     (case advance before x (lane_from x (lanes ! 0)) of (x', rest) \<Rightarrow> ([x'], rest))"
| "descend before lanes (Suc level) x =
     (case advance before x (lane_from x (lanes ! Suc level)) of (x', _) \<Rightarrow>
        case descend before lanes level x' of (prev, rest) \<Rightarrow> (prev @ [x'], rest))"

definition first_node :: "'k list \<Rightarrow> 'k option" where
  "first_node ns = (case ns of [] \<Rightarrow> None | n # _ \<Rightarrow> Some n)"

definition FindGreaterOrEqual :: "('k \<Rightarrow> 'k \<Rightarrow> int) \<Rightarrow> 'k \<Rightarrow> 'k skiplist \<Rightarrow> 'k option \<times> 'k option list" where
  "FindGreaterOrEqual cmp key s =
     (case descend (\<lambda>n. cmp n key < 0) (sl_lanes s) (sl_max_height s - 1) None of (prev, rest) \<Rightarrow> (first_node rest, prev))"

definition FindLessThan :: "('k \<Rightarrow> 'k \<Rightarrow> int) \<Rightarrow> 'k \<Rightarrow> 'k skiplist \<Rightarrow> 'k option" where
  "FindLessThan cmp key s = hd (fst (descend (\<lambda>n. \<not> cmp n key \<ge> 0) (sl_lanes s) (sl_max_height s - 1) None))"

definition FindLast :: "'k skiplist \<Rightarrow> 'k option" where
  "FindLast s = hd (fst (descend (\<lambda>n. True) (sl_lanes s) (sl_max_height s - 1) None))"

fun height_loop :: "nat \<Rightarrow> nat \<Rightarrow> 32 word \<Rightarrow> nat \<times> 32 word" where
  "height_loop 0 height rnd = (height, rnd)"
| "height_loop (Suc n) height rnd =
     (case Random_OneIn 4 rnd of (yes, rnd') \<Rightarrow> if yes then height_loop n (height + 1) rnd' else (height, rnd'))"

definition RandomHeight :: "32 word \<Rightarrow> nat \<times> 32 word" where
  "RandomHeight rnd = height_loop (kMaxHeight - 1) 1 rnd"

definition insert_after :: "'k option \<Rightarrow> 'k \<Rightarrow> 'k list \<Rightarrow> 'k list" where
  "insert_after x key lane =
     (case x of
        None \<Rightarrow> key # lane
      | Some k \<Rightarrow> takeWhile (\<lambda>y. y \<noteq> k) lane @ k # key # tl (dropWhile (\<lambda>y. y \<noteq> k) lane))"

definition sl_Insert :: "('k \<Rightarrow> 'k \<Rightarrow> int) \<Rightarrow> 'k \<Rightarrow> 'k skiplist \<Rightarrow> 'k skiplist" where
  "sl_Insert cmp key s =
     (let prev = snd (FindGreaterOrEqual cmp key s);
          (height, rnd) = RandomHeight (sl_rnd s);
          prev = prev @ replicate (height - sl_max_height s) None;
          lanes = map (\<lambda>i. if i < height then insert_after (prev ! i) key (sl_lanes s ! i) else sl_lanes s ! i) [0..<kMaxHeight]
      in \<lparr>sl_lanes = lanes, sl_max_height = max (sl_max_height s) height, sl_rnd = rnd\<rparr>)"

definition sl_Contains :: "('k \<Rightarrow> 'k \<Rightarrow> int) \<Rightarrow> 'k \<Rightarrow> 'k skiplist \<Rightarrow> bool" where
  "sl_Contains cmp key s = (case fst (FindGreaterOrEqual cmp key s) of Some x \<Rightarrow> cmp key x = 0 | None \<Rightarrow> False)"

text \<open>The iterator: its position after each operation.\<close>

definition iter_Seek :: "('k \<Rightarrow> 'k \<Rightarrow> int) \<Rightarrow> 'k \<Rightarrow> 'k skiplist \<Rightarrow> 'k option" where
  "iter_Seek cmp target s = fst (FindGreaterOrEqual cmp target s)"

definition iter_SeekToFirst :: "'k skiplist \<Rightarrow> 'k option" where
  "iter_SeekToFirst s = first_node (sl_lanes s ! 0)"

definition iter_SeekToLast :: "'k skiplist \<Rightarrow> 'k option" where
  "iter_SeekToLast s = FindLast s"

definition iter_Next :: "'k \<Rightarrow> 'k skiplist \<Rightarrow> 'k option" where
  "iter_Next node s = first_node (lane_from (Some node) (sl_lanes s ! 0))"

definition iter_Prev :: "('k \<Rightarrow> 'k \<Rightarrow> int) \<Rightarrow> 'k \<Rightarrow> 'k skiplist \<Rightarrow> 'k option" where
  "iter_Prev cmp node s = FindLessThan cmp node s"

section \<open>The generator\<close>

lemma Random_Next_mod:
  assumes "0 < unat seed" and "unat seed < 2147483647"
  shows "unat (Random_Next seed) = unat seed * 16807 mod 2147483647"
    and "0 < unat (Random_Next seed)" and "unat (Random_Next seed) < 2147483647"
proof -
  define p where "p = unat seed * 16807"
  have p: "p < 2147483647 * 16807" using assms(2) by (simp add: p_def)
  have prod: "unat (ucast seed * 16807 :: 64 word) = p"
    using p by (simp add: unat_word_ariths p_def)
  have hi: "unat (drop_bit 31 (ucast seed * 16807 :: 64 word)) = p div 2 ^ 31"
    by (simp only: unat_drop_bit_eq prod) (simp add: drop_bit_eq_div)
  have "(2147483647 :: 64 word) = mask 31" by (simp add: mask_eq_exp_minus_1)
  then have lo: "unat ((ucast seed * 16807 :: 64 word) AND 2147483647) = p mod 2 ^ 31"
    by (simp only: take_bit_eq_mask [symmetric] unsigned_take_bit_eq prod) (simp add: take_bit_eq_mod)
  define q where "q = p div 2 ^ 31 + p mod 2 ^ 31"
  have q: "q < 2 ^ 32" "q < 2 * 2147483647" using p by (auto simp: q_def)
  have sum: "unat (drop_bit 31 (ucast seed * 16807 :: 64 word) + ((ucast seed * 16807) AND 2147483647)) = q"
    using q by (simp only: unat_word_ariths hi lo) (simp add: q_def)
  have s': "unat (ucast (drop_bit 31 (ucast seed * 16807 :: 64 word) + ((ucast seed * 16807) AND 2147483647)) :: 32 word) = q"
    using q by (simp only: unsigned_ucast_eq sum) (simp add: take_bit_nat_eq_self)
  have mod: "p mod 2147483647 = q mod 2147483647"
  proof -
    have "p = p div 2 ^ 31 * 2147483647 + q" unfolding q_def by (simp add: algebra_simps)
    then show ?thesis by (metis mod_mult_self3)
  qed
  have nz: "p mod 2147483647 \<noteq> 0"
  proof
    assume "p mod 2147483647 = 0"
    then have "2147483647 dvd unat seed * 16807" unfolding p_def by (rule mod_0_imp_dvd)
    moreover have "coprime 2147483647 (16807 :: nat)"
    proof -
      have "coprime 2147483647 (7 ^ 5 :: nat)"
        unfolding coprime_power_right_iff by (simp add: coprime_iff_gcd_eq_1 gcd_red_nat [of 2147483647 7])
      then show ?thesis by simp
    qed
    ultimately have "2147483647 dvd unat seed" by (simp add: coprime_dvd_mult_left_iff)
    then show False using assms by (simp add: dvd_imp_le leD)
  qed
  have "unat (Random_Next seed) = (if 2147483647 < q then q - 2147483647 else q)"
    unfolding Random_Next_def Let_def using s' by (auto simp: word_less_nat_alt unat_sub word_le_nat_alt)
  also have "\<dots> = q mod 2147483647"
    using q nz mod by (auto simp: mod_if)
  finally show 1: "unat (Random_Next seed) = unat seed * 16807 mod 2147483647"
    using mod by (simp add: p_def)
  show "0 < unat (Random_Next seed)" "unat (Random_Next seed) < 2147483647"
    using nz by (simp_all add: 1 p_def)
qed

section \<open>Heights\<close>

lemma height_loop_bounds: "fst (height_loop n h rnd) \<in> {h..h + n}"
proof (induction n arbitrary: h rnd)
  case (Suc n)
  show ?case using Suc.IH [of "h + 1" "snd (Random_OneIn 4 rnd)"] by (cases "Random_OneIn 4 rnd") auto
qed simp

lemma RandomHeight_bounds: "1 \<le> fst (RandomHeight rnd)" "fst (RandomHeight rnd) \<le> kMaxHeight"
  using height_loop_bounds [of "kMaxHeight - 1" 1 rnd] by (auto simp: RandomHeight_def kMaxHeight_def)

section \<open>Searching a sorted lane\<close>

definition last_node :: "'k list \<Rightarrow> 'k option" where
  "last_node ns = (if ns = [] then None else Some (last ns))"

lemma advance_eq:
  "advance P x ns = (if takeWhile P ns = [] then x else Some (last (takeWhile P ns)), dropWhile P ns)"
  by (induction ns arbitrary: x) auto

definition closed_lane :: "('k \<Rightarrow> bool) \<Rightarrow> 'k list \<Rightarrow> bool" where
  "closed_lane P ns \<longleftrightarrow> distinct ns \<and> (\<forall>us x vs. ns = us @ x # vs \<longrightarrow> P x \<longrightarrow> (\<forall>u \<in> set us. P u))"

lemma lane_from_split: "distinct (us @ k # vs) \<Longrightarrow> lane_from (Some k) (us @ k # vs) = vs"
  by (induction us) (auto simp: lane_from_def)

lemma advance_lane:
  assumes "closed_lane P ns" and "x = None \<or> (\<exists>k \<in> set ns. x = Some k \<and> P k)"
  shows "advance P x (lane_from x ns) = (last_node (takeWhile P ns), dropWhile P ns)"
proof (cases x)
  case None
  then show ?thesis by (simp add: advance_eq lane_from_def last_node_def)
next
  case (Some k)
  then have k: "k \<in> set ns" "P k" using assms(2) by auto
  then obtain us vs where ns: "ns = us @ k # vs" by (meson split_list)
  have "\<forall>u \<in> set us. P u" using assms(1) k(2) ns by (auto simp: closed_lane_def)
  then have "takeWhile P ns = us @ k # takeWhile P vs" "dropWhile P ns = dropWhile P vs"
    using k(2) by (simp_all add: ns takeWhile_append dropWhile_append)
  moreover have "lane_from (Some k) ns = vs" using assms(1) by (simp add: ns lane_from_split closed_lane_def)
  ultimately show ?thesis by (simp add: Some advance_eq last_node_def)
qed

lemma descend_lanes:
  assumes "\<forall>i \<le> level. closed_lane P (lanes ! i)" and "\<forall>i < level. set (lanes ! Suc i) \<subseteq> set (lanes ! i)"
    and "x = None \<or> (\<exists>k \<in> set (lanes ! level). x = Some k \<and> P k)"
  shows "descend P lanes level x = (map (\<lambda>i. last_node (takeWhile P (lanes ! i))) [0..<Suc level], dropWhile P (lanes ! 0))"
  using assms
proof (induction level arbitrary: x)
  case 0
  then show ?case by (simp add: advance_lane)
next
  case (Suc level)
  let ?x = "last_node (takeWhile P (lanes ! Suc level))"
  have "advance P x (lane_from x (lanes ! Suc level)) = (?x, dropWhile P (lanes ! Suc level))"
    using Suc.prems(1,3) by (intro advance_lane) blast+
  moreover have "?x = None \<or> (\<exists>k \<in> set (lanes ! level). ?x = Some k \<and> P k)"
  proof (cases "takeWhile P (lanes ! Suc level) = []")
    case True
    then show ?thesis by (simp add: last_node_def)
  next
    case False
    from set_takeWhileD [OF last_in_set [OF False]] Suc.prems(2) show ?thesis
      using False by (auto simp: last_node_def)
  qed
  moreover have "descend P lanes level ?x = (map (\<lambda>i. last_node (takeWhile P (lanes ! i))) [0..<Suc level], dropWhile P (lanes ! 0))"
    using Suc.prems(1,2) by (intro Suc.IH calculation(2)) simp_all
  ultimately show ?case by simp
qed

lemma insert_after_lane:
  assumes "distinct ns"
  shows "insert_after (last_node (takeWhile P ns)) key ns = takeWhile P ns @ key # dropWhile P ns"
proof (cases "takeWhile P ns = []")
  case True
  then have "dropWhile P ns = ns" by (metis append_Nil takeWhile_dropWhile_id)
  then show ?thesis using True by (simp add: insert_after_def last_node_def)
next
  case False
  then obtain us k where k: "takeWhile P ns = us @ [k]" by (metis rev_exhaust)
  then have ns: "ns = us @ k # dropWhile P ns" by (metis append.assoc append_Cons append_Nil takeWhile_dropWhile_id)
  then have "k \<notin> set us" using assms by (metis distinct_append not_distinct_conv_prefix)
  then have "takeWhile (\<lambda>y. y \<noteq> k) ns = us" "dropWhile (\<lambda>y. y \<noteq> k) ns = k # dropWhile P ns"
    by (subst ns, auto simp: takeWhile_append dropWhile_append)+
  then show ?thesis using k by (simp add: insert_after_def last_node_def)
qed

section \<open>Ordered keys\<close>

text \<open>
  What the list asks of its comparator on the keys it holds: "less" is transitive, and a key
  that is neither less nor equal is greater.
\<close>

locale key_order =
  fixes cmp :: "'k \<Rightarrow> 'k \<Rightarrow> int" and valid :: "'k \<Rightarrow> bool"
  assumes less_trans: "valid a \<Longrightarrow> valid b \<Longrightarrow> valid c \<Longrightarrow> cmp a b < 0 \<Longrightarrow> cmp b c < 0 \<Longrightarrow> cmp a c < 0"
    and connex: "valid a \<Longrightarrow> valid b \<Longrightarrow> 0 < cmp a b \<Longrightarrow> cmp b a < 0"
    and refl: "valid a \<Longrightarrow> cmp a a = 0"
begin

definition lane_ok :: "'k list \<Rightarrow> bool" where
  "lane_ok ns \<longleftrightarrow> sorted_wrt (\<lambda>a b. cmp a b < 0) ns \<and> (\<forall>n \<in> set ns. valid n)"

definition list_ok :: "'k skiplist \<Rightarrow> bool" where
  "list_ok s \<longleftrightarrow> length (sl_lanes s) = kMaxHeight \<and> sl_max_height s \<in> {1..kMaxHeight}
     \<and> (\<forall>i < kMaxHeight. lane_ok (sl_lanes s ! i))
     \<and> (\<forall>i. Suc i < kMaxHeight \<longrightarrow> set (sl_lanes s ! Suc i) \<subseteq> set (sl_lanes s ! i))
     \<and> (\<forall>i < kMaxHeight. sl_max_height s \<le> i \<longrightarrow> sl_lanes s ! i = [])"

lemma list_ok_new: "list_ok SkipList"
  by (simp add: list_ok_def SkipList_def lane_ok_def kMaxHeight_def)

lemma lane_distinct: "lane_ok ns \<Longrightarrow> distinct ns"
proof (induction ns)
  case (Cons n ns)
  have "n \<notin> set ns"
  proof
    assume "n \<in> set ns"
    then have "cmp n n < 0" "valid n" using Cons.prems by (simp_all add: lane_ok_def)
    then show False using refl [of n] by simp
  qed
  then show ?case using Cons by (simp add: lane_ok_def)
qed simp

lemma lane_closed: "lane_ok ns \<Longrightarrow> valid key \<Longrightarrow> closed_lane (\<lambda>n. cmp n key < 0) ns"
proof -
  assume ns: "lane_ok ns" and key: "valid key"
  have "cmp u key < 0" if "ns = us @ x # vs" "cmp x key < 0" "u \<in> set us" for us x vs u
  proof (rule less_trans [OF _ _ key _ that(2)])
    show "cmp u x < 0" "valid u" "valid x" using ns that(1,3) by (auto simp: lane_ok_def sorted_wrt_append)
  qed
  then show ?thesis using lane_distinct [OF ns] unfolding closed_lane_def by blast
qed

lemma lane_join:
  assumes "lane_ok (A @ B)" and "valid key" and "\<And>a. a \<in> set A \<Longrightarrow> cmp a key < 0" and "\<And>b. b \<in> set B \<Longrightarrow> cmp key b < 0"
  shows "lane_ok (A @ key # B)"
  using assms by (simp add: lane_ok_def sorted_wrt_append)

lemma lane_after:
  assumes "lane_ok (y # ys)" and "valid key" and "cmp y key \<noteq> 0" and "\<not> cmp y key < 0" and "b \<in> set (y # ys)"
  shows "cmp key b < 0"
proof -
  have v: "valid y" "valid b" using assms(1,5) by (auto simp: lane_ok_def)
  have ky: "cmp key y < 0" using v(1) assms(2-4) by (intro connex) linarith+
  show ?thesis
  proof (cases "b = y")
    case False
    then have "cmp y b < 0" using assms(1,5) by (simp add: lane_ok_def)
    then show ?thesis using less_trans [OF assms(2) v ky] by simp
  qed (use ky in simp)
qed

lemma lane_insert:
  assumes "lane_ok ns" and "valid key" and "\<forall>n \<in> set ns. cmp n key \<noteq> 0"
  shows "lane_ok (takeWhile (\<lambda>n. cmp n key < 0) ns @ key # dropWhile (\<lambda>n. cmp n key < 0) ns)"
proof -
  define A B where "A = takeWhile (\<lambda>n. cmp n key < 0) ns" and "B = dropWhile (\<lambda>n. cmp n key < 0) ns"
  have AB: "ns = A @ B" by (simp add: A_def B_def)
  have "cmp key b < 0" if "b \<in> set B" for b
  proof (cases B)
    case Nil
    with that show ?thesis by simp
  next
    case (Cons y ys)
    have "lane_ok (y # ys)" using assms(1) by (simp add: AB Cons lane_ok_def sorted_wrt_append)
    moreover have "\<not> cmp y key < 0" using Cons by (simp add: B_def dropWhile_eq_Cons_conv)
    moreover have "cmp y key \<noteq> 0" using assms(3) by (simp add: AB Cons)
    ultimately show ?thesis using that lane_after [of y ys key b] assms(2) by (simp add: Cons)
  qed
  moreover have "cmp a key < 0" if "a \<in> set A" for a using that by (auto simp: A_def dest: set_takeWhileD)
  ultimately have "lane_ok (A @ key # B)" using assms(1,2) by (intro lane_join) (simp_all add: AB)
  then show ?thesis by (simp add: A_def B_def)
qed

lemma search_lanes:
  assumes "list_ok s" and "valid key"
  shows "descend (\<lambda>n. cmp n key < 0) (sl_lanes s) (sl_max_height s - 1) None
    = (map (\<lambda>i. last_node (takeWhile (\<lambda>n. cmp n key < 0) (sl_lanes s ! i))) [0..<sl_max_height s],
       dropWhile (\<lambda>n. cmp n key < 0) (sl_lanes s ! 0))"
proof -
  have h: "1 \<le> sl_max_height s" "sl_max_height s \<le> kMaxHeight" using assms(1) by (simp_all add: list_ok_def)
  have "\<forall>i \<le> sl_max_height s - 1. closed_lane (\<lambda>n. cmp n key < 0) (sl_lanes s ! i)"
    using assms h by (auto simp: list_ok_def intro!: lane_closed)
  moreover have "\<forall>i < sl_max_height s - 1. set (sl_lanes s ! Suc i) \<subseteq> set (sl_lanes s ! i)"
    using assms(1) h by (simp add: list_ok_def)
  ultimately show ?thesis using descend_lanes [of "sl_max_height s - 1" _ "sl_lanes s" None] h(1) by (simp add: Suc_diff_le)
qed

lemma FindGreaterOrEqual_first:
  assumes "list_ok s" and "valid key"
  shows "fst (FindGreaterOrEqual cmp key s) = List.find (\<lambda>n. \<not> cmp n key < 0) (sl_lanes s ! 0)"
proof -
  have "first_node (dropWhile P ns) = List.find (\<lambda>n. \<not> P n) ns" for P :: "'k \<Rightarrow> bool" and ns
    by (induction ns) (simp_all add: first_node_def)
  then show ?thesis using search_lanes [OF assms] by (simp add: FindGreaterOrEqual_def)
qed

lemma FindLessThan_last:
  assumes "list_ok s" and "valid key"
  shows "FindLessThan cmp key s = last_node (takeWhile (\<lambda>n. cmp n key < 0) (sl_lanes s ! 0))"
proof -
  have "1 \<le> sl_max_height s" using assms(1) by (simp add: list_ok_def)
  then show ?thesis
    using search_lanes [OF assms] by (simp add: FindLessThan_def not_le upt_conv_Cons)
qed

lemma lanes_Insert:
  assumes "list_ok s" and "valid key" and "i < kMaxHeight"
  defines "P \<equiv> \<lambda>n. cmp n key < 0"
  shows "sl_lanes (sl_Insert cmp key s) ! i = (if i < fst (RandomHeight (sl_rnd s))
     then takeWhile P (sl_lanes s ! i) @ key # dropWhile P (sl_lanes s ! i) else sl_lanes s ! i)"
proof -
  define L where "L = sl_lanes s ! i"
  obtain h rnd where h: "RandomHeight (sl_rnd s) = (h, rnd)" by (cases "RandomHeight (sl_rnd s)")
  have dist: "distinct L" using assms(1,3) by (simp add: list_ok_def L_def lane_distinct)
  let ?prev = "map (\<lambda>i. last_node (takeWhile P (sl_lanes s ! i))) [0..<sl_max_height s] @ replicate (h - sl_max_height s) None"
  have "?prev ! i = last_node (takeWhile P L)" if "i < h"
    using that assms(1,3) by (auto simp: nth_append L_def list_ok_def last_node_def)
  then have "i < h \<Longrightarrow> insert_after (?prev ! i) key L = takeWhile P L @ key # dropWhile P L"
    using insert_after_lane [OF dist] by simp
  then show ?thesis
    using search_lanes [OF assms(1,2)] assms(3)
    by (simp add: sl_Insert_def FindGreaterOrEqual_def h Let_def L_def P_def)
qed

lemma set_insert_lane: "set (takeWhile P ns @ key # dropWhile P ns) = insert key (set ns)"
proof -
  have "set ns = set (takeWhile P ns) \<union> set (dropWhile P ns)" by (metis set_append takeWhile_dropWhile_id)
  then show ?thesis by auto
qed

lemma list_ok_Insert:
  assumes "list_ok s" and "valid key" and "\<forall>n \<in> set (sl_lanes s ! 0). cmp n key \<noteq> 0"
  shows "list_ok (sl_Insert cmp key s)"
    and "sl_lanes (sl_Insert cmp key s) ! 0
      = takeWhile (\<lambda>n. cmp n key < 0) (sl_lanes s ! 0) @ key # dropWhile (\<lambda>n. cmp n key < 0) (sl_lanes s ! 0)"
proof -
  let ?s = "sl_Insert cmp key s"
  define h where "h = fst (RandomHeight (sl_rnd s))"
  have h: "1 \<le> h" "h \<le> kMaxHeight" using RandomHeight_bounds by (simp_all add: h_def)
  note lanes = lanes_Insert [OF assms(1,2), folded h_def]
  show "sl_lanes ?s ! 0 = takeWhile (\<lambda>n. cmp n key < 0) (sl_lanes s ! 0) @ key # dropWhile (\<lambda>n. cmp n key < 0) (sl_lanes s ! 0)"
    using lanes [of 0] h by (simp add: kMaxHeight_def)
  have mh: "sl_max_height ?s = max (sl_max_height s) h" "length (sl_lanes ?s) = kMaxHeight"
    by (simp_all add: sl_Insert_def h_def Let_def split: prod.split)
  have sub: "set (sl_lanes s ! i) \<subseteq> set (sl_lanes s ! 0)" if "i < kMaxHeight" for i
    using that assms(1) by (induction i) (auto simp: list_ok_def)
  have "lane_ok (sl_lanes ?s ! i)" if "i < kMaxHeight" for i
    using that assms sub [OF that] lane_insert [of "sl_lanes s ! i" key] by (auto simp: lanes list_ok_def)
  moreover have "set (sl_lanes ?s ! Suc i) \<subseteq> set (sl_lanes ?s ! i)" if "Suc i < kMaxHeight" for i
  proof -
    have "set (sl_lanes s ! Suc i) \<subseteq> set (sl_lanes s ! i)" using that assms(1) by (simp add: list_ok_def)
    then show ?thesis using that by (simp add: lanes set_insert_lane del: set_append) auto
  qed
  moreover have "sl_lanes ?s ! i = []" if "i < kMaxHeight" "sl_max_height ?s \<le> i" for i
    using that assms(1) by (simp add: lanes mh list_ok_def)
  ultimately show "list_ok ?s" using assms(1) h by (auto simp: list_ok_def mh)
qed

end

end
