(* ===== verification/Ldb_Memtable.thy ===== *)
theory Ldb_Memtable
  imports Ldb_Format Ldb_Skiplist
begin

text \<open>
  The memtable (\<open>src/leveldb/db/memtable.cc\<close>), a skip list of encoded entries, and write
  batches (\<open>db/write_batch.cc\<close>), the byte strings in which updates reach it.  A batch is
  its \<open>rep_\<close>.  The table reads entries through bare pointers; it only holds entries that
  \<open>Add\<close> wrote, for which the reads stay inside the entry.
\<close>

section \<open>Entries\<close>

definition ptr_slice :: "slice \<Rightarrow> slice \<times> slice" where
  "ptr_slice data =
     (case GetVarint32Ptr (take 5 data) of
        Some (len, r) \<Rightarrow> (let p = drop (length (take 5 data) - length r) data in (take (unat len) p, drop (unat len) p))
      | None \<Rightarrow> ([], []))"

definition mem_compare :: "slice \<Rightarrow> slice \<Rightarrow> int" where
  "mem_compare aptr bptr = internal_compare (fst (ptr_slice aptr)) (fst (ptr_slice bptr))"

definition EncodeKey :: "slice \<Rightarrow> slice" where
  "EncodeKey target = PutVarint32 [] (word_of_nat (length target)) @ target"

definition mem_entry :: "64 word \<Rightarrow> ValueType \<Rightarrow> slice \<Rightarrow> slice \<Rightarrow> slice" where
  "mem_entry s t key v =
     EncodeVarint32 (word_of_nat (length key + 8)) @ key @ EncodeFixed64 (push_bit 8 s OR type_byte t)
     @ EncodeVarint32 (word_of_nat (length v)) @ v"

section \<open>The table\<close>

type_synonym memtable = "slice skiplist"

definition MemTable_new :: memtable where "MemTable_new = SkipList"

definition mem_Add :: "64 word \<Rightarrow> ValueType \<Rightarrow> slice \<Rightarrow> slice \<Rightarrow> memtable \<Rightarrow> memtable" where
  "mem_Add s t key v m = sl_Insert mem_compare (mem_entry s t key v) m"

datatype mem_result = MemMiss | MemFound slice | MemNotFound

definition mem_Get :: "LookupKey \<Rightarrow> memtable \<Rightarrow> mem_result" where
  "mem_Get k m =
     (case iter_Seek mem_compare (memtable_key k) m of
        None \<Rightarrow> MemMiss
      | Some entry \<Rightarrow>
          (case ptr_slice entry of (ikey, rest) \<Rightarrow>
             if slice_compare (take (length ikey - 8) ikey) (lk_user_key k) = 0
             then (let tag = DecodeFixed64 (drop (length ikey - 8) ikey) in
                   if tag AND 0xff = 1 then MemFound (fst (ptr_slice rest))
                   else if tag AND 0xff = 0 then MemNotFound else MemMiss)
             else MemMiss))"

text \<open>The iterator of the table.\<close>

definition memiter_Seek :: "slice \<Rightarrow> memtable \<Rightarrow> slice option" where
  "memiter_Seek k m = iter_Seek mem_compare (EncodeKey k) m"

definition memiter_key :: "slice \<Rightarrow> slice" where
  "memiter_key node = fst (ptr_slice node)"

definition memiter_value :: "slice \<Rightarrow> slice" where
  "memiter_value node = fst (ptr_slice (snd (ptr_slice node)))"

section \<open>Write batches\<close>

definition kHeader :: nat where "kHeader = 12"

definition WriteBatch_Clear :: slice where "WriteBatch_Clear = replicate kHeader 0"

definition wb_Count :: "slice \<Rightarrow> 32 word" where
  "wb_Count rep = DecodeFixed32 (drop 8 rep)"

definition wb_SetCount :: "slice \<Rightarrow> 32 word \<Rightarrow> slice" where
  "wb_SetCount rep n = take 8 rep @ EncodeFixed32 n @ drop 12 rep"

definition wb_Sequence :: "slice \<Rightarrow> 64 word" where
  "wb_Sequence rep = DecodeFixed64 rep"

definition wb_SetSequence :: "slice \<Rightarrow> 64 word \<Rightarrow> slice" where
  "wb_SetSequence rep s = EncodeFixed64 s @ drop 8 rep"

definition wb_Put :: "slice \<Rightarrow> slice \<Rightarrow> slice \<Rightarrow> slice" where
  "wb_Put key v rep =
     PutLengthPrefixedSlice (PutLengthPrefixedSlice (wb_SetCount rep (wb_Count rep + 1) @ [ucast (type_byte kTypeValue)]) key) v"

definition wb_Delete :: "slice \<Rightarrow> slice \<Rightarrow> slice" where
  "wb_Delete key rep = PutLengthPrefixedSlice (wb_SetCount rep (wb_Count rep + 1) @ [ucast (type_byte kTypeDeletion)]) key"

definition wb_Append :: "slice \<Rightarrow> slice \<Rightarrow> slice" where
  "wb_Append dst src = wb_SetCount dst (wb_Count dst + wb_Count src) @ drop kHeader src"

datatype batch_op = BPut slice slice | BDelete slice

datatype wb_status = WbOk | TooSmall | BadPut | BadDelete | UnknownTag | WrongCount

text \<open>The loop of \<open>Iterate\<close>: the handler calls so far, the number of records found.\<close>

function iterate_loop :: "slice \<Rightarrow> 32 word \<Rightarrow> batch_op list \<Rightarrow> wb_status \<times> 32 word \<times> batch_op list" where
  "iterate_loop input found ops =
     (case input of
        [] \<Rightarrow> (WbOk, found, ops)
      | tag # input1 \<Rightarrow>
          if tag = 1
          then (case GetLengthPrefixedSlice input1 of
                  None \<Rightarrow> (BadPut, found + 1, ops)
                | Some (key, input2) \<Rightarrow>
                    (case GetLengthPrefixedSlice input2 of
                       None \<Rightarrow> (BadPut, found + 1, ops)
                     | Some (v, input3) \<Rightarrow> iterate_loop input3 (found + 1) (ops @ [BPut key v])))
          else if tag = 0
          then (case GetLengthPrefixedSlice input1 of
                  None \<Rightarrow> (BadDelete, found + 1, ops)
                | Some (key, input2) \<Rightarrow> iterate_loop input2 (found + 1) (ops @ [BDelete key]))
          else (UnknownTag, found + 1, ops))"
  by pat_completeness auto

termination
  by (relation "measure (\<lambda>(input, f, ops). length input)") (auto dest!: GetLengthPrefixedSlice_shorter)

declare iterate_loop.simps [simp del]

definition wb_Iterate :: "slice \<Rightarrow> wb_status \<times> batch_op list" where
  "wb_Iterate rep =
     (if length rep < kHeader then (TooSmall, [])
      else case iterate_loop (drop kHeader rep) 0 [] of (st, found, ops) \<Rightarrow>
        (if st \<noteq> WbOk then st else if found \<noteq> wb_Count rep then WrongCount else WbOk, ops))"

fun batch_insert :: "batch_op \<Rightarrow> 64 word \<times> memtable \<Rightarrow> 64 word \<times> memtable" where
  "batch_insert (BPut key v) (s, m) = (s + 1, mem_Add s kTypeValue key v m)"
| "batch_insert (BDelete key) (s, m) = (s + 1, mem_Add s kTypeDeletion key [] m)"

definition wb_InsertInto :: "slice \<Rightarrow> memtable \<Rightarrow> wb_status \<times> memtable" where
  "wb_InsertInto rep m = (case wb_Iterate rep of (st, ops) \<Rightarrow> (st, snd (fold batch_insert ops (wb_Sequence rep, m))))"

section \<open>Reading entries\<close>

lemma take5_Encode: "take 5 (EncodeVarint32 v @ s) = EncodeVarint32 v @ take (5 - length (EncodeVarint32 v)) s"
proof -
  have "unat (ucast v :: 64 word) < 128 ^ 5" using unat_range [of v] by simp
  from length_EncodeVarint64 [OF this] have "length (EncodeVarint32 v) \<le> 5" by (simp add: EncodeVarint32_loop)
  then show ?thesis by simp
qed

lemma unat_length: "length v < 2 ^ 32 \<Longrightarrow> unat (word_of_nat (length v) :: 32 word) = length v"
  by (simp add: unat_of_nat take_bit_nat_eq_self)

lemma ptr_slice_Encode:
  assumes "length v < 2 ^ 32"
  shows "ptr_slice (EncodeVarint32 (word_of_nat (length v)) @ v @ s) = (v, s)"
proof -
  let ?e = "EncodeVarint32 (word_of_nat (length v) :: 32 word)"
  have "GetVarint32Ptr (?e @ take (5 - length ?e) (v @ s)) = Some (word_of_nat (length v), take (5 - length ?e) (v @ s))"
    using GetVarint32_Encode by (simp add: GetVarint32_def del: take_append)
  then show ?thesis
    unfolding ptr_slice_def take5_Encode
    by (simp add: Let_def unat_length [OF assms] del: take_append) simp
qed

definition mem_valid :: "slice \<Rightarrow> bool" where
  "mem_valid e \<longleftrightarrow> (\<exists>k s. e = EncodeVarint32 (word_of_nat (length k)) @ k @ s \<and> 8 \<le> length k \<and> length k < 2 ^ 32)"

definition entry_key :: "slice \<Rightarrow> slice \<times> 64 word" where
  "entry_key e = (ExtractUserKey (fst (ptr_slice e)), key_tag (fst (ptr_slice e)))"

lemma mem_compare_order:
  "mem_compare a b < 0 \<longleftrightarrow> fst (entry_key a) < fst (entry_key b) \<or> fst (entry_key a) = fst (entry_key b) \<and> snd (entry_key b) < snd (entry_key a)"
  "mem_compare a b = 0 \<longleftrightarrow> entry_key a = entry_key b"
  "0 < mem_compare a b \<longleftrightarrow> mem_compare b a < 0"
  by (auto simp: mem_compare_def entry_key_def internal_compare_order)

interpretation mem: key_order mem_compare mem_valid
  by unfold_locales (auto simp: mem_compare_order)

lemma mem_entry_parts:
  assumes "length key + 8 < 2 ^ 32" and "length v < 2 ^ 32"
  shows "ptr_slice (mem_entry s t key v) = (key @ EncodeFixed64 (PackSequenceAndType s t), EncodeVarint32 (word_of_nat (length v)) @ v)"
    and "mem_valid (mem_entry s t key v)"
    and "entry_key (mem_entry s t key v) = (key, PackSequenceAndType s t)"
proof -
  let ?k = "key @ EncodeFixed64 (PackSequenceAndType s t)"
  have e: "mem_entry s t key v = EncodeVarint32 (word_of_nat (length ?k)) @ ?k @ EncodeVarint32 (word_of_nat (length v)) @ v"
    by (simp add: mem_entry_def PackSequenceAndType_def)
  show 1: "ptr_slice (mem_entry s t key v) = (?k, EncodeVarint32 (word_of_nat (length v)) @ v)"
    unfolding e using assms(1) by (intro ptr_slice_Encode) simp
  show "mem_valid (mem_entry s t key v)" unfolding mem_valid_def e using assms(1) by (intro exI conjI) (rule refl, simp_all)
  show "entry_key (mem_entry s t key v) = (key, PackSequenceAndType s t)" by (simp add: entry_key_def 1)
qed

lemma lookup_parts:
  assumes "length u + 8 < 2 ^ 32"
  shows "mem_valid (memtable_key (LookupKey_new u s))" and "entry_key (memtable_key (LookupKey_new u s)) = (u, PackSequenceAndType s kTypeValue)"
    and "lk_user_key (LookupKey_new u s) = u"
proof -
  let ?k = "u @ EncodeFixed64 (PackSequenceAndType s kTypeValue)"
  have e: "memtable_key (LookupKey_new u s) = EncodeVarint32 (word_of_nat (length ?k)) @ ?k @ []"
    by (simp add: LookupKey_new_def Let_def kValueTypeForSeek_def)
  show "mem_valid (memtable_key (LookupKey_new u s))"
    unfolding mem_valid_def e using assms by (intro exI conjI) (rule refl, simp_all)
  have "ptr_slice (memtable_key (LookupKey_new u s)) = (?k, [])" unfolding e using assms by (intro ptr_slice_Encode) simp
  then show "entry_key (memtable_key (LookupKey_new u s)) = (u, PackSequenceAndType s kTypeValue)" by (simp add: entry_key_def)
  show "lk_user_key (LookupKey_new u s) = u" by (simp add: LookupKey_new_def Let_def)
qed

section \<open>The newest visible version\<close>

type_synonym version = "64 word \<times> ValueType \<times> slice \<times> slice"

fun encode_version :: "version \<Rightarrow> slice" where
  "encode_version (s, t, k, v) = mem_entry s t k v"

fun version_ok :: "version \<Rightarrow> bool" where
  "version_ok (s, t, k, v) \<longleftrightarrow> s \<le> kMaxSequenceNumber \<and> length k + 8 < 2 ^ 32 \<and> length v < 2 ^ 32"

fun result_of :: "version \<Rightarrow> mem_result" where
  "result_of (s, kTypeValue, k, v) = MemFound v"
| "result_of (s, kTypeDeletion, k, v) = MemNotFound"

definition visible :: "slice \<Rightarrow> 64 word \<Rightarrow> version \<Rightarrow> bool" where
  "visible u snap x \<longleftrightarrow> fst (snd (snd x)) = u \<and> fst x \<le> snap"

definition holds :: "version list \<Rightarrow> memtable \<Rightarrow> bool" where
  "holds xs m \<longleftrightarrow> mem.list_ok m \<and> set (sl_lanes m ! 0) = encode_version ` set xs \<and> (\<forall>x \<in> set xs. version_ok x)
     \<and> sorted_wrt (<) (map fst xs)"

lemma encode_key: "version_ok x \<Longrightarrow> entry_key (encode_version x) = (fst (snd (snd x)), PackSequenceAndType (fst x) (fst (snd x)))"
  by (cases x) (simp add: mem_entry_parts)

lemma version_seq: "version_ok x \<Longrightarrow> fst x \<le> kMaxSequenceNumber"
  by (cases x) simp

lemma holds_new: "holds [] MemTable_new"
  using mem.list_ok_new by (simp add: holds_def MemTable_new_def SkipList_def kMaxHeight_def)

lemma holds_Add:
  assumes "holds xs m" and "version_ok (s, t, k, v)" and "\<forall>x \<in> set xs. fst x < s"
  shows "holds (xs @ [(s, t, k, v)]) (mem_Add s t k v m)"
proof -
  let ?e = "mem_entry s t k v"
  have ok: "mem.list_ok m" "set (sl_lanes m ! 0) = encode_version ` set xs" and vs: "\<forall>x \<in> set xs. version_ok x"
    using assms(1) by (simp_all add: holds_def)
  have val: "mem_valid ?e" "entry_key ?e = (k, PackSequenceAndType s t)"
    using assms(2) mem_entry_parts by simp_all
  have "mem_compare n ?e \<noteq> 0" if n: "n \<in> set (sl_lanes m ! 0)" for n
  proof -
    obtain x where x: "x \<in> set xs" "n = encode_version x" using n ok(2) by auto
    then have "fst x \<le> kMaxSequenceNumber" using vs version_seq by blast
    then have "PackSequenceAndType (fst x) (fst (snd x)) < PackSequenceAndType s t"
      using assms(2,3) x(1) by (simp add: Pack_less)
    then show ?thesis using x vs encode_key [of x] val(2) by (auto simp: mem_compare_order)
  qed
  then have "mem.list_ok (mem_Add s t k v m)"
    "sl_lanes (mem_Add s t k v m) ! 0 = takeWhile (\<lambda>n. mem_compare n ?e < 0) (sl_lanes m ! 0) @ ?e # dropWhile (\<lambda>n. mem_compare n ?e < 0) (sl_lanes m ! 0)"
    using mem.list_ok_Insert [OF ok(1) val(1)] by (simp_all add: mem_Add_def)
  moreover have "set (sl_lanes (mem_Add s t k v m) ! 0) = insert ?e (set (sl_lanes m ! 0))"
    unfolding calculation(2) by (rule mem.set_insert_lane)
  ultimately show ?thesis
    using ok(2) vs assms by (simp add: holds_def sorted_wrt_append)
qed

lemma distinct_fst:
  assumes "sorted_wrt (<) (map fst xs)" and "x \<in> set xs" and "z \<in> set xs" and "fst x = fst (z :: version)"
  shows "x = z"
proof -
  have "distinct (map fst xs)" using assms(1) by (simp add: strict_sorted_iff)
  then show ?thesis using assms(2-4) by (metis distinct_map inj_onD)
qed

lemma find_least:
  assumes "sorted_wrt R ns" and "e \<in> set ns" and "P e" and "\<And>f. f \<in> set ns \<Longrightarrow> P f \<Longrightarrow> \<not> R f e"
  shows "List.find P ns = Some e"
  using assms
proof (induction ns)
  case (Cons n ns)
  show ?case
  proof (cases "n = e")
    case False
    then have e: "e \<in> set ns" using Cons.prems(2) by simp
    then have "R n e" using Cons.prems(1) by simp
    then have "\<not> P n" using Cons.prems(4) [of n] by auto
    moreover have "List.find P ns = Some e" using Cons e by (intro Cons.IH) simp_all
    ultimately show ?thesis by simp
  qed (use Cons.prems(3) in simp)
qed simp

lemma not_before_lookup:
  assumes "version_ok x" and "length u + 8 < 2 ^ 32" and "snap \<le> kMaxSequenceNumber"
  shows "\<not> mem_compare (encode_version x) (memtable_key (LookupKey_new u snap)) < 0
    \<longleftrightarrow> u < fst (snd (snd x)) \<or> visible u snap x"
proof -
  have "PackSequenceAndType snap kTypeValue < PackSequenceAndType (fst x) (fst (snd x)) \<longleftrightarrow> snap < fst x"
    using Pack_less [OF assms(3) version_seq [OF assms(1)], of kTypeValue "fst (snd x)"] by (cases "fst (snd x)") auto
  then show ?thesis
    using encode_key [OF assms(1)] lookup_parts(2) [OF assms(2), of snap]
    by (auto simp: mem_compare_order visible_def not_less)
qed

lemma mem_Get_entry:
  assumes "version_ok x" and "iter_Seek mem_compare (memtable_key (LookupKey_new u snap)) m = Some (encode_version x)" and "length u + 8 < 2 ^ 32"
  shows "mem_Get (LookupKey_new u snap) m = (if fst (snd (snd x)) = u then result_of x else MemMiss)"
proof -
  obtain s t k v where x: "x = (s, t, k, v)" by (cases x)
  then have s: "s \<le> kMaxSequenceNumber" "length k + 8 < 2 ^ 32" "length v < 2 ^ 32" using assms(1) by simp_all
  have "ptr_slice (EncodeVarint32 (word_of_nat (length v)) @ v) = (v, [])" using ptr_slice_Encode [OF s(3), of "[]"] by simp
  moreover have "DecodeFixed64 (EncodeFixed64 (PackSequenceAndType s t)) = PackSequenceAndType s t"
    using DecodeFixed64_Encode [of _ "[]"] by simp
  ultimately show ?thesis
    using assms(2) Pack_parts(2) [OF s(1), of t] mem_entry_parts(1) [OF s(2,3), of s t] lookup_parts(3) [OF assms(3)]
    by (cases t) (simp_all add: x mem_Get_def slice_compare_order Let_def)
qed

lemma mem_Get_newest:
  assumes "holds xs m" and "length u + 8 < 2 ^ 32" and "snap \<le> kMaxSequenceNumber"
  shows "mem_Get (LookupKey_new u snap) m =
    (case filter (visible u snap) xs of [] \<Rightarrow> MemMiss | ys \<Rightarrow> result_of (last ys))"
proof -
  let ?t = "memtable_key (LookupKey_new u snap)" and ?L = "sl_lanes m ! 0"
  let ?P = "\<lambda>n. \<not> mem_compare n ?t < 0"
  have ok: "mem.list_ok m" "set ?L = encode_version ` set xs" "\<And>x. x \<in> set xs \<Longrightarrow> version_ok x" "sorted_wrt (<) (map fst xs)"
    using assms(1) by (simp_all add: holds_def)
  have srt: "sorted_wrt (\<lambda>a b. mem_compare a b < 0) ?L" using ok(1) by (simp add: mem.list_ok_def mem.lane_ok_def kMaxHeight_def)
  have seek: "iter_Seek mem_compare ?t m = List.find ?P ?L"
    using mem.FindGreaterOrEqual_first [OF ok(1) lookup_parts(1) [OF assms(2)]] by (simp add: iter_Seek_def)
  show ?thesis
  proof (cases "filter (visible u snap) xs")
    case Nil
    have "mem_Get (LookupKey_new u snap) m = MemMiss"
    proof (cases "List.find ?P ?L")
      case None
      then show ?thesis by (simp add: mem_Get_def seek)
    next
      case (Some e)
      then have "e \<in> set ?L" "?P e" by (auto simp: find_Some_iff)
      then obtain x where x: "x \<in> set xs" "e = encode_version x" using ok(2) by auto
      have "u < fst (snd (snd x))"
        using \<open>?P e\<close> Nil x not_before_lookup [OF ok(3) assms(2,3)] by (auto simp: filter_empty_conv)
      then show ?thesis using mem_Get_entry [OF ok(3) [OF x(1)], of u snap m] seek Some x(2) assms(2) by auto
    qed
    then show ?thesis using Nil by simp
  next
    case (Cons y ys)
    define x where "x = last (filter (visible u snap) xs)"
    have "x \<in> set (filter (visible u snap) xs)" unfolding x_def using Cons by (intro last_in_set) simp
    then have x: "x \<in> set xs" "visible u snap x" by simp_all
    have newest: "fst z \<le> fst x" if "z \<in> set xs" "visible u snap z" for z
    proof -
      have "sorted_wrt (<) (map fst (filter (visible u snap) xs))" using ok(4) by (simp add: sorted_wrt_map sorted_wrt_filter)
      moreover have "z \<in> set (filter (visible u snap) xs)" using that by simp
      moreover obtain zs where "filter (visible u snap) xs = zs @ [x]" unfolding x_def using Cons by (metis append_butlast_last_id list.discI)
      ultimately show ?thesis by (auto simp: sorted_wrt_append less_imp_le)
    qed
    have "List.find ?P ?L = Some (encode_version x)"
    proof (rule find_least [OF srt])
      show "encode_version x \<in> set ?L" using ok(2) x(1) by simp
      show "?P (encode_version x)" using not_before_lookup [OF ok(3) [OF x(1)] assms(2,3)] x(2) by simp
      fix f assume f: "f \<in> set ?L" "?P f"
      then obtain z where z: "z \<in> set xs" "f = encode_version z" using ok(2) by auto
      then have "u < fst (snd (snd z)) \<or> visible u snap z" using f(2) not_before_lookup [OF ok(3) assms(2,3)] by simp
      then have "\<not> mem_compare (encode_version z) (encode_version x) < 0"
        using x(2) newest [OF z(1)] encode_key [OF ok(3) [OF z(1)]] encode_key [OF ok(3) [OF x(1)]]
          Pack_less [OF version_seq [OF ok(3) [OF x(1)]] version_seq [OF ok(3) [OF z(1)]], of "fst (snd x)" "fst (snd z)"]
          distinct_fst [OF ok(4) x(1) z(1)]
        by (auto simp: mem_compare_order visible_def)
      then show "\<not> mem_compare f (encode_version x) < 0" by (simp add: z(2))
    qed
    then show ?thesis
      using mem_Get_entry [OF ok(3) [OF x(1)], of u snap m] seek x(2) assms(2) Cons by (simp add: visible_def x_def)
  qed
qed

section \<open>Batches are read back\<close>

fun op_bytes :: "batch_op \<Rightarrow> slice" where
  "op_bytes (BPut k v) = 1 # PutLengthPrefixedSlice [] k @ PutLengthPrefixedSlice [] v"
| "op_bytes (BDelete k) = 0 # PutLengthPrefixedSlice [] k"

fun op_ok :: "batch_op \<Rightarrow> bool" where
  "op_ok (BPut k v) \<longleftrightarrow> length k + 8 < 2 ^ 32 \<and> length v < 2 ^ 32"
| "op_ok (BDelete k) \<longleftrightarrow> length k + 8 < 2 ^ 32"

definition is_batch :: "slice \<Rightarrow> batch_op list \<Rightarrow> bool" where
  "is_batch rep ops \<longleftrightarrow> (\<exists>h. length h = 8 \<and> rep = h @ EncodeFixed32 (word_of_nat (length ops)) @ concat (map op_bytes ops))"

fun batch_add :: "batch_op \<Rightarrow> slice \<Rightarrow> slice" where
  "batch_add (BPut k v) rep = wb_Put k v rep"
| "batch_add (BDelete k) rep = wb_Delete k rep"

definition batch_of :: "batch_op list \<Rightarrow> slice" where
  "batch_of ops = fold batch_add ops WriteBatch_Clear"

lemma batch_fields:
  assumes "length h = 8"
  shows "wb_Count (h @ EncodeFixed32 n @ s) = n" and "wb_SetCount (h @ EncodeFixed32 n @ s) n' = h @ EncodeFixed32 n' @ s"
    and "drop kHeader (h @ EncodeFixed32 n @ s) = s" and "wb_SetSequence (h @ EncodeFixed32 n @ s) q = EncodeFixed64 q @ EncodeFixed32 n @ s"
  using assms by (simp_all add: wb_Count_def wb_SetCount_def kHeader_def wb_SetSequence_def)

lemma is_batch_Clear: "is_batch WriteBatch_Clear []"
proof -
  have "EncodeFixed32 0 = replicate 4 0" by (simp add: EncodeFixed32_def numeral_eq_Suc)
  then have "WriteBatch_Clear = replicate 8 0 @ EncodeFixed32 0"
    by (simp add: WriteBatch_Clear_def kHeader_def replicate_add [symmetric])
  then show ?thesis by (auto simp: is_batch_def intro!: exI [of _ "replicate 8 0"])
qed

lemma is_batch_add: "is_batch rep ops \<Longrightarrow> is_batch (batch_add op rep) (ops @ [op])"
  by (cases op)
    (auto simp: is_batch_def wb_Put_def wb_Delete_def batch_fields PutLengthPrefixedSlice_append [of "_ @ _"]
      PutLengthPrefixedSlice_append [of "PutLengthPrefixedSlice _ _"] add.commute)

lemma is_batch_of: "is_batch (batch_of ops) ops"
proof -
  have "is_batch (fold batch_add ops rep) (pre @ ops)" if "is_batch rep pre" for rep pre
    using that by (induction ops arbitrary: rep pre) (simp, metis append.assoc append_Cons append_Nil fold_simps(2) is_batch_add)
  from this [OF is_batch_Clear] show ?thesis by (simp add: batch_of_def)
qed

lemma is_batch_Append: "is_batch dst a \<Longrightarrow> is_batch src b \<Longrightarrow> is_batch (wb_Append dst src) (a @ b)"
  by (auto simp: is_batch_def wb_Append_def batch_fields kHeader_def)

lemma is_batch_SetSequence:
  "is_batch rep ops \<Longrightarrow> is_batch (wb_SetSequence rep q) ops \<and> wb_Sequence (wb_SetSequence rep q) = q"
  by (auto simp: is_batch_def batch_fields wb_Sequence_def)

lemma iterate_loop_ops:
  "\<forall>op \<in> set ops. op_ok op \<Longrightarrow>
   iterate_loop (concat (map op_bytes ops)) found acc = (WbOk, found + word_of_nat (length ops), acc @ ops)"
proof (induction ops arbitrary: found acc)
  case Nil
  then show ?case by (simp add: iterate_loop.simps)
next
  case (Cons op ops)
  then show ?case
    by (cases op) (simp_all add: iterate_loop.simps [of "op_bytes _ @ _"] iterate_loop.simps [of "_ # _"] ac_simps)
qed

lemma Iterate_batch:
  assumes "is_batch rep ops" and "\<forall>op \<in> set ops. op_ok op"
  shows "wb_Iterate rep = (WbOk, ops)"
  using assms iterate_loop_ops [OF assms(2), of 0 "[]"] by (auto simp: is_batch_def wb_Iterate_def batch_fields kHeader_def)

fun versions :: "64 word \<Rightarrow> batch_op list \<Rightarrow> version list" where
  "versions s [] = []"
| "versions s (BPut k v # ops) = (s, kTypeValue, k, v) # versions (s + 1) ops"
| "versions s (BDelete k # ops) = (s, kTypeDeletion, k, []) # versions (s + 1) ops"

lemma versions_append: "versions s (a @ b) = versions s a @ versions (s + word_of_nat (length a)) b"
  by (induction s a rule: versions.induct) (simp_all add: ac_simps)

lemma holds_insert:
  assumes "holds xs m" and "\<forall>op \<in> set ops. op_ok op" and "unat s + length ops \<le> 2 ^ 56" and "\<forall>x \<in> set xs. fst x < s"
  shows "holds (xs @ versions s ops) (snd (fold batch_insert ops (s, m)))"
  using assms
proof (induction ops arbitrary: xs s m)
  case (Cons op ops)
  have s: "s \<le> kMaxSequenceNumber" using Cons.prems(3) by (simp add: word_le_nat_alt kMaxSequenceNumber_def)
  have s1: "unat (s + 1) = unat s + 1" using Cons.prems(3) by (simp add: unat_word_ariths)
  then have less: "s < s + 1" by (simp add: word_less_nat_alt)
  then have older: "\<forall>x \<in> set xs. fst x < s + 1" using Cons.prems(4) by (meson order.strict_trans)
  have step: "holds (xs @ x # versions (s + 1) ops) (snd (fold batch_insert ops (s + 1, m')))"
    if "holds (xs @ [x]) m'" "fst x = s" for x m'
    using Cons.IH [OF that(1), of "s + 1"] Cons.prems(2,3) that(2) less older s1 by auto
  show ?case using Cons.prems(1,2,4) s step holds_Add by (cases op) simp_all
qed simp

end
