(* ===== verification/Ldb_Write.thy ===== *)
theory Ldb_Write
  imports Ldb_Memtable
begin

text \<open>
  Reads and writes of an open database (\<open>src/leveldb/db/db_impl.cc\<close>): the group commit of
  queued writers, which joins their batches, the switch to a new memtable when the current one is
  full, and the lookup order of \<open>Get\<close>.  A writer is its batch, absent for a forced
  compaction, and its sync flag; the first of the list is at the front of the queue.

  What the file system answers and what the compaction thread does while the mutex is released
  are inputs (\<open>write_env\<close>): whether appending, syncing, opening and closing a log file
  succeed, the number of level-0 files and the memory in use at each turn of
  \<open>MakeRoomForWrite\<close>, and whether the full memtable has been written out meanwhile.
  The memtables written out are kept in \<open>ldb_tables\<close>, newest first; the lookup in the
  files made of them is a parameter of \<open>Get\<close>.
\<close>

section \<open>The database\<close>

datatype write_status = WriteOk | IoError | BatchError wb_status

record ldb =
  ldb_last_sequence :: "64 word"
  ldb_mem :: memtable
  ldb_imm :: "memtable option"
  ldb_tables :: "memtable list"
  ldb_bg_error :: write_status
  ldb_log :: "slice list"
  ldb_log_number :: "64 word"
  ldb_next_file_number :: "64 word"

text \<open>An empty database whose log is the file \<open>n\<close>.\<close>

definition ldb_new :: "64 word \<Rightarrow> ldb" where
  "ldb_new n = \<lparr>ldb_last_sequence = 0, ldb_mem = MemTable_new, ldb_imm = None, ldb_tables = [],
     ldb_bg_error = WriteOk, ldb_log = [], ldb_log_number = n, ldb_next_file_number = n + 1\<rparr>"

definition DBImpl_Get ::
    "(memtable list \<Rightarrow> LookupKey \<Rightarrow> mem_result) \<Rightarrow> 64 word option \<Rightarrow> slice \<Rightarrow> ldb \<Rightarrow> mem_result" where
  "DBImpl_Get current snapshot key d =
     (let lkey = LookupKey_new key (case snapshot of Some s \<Rightarrow> s | None \<Rightarrow> ldb_last_sequence d)
      in case mem_Get lkey (ldb_mem d) of
           MemMiss \<Rightarrow> (case ldb_imm d of
                         Some imm \<Rightarrow> (case mem_Get lkey imm of MemMiss \<Rightarrow> current (ldb_tables d) lkey | r \<Rightarrow> r)
                       | None \<Rightarrow> current (ldb_tables d) lkey)
         | r \<Rightarrow> r)"

section \<open>Making room\<close>

definition NewFileNumber :: "ldb \<Rightarrow> 64 word \<times> ldb" where
  "NewFileNumber d = (ldb_next_file_number d, d\<lparr>ldb_next_file_number := ldb_next_file_number d + 1\<rparr>)"

definition ReuseFileNumber :: "64 word \<Rightarrow> ldb \<Rightarrow> ldb" where
  "ReuseFileNumber n d = (if ldb_next_file_number d = n + 1 then d\<lparr>ldb_next_file_number := n\<rparr> else d)"

definition RecordBackgroundError :: "write_status \<Rightarrow> ldb \<Rightarrow> ldb" where
  "RecordBackgroundError s d = (if ldb_bg_error d = WriteOk then d\<lparr>ldb_bg_error := s\<rparr> else d)"

text \<open>What the compaction thread did while the mutex was released.\<close>

record background =
  bg_flushed :: bool
  bg_failed :: bool

definition run_background :: "background \<Rightarrow> ldb \<Rightarrow> ldb" where
  "run_background b d =
     (let d = (case ldb_imm d of
                 Some m \<Rightarrow> if bg_flushed b then d\<lparr>ldb_imm := None, ldb_tables := m # ldb_tables d\<rparr> else d
               | None \<Rightarrow> d)
      in if bg_failed b then RecordBackgroundError IoError d else d)"

record room_turn =
  rt_level0 :: nat
  rt_memory :: nat
  rt_open_ok :: bool
  rt_close_ok :: bool
  rt_background :: background

fun room_loop :: "nat \<Rightarrow> room_turn list \<Rightarrow> bool \<Rightarrow> bool \<Rightarrow> write_status \<Rightarrow> ldb \<Rightarrow> (write_status \<times> ldb) option" where
  "room_loop write_buffer_size [] allow_delay force s d = None"
| "room_loop write_buffer_size (t # ts) allow_delay force s d =
     (if ldb_bg_error d \<noteq> WriteOk then Some (ldb_bg_error d, d)
      else if allow_delay \<and> 8 \<le> rt_level0 t
      then room_loop write_buffer_size ts False force s (run_background (rt_background t) d)
      else if \<not> force \<and> rt_memory t \<le> write_buffer_size then Some (s, d)
      else if ldb_imm d \<noteq> None
      then room_loop write_buffer_size ts allow_delay force s (run_background (rt_background t) d)
      else if 12 \<le> rt_level0 t
      then room_loop write_buffer_size ts allow_delay force s (run_background (rt_background t) d)
      else case NewFileNumber d of (new_log_number, d) \<Rightarrow>
        if \<not> rt_open_ok t then Some (IoError, ReuseFileNumber new_log_number d)
        else let s = (if rt_close_ok t then WriteOk else IoError);
                 d = (if s = WriteOk then d else RecordBackgroundError s d)
             in room_loop write_buffer_size ts allow_delay False s
                  (d\<lparr>ldb_log := [], ldb_log_number := new_log_number, ldb_imm := Some (ldb_mem d), ldb_mem := MemTable_new\<rparr>))"

text \<open>\<open>None\<close> while the write is still held back after the given turns.\<close>

definition MakeRoomForWrite :: "nat \<Rightarrow> room_turn list \<Rightarrow> bool \<Rightarrow> ldb \<Rightarrow> (write_status \<times> ldb) option" where
  "MakeRoomForWrite write_buffer_size ts force d = room_loop write_buffer_size ts (\<not> force) force WriteOk d"

section \<open>Writing\<close>

type_synonym writer = "slice option \<times> bool"

fun group_loop :: "slice \<Rightarrow> bool \<Rightarrow> nat \<Rightarrow> nat \<Rightarrow> slice option \<Rightarrow> nat \<Rightarrow> writer list \<Rightarrow> slice option \<times> nat" where
  "group_loop first first_sync max_size sz tmp n [] = (tmp, n)"
| "group_loop first first_sync max_size sz tmp n (w # ws) =
     (if snd w \<and> \<not> first_sync then (tmp, n)
      else case fst w of
        None \<Rightarrow> group_loop first first_sync max_size sz tmp (n + 1) ws
      | Some b \<Rightarrow>
          if max_size < sz + length b then (tmp, n)
          else group_loop first first_sync max_size (sz + length b)
                 (Some (wb_Append (case tmp of None \<Rightarrow> wb_Append WriteBatch_Clear first | Some r \<Rightarrow> r) b)) (n + 1) ws)"

text \<open>The batch to write and the number of writers it serves; \<open>tmp\<close> is \<open>tmp_batch_\<close> once it is in use.\<close>

definition BuildBatchGroup :: "slice \<Rightarrow> bool \<Rightarrow> writer list \<Rightarrow> slice \<times> nat" where
  "BuildBatchGroup first first_sync ws =
     (let sz = length first;
          max_size = (if sz \<le> 128 * 1024 then sz + 128 * 1024 else 2 ^ 20)
      in case group_loop first first_sync max_size sz None 1 ws of
           (tmp, n) \<Rightarrow> (case tmp of None \<Rightarrow> first | Some r \<Rightarrow> r, n))"

record write_env =
  we_turns :: "room_turn list"
  we_append_ok :: bool
  we_sync_ok :: bool
  we_background :: background

text \<open>Numbering the batch, logging it and applying it to the memtable.\<close>

definition commit_batch :: "write_env \<Rightarrow> bool \<Rightarrow> slice \<Rightarrow> ldb \<Rightarrow> write_status \<times> ldb" where
  "commit_batch e sync write_batch d =
     (let write_batch = wb_SetSequence write_batch (ldb_last_sequence d + 1);
          last_sequence = ldb_last_sequence d + scast (wb_Count write_batch);
          d = run_background (we_background e) d;
          d = (if we_append_ok e then d\<lparr>ldb_log := ldb_log d @ [write_batch]\<rparr> else d);
          sync_error = (we_append_ok e \<and> sync \<and> \<not> we_sync_ok e);
          (status, d) =
            (if we_append_ok e \<and> \<not> sync_error
             then case wb_InsertInto write_batch (ldb_mem d) of
                    (st, m) \<Rightarrow> (if st = WbOk then WriteOk else BatchError st, d\<lparr>ldb_mem := m\<rparr>)
             else (IoError, d));
          d = (if sync_error then RecordBackgroundError status d else d)
      in (status, d\<lparr>ldb_last_sequence := last_sequence\<rparr>))"

definition DBImpl_Write :: "nat \<Rightarrow> write_env \<Rightarrow> writer list \<Rightarrow> ldb \<Rightarrow> (write_status \<times> ldb \<times> writer list) option" where
  "DBImpl_Write write_buffer_size e writers d =
     (case writers of
        [] \<Rightarrow> None
      | (updates, sync) # ws \<Rightarrow>
          (case MakeRoomForWrite write_buffer_size (we_turns e) (updates = None) d of
             None \<Rightarrow> None
           | Some (status, d) \<Rightarrow>
               (case updates of
                  Some first \<Rightarrow>
                    if status = WriteOk
                    then case BuildBatchGroup first sync ws of (write_batch, n) \<Rightarrow>
                      (case commit_batch e sync write_batch d of (status, d) \<Rightarrow> Some (status, d, drop n writers))
                    else Some (status, d, ws)
                | None \<Rightarrow> Some (status, d, ws))))"

definition DB_Put :: "nat \<Rightarrow> write_env \<Rightarrow> bool \<Rightarrow> slice \<Rightarrow> slice \<Rightarrow> ldb \<Rightarrow> (write_status \<times> ldb) option" where
  "DB_Put write_buffer_size e sync key v d =
     map_option (\<lambda>r. (fst r, fst (snd r)))
       (DBImpl_Write write_buffer_size e [(Some (wb_Put key v WriteBatch_Clear), sync)] d)"

definition DB_Delete :: "nat \<Rightarrow> write_env \<Rightarrow> bool \<Rightarrow> slice \<Rightarrow> ldb \<Rightarrow> (write_status \<times> ldb) option" where
  "DB_Delete write_buffer_size e sync key d =
     map_option (\<lambda>r. (fst r, fst (snd r)))
       (DBImpl_Write write_buffer_size e [(Some (wb_Delete key WriteBatch_Clear), sync)] d)"

text \<open>Serving a queue of writers until it is empty: the status each writer gets.  \<open>None\<close>
  when a write is still held back, or the environment ends first.\<close>

fun drain :: "nat \<Rightarrow> write_env list \<Rightarrow> writer list \<Rightarrow> ldb \<Rightarrow> (write_status list \<times> ldb) option" where
  "drain wbs es [] d = Some ([], d)"
| "drain wbs [] (w # ws) d = None"
| "drain wbs (e # es) (w # ws) d =
     (case DBImpl_Write wbs e (w # ws) d of
        None \<Rightarrow> None
      | Some (st, d', rest) \<Rightarrow>
          (case drain wbs es rest d' of
             None \<Rightarrow> None
           | Some (sts, d'') \<Rightarrow> Some (replicate (length (w # ws) - length rest) st @ sts, d'')))"

definition queue_of :: "(batch_op list \<times> bool) list \<Rightarrow> writer list" where
  "queue_of ws = map (\<lambda>w. (Some (batch_of (fst w)), snd w)) ws"

section \<open>A group\<close>

lemma group_loop_ops:
  assumes "case tmp of None \<Rightarrow> ops = fops | Some r \<Rightarrow> is_batch r ops" and "is_batch first fops"
  shows "\<exists>k tmp'. group_loop first fs mx sz tmp n (queue_of ws) = (tmp', n + k) \<and> k \<le> length ws
    \<and> (case tmp' of None \<Rightarrow> ops @ concat (map fst (take k ws)) = fops | Some r \<Rightarrow> is_batch r (ops @ concat (map fst (take k ws))))"
  using assms(1)
proof (induction ws arbitrary: tmp ops sz n)
  case Nil
  then show ?case by (auto simp: queue_of_def split: option.splits)
next
  case (Cons w ws)
  let ?r = "case tmp of None \<Rightarrow> wb_Append WriteBatch_Clear first | Some r \<Rightarrow> r"
  let ?tmp = "Some (wb_Append ?r (batch_of (fst w)))"
  have "is_batch ?r ops" using Cons.prems is_batch_Append [OF is_batch_Clear assms(2)] by (auto split: option.splits)
  then have "is_batch (wb_Append ?r (batch_of (fst w))) (ops @ fst w)" using is_batch_of by (rule is_batch_Append)
  from Cons.IH [where tmp = ?tmp and ops = "ops @ fst w" and sz = "sz + length (batch_of (fst w))" and n = "n + 1"] this
  obtain k tmp' where k: "group_loop first fs mx (sz + length (batch_of (fst w))) ?tmp (n + 1) (queue_of ws) = (tmp', n + 1 + k)" "k \<le> length ws"
      "case tmp' of None \<Rightarrow> (ops @ fst w) @ concat (map fst (take k ws)) = fops | Some r \<Rightarrow> is_batch r ((ops @ fst w) @ concat (map fst (take k ws)))"
    by auto
  show ?case
  proof (cases "snd w \<and> \<not> fs \<or> mx < sz + length (batch_of (fst w))")
    case True
    then have "group_loop first fs mx sz tmp n (queue_of (w # ws)) = (tmp, n + 0)" by (auto simp: queue_of_def)
    then show ?thesis using Cons.prems by (intro exI [of _ 0] exI [of _ tmp]) (auto split: option.splits)
  next
    case False
    then have "group_loop first fs mx sz tmp n (queue_of (w # ws)) = (tmp', n + Suc k)" using k(1) by (simp add: queue_of_def)
    then show ?thesis using k(2,3) by (intro exI [of _ "Suc k"] exI [of _ tmp']) (simp split: option.splits)
  qed
qed

lemma BuildBatchGroup_ops:
  "\<exists>k b. BuildBatchGroup (batch_of ops) sync (queue_of ws) = (b, Suc k) \<and> k \<le> length ws
     \<and> is_batch b (ops @ concat (map fst (take k ws)))"
proof -
  define mx where "mx = (if length (batch_of ops) \<le> 128 * 1024 then length (batch_of ops) + 128 * 1024 else 2 ^ 20)"
  obtain k tmp where g: "group_loop (batch_of ops) sync mx (length (batch_of ops)) None 1 (queue_of ws) = (tmp, 1 + k)" "k \<le> length ws"
      "case tmp of None \<Rightarrow> ops @ concat (map fst (take k ws)) = ops | Some r \<Rightarrow> is_batch r (ops @ concat (map fst (take k ws)))"
    using group_loop_ops [where tmp = None and ops = ops and fops = ops and first = "batch_of ops" and fs = sync and mx = mx
        and sz = "length (batch_of ops)" and n = 1 and ws = ws, OF _ is_batch_of] by auto
  have "is_batch (case tmp of None \<Rightarrow> batch_of ops | Some r \<Rightarrow> r) (ops @ concat (map fst (take k ws)))"
  proof (cases tmp)
    case None
    from g(3) have eq: "ops @ concat (map fst (take k ws)) = ops" unfolding None option.case .
    show ?thesis unfolding eq None option.case by (rule is_batch_of)
  qed (use g(3) in simp)
  then show ?thesis using g(1,2) by (simp add: BuildBatchGroup_def Let_def mx_def)
qed

section \<open>The contents of a database\<close>

lemma versions_range: "x \<in> set (versions s ops) \<Longrightarrow> unat s + length ops < 2 ^ 64 \<Longrightarrow> unat s \<le> unat (fst x) \<and> unat (fst x) < unat s + length ops"
proof (induction s ops rule: versions.induct)
  case (2 s k v ops)
  have "unat (s + 1) = unat s + 1" using "2.prems"(2) by (simp add: unat_word_ariths)
  then show ?case using 2 by auto
next
  case (3 s k ops)
  have "unat (s + 1) = unat s + 1" using "3.prems"(2) by (simp add: unat_word_ariths)
  then show ?case using 3 by auto
qed simp

lemma scast_count: "n < 2 ^ 31 \<Longrightarrow> (scast (word_of_nat n :: 32 word) :: 64 word) = word_of_nat n"
proof -
  assume n: "n < 2 ^ 31"
  have "sint (word_of_nat n :: 32 word) = int n"
    using n by (simp add: signed_of_nat signed_take_bit_int_eq_self)
  then show ?thesis by (simp add: scast_eq)
qed

fun op_of :: "version \<Rightarrow> batch_op" where
  "op_of (s, kTypeValue, k, v) = BPut k v"
| "op_of (s, kTypeDeletion, k, v) = BDelete k"

fun op_key :: "batch_op \<Rightarrow> slice" where
  "op_key (BPut k v) = k"
| "op_key (BDelete k) = k"

fun op_result :: "batch_op \<Rightarrow> mem_result" where
  "op_result (BPut k v) = MemFound v"
| "op_result (BDelete k) = MemNotFound"

lemma op_of_versions: "map op_of (versions s ops) = ops"
  by (induction s ops rule: versions.induct) simp_all

lemma op_of_parts: "op_key (op_of x) = fst (snd (snd x))" "op_result (op_of x) = result_of x"
  by (cases x rule: op_of.cases; simp)+

text \<open>The memtables in the order \<open>Get\<close> searches them; the operations they hold are
  \<open>ops\<close>, oldest first.\<close>

definition ldb_memtables :: "ldb \<Rightarrow> memtable list" where
  "ldb_memtables d = ldb_mem d # (case ldb_imm d of None \<Rightarrow> [] | Some m \<Rightarrow> [m]) @ ldb_tables d"

definition tables_hold :: "batch_op list \<Rightarrow> 64 word \<Rightarrow> memtable list \<Rightarrow> bool" where
  "tables_hold ops l ms \<longleftrightarrow> (\<exists>parts. list_all2 holds parts ms \<and> map op_of (concat (rev parts)) = ops
     \<and> (\<forall>x \<in> set (concat parts). fst x \<le> l))"

definition ldb_holds :: "batch_op list \<Rightarrow> ldb \<Rightarrow> bool" where
  "ldb_holds ops d \<longleftrightarrow> tables_hold ops (ldb_last_sequence d) (ldb_memtables d)"

lemma tables_hold_new: "tables_hold ops l ms \<Longrightarrow> tables_hold ops l (MemTable_new # ms)"
  unfolding tables_hold_def using holds_new by (metis (no_types, lifting) append_Nil append_Nil2 concat.simps(1,2) concat_append list.simps(11) list_all2_Cons rev.simps(2))

lemma tables_hold_insert:
  assumes "tables_hold ops l (m # ms)" and "is_batch b new" and "\<forall>op \<in> set new. op_ok op" and "unat l + length new < 2 ^ 56"
    and "unat l' = unat l + length new" and "wb_Sequence b = l + 1"
  shows "\<exists>m'. wb_InsertInto b m = (WbOk, m') \<and> tables_hold (ops @ new) l' (m' # ms)"
proof -
  have s: "unat (l + 1) = unat l + 1" using assms(4) by (simp add: unat_word_ariths)
  obtain p ps where p: "holds p m" "list_all2 holds ps ms" "map op_of (concat (rev ps) @ p) = ops" "\<forall>x \<in> set (p @ concat ps). fst x \<le> l"
    using assms(1) by (auto simp: tables_hold_def list_all2_Cons2) force
  define m' where "m' = snd (fold batch_insert new (l + 1, m))"
  have "wb_InsertInto b m = (WbOk, m')"
    using Iterate_batch [OF assms(2,3)] by (simp add: wb_InsertInto_def assms(6) m'_def)
  moreover have "holds (p @ versions (l + 1) new) m'"
    unfolding m'_def
  proof (rule holds_insert [OF p(1) assms(3)])
    show "unat (l + 1) + length new \<le> 2 ^ 56" using s assms(4) by simp
    show "\<forall>x \<in> set p. fst x < l + 1" using p(4) s by (simp add: word_less_nat_alt word_le_nat_alt less_Suc_eq_le)
  qed
  moreover have "fst x \<le> l'" if "x \<in> set ((p @ versions (l + 1) new) @ concat ps)" for x
  proof (cases "x \<in> set (versions (l + 1) new)")
    case True
    then show ?thesis using versions_range [OF True] s assms(4,5) by (simp add: word_le_nat_alt)
  next
    case False
    then have "fst x \<le> l" using that p(4) by auto
    then show ?thesis using assms(5) by (simp add: word_le_nat_alt)
  qed
  ultimately show ?thesis using p(2,3) unfolding tables_hold_def
    by (intro exI [of _ m'] conjI exI [of _ "(p @ versions (l + 1) new) # ps"]) (simp_all add: op_of_versions)
qed

lemma ldb_holds_new: "ldb_holds [] (ldb_new n)"
  using tables_hold_new [of "[]" 0 "[]"] by (simp add: ldb_holds_def ldb_memtables_def ldb_new_def tables_hold_def)

lemma background_frame:
  "ldb_memtables (run_background b d) = ldb_memtables d" "ldb_last_sequence (run_background b d) = ldb_last_sequence d"
  "ldb_mem (run_background b d) = ldb_mem d"
  by (simp_all add: run_background_def RecordBackgroundError_def ldb_memtables_def Let_def split: option.split)

lemma ldb_holds_cong:
  "ldb_memtables d' = ldb_memtables d \<Longrightarrow> ldb_last_sequence d' = ldb_last_sequence d \<Longrightarrow> ldb_holds ops d' = ldb_holds ops d"
  by (simp add: ldb_holds_def)

lemma ldb_holds_switch:
  "ldb_holds ops d \<Longrightarrow> ldb_memtables d' = MemTable_new # ldb_memtables d \<Longrightarrow> ldb_last_sequence d' = ldb_last_sequence d \<Longrightarrow> ldb_holds ops d'"
  by (simp add: ldb_holds_def tables_hold_new)

lemma room_loop_holds:
  "room_loop wbs ts delay force s d = Some (st, d') \<Longrightarrow> ldb_holds ops d \<Longrightarrow>
   ldb_holds ops d' \<and> ldb_last_sequence d' = ldb_last_sequence d"
proof (induction ts arbitrary: delay force s d)
  case (Cons t ts)
  let ?b = "run_background (rt_background t) d"
  have bk: "ldb_holds ops ?b" "ldb_last_sequence ?b = ldb_last_sequence d"
    using Cons.prems(2) by (simp_all add: background_frame ldb_holds_cong [OF background_frame(1,2)])
  let ?n = "d\<lparr>ldb_next_file_number := ldb_next_file_number d + 1\<rparr>"
  define c where "c = (if rt_close_ok t then ?n else RecordBackgroundError IoError ?n)"
  define sw where "sw = c\<lparr>ldb_log := [], ldb_log_number := ldb_next_file_number d, ldb_imm := Some (ldb_mem c), ldb_mem := MemTable_new\<rparr>"
  have c: "ldb_mem c = ldb_mem d" "ldb_tables c = ldb_tables d" "ldb_last_sequence c = ldb_last_sequence d"
    by (simp_all add: c_def RecordBackgroundError_def)
  have sw: "ldb_holds ops sw \<and> ldb_last_sequence sw = ldb_last_sequence d" if "ldb_imm d = None"
    using that c by (auto simp: sw_def ldb_memtables_def intro!: ldb_holds_switch [OF Cons.prems(2)])
  have reuse: "ldb_holds ops (ReuseFileNumber n ?n) \<and> ldb_last_sequence (ReuseFileNumber n ?n) = ldb_last_sequence d" for n
    using Cons.prems(2) by (simp add: ReuseFileNumber_def ldb_holds_def ldb_memtables_def)
  consider "ldb_bg_error d \<noteq> WriteOk" | "ldb_bg_error d = WriteOk" "delay \<and> 8 \<le> rt_level0 t"
    | "ldb_bg_error d = WriteOk" "\<not> (delay \<and> 8 \<le> rt_level0 t)" "\<not> force \<and> rt_memory t \<le> wbs"
    | "ldb_bg_error d = WriteOk" "\<not> (delay \<and> 8 \<le> rt_level0 t)" "\<not> (\<not> force \<and> rt_memory t \<le> wbs)" "ldb_imm d \<noteq> None"
    | "ldb_bg_error d = WriteOk" "\<not> (delay \<and> 8 \<le> rt_level0 t)" "\<not> (\<not> force \<and> rt_memory t \<le> wbs)" "ldb_imm d = None" "12 \<le> rt_level0 t"
    | "ldb_bg_error d = WriteOk" "\<not> (delay \<and> 8 \<le> rt_level0 t)" "\<not> (\<not> force \<and> rt_memory t \<le> wbs)" "ldb_imm d = None" "\<not> 12 \<le> rt_level0 t"
    by blast
  then show ?case
  proof cases
    case 6
    show ?thesis
    proof (cases "rt_open_ok t")
      case True
      have "room_loop wbs ts delay False (if rt_close_ok t then WriteOk else IoError) sw = Some (st, d')"
        using Cons.prems(1) 6 True by (simp add: NewFileNumber_def Let_def sw_def c_def split: if_splits)
      with sw 6 show ?thesis using Cons.IH by fastforce
    next
      case False
      then show ?thesis using Cons.prems 6 reuse by (auto simp: NewFileNumber_def)
    qed
  qed (use Cons bk in \<open>auto split: if_splits\<close>)
qed simp

lemma ldb_holds_insert:
  assumes "ldb_holds ops d" and "is_batch b new" and "\<forall>op \<in> set new. op_ok op" and "length new < 2 ^ 31"
    and "unat (ldb_last_sequence d) + length new < 2 ^ 56"
  defines "b' \<equiv> wb_SetSequence b (ldb_last_sequence d + 1)"
  shows "unat (ldb_last_sequence d + scast (wb_Count b')) = unat (ldb_last_sequence d) + length new"
    and "\<exists>m. wb_InsertInto b' (ldb_mem d) = (WbOk, m) \<and>
      ldb_holds (ops @ new) (d\<lparr>ldb_mem := m, ldb_last_sequence := ldb_last_sequence d + scast (wb_Count b')\<rparr>)"
proof -
  let ?l = "ldb_last_sequence d"
  have b': "is_batch b' new" "wb_Sequence b' = ?l + 1" using is_batch_SetSequence [OF assms(2)] by (simp_all add: b'_def)
  have cnt: "scast (wb_Count b') = (word_of_nat (length new) :: 64 word)"
    using b'(1) assms(4) scast_count by (auto simp: is_batch_def batch_fields)
  have "unat (word_of_nat (length new) :: 64 word) = length new" using assms(4) by (simp add: unat_of_nat take_bit_nat_eq_self)
  then show l': "unat (?l + scast (wb_Count b')) = unat ?l + length new"
    unfolding cnt using assms(5) by (simp add: unat_word_ariths)
  from tables_hold_insert [OF _ b'(1) assms(3,5) l' b'(2), of ops "ldb_mem d"] assms(1)
  show "\<exists>m. wb_InsertInto b' (ldb_mem d) = (WbOk, m) \<and>
      ldb_holds (ops @ new) (d\<lparr>ldb_mem := m, ldb_last_sequence := ?l + scast (wb_Count b')\<rparr>)"
    by (simp add: ldb_holds_def ldb_memtables_def)
qed

lemma ldb_holds_later:
  "ldb_holds ops d \<Longrightarrow> ldb_last_sequence d \<le> l \<Longrightarrow> ldb_memtables d' = ldb_memtables d \<Longrightarrow> ldb_last_sequence d' = l \<Longrightarrow> ldb_holds ops d'"
  by (auto simp: ldb_holds_def tables_hold_def intro: order_trans)

lemma commit_batch_holds:
  assumes "ldb_holds ops d" and "is_batch b new" and "\<forall>op \<in> set new. op_ok op" and "length new < 2 ^ 31"
    and "unat (ldb_last_sequence d) + length new < 2 ^ 56" and "commit_batch e sync b d = (st, d')"
  shows "ldb_holds (ops @ (if st = WriteOk then new else [])) d' \<and> unat (ldb_last_sequence d') = unat (ldb_last_sequence d) + length new"
    and "st = WriteOk \<longleftrightarrow> we_append_ok e \<and> (sync \<longrightarrow> we_sync_ok e)"
proof -
  define b' where "b' = wb_SetSequence b (ldb_last_sequence d + 1)"
  define l where "l = ldb_last_sequence d + scast (wb_Count b')"
  define x where "x = run_background (we_background e) d"
  define d2 where "d2 = (if we_append_ok e then x\<lparr>ldb_log := ldb_log x @ [b']\<rparr> else x)"
  have d2: "ldb_memtables d2 = ldb_memtables d" "ldb_last_sequence d2 = ldb_last_sequence d" "ldb_mem d2 = ldb_mem d"
    using background_frame [of "we_background e" d] by (simp_all add: d2_def x_def ldb_memtables_def)
  then have "ldb_holds ops d2" using assms(1) ldb_holds_cong by blast
  note ins = ldb_holds_insert [OF this assms(2,3,4), unfolded d2(2), OF assms(5), folded b'_def, folded l_def]
  obtain m where m: "wb_InsertInto b' (ldb_mem d2) = (WbOk, m)" "ldb_holds (ops @ new) (d2\<lparr>ldb_mem := m, ldb_last_sequence := l\<rparr>)"
    using ins(2) by blast
  have fails: "ldb_holds ops (y\<lparr>ldb_last_sequence := l\<rparr>)" if "ldb_memtables y = ldb_memtables d2" for y
    by (rule ldb_holds_later [OF assms(1), of l]) (use ins(1) that d2 in \<open>simp_all add: word_le_nat_alt ldb_memtables_def\<close>)
  have memt: "ldb_memtables (RecordBackgroundError IoError d2) = ldb_memtables d2"
    by (simp add: RecordBackgroundError_def ldb_memtables_def)
  have "commit_batch e sync b d =
        (if \<not> we_append_ok e then (IoError, d2\<lparr>ldb_last_sequence := l\<rparr>)
         else if sync \<and> \<not> we_sync_ok e then (IoError, (RecordBackgroundError IoError d2)\<lparr>ldb_last_sequence := l\<rparr>)
         else (WriteOk, d2\<lparr>ldb_mem := m, ldb_last_sequence := l\<rparr>))"
    using m(1) [unfolded d2(3)] unfolding commit_batch_def by (simp add: Let_def d2_def l_def b'_def x_def background_frame(3))
  note res = this [unfolded assms(6)]
  show "ldb_holds (ops @ (if st = WriteOk then new else [])) d' \<and> unat (ldb_last_sequence d') = unat (ldb_last_sequence d) + length new"
    using res m(2) fails [OF refl] fails [OF memt] ins(1) by (simp split: if_splits)
  show "st = WriteOk \<longleftrightarrow> we_append_ok e \<and> (sync \<longrightarrow> we_sync_ok e)" using res by (simp split: if_splits)
qed

section \<open>Group commit\<close>

lemma concat_take_drop: "concat (map f xs) = concat (map f (take k xs)) @ concat (map f (drop k xs))"
  by (metis append_take_drop_id concat_append map_append)

lemma queue_Cons: "queue_of (w # ws) = (Some (batch_of (fst w)), snd w) # queue_of ws"
  by (simp add: queue_of_def)

lemma Write_group:
  assumes "DBImpl_Write wbs e (queue_of ws) d = Some (st, d', rest)" and "ldb_holds ops d" and "\<forall>w \<in> set ws. \<forall>op \<in> set (fst w). op_ok op"
    and "length (concat (map fst ws)) < 2 ^ 31" and "unat (ldb_last_sequence d) + length (concat (map fst ws)) < 2 ^ 56"
  shows "\<exists>k. 0 < k \<and> k \<le> length ws \<and> rest = queue_of (drop k ws)
    \<and> ldb_holds (ops @ (if st = WriteOk then concat (map fst (take k ws)) else [])) d'
    \<and> unat (ldb_last_sequence d') \<le> unat (ldb_last_sequence d) + length (concat (map fst (take k ws)))"
proof -
  obtain w ws' where ws: "ws = w # ws'" using assms(1) by (cases ws) (auto simp: DBImpl_Write_def queue_of_def)
  obtain st1 d1 where room: "room_loop wbs (we_turns e) True False WriteOk d = Some (st1, d1)"
    using assms(1) by (auto simp: DBImpl_Write_def ws queue_Cons MakeRoomForWrite_def split: option.splits)
  have d1: "ldb_holds ops d1" "ldb_last_sequence d1 = ldb_last_sequence d" using room_loop_holds [OF room assms(2)] by simp_all
  show ?thesis
  proof (cases "st1 = WriteOk")
    case False
    then have "st = st1" "d' = d1" "rest = queue_of ws'" using assms(1) room by (simp_all add: DBImpl_Write_def ws queue_Cons MakeRoomForWrite_def)
    then show ?thesis using False d1 by (intro exI [of _ 1]) (simp add: ws)
  next
    case True
    obtain k b where k: "BuildBatchGroup (batch_of (fst w)) (snd w) (queue_of ws') = (b, Suc k)" "k \<le> length ws'"
        "is_batch b (fst w @ concat (map fst (take k ws')))"
      using BuildBatchGroup_ops by blast
    let ?new = "concat (map fst (take (Suc k) ws))"
    have new: "?new = fst w @ concat (map fst (take k ws'))" by (simp add: ws)
    have res: "commit_batch e (snd w) b d1 = (st, d')" "rest = queue_of (drop (Suc k) ws)"
      using assms(1) room True k(1) by (simp_all add: DBImpl_Write_def ws queue_Cons MakeRoomForWrite_def split: prod.splits)
        (simp add: queue_of_def drop_map)
    have "\<forall>op \<in> set ?new. op_ok op" using assms(3) by (auto dest: in_set_takeD)
    moreover have "length ?new \<le> length (concat (map fst ws))" using concat_take_drop [of fst ws "Suc k"] by simp
    ultimately have "ldb_holds (ops @ (if st = WriteOk then ?new else [])) d' \<and> unat (ldb_last_sequence d') = unat (ldb_last_sequence d1) + length ?new"
      using assms(4,5) d1 k(3) res(1) by (intro commit_batch_holds(1)) (simp_all add: new)
    then show ?thesis using res(2) d1(2) k(2) by (intro exI [of _ "Suc k"]) (simp add: ws)
  qed
qed

text \<open>The operations of the writers that were told their write succeeded.\<close>

definition acknowledged :: "(batch_op list \<times> bool) list \<Rightarrow> write_status list \<Rightarrow> batch_op list" where
  "acknowledged ws sts = concat (map (\<lambda>p. if snd p = WriteOk then fst (fst p) else []) (zip ws sts))"

lemma acknowledged_append:
  "length a = length x \<Longrightarrow> acknowledged (a @ b) (x @ y) = acknowledged a x @ acknowledged b y"
  by (simp add: acknowledged_def)

lemma acknowledged_replicate: "acknowledged ws (replicate (length ws) st) = (if st = WriteOk then concat (map fst ws) else [])"
  by (induction ws) (simp_all add: acknowledged_def)

lemma drain_queue:
  assumes "drain wbs es (queue_of ws) d = Some (sts, d')" and "ldb_holds ops d" and "\<forall>w \<in> set ws. \<forall>op \<in> set (fst w). op_ok op"
    and "length (concat (map fst ws)) < 2 ^ 31" and "unat (ldb_last_sequence d) + length (concat (map fst ws)) < 2 ^ 56"
  shows "length sts = length ws \<and> ldb_holds (ops @ acknowledged ws sts) d' \<and> unat (ldb_last_sequence d') < 2 ^ 56"
  using assms
proof (induction es arbitrary: ws d ops sts)
  case Nil
  then show ?case by (cases ws) (auto simp: queue_of_def acknowledged_def)
next
  case (Cons e es)
  show ?case
  proof (cases ws)
    case Nil
    then show ?thesis using Cons.prems by (auto simp: queue_of_def acknowledged_def)
  next
    case (Cons w ws')
    obtain st d1 rest sts' where w: "DBImpl_Write wbs e (queue_of ws) d = Some (st, d1, rest)"
      and dr: "drain wbs es rest d1 = Some (sts', d')" and sts: "sts = replicate (length ws - length rest) st @ sts'"
      using Cons.prems(1) by (auto simp: Cons queue_Cons split: option.splits) (simp add: queue_of_def)
    from Write_group [OF w Cons.prems(2-5)] obtain k where k: "0 < k" "k \<le> length ws" "rest = queue_of (drop k ws)"
        "ldb_holds (ops @ (if st = WriteOk then concat (map fst (take k ws)) else [])) d1"
        "unat (ldb_last_sequence d1) \<le> unat (ldb_last_sequence d) + length (concat (map fst (take k ws)))"
      by blast
    let ?st = "replicate (length (take k ws)) st"
    have sts: "sts = ?st @ sts'" using sts k(2,3) by (simp add: queue_of_def)
    have k4: "ldb_holds (ops @ acknowledged (take k ws) ?st) d1" unfolding acknowledged_replicate by (rule k(4))
    have "length (concat (map fst ws)) = length (concat (map fst (take k ws))) + length (concat (map fst (drop k ws)))"
      using concat_take_drop [of fst ws k] by (metis length_append)
    moreover have "\<forall>w \<in> set (drop k ws). \<forall>op \<in> set (fst w). op_ok op" using Cons.prems(3) by (auto dest: in_set_dropD)
    ultimately have "length sts' = length (drop k ws)
        \<and> ldb_holds ((ops @ acknowledged (take k ws) ?st) @ acknowledged (drop k ws) sts') d' \<and> unat (ldb_last_sequence d') < 2 ^ 56"
      using k(5) Cons.prems(4,5) by (intro Cons.IH [OF dr [unfolded k(3)] k4]) simp_all
    moreover have "acknowledged ws sts = acknowledged (take k ws) ?st @ acknowledged (drop k ws) sts'"
      using acknowledged_append [of "take k ws" ?st "drop k ws" sts'] by (simp add: sts)
    ultimately show ?thesis using k(2) by (simp add: sts)
  qed
qed

section \<open>Reading the latest write\<close>

fun first_hit :: "LookupKey \<Rightarrow> memtable list \<Rightarrow> mem_result" where
  "first_hit k [] = MemMiss"
| "first_hit k (m # ms) = (case mem_Get k m of MemMiss \<Rightarrow> first_hit k ms | r \<Rightarrow> r)"

lemma result_of_hit: "result_of x \<noteq> MemMiss"
  by (cases x rule: result_of.cases) simp_all

lemma first_hit_latest:
  assumes "list_all2 holds parts ms" and "length u + 8 < 2 ^ 32" and "snap \<le> kMaxSequenceNumber"
  shows "first_hit (LookupKey_new u snap) ms =
    (case filter (visible u snap) (concat (rev parts)) of [] \<Rightarrow> MemMiss | ys \<Rightarrow> result_of (last ys))"
  using assms(1)
proof (induction rule: list_all2_induct)
  case (Cons p ps m ms)
  note get = mem_Get_newest [OF Cons.hyps(1) assms(2,3)]
  show ?case
  proof (cases "filter (visible u snap) p")
    case Nil
    then show ?thesis using get Cons.IH by simp
  next
    case (Cons y ys)
    then have "mem_Get (LookupKey_new u snap) m = result_of (last (y # ys))" using get by simp
    moreover have "filter (visible u snap) (concat (rev (p # ps))) = filter (visible u snap) (concat (rev ps)) @ (y # ys)"
      using Cons by simp
    ultimately show ?thesis using result_of_hit [of "last (y # ys)"]
      by (cases "result_of (last (y # ys))"; cases "filter (visible u snap) (concat (rev ps))") simp_all
  qed
qed simp

lemma Get_first_hit:
  assumes "\<forall>ms k. current ms k = first_hit k ms"
  shows "DBImpl_Get current None u d = first_hit (LookupKey_new u (ldb_last_sequence d)) (ldb_memtables d)"
  using assms by (simp add: DBImpl_Get_def ldb_memtables_def Let_def split: option.split mem_result.split)

lemma tables_hold_read:
  assumes "tables_hold ops l ms" and "length u + 8 < 2 ^ 32" and "unat l < 2 ^ 56"
  shows "first_hit (LookupKey_new u l) ms =
    (case filter (\<lambda>op. op_key op = u) ops of [] \<Rightarrow> MemMiss | os \<Rightarrow> op_result (last os))"
proof -
  obtain parts where parts: "list_all2 holds parts ms" "map op_of (concat (rev parts)) = ops" "\<forall>x \<in> set (concat parts). fst x \<le> l"
    using assms(1) unfolding tables_hold_def by blast
  have "l \<le> kMaxSequenceNumber" using assms(3) by (simp add: word_le_nat_alt kMaxSequenceNumber_def)
  note hit = first_hit_latest [OF parts(1) assms(2) this]
  let ?V = "filter (visible u l) (concat (rev parts))"
  have "filter (\<lambda>op. op_key op = u) ops = map op_of ?V"
    unfolding parts(2) [symmetric] filter_map using parts(3) by (force simp: visible_def op_of_parts intro!: arg_cong [of _ _ "map op_of"] filter_cong)
  then show ?thesis unfolding hit by (cases ?V) (simp_all add: op_of_parts last_map)
qed

text \<open>With room in the memtable and a file system that accepts every request, each write succeeds
  at once.\<close>

definition calm :: "nat \<Rightarrow> write_env \<Rightarrow> bool" where
  "calm wbs e \<longleftrightarrow> (case we_turns e of [] \<Rightarrow> False | t # ts \<Rightarrow> rt_level0 t < 8 \<and> rt_memory t \<le> wbs)
     \<and> we_append_ok e \<and> we_sync_ok e \<and> \<not> bg_failed (we_background e)"

definition calm_env :: write_env where
  "calm_env = \<lparr>we_turns = [\<lparr>rt_level0 = 0, rt_memory = 1, rt_open_ok = True, rt_close_ok = True,
       rt_background = \<lparr>bg_flushed = True, bg_failed = False\<rparr>\<rparr>],
     we_append_ok = True, we_sync_ok = True, we_background = \<lparr>bg_flushed = True, bg_failed = False\<rparr>\<rparr>"

lemma Write_calm:
  assumes "calm wbs e" and "ldb_bg_error d = WriteOk" and "ws \<noteq> []" and "ldb_holds ops d" and "\<forall>w \<in> set ws. \<forall>op \<in> set (fst w). op_ok op"
    and "length (concat (map fst ws)) < 2 ^ 31" and "unat (ldb_last_sequence d) + length (concat (map fst ws)) < 2 ^ 56"
  shows "\<exists>d' rest. DBImpl_Write wbs e (queue_of ws) d = Some (WriteOk, d', rest) \<and> ldb_bg_error d' = WriteOk"
proof -
  obtain w ws' where ws: "ws = w # ws'" using assms(3) by (cases ws) auto
  obtain k b where k: "BuildBatchGroup (batch_of (fst w)) (snd w) (queue_of ws') = (b, Suc k)"
      "is_batch b (fst w @ concat (map fst (take k ws')))"
    using BuildBatchGroup_ops by blast
  let ?new = "fst w @ concat (map fst (take k ws'))"
  obtain st d' where c: "commit_batch e (snd w) b d = (st, d')" by (rule prod.exhaust)
  have "\<forall>op \<in> set ?new. op_ok op" using assms(5) by (auto simp: ws dest: in_set_takeD)
  moreover have "length ?new \<le> length (concat (map fst ws))" using concat_take_drop [of fst ws' k] by (simp add: ws)
  ultimately have "st = WriteOk"
    using commit_batch_holds(2) [OF assms(4) k(2) _ _ _ c] assms(1,6,7) by (simp add: calm_def)
  moreover have "ldb_bg_error d' = WriteOk"
    using c assms(1,2) by (auto simp: commit_batch_def calm_def Let_def run_background_def split: prod.splits if_splits option.splits)
  moreover have "room_loop wbs (we_turns e) True False WriteOk d = Some (WriteOk, d)"
    using assms(1,2) by (cases "we_turns e") (auto simp: calm_def)
  ultimately show ?thesis using k(1) c by (simp add: DBImpl_Write_def ws queue_Cons MakeRoomForWrite_def)
qed

lemma drain_calm:
  assumes "\<forall>e \<in> set es. calm wbs e" and "length ws \<le> length es" and "ldb_bg_error d = WriteOk" and "ldb_holds ops d"
    and "\<forall>w \<in> set ws. \<forall>op \<in> set (fst w). op_ok op"
    and "length (concat (map fst ws)) < 2 ^ 31" and "unat (ldb_last_sequence d) + length (concat (map fst ws)) < 2 ^ 56"
  shows "\<exists>d'. drain wbs es (queue_of ws) d = Some (replicate (length ws) WriteOk, d')"
  using assms
proof (induction es arbitrary: ws d ops)
  case Nil
  then show ?case by (simp add: queue_of_def)
next
  case (Cons e es)
  show ?case
  proof (cases "ws = []")
    case True
    then show ?thesis by (simp add: queue_of_def)
  next
    case False
    then obtain w ws' where ws: "ws = w # ws'" by (cases ws) auto
    obtain d1 rest where w: "DBImpl_Write wbs e (queue_of ws) d = Some (WriteOk, d1, rest)" "ldb_bg_error d1 = WriteOk"
      using Write_calm [of wbs e, OF _ Cons.prems(3) False Cons.prems(4-7)] Cons.prems(1) by auto
    from Write_group [OF w(1) Cons.prems(4-7)] obtain k where k: "0 < k" "k \<le> length ws" "rest = queue_of (drop k ws)"
        "ldb_holds (ops @ concat (map fst (take k ws))) d1"
        "unat (ldb_last_sequence d1) \<le> unat (ldb_last_sequence d) + length (concat (map fst (take k ws)))"
      by auto
    have "length (concat (map fst ws)) = length (concat (map fst (take k ws))) + length (concat (map fst (drop k ws)))"
      using concat_take_drop [of fst ws k] by (metis length_append)
    moreover have "\<forall>w \<in> set (drop k ws). \<forall>op \<in> set (fst w). op_ok op" using Cons.prems(5) by (auto dest: in_set_dropD)
    ultimately have "\<exists>d'. drain wbs es (queue_of (drop k ws)) d1 = Some (replicate (length (drop k ws)) WriteOk, d')"
      using k Cons.prems(1,2,6,7) w(2) by (intro Cons.IH [OF _ _ _ k(4)]) simp_all
    then obtain d' where "drain wbs es rest d1 = Some (replicate (length ws - k) WriteOk, d')" using k(3) by auto
    moreover have "length (queue_of ws) - length rest = k" using k(2,3) by (simp add: queue_of_def)
    ultimately have "drain wbs (e # es) (queue_of ws) d = Some (replicate k WriteOk @ replicate (length ws - k) WriteOk, d')"
      using w(1) by (simp add: ws queue_Cons)
    then show ?thesis using k(2) by (simp add: replicate_add [symmetric])
  qed
qed

text \<open>Reads see the acknowledged writes in order.  Queued writers are served until none is
  left, however sync flags and batch sizes cut the queue into groups, whenever full memtables are
  replaced and written out, and whichever appends, syncs, opens and closes of log files fail.
  Then \<open>Get\<close> of any key returns what the last operation on it wrote, in queue order, among
  the writers that were told their write succeeded: its value, or not found after a deletion or
  when there is none.  The table files answer as the memtables they were made of.\<close>

theorem group_commit_sequential:
  assumes "\<forall>w \<in> set ws. \<forall>op \<in> set (fst w). op_ok op"
    and "length (concat (map fst ws)) < 2 ^ 31" and "length u + 8 < 2 ^ 32"
    and "\<forall>ms k. current ms k = first_hit k ms"
    and "drain wbs es (queue_of ws) (ldb_new n) = Some (sts, d)"
  shows "length sts = length ws \<and>
    DBImpl_Get current None u d =
      (case filter (\<lambda>op. op_key op = u) (acknowledged ws sts) of [] \<Rightarrow> MemMiss | os \<Rightarrow> op_result (last os))"
proof -
  have "length sts = length ws \<and> ldb_holds ([] @ acknowledged ws sts) d \<and> unat (ldb_last_sequence d) < 2 ^ 56"
    using assms(2) by (intro drain_queue [OF assms(5) ldb_holds_new assms(1)]) (simp_all add: ldb_new_def)
  then show ?thesis unfolding Get_first_hit [OF assms(4)] using tables_hold_read [OF _ assms(3)] by (simp add: ldb_holds_def)
qed

theorem group_commit_sequential_witness:
  "\<exists>d. drain 4 [calm_env, calm_env] (queue_of [([BPut [49] [57]], False), ([BPut [50] [57], BDelete [49], BPut [50] [56]], True)]) (ldb_new 3)
      = Some ([WriteOk, WriteOk], d)
    \<and> DBImpl_Get (\<lambda>ms k. first_hit k ms) None [50] d = MemFound [56]"
proof -
  let ?ws = "[([BPut [49] [57]], False), ([BPut [50] [57], BDelete [49], BPut [50] [56]], True)]"
  have "\<exists>d. drain 4 [calm_env, calm_env] (queue_of ?ws) (ldb_new 3) = Some (replicate (length ?ws) WriteOk, d)"
    by (rule drain_calm [OF _ _ _ ldb_holds_new]) (simp_all add: calm_def calm_env_def ldb_new_def)
  then obtain d where d: "drain 4 [calm_env, calm_env] (queue_of ?ws) (ldb_new 3) = Some ([WriteOk, WriteOk], d)" by auto
  have "DBImpl_Get (\<lambda>ms k. first_hit k ms) None [50] d = MemFound [56]"
    using group_commit_sequential [OF _ _ _ _ d, of "[50]" "\<lambda>ms k. first_hit k ms"] by (simp add: acknowledged_def)
  with d show ?thesis by blast
qed

end
