(* ===== verification/Ldb_Recover.thy ===== *)
theory Ldb_Recover
  imports Ldb_Replay Ldb_Write
begin

text \<open>
  Rebuilding the memtable from a log when a database is opened (\<open>RecoverLogFile\<close> and
  \<open>MaybeIgnoreError\<close> in \<open>src/leveldb/db/db_impl.cc\<close>).  Whether the memtable is over its
  size after a record and whether a table file can be written are inputs; the memtables written
  to tables are kept, newest first.
\<close>

section \<open>Recovery of a log file\<close>

datatype recover_status = RecoverOk | RecoverCorruption | RecoverBatch wb_status | RecoverIo

record recovery =
  rc_status :: recover_status
  rc_mem :: "memtable option"
  rc_tables :: "memtable list"
  rc_max_sequence :: "64 word"
  rc_compactions :: nat
  rc_save_manifest :: bool

definition MaybeIgnoreError :: "bool \<Rightarrow> recover_status \<Rightarrow> recover_status" where
  "MaybeIgnoreError paranoid_checks s = (if s = RecoverOk \<or> paranoid_checks then s else RecoverOk)"

text \<open>\<open>LogReporter::Corruption\<close>: the first error is kept under paranoid checks.\<close>

definition report_corruption :: "bool \<Rightarrow> recovery \<Rightarrow> recovery" where
  "report_corruption paranoid_checks s =
     (if paranoid_checks \<and> rc_status s = RecoverOk then s\<lparr>rc_status := RecoverCorruption\<rparr> else s)"

text \<open>Writing the memtable to a table file.\<close>

definition write_table :: "bool \<Rightarrow> memtable \<Rightarrow> recovery \<Rightarrow> recovery" where
  "write_table table_ok m s =
     (if table_ok then s\<lparr>rc_save_manifest := True, rc_tables := m # rc_tables s, rc_status := RecoverOk\<rparr>
      else s\<lparr>rc_save_manifest := True, rc_status := RecoverIo\<rparr>)"

text \<open>The body of the loop for one record; \<open>turn\<close> says whether the memtable is full afterwards
  and whether its table can be written.\<close>

definition recover_record :: "bool \<Rightarrow> bool \<times> bool \<Rightarrow> slice \<Rightarrow> recovery \<Rightarrow> recovery" where
  "recover_record paranoid_checks turn record s =
     (let m = (case rc_mem s of None \<Rightarrow> MemTable_new | Some m \<Rightarrow> m) in
      case wb_InsertInto record m of (st, m) \<Rightarrow>
        let status = MaybeIgnoreError paranoid_checks (if st = WbOk then RecoverOk else RecoverBatch st);
            s = s\<lparr>rc_mem := Some m, rc_status := status\<rparr>
        in if status \<noteq> RecoverOk then s
           else let last_seq = wb_Sequence record + scast (wb_Count record) - 1;
                    s = (if last_seq > rc_max_sequence s then s\<lparr>rc_max_sequence := last_seq\<rparr> else s)
                in if fst turn
                   then write_table (snd turn) m (s\<lparr>rc_compactions := rc_compactions s + 1, rc_mem := None\<rparr>)
                   else s)"

definition next_turn :: "(bool \<times> bool) list \<Rightarrow> bool \<times> bool" where
  "next_turn turns = (case turns of [] \<Rightarrow> (False, True) | t # ts \<Rightarrow> t)"

function log_recover_loop :: "crc_extend \<Rightarrow> bool \<Rightarrow> (bool \<times> bool) list \<Rightarrow> log_reader \<Rightarrow> recovery \<Rightarrow> recovery" where
  "log_recover_loop ext paranoid_checks turns r s =
     (let p = ReadRecord ext r;
          s = (if length (rd_drops r) < length (rd_drops (snd p)) then report_corruption paranoid_checks s else s)
      in if fst p = None \<or> rc_status s \<noteq> RecoverOk then s
         else let record = the (fst p) in
           if length record < 12
           then log_recover_loop ext paranoid_checks turns (snd p) (report_corruption paranoid_checks s)
           else let s = recover_record paranoid_checks (next_turn turns) record s
                in if rc_status s \<noteq> RecoverOk then s
                   else log_recover_loop ext paranoid_checks (tl turns) (snd p) s)"
  by pat_completeness auto

termination
  by (relation "measure (\<lambda>x. rd_left (fst (snd (snd (snd x)))))") (auto intro: ReadRecord_left)

declare log_recover_loop.simps [simp del]

text \<open>The environment of one recovery: the log contents, if the file opens, the outcomes of
  reading it, the table turns, and for keeping the log, the option and whether the file can be
  appended to; the last flag is the outcome of writing the final table.\<close>

record recover_env =
  re_file :: "slice option"
  re_reads :: "bool list"
  re_turns :: "(bool \<times> bool) list"
  re_reuse_logs :: bool
  re_appendable :: bool
  re_table_ok :: bool

text \<open>The recovery and the memtable taken over as \<open>mem_\<close>, if the log is reused.\<close>

definition RecoverLogFile :: "crc_extend \<Rightarrow> bool \<Rightarrow> bool \<Rightarrow> recover_env \<Rightarrow> recovery \<Rightarrow> recovery \<times> memtable option" where
  "RecoverLogFile ext paranoid_checks last_log e s =
     (case re_file e of
        None \<Rightarrow> (s\<lparr>rc_status := MaybeIgnoreError paranoid_checks RecoverIo\<rparr>, None)
      | Some bytes \<Rightarrow>
          let s = log_recover_loop ext paranoid_checks (re_turns e) (log_Reader bytes (re_reads e) True 0)
                    (s\<lparr>rc_status := RecoverOk, rc_mem := None, rc_compactions := 0\<rparr>);
              reuse = (rc_status s = RecoverOk \<and> re_reuse_logs e \<and> last_log \<and> rc_compactions s = 0 \<and> re_appendable e)
          in if reuse then (s\<lparr>rc_mem := None\<rparr>, Some (case rc_mem s of Some m \<Rightarrow> m | None \<Rightarrow> MemTable_new))
             else (case rc_mem s of
                     Some m \<Rightarrow> ((if rc_status s = RecoverOk then write_table (re_table_ok e) m s else s)\<lparr>rc_mem := None\<rparr>, None)
                   | None \<Rightarrow> (s, None)))"

section \<open>What a recovery holds\<close>

definition rc_memtables :: "recovery \<Rightarrow> memtable list" where
  "rc_memtables s = (case rc_mem s of None \<Rightarrow> [] | Some m \<Rightarrow> [m]) @ rc_tables s"

definition rc_holds :: "batch_op list \<Rightarrow> recovery \<Rightarrow> bool" where
  "rc_holds ops s \<longleftrightarrow> tables_hold ops (rc_max_sequence s) (rc_memtables s) \<and> unat (rc_max_sequence s) = length ops \<and> rc_status s = RecoverOk"

lemma recover_record_holds:
  assumes "rc_holds ops s" and "is_batch b new" and "\<forall>op \<in> set new. op_ok op" and "length ops + length new < 2 ^ 56" and "length new < 2 ^ 31"
    and "wb_Sequence b = word_of_nat (length ops) + 1" and "fst turn \<Longrightarrow> snd turn"
  shows "rc_holds (ops @ new) (recover_record paranoid turn b s)"
proof -
  let ?l = "rc_max_sequence s"
  have s: "tables_hold ops ?l (rc_memtables s)" "unat ?l = length ops" using assms(1) by (simp_all add: rc_holds_def)
  have "word_of_nat (unat ?l) = ?l" by simp
  then have l: "?l = word_of_nat (length ops)" using s(2) by simp
  define m where "m = (case rc_mem s of None \<Rightarrow> MemTable_new | Some m \<Rightarrow> m)"
  define l' where "l' = wb_Sequence b + scast (wb_Count b) - 1"
  have "scast (wb_Count b) = (word_of_nat (length new) :: 64 word)"
    using assms(2,5) scast_count by (auto simp: is_batch_def batch_fields)
  then have "l' = word_of_nat (length ops + length new)" by (simp add: l'_def assms(6))
  moreover have "unat (word_of_nat (length ops + length new) :: 64 word) = length ops + length new"
    using assms(4) by (simp only: unat_of_nat) (simp add: take_bit_nat_eq_self)
  ultimately have l': "unat l' = length ops + length new" by simp
  have "tables_hold ops ?l (m # rc_tables s)"
    using s(1) tables_hold_new by (cases "rc_mem s") (simp_all add: rc_memtables_def m_def)
  then obtain m' where m': "wb_InsertInto b m = (WbOk, m')" "tables_hold (ops @ new) l' (m' # rc_tables s)"
    using tables_hold_insert [OF _ assms(2,3), of ops ?l m "rc_tables s" l'] assms(4,6) s(2) l l' by auto
  have "(if l' > ?l then l' else ?l) = l'" using l' s(2) by (simp add: word_less_nat_alt word_unat_eq_iff)
  then have "recover_record paranoid turn b s =
      (let s' = s\<lparr>rc_mem := Some m', rc_status := RecoverOk, rc_max_sequence := l'\<rparr> in
       if fst turn then write_table (snd turn) m' (s'\<lparr>rc_compactions := rc_compactions s + 1, rc_mem := None\<rparr>) else s')"
    using m'(1) unfolding recover_record_def m_def [symmetric] l'_def [symmetric]
    by (auto simp: Let_def MaybeIgnoreError_def l'_def [symmetric] split: if_splits)
  then show ?thesis using m'(2) l' assms(7) by (auto simp: Let_def rc_holds_def rc_memtables_def write_table_def)
qed

section \<open>Recovery after a crash\<close>

text \<open>The records \<open>Write\<close> logs for a sequence of batches: each numbered after the ones before.\<close>

fun numbered :: "64 word \<Rightarrow> batch_op list list \<Rightarrow> slice list" where
  "numbered s [] = []"
| "numbered s (ops # opss) = wb_SetSequence (batch_of ops) (s + 1) # numbered (s + word_of_nat (length ops)) opss"

lemma is_batch_length: "is_batch b ops \<Longrightarrow> 12 \<le> length b"
  by (auto simp: is_batch_def)

text \<open>The number of records that are complete in the first \<open>n\<close> bytes.\<close>

fun complete :: "crc_extend \<Rightarrow> nat \<Rightarrow> slice list \<Rightarrow> nat \<Rightarrow> nat" where
  "complete ext pos [] n = 0"
| "complete ext pos (d # ds) n =
     (let k = length (record_bytes ext pos True d)
      in if n < k then 0 else Suc (complete ext (pos + k) ds (n - k)))"

lemma complete_all: "length (log_bytes ext pos ds) \<le> n \<Longrightarrow> complete ext pos ds n = length ds"
  by (induction ds arbitrary: pos n) (auto simp: Let_def)

lemma recover_loop_prefix:
  assumes "rd_ok r pos rest" and "log_bytes ext pos (numbered (word_of_nat (length ops)) opss) = rest @ x" and "crc_extends ext"
    and "rc_holds ops s" and "\<forall>o' \<in> set opss. length o' < 2 ^ 31 \<and> (\<forall>op \<in> set o'. op_ok op)"
    and "length ops + length (concat opss) < 2 ^ 56" and "\<forall>t \<in> set turns. fst t \<longrightarrow> snd t"
  shows "rc_holds (ops @ concat (take (complete ext pos (numbered (word_of_nat (length ops)) opss) (length rest)) opss))
    (log_recover_loop ext paranoid turns r s)"
  using assms(1,2,4-)
proof (induction opss arbitrary: r pos rest ops s turns)
  case Nil
  then have "rest = []" by simp
  with read_log_end [of r pos ext] Nil.prems(1) obtain r' where r': "ReadRecord ext r = (None, r')" "rd_drops r' = []" by auto
  then show ?case using Nil.prems(3) by (subst log_recover_loop.simps) (simp add: Let_def)
next
  case (Cons new opss)
  let ?w = "word_of_nat (length ops) :: 64 word"
  define b where "b = wb_SetSequence (batch_of new) (?w + 1)"
  define ds where "ds = numbered (word_of_nat (length (ops @ new))) opss"
  define R where "R = record_bytes ext pos True b"
  have num: "numbered ?w (new # opss) = b # ds" by (simp add: b_def ds_def)
  have bytes: "R @ log_bytes ext (pos + length R) ds = rest @ x" using Cons.prems(2) unfolding num by (simp add: R_def)
  have b: "is_batch b new" "wb_Sequence b = ?w + 1" using is_batch_SetSequence [OF is_batch_of] by (simp_all add: b_def)
  have d0: "rd_drops r = []" using Cons.prems(1) by (simp add: rd_ok_def)
  show ?case
  proof (cases "length rest < length R")
    case True
    then have "take (length rest) R = rest" using arg_cong [OF bytes, of "take (length rest)"] by simp
    then have "R = rest @ drop (length rest) R" by (metis append_take_drop_id)
    moreover have "drop (length rest) R \<noteq> []" using True by simp
    ultimately obtain r' where r': "ReadRecord ext r = (None, r')" "rd_drops r' = []"
      using read_log_cut [OF Cons.prems(1), of ext b, folded R_def] assms(3) by blast
    then have "log_recover_loop ext paranoid turns r s = s" by (subst log_recover_loop.simps) (simp add: Let_def)
    then show ?thesis using True Cons.prems(3) unfolding num by (simp add: R_def Let_def)
  next
    case False
    define rest' where "rest' = drop (length R) rest"
    have "take (length R) rest = R" using False arg_cong [OF bytes, of "take (length R)"] by simp
    then have rest: "rest = R @ rest'" unfolding rest'_def by (metis append_take_drop_id)
    then have more: "log_bytes ext (pos + length R) ds = rest' @ x" using bytes by simp
    obtain r' where r': "ReadRecord ext r = (Some b, r')" "rd_ok r' (pos + length R) rest'"
      using read_log_record [OF Cons.prems(1) [unfolded rest R_def] assms(3)] unfolding R_def by blast
    define s' where "s' = recover_record paranoid (next_turn turns) b s"
    have turn: "fst (next_turn turns) \<Longrightarrow> snd (next_turn turns)"
      using Cons.prems(6) by (cases turns) (auto simp: next_turn_def)
    have "length new < 2 ^ 31" "\<forall>op \<in> set new. op_ok op" "length ops + length new < 2 ^ 56"
      using Cons.prems(4,5) by simp_all
    then have s': "rc_holds (ops @ new) s'"
      unfolding s'_def using recover_record_holds [OF Cons.prems(3) b(1) _ _ _ b(2) turn] by blast
    have "rd_drops r' = []" using r'(2) by (simp add: rd_ok_def)
    moreover have "rc_status s = RecoverOk" "rc_status s' = RecoverOk" using Cons.prems(3) s' by (simp_all add: rc_holds_def)
    ultimately have step: "log_recover_loop ext paranoid turns r s = log_recover_loop ext paranoid (tl turns) r' s'"
      using r'(1) d0 is_batch_length [OF b(1)] by (subst log_recover_loop.simps) (simp add: Let_def s'_def)
    have tl: "\<forall>t \<in> set (tl turns). fst t \<longrightarrow> snd t" using Cons.prems(6) by (cases turns) auto
    have "rc_holds ((ops @ new) @ concat (take (complete ext (pos + length R) ds (length rest')) opss)) (log_recover_loop ext paranoid (tl turns) r' s')"
      unfolding ds_def using Cons.prems(4,5) more tl
      by (intro Cons.IH [OF r'(2) _ s']) (simp_all add: ds_def)
    moreover have "complete ext pos (b # ds) (length rest) = Suc (complete ext (pos + length R) ds (length rest'))"
      by (simp add: Let_def R_def [symmetric] rest)
    ultimately show ?thesis unfolding step num by simp
  qed
qed

text \<open>The memtables of a recovery, with the one taken over for further writes first.\<close>

definition recovered :: "recovery \<times> memtable option \<Rightarrow> memtable list" where
  "recovered p = (case snd p of None \<Rightarrow> [] | Some m \<Rightarrow> [m]) @ rc_memtables (fst p)"

definition recovery_new :: recovery where
  "recovery_new = \<lparr>rc_status = RecoverOk, rc_mem = None, rc_tables = [], rc_max_sequence = 0, rc_compactions = 0, rc_save_manifest = False\<rparr>"

lemma complete_min: "complete ext pos ds (min n (length (log_bytes ext pos ds))) = complete ext pos ds n"
  by (cases "n \<le> length (log_bytes ext pos ds)") (simp_all add: min_def complete_all)

lemma RecoverLogFile_holds:
  assumes "re_file e = Some bytes" and "re_table_ok e" and "RecoverLogFile ext paranoid last_log e s0 = p"
    and "rc_holds ops (log_recover_loop ext paranoid (re_turns e) (log_Reader bytes (re_reads e) True 0)
      (s0\<lparr>rc_status := RecoverOk, rc_mem := None, rc_compactions := 0\<rparr>))"
  shows "rc_status (fst p) = RecoverOk \<and> unat (rc_max_sequence (fst p)) = length ops
    \<and> tables_hold ops (rc_max_sequence (fst p)) (recovered p)"
proof -
  define s where "s = log_recover_loop ext paranoid (re_turns e) (log_Reader bytes (re_reads e) True 0)
      (s0\<lparr>rc_status := RecoverOk, rc_mem := None, rc_compactions := 0\<rparr>)"
  have s: "rc_status s = RecoverOk" "unat (rc_max_sequence s) = length ops" "tables_hold ops (rc_max_sequence s) (rc_memtables s)"
    using assms(4) by (simp_all add: rc_holds_def s_def)
  show ?thesis
  proof (cases "rc_mem s")
    case None
    then show ?thesis using s assms(1,3) tables_hold_new [of ops "rc_max_sequence s"]
      by (auto simp: RecoverLogFile_def s_def [symmetric] Let_def recovered_def rc_memtables_def split: if_splits)
  next
    case (Some m)
    then show ?thesis using s assms(1,2,3)
      by (auto simp: RecoverLogFile_def s_def [symmetric] Let_def recovered_def rc_memtables_def write_table_def split: if_splits)
  qed
qed

text \<open>C31. Recovery after a crash.  Batches are logged one after the other into an empty log, and a
  crash leaves an arbitrary prefix of the file, cut anywhere.  Recovery succeeds, reports no
  corruption even under paranoid checks, and rebuilds exactly the batches whose records are
  complete in the prefix, in order, whether it keeps the log or writes tables on the way: a read
  at the recovered sequence number returns what the last operation on the key in those batches
  wrote.\<close>

theorem log_recovery_prefix:
  assumes "crc_extends ext" and "\<forall>ops \<in> set opss. length ops < 2 ^ 31 \<and> (\<forall>op \<in> set ops. op_ok op)"
    and "length (concat opss) < 2 ^ 56" and "length u + 8 < 2 ^ 32"
    and "AddRecords ext (numbered 0 opss) (log_Writer \<lparr>lf_bytes = [], lf_outcomes = []\<rparr> 0) = (ok, w)"
    and "re_file e = Some (take n (lf_bytes (lw_dest w)))" and "re_reads e = []" and "re_table_ok e" and "\<forall>t \<in> set (re_turns e). fst t \<longrightarrow> snd t"
    and "RecoverLogFile ext paranoid last_log e recovery_new = p"
    and "kept = concat (take (complete ext 0 (numbered 0 opss) n) opss)"
  shows "ok \<and> rc_status (fst p) = RecoverOk \<and> unat (rc_max_sequence (fst p)) = length kept
    \<and> first_hit (LookupKey_new u (rc_max_sequence (fst p))) (recovered p) =
      (case filter (\<lambda>op. op_key op = u) kept of [] \<Rightarrow> MemMiss | os \<Rightarrow> op_result (last os))"
proof -
  let ?ds = "numbered 0 opss"
  obtain w' where "AddRecords ext ?ds (log_Writer \<lparr>lf_bytes = [], lf_outcomes = []\<rparr> 0) = (True, w')"
      "writer_at ([] @ log_bytes ext (length ([] :: slice)) ?ds) w'"
    using AddRecords_at [OF writer_new] by blast
  then have ok: ok and w: "lf_bytes (lw_dest w) = log_bytes ext 0 ?ds" using assms(5) by (simp_all add: writer_at_def)
  let ?rest = "take n (log_bytes ext 0 ?ds)"
  have "rc_holds ([] @ concat (take (complete ext 0 (numbered (word_of_nat (length ([] :: batch_op list))) opss) (length ?rest)) opss))
      (log_recover_loop ext paranoid (re_turns e) (log_Reader ?rest [] True 0)
        (recovery_new\<lparr>rc_status := RecoverOk, rc_mem := None, rc_compactions := 0\<rparr>))"
    by (rule recover_loop_prefix [OF rd_ok_new, of _ _ _ _ "drop n (log_bytes ext 0 ?ds)"])
      (use assms(1-3,9) in \<open>simp_all add: rc_holds_def rc_memtables_def tables_hold_def recovery_new_def\<close>)
  then have "rc_holds kept (log_recover_loop ext paranoid (re_turns e) (log_Reader ?rest (re_reads e) True 0)
        (recovery_new\<lparr>rc_status := RecoverOk, rc_mem := None, rc_compactions := 0\<rparr>))"
    using complete_min [of ext 0 ?ds n] by (simp add: assms(7,11) min.commute)
  note fin = RecoverLogFile_holds [OF assms(6) [unfolded w] assms(8,10) this]
  have "length kept \<le> length (concat opss)"
    unfolding assms(11) by (metis append_take_drop_id concat_append le_add1 length_append)
  then have "unat (rc_max_sequence (fst p)) < 2 ^ 56" using fin assms(3) by simp
  with fin ok show ?thesis using tables_hold_read [OF _ assms(4)] by simp
qed

text \<open>Two batches, cut off inside the second record, with the length as checksum.\<close>

definition length_crc :: crc_extend where
  "length_crc c a = c + word_of_nat (length a)"

definition sample_batches :: "batch_op list list" where
  "sample_batches = [[BPut [49] [57]], [BDelete [49]]]"

definition sample_log :: slice where
  "sample_log = lf_bytes (lw_dest (snd (AddRecords length_crc (numbered 0 sample_batches) (log_Writer \<lparr>lf_bytes = [], lf_outcomes = []\<rparr> 0))))"

definition sample_env :: recover_env where
  "sample_env = \<lparr>re_file = Some (take 30 sample_log), re_reads = [], re_turns = [(True, True)], re_reuse_logs = True,
     re_appendable = True, re_table_ok = True\<rparr>"

lemma sample_complete: "complete length_crc 0 (numbered 0 sample_batches) 30 = 1"
proof -
  have "length (wb_SetSequence (batch_of [BPut [49] [57]]) 1) = 17" "length (wb_SetSequence (batch_of [BDelete [49]]) 2) = 15"
    by (simp_all add: batch_of_def wb_SetSequence_def wb_Put_def wb_Delete_def wb_SetCount_def WriteBatch_Clear_def kHeader_def
        PutLengthPrefixedSlice_def PutVarint32_def EncodeVarint32_def)
  then have "length (record_bytes length_crc 0 True (wb_SetSequence (batch_of [BPut [49] [57]]) 1)) = 24"
      "length (record_bytes length_crc 24 True (wb_SetSequence (batch_of [BDelete [49]]) 2)) = 22"
    by (subst record_bytes_simps, simp add: Let_def length_chunk_bytes room_at_def trailer_def kBlockSize_def kHeaderSize_def)+
  then show ?thesis by (simp add: sample_batches_def Let_def)
qed

theorem log_recovery_prefix_witness:
  "let p = RecoverLogFile length_crc True True sample_env recovery_new
   in rc_status (fst p) = RecoverOk \<and> first_hit (LookupKey_new [49] (rc_max_sequence (fst p))) (recovered p) = MemFound [57]"
proof -
  obtain ok w where w: "AddRecords length_crc (numbered 0 sample_batches) (log_Writer \<lparr>lf_bytes = [], lf_outcomes = []\<rparr> 0) = (ok, w)"
    by (rule prod.exhaust)
  have "re_file sample_env = Some (take 30 (lf_bytes (lw_dest w)))" by (simp add: sample_env_def sample_log_def w)
  note rec = log_recovery_prefix [OF _ _ _ _ w this _ _ _ refl refl, of "[49]" True True, unfolded sample_complete]
  have "crc_extends length_crc" by (simp add: crc_extends_def length_crc_def)
  moreover have "re_reads sample_env = []" "re_table_ok sample_env" "\<forall>t \<in> set (re_turns sample_env). fst t \<longrightarrow> snd t"
    by (simp_all add: sample_env_def)
  ultimately show ?thesis using rec by (simp add: Let_def sample_batches_def)
qed

end
