(* ===== verification/Ldb_Filter.thy ===== *)
theory Ldb_Filter
  imports Ldb_Format
begin

text \<open>
  The filters that let a table skip blocks (\<open>src/leveldb/util/hash.cc\<close>,
  \<open>util/bloom.cc\<close>, the internal policy of \<open>db/dbformat.cc\<close> and
  \<open>table/filter_block.cc\<close>).  A filter policy is a pair of operations, creating a filter
  of keys at the end of a string and testing a key against a filter; the locale
  \<open>filter_policy\<close> states its contract, a key that went into a filter always matches it.
\<close>

section \<open>Hash\<close>

definition hash_m :: "32 word" where "hash_m = 0xc6a4a793"

fun hash_blocks :: "slice \<Rightarrow> 32 word \<Rightarrow> slice \<times> 32 word" where
  "hash_blocks (a # b # c # d # data) h =
     (let h = (h + DecodeFixed32 [a, b, c, d]) * hash_m in hash_blocks data (h XOR drop_bit 16 h))"
| "hash_blocks data h = (data, h)"

definition Hash :: "slice \<Rightarrow> 32 word \<Rightarrow> 32 word" where
  "Hash data seed =
     (case hash_blocks data (seed XOR (word_of_nat (length data) * hash_m)) of (data, h) \<Rightarrow>
        let h = (if length data = 3 then h + push_bit 16 (ucast (data ! 2)) else h);
            h = (if 2 \<le> length data then h + push_bit 8 (ucast (data ! 1)) else h)
        in if 1 \<le> length data
           then let h = (h + ucast (data ! 0)) * hash_m in h XOR drop_bit 24 h
           else h)"

section \<open>Bloom filters\<close>

definition BloomHash :: "slice \<Rightarrow> 32 word" where
  "BloomHash key = Hash key 0xbc9f1d34"

text \<open>The number of probes; below the cap of 30 the product with 0.69 is never near an integer.\<close>

definition bloom_k :: "nat \<Rightarrow> nat" where
  "bloom_k bits_per_key =
     (let k = bits_per_key * 69 div 100; k = (if k < 1 then 1 else k) in if k > 30 then 30 else k)"

definition rotate_delta :: "32 word \<Rightarrow> 32 word" where
  "rotate_delta h = drop_bit 17 h OR push_bit 15 h"

fun set_probes :: "nat \<Rightarrow> 32 word \<Rightarrow> nat \<Rightarrow> 32 word \<Rightarrow> slice \<Rightarrow> slice" where
  "set_probes bits delta 0 h arr = arr"
| "set_probes bits delta (Suc j) h arr =
     (let bitpos = unat h mod bits
      in set_probes bits delta j (h + delta)
           (arr[bitpos div 8 := arr ! (bitpos div 8) OR push_bit (bitpos mod 8) 1]))"

definition add_bloom_key :: "nat \<Rightarrow> nat \<Rightarrow> slice \<Rightarrow> slice \<Rightarrow> slice" where
  "add_bloom_key bits k key arr = (let h = BloomHash key in set_probes bits (rotate_delta h) k h arr)"

definition bloom_CreateFilter :: "nat \<Rightarrow> slice list \<Rightarrow> slice \<Rightarrow> slice" where
  "bloom_CreateFilter bits_per_key keys dst =
     (let bits = length keys * bits_per_key;
          bits = (if bits < 64 then 64 else bits);
          bytes = (bits + 7) div 8;
          bits = bytes * 8
      in dst @ fold (add_bloom_key bits (bloom_k bits_per_key)) keys (replicate bytes 0)
           @ [word_of_nat (bloom_k bits_per_key)])"

fun test_probes :: "nat \<Rightarrow> 32 word \<Rightarrow> nat \<Rightarrow> 32 word \<Rightarrow> slice \<Rightarrow> bool" where
  "test_probes bits delta 0 h arr = True"
| "test_probes bits delta (Suc j) h arr =
     (let bitpos = unat h mod bits
      in if arr ! (bitpos div 8) AND push_bit (bitpos mod 8) 1 = 0 then False
         else test_probes bits delta j (h + delta) arr)"

definition bloom_KeyMayMatch :: "slice \<Rightarrow> slice \<Rightarrow> bool" where
  "bloom_KeyMayMatch key bloom_filter =
     (let len = length bloom_filter in
      if len < 2 then False
      else let bits = (len - 1) * 8; k = unat (bloom_filter ! (len - 1)) in
           if k > 30 then True
           else let h = BloomHash key in test_probes bits (rotate_delta h) k h bloom_filter)"

section \<open>Filters over internal keys\<close>

definition internal_CreateFilter :: "(slice list \<Rightarrow> slice \<Rightarrow> slice) \<Rightarrow> slice list \<Rightarrow> slice \<Rightarrow> slice" where
  "internal_CreateFilter create keys dst = create (map ExtractUserKey keys) dst"

definition internal_KeyMayMatch :: "(slice \<Rightarrow> slice \<Rightarrow> bool) \<Rightarrow> slice \<Rightarrow> slice \<Rightarrow> bool" where
  "internal_KeyMayMatch may_match key f = may_match (ExtractUserKey key) f"

section \<open>Filter blocks\<close>

record filter_builder =
  fb_keys :: slice
  fb_start :: "nat list"
  fb_result :: slice
  fb_offsets :: "32 word list"

definition FilterBlockBuilder :: filter_builder where
  "FilterBlockBuilder = \<lparr>fb_keys = [], fb_start = [], fb_result = [], fb_offsets = []\<rparr>"

definition GenerateFilter :: "(slice list \<Rightarrow> slice \<Rightarrow> slice) \<Rightarrow> filter_builder \<Rightarrow> filter_builder" where
  "GenerateFilter create b =
     (let num_keys = length (fb_start b) in
      if num_keys = 0 then b\<lparr>fb_offsets := fb_offsets b @ [word_of_nat (length (fb_result b))]\<rparr>
      else let start = fb_start b @ [length (fb_keys b)];
               tmp_keys = map (\<lambda>i. take (start ! (i + 1) - start ! i) (drop (start ! i) (fb_keys b))) [0..<num_keys]
           in \<lparr>fb_keys = [], fb_start = [], fb_result = create tmp_keys (fb_result b),
               fb_offsets = fb_offsets b @ [word_of_nat (length (fb_result b))]\<rparr>)"

function StartBlock_loop :: "(slice list \<Rightarrow> slice \<Rightarrow> slice) \<Rightarrow> nat \<Rightarrow> filter_builder \<Rightarrow> filter_builder" where
  "StartBlock_loop create filter_index b =
     (if filter_index > length (fb_offsets b) then StartBlock_loop create filter_index (GenerateFilter create b) else b)"
  by pat_completeness auto

termination
  by (relation "measure (\<lambda>(create, i, b). i - length (fb_offsets b))") (auto simp: GenerateFilter_def Let_def)

declare StartBlock_loop.simps [simp del]

definition StartBlock :: "(slice list \<Rightarrow> slice \<Rightarrow> slice) \<Rightarrow> 64 word \<Rightarrow> filter_builder \<Rightarrow> filter_builder" where
  "StartBlock create block_offset b = StartBlock_loop create (unat block_offset div 2048) b"

definition fb_AddKey :: "slice \<Rightarrow> filter_builder \<Rightarrow> filter_builder" where
  "fb_AddKey key b = b\<lparr>fb_start := fb_start b @ [length (fb_keys b)], fb_keys := fb_keys b @ key\<rparr>"

definition fb_Finish :: "(slice list \<Rightarrow> slice \<Rightarrow> slice) \<Rightarrow> filter_builder \<Rightarrow> slice" where
  "fb_Finish create b =
     (let b = (if fb_start b \<noteq> [] then GenerateFilter create b else b);
          array_offset = word_of_nat (length (fb_result b))
      in PutFixed32 (fold (\<lambda>x r. PutFixed32 r x) (fb_offsets b) (fb_result b)) array_offset @ [11])"

record filter_reader =
  fr_data :: slice
  fr_offset :: nat
  fr_num :: nat
  fr_base_lg :: nat

definition FilterBlockReader :: "slice \<Rightarrow> filter_reader" where
  "FilterBlockReader contents =
     (let n = length contents in
      if n < 5 then \<lparr>fr_data = [], fr_offset = 0, fr_num = 0, fr_base_lg = 0\<rparr>
      else let base_lg = unat (contents ! (n - 1));
               last_word = unat (DecodeFixed32 (drop (n - 5) contents))
           in if last_word > n - 5 then \<lparr>fr_data = [], fr_offset = 0, fr_num = 0, fr_base_lg = base_lg\<rparr>
              else \<lparr>fr_data = contents, fr_offset = last_word, fr_num = (n - 5 - last_word) div 4, fr_base_lg = base_lg\<rparr>)"

definition fr_KeyMayMatch :: "(slice \<Rightarrow> slice \<Rightarrow> bool) \<Rightarrow> 64 word \<Rightarrow> slice \<Rightarrow> filter_reader \<Rightarrow> bool" where
  "fr_KeyMayMatch may_match block_offset key r =
     (let index = unat (drop_bit (fr_base_lg r) block_offset) in
      if index < fr_num r
      then let start = unat (DecodeFixed32 (drop (fr_offset r + index * 4) (fr_data r)));
               limit = unat (DecodeFixed32 (drop (fr_offset r + index * 4 + 4) (fr_data r)))
           in if start \<le> limit \<and> limit \<le> fr_offset r then may_match key (take (limit - start) (drop start (fr_data r)))
              else if start = limit then False else True
      else True)"

section \<open>No false negatives\<close>

text \<open>\<open>same k' k\<close>: looking up \<open>k'\<close> has to find \<open>k\<close>.\<close>

locale filter_policy =
  fixes create :: "slice list \<Rightarrow> slice \<Rightarrow> slice"
    and may_match :: "slice \<Rightarrow> slice \<Rightarrow> bool"
    and same :: "slice \<Rightarrow> slice \<Rightarrow> bool"
  assumes create_append: "create keys dst = dst @ create keys []"
    and no_false_negative: "k \<in> set keys \<Longrightarrow> same k' k \<Longrightarrow> may_match k' (create keys [])"
begin

lemma internal_policy:
  "filter_policy (internal_CreateFilter create) (internal_KeyMayMatch may_match) (\<lambda>k' k. same (ExtractUserKey k') (ExtractUserKey k))"
proof
  show "internal_CreateFilter create keys dst = dst @ internal_CreateFilter create keys []" for keys dst
    unfolding internal_CreateFilter_def by (rule create_append)
  show "internal_KeyMayMatch may_match k' (internal_CreateFilter create keys [])"
    if "k \<in> set keys" "same (ExtractUserKey k') (ExtractUserKey k)" for k keys k'
    using that no_false_negative [of "ExtractUserKey k"] by (simp add: internal_CreateFilter_def internal_KeyMayMatch_def)
qed

end

text \<open>The bit at a position of a byte array; probing sets bits and never clears one.\<close>

definition array_bit :: "slice \<Rightarrow> nat \<Rightarrow> bool" where
  "array_bit arr pos \<longleftrightarrow> bit (arr ! (pos div 8)) (pos mod 8)"

lemma bit_byte_exp: "bit (2 ^ n :: byte) m \<longleftrightarrow> n < 8 \<and> m = n"
  by (auto simp: bit_exp_iff)

lemma and_bit_zero: "a AND 2 ^ n = 0 \<longleftrightarrow> \<not> bit a n" if "n < 8" for a :: byte
proof
  assume "a AND 2 ^ n = 0"
  then have "\<not> bit (a AND 2 ^ n) n" by simp
  then show "\<not> bit a n" using that by (simp add: bit_and_iff bit_byte_exp)
qed (rule bit_word_eqI, auto simp: bit_and_iff bit_byte_exp)

lemma set_bit_array:
  assumes "pos < 8 * length arr"
  shows "array_bit (arr[pos div 8 := arr ! (pos div 8) OR 2 ^ (pos mod 8)]) q \<longleftrightarrow> array_bit arr q \<or> q = pos"
proof -
  have "pos div 8 < length arr" using assms by auto
  moreover have "q = pos \<longleftrightarrow> q div 8 = pos div 8 \<and> q mod 8 = pos mod 8" by (metis div_mult_mod_eq)
  ultimately show ?thesis
    by (cases "q div 8 = pos div 8") (auto simp: array_bit_def bit_or_iff bit_byte_exp)
qed

lemma length_set_probes: "length (set_probes bits delta k h arr) = length arr"
  by (induction bits delta k h arr rule: set_probes.induct) (simp_all add: Let_def)

lemma set_probes_keeps: "0 < bits \<Longrightarrow> bits \<le> 8 * length arr \<Longrightarrow> array_bit arr q \<Longrightarrow> array_bit (set_probes bits delta k h arr) q"
proof (induction bits delta k h arr rule: set_probes.induct)
  case (2 bits delta j h arr)
  have "unat h mod bits < 8 * length arr" using "2.prems"(1,2) by (meson less_le_trans mod_less_divisor)
  then show ?case using 2 by (simp add: Let_def set_bit_array)
qed simp

lemma test_probes_bits: "test_probes bits delta k h arr \<longleftrightarrow> (\<forall>j < k. array_bit arr (unat (h + word_of_nat j * delta) mod bits))"
proof (induction bits delta k h arr rule: test_probes.induct)
  case (2 bits delta j h arr)
  have "(\<forall>i < Suc j. array_bit arr (unat (h + word_of_nat i * delta) mod bits)) \<longleftrightarrow>
      array_bit arr (unat h mod bits) \<and> (\<forall>i < j. array_bit arr (unat (h + delta + word_of_nat i * delta) mod bits))"
    by (simp add: All_less_Suc2 algebra_simps)
  then show ?case using 2 by (simp add: Let_def and_bit_zero array_bit_def)
qed simp

lemma set_probes_sets:
  "0 < bits \<Longrightarrow> bits \<le> 8 * length arr \<Longrightarrow> test_probes bits delta k h (set_probes bits delta k h arr)"
proof (induction bits delta k h arr rule: set_probes.induct)
  case (2 bits delta j h arr)
  let ?arr = "arr[unat h mod bits div 8 := arr ! (unat h mod bits div 8) OR 2 ^ (unat h mod bits mod 8)]"
  have pos: "unat h mod bits < 8 * length arr" using "2.prems" by (meson less_le_trans mod_less_divisor)
  then have "array_bit ?arr (unat h mod bits)" by (simp add: set_bit_array)
  then have "array_bit (set_probes bits delta j (h + delta) ?arr) (unat h mod bits)"
    using "2.prems" by (intro set_probes_keeps) simp_all
  then show ?case using 2 by (simp add: Let_def and_bit_zero array_bit_def)
qed simp

lemma test_probes_prefix:
  assumes "0 < bits" and "bits \<le> 8 * length arr"
  shows "test_probes bits delta k h (arr @ rest) = test_probes bits delta k h arr"
proof -
  have "x mod bits div 8 < length arr" for x using assms by (metis less_le_trans mod_less_divisor less_mult_imp_div_less mult.commute)
  then show ?thesis by (simp add: test_probes_bits array_bit_def nth_append)
qed

lemma add_keys_array:
  assumes "0 < bits" and "bits \<le> 8 * length arr"
  shows "length (fold (add_bloom_key bits k) keys arr) = length arr
    \<and> (array_bit arr q \<longrightarrow> array_bit (fold (add_bloom_key bits k) keys arr) q)"
  using assms(2)
proof (induction keys arbitrary: arr)
  case (Cons key keys)
  let ?arr = "add_bloom_key bits k key arr"
  have "length ?arr = length arr" "array_bit arr q \<Longrightarrow> array_bit ?arr q"
    using set_probes_keeps [OF assms(1) Cons.prems] by (simp_all add: add_bloom_key_def Let_def length_set_probes)
  then show ?case using Cons.IH [of ?arr] Cons.prems by simp
qed simp

lemma bloom_added:
  assumes "0 < bits" and "bits \<le> 8 * length arr" and "key \<in> set keys"
  shows "test_probes bits (rotate_delta (BloomHash key)) k (BloomHash key) (fold (add_bloom_key bits k) keys arr)"
  using assms(2,3)
proof (induction keys arbitrary: arr)
  case (Cons key' keys)
  let ?arr = "add_bloom_key bits k key' arr"
  have len: "length ?arr = length arr" by (simp add: add_bloom_key_def Let_def length_set_probes)
  show ?case
  proof (cases "key \<in> set keys")
    case True
    then show ?thesis using Cons.IH [of ?arr] Cons.prems(1) len by simp
  next
    case False
    then have "test_probes bits (rotate_delta (BloomHash key)) k (BloomHash key) ?arr"
      using set_probes_sets [OF assms(1) Cons.prems(1)] Cons.prems(2) by (simp add: add_bloom_key_def Let_def)
    then show ?thesis using add_keys_array [OF assms(1), of ?arr k keys] Cons.prems(1) len by (simp add: test_probes_bits)
  qed
qed simp

lemma bloom_k_range: "bloom_k n \<le> 30"
  by (simp add: bloom_k_def Let_def)

lemma bloom_no_false_negative: "key \<in> set keys \<Longrightarrow> bloom_KeyMayMatch key (bloom_CreateFilter n keys [])"
proof -
  assume key: "key \<in> set keys"
  define bits where "bits = (if length keys * n < 64 then 64 else length keys * n)"
  define bytes where "bytes = (bits + 7) div 8"
  define arr where "arr = fold (add_bloom_key (bytes * 8) (bloom_k n)) keys (replicate bytes 0)"
  have f: "bloom_CreateFilter n keys [] = arr @ [word_of_nat (bloom_k n)]"
    by (simp add: bloom_CreateFilter_def Let_def arr_def bytes_def bits_def)
  have "64 \<le> bits" by (simp add: bits_def)
  then have bytes: "8 \<le> bytes" by (simp add: bytes_def)
  have len: "length arr = bytes" using add_keys_array [of "bytes * 8" "replicate bytes 0"] bytes by (simp add: arr_def)
  have "test_probes (bytes * 8) (rotate_delta (BloomHash key)) (bloom_k n) (BloomHash key) (arr @ [word_of_nat (bloom_k n)])"
    using bytes len key by (subst test_probes_prefix) (simp_all add: arr_def bloom_added)
  moreover have "unat (word_of_nat (bloom_k n) :: byte) = bloom_k n" using bloom_k_range [of n] by (simp add: unat_of_nat take_bit_nat_eq_self)
  ultimately show ?thesis using bytes len by (simp add: bloom_KeyMayMatch_def f Let_def nth_append)
qed

interpretation bloom: filter_policy "bloom_CreateFilter n" bloom_KeyMayMatch "(=)" for n
  by unfold_locales (simp add: bloom_CreateFilter_def Let_def, simp add: bloom_no_false_negative)

interpretation internal_bloom: filter_policy "internal_CreateFilter (bloom_CreateFilter n)" "internal_KeyMayMatch bloom_KeyMayMatch"
    "\<lambda>k' k. ExtractUserKey k' = ExtractUserKey k" for n
  by (rule bloom.internal_policy)

section \<open>Reading back a filter block\<close>

text \<open>The start of each part of a concatenation.\<close>

definition prefix_lengths :: "'a list list \<Rightarrow> nat list" where
  "prefix_lengths xss = map (\<lambda>i. length (concat (take i xss))) [0..<length xss]"

lemma prefix_lengths_simps [simp]:
  "prefix_lengths [] = []" "length (prefix_lengths xss) = length xss"
  "prefix_lengths (xss @ [xs]) = prefix_lengths xss @ [length (concat xss)]"
  by (simp_all add: prefix_lengths_def)

lemma prefix_lengths_nth: "i \<le> length xss \<Longrightarrow> (prefix_lengths xss @ [length (concat xss)]) ! i = length (concat (take i xss))"
  by (simp add: prefix_lengths_def nth_append)

lemma concat_part:
  assumes "i < length xss"
  shows "take (length (concat (take (Suc i) xss)) - length (concat (take i xss))) (drop (length (concat (take i xss))) (concat xss @ rest)) = xss ! i"
    and "length (concat (take (Suc i) xss)) = length (concat (take i xss)) + length (xss ! i)"
    and "length (concat (take (Suc i) xss)) \<le> length (concat xss)"
proof -
  have "concat xss = concat (take i xss) @ xss ! i @ concat (drop (Suc i) xss)"
    using assms by (metis Cons_nth_drop_Suc append_take_drop_id concat.simps(2) concat_append)
  moreover show len: "length (concat (take (Suc i) xss)) = length (concat (take i xss)) + length (xss ! i)"
    using assms by (simp add: take_Suc_conv_app_nth)
  ultimately show "take (length (concat (take (Suc i) xss)) - length (concat (take i xss))) (drop (length (concat (take i xss))) (concat xss @ rest)) = xss ! i"
      and "length (concat (take (Suc i) xss)) \<le> length (concat xss)"
    by simp_all
qed

text \<open>A builder that has made the filters of the key groups \<open>gs\<close> and holds \<open>ks\<close>.\<close>

definition filter_bytes :: "(slice list \<Rightarrow> slice \<Rightarrow> slice) \<Rightarrow> slice list \<Rightarrow> slice" where
  "filter_bytes create ks = (if ks = [] then [] else create ks [])"

definition builder_ok :: "(slice list \<Rightarrow> slice \<Rightarrow> slice) \<Rightarrow> slice list list \<Rightarrow> slice list \<Rightarrow> filter_builder \<Rightarrow> bool" where
  "builder_ok create gs ks b \<longleftrightarrow> fb_keys b = concat ks \<and> fb_start b = prefix_lengths ks
     \<and> fb_result b = concat (map (filter_bytes create) gs)
     \<and> fb_offsets b = map word_of_nat (prefix_lengths (map (filter_bytes create) gs))"

lemma builder_new: "builder_ok create [] [] FilterBlockBuilder"
  by (simp add: builder_ok_def FilterBlockBuilder_def)

lemma builder_AddKey: "builder_ok create gs ks b \<Longrightarrow> builder_ok create gs (ks @ [key]) (fb_AddKey key b)"
  by (simp add: builder_ok_def fb_AddKey_def)

lemma builder_Generate:
  assumes "builder_ok create gs ks b" and "\<And>keys dst. create keys dst = dst @ create keys []"
  shows "builder_ok create (gs @ [ks]) [] (GenerateFilter create b)"
proof (cases "ks = []")
  case True
  then show ?thesis using assms(1) by (simp add: builder_ok_def GenerateFilter_def filter_bytes_def)
next
  case False
  let ?S = "prefix_lengths ks @ [length (concat ks)]"
  have "map (\<lambda>i. take (?S ! (i + 1) - ?S ! i) (drop (?S ! i) (concat ks))) [0..<length ks] = ks"
    by (rule nth_equalityI) (use concat_part(1) [of _ ks "[]"] prefix_lengths_nth [of _ ks] in simp_all)
  then show ?thesis using assms(1) False assms(2) [of ks "fb_result b"]
    by (simp add: builder_ok_def GenerateFilter_def Let_def filter_bytes_def)
qed

text \<open>The calls a table builder makes: \<open>(StartBlock AddKey*)* Finish\<close>.\<close>

definition build_block :: "(slice list \<Rightarrow> slice \<Rightarrow> slice) \<Rightarrow> 64 word \<times> slice list \<Rightarrow> filter_builder \<Rightarrow> filter_builder" where
  "build_block create blk b = fold fb_AddKey (snd blk) (StartBlock create (fst blk) b)"

definition filter_block :: "(slice list \<Rightarrow> slice \<Rightarrow> slice) \<Rightarrow> (64 word \<times> slice list) list \<Rightarrow> slice" where
  "filter_block create blks = fb_Finish create (fold (build_block create) blks FilterBlockBuilder)"

text \<open>Groups only gain keys and are only added at the end.\<close>

definition grows :: "slice list list \<Rightarrow> slice list list \<Rightarrow> bool" where
  "grows L L' \<longleftrightarrow> length L \<le> length L' \<and> (\<forall>i < length L. set (L ! i) \<subseteq> set (L' ! i))"

lemma grows_trans: "grows L L' \<Longrightarrow> grows L' L'' \<Longrightarrow> grows L L''"
  unfolding grows_def by (meson less_le_trans order_trans subset_trans)

lemma grows_append: "grows L (L @ M)"
  by (simp add: grows_def nth_append)

lemma builder_AddKeys:
  "builder_ok create gs ks b \<Longrightarrow> builder_ok create gs (ks @ keys) (fold fb_AddKey keys b)"
proof (induction keys arbitrary: ks b)
  case (Cons key keys)
  then show ?case using Cons.IH [OF builder_AddKey [OF Cons.prems, of key]] by simp
qed simp

lemma Decode_words:
  "j < length ws \<Longrightarrow> DecodeFixed32 (drop (j * 4) (concat (map EncodeFixed32 ws) @ rest)) = ws ! j"
proof (induction ws arbitrary: j)
  case (Cons w ws)
  then show ?case by (cases j) simp_all
qed simp

lemma fold_PutFixed32: "fold (\<lambda>x r. r @ EncodeFixed32 x) ws r = r @ concat (map EncodeFixed32 ws)"
  by (induction ws arbitrary: r) simp_all

lemma length_words: "length (concat (map EncodeFixed32 ws)) = 4 * length ws"
  by (induction ws) simp_all

text \<open>Reading the \<open>i\<close>-th of a block of filters \<open>F\<close>.\<close>

lemma read_filter:
  fixes F :: "slice list"
  defines "ws \<equiv> map word_of_nat (prefix_lengths F @ [length (concat F)])"
  defines "contents \<equiv> concat F @ concat (map EncodeFixed32 ws) @ [11]"
  assumes "length contents < 2 ^ 32" and "unat off div 2048 < length F"
  shows "fr_KeyMayMatch may_match off key (FilterBlockReader contents) = may_match key (F ! (unat off div 2048))"
proof -
  let ?i = "unat off div 2048" and ?D = "length (concat F)"
  have lw: "length ws = length F + 1" by (simp add: ws_def)
  then have n: "length contents = ?D + 4 * length F + 5" by (simp add: contents_def length_words)
  have small: "x \<le> ?D \<Longrightarrow> unat (word_of_nat x :: 32 word) = x" for x
    using assms(3) n by (simp add: unat_of_nat take_bit_nat_eq_self)
  have word: "unat (DecodeFixed32 (drop (?D + j * 4) contents)) = length (concat (take j F))" if "j \<le> length F" for j
  proof -
    have "DecodeFixed32 (drop (?D + j * 4) contents) = ws ! j"
      using that Decode_words [of j ws "[11]"] by (simp add: contents_def ws_def)
    moreover have "ws ! j = word_of_nat (length (concat (take j F)))"
      using that prefix_lengths_nth [of j F] unfolding ws_def by (subst nth_map) simp_all
    moreover have "length (concat (take j F)) \<le> ?D"
      by (metis append_take_drop_id concat_append le_add1 length_append)
    ultimately show ?thesis using small by simp
  qed
  have "drop (length contents - 5) contents = drop (?D + length F * 4) contents" by (simp add: n mult.commute)
  then have "unat (DecodeFixed32 (drop (length contents - 5) contents)) = ?D" using word [of "length F"] by simp
  moreover have "contents ! (length contents - 1) = 11"
    unfolding n using lw by (simp add: contents_def nth_append length_words)
  ultimately have r: "FilterBlockReader contents = \<lparr>fr_data = contents, fr_offset = ?D, fr_num = length F, fr_base_lg = 11\<rparr>"
    using n by (simp add: FilterBlockReader_def Let_def)
  have i: "unat (drop_bit 11 off) = ?i" by (simp only: unat_drop_bit_eq) (simp add: drop_bit_eq_div)
  have lim: "unat (DecodeFixed32 (drop (?D + ?i * 4 + 4) contents)) = length (concat (take (Suc ?i) F))"
    using word [of "Suc ?i"] assms(4) by (simp add: algebra_simps)
  note part = concat_part [OF assms(4)]
  have filt: "take (length (concat (take (Suc ?i) F)) - length (concat (take ?i F))) (drop (length (concat (take ?i F))) contents) = F ! ?i"
    unfolding contents_def by (rule part(1))
  show ?thesis
    unfolding fr_KeyMayMatch_def r using assms(4) word [of ?i] lim part(2,3) filt by (simp add: i Let_def)
qed

context filter_policy
begin

lemma StartBlock_loop_ok:
  "builder_ok create gs ks b \<Longrightarrow> length gs \<le> idx \<Longrightarrow>
   \<exists>gs' ks'. builder_ok create gs' ks' (StartBlock_loop create idx b) \<and> length gs' = idx \<and> grows (gs @ [ks]) (gs' @ [ks'])"
proof (induction "idx - length gs" arbitrary: gs ks b)
  case 0
  then have "StartBlock_loop create idx b = b" by (subst StartBlock_loop.simps) (simp add: builder_ok_def)
  then show ?case using 0 by (intro exI [of _ gs] exI [of _ ks]) (simp add: grows_def)
next
  case (Suc n)
  have "StartBlock_loop create idx b = StartBlock_loop create idx (GenerateFilter create b)"
    using Suc.hyps(2) Suc.prems(1) by (subst StartBlock_loop.simps) (simp add: builder_ok_def)
  moreover have ge: "n = idx - length (gs @ [ks])" "length (gs @ [ks]) \<le> idx" using Suc.hyps(2) by simp_all
  from Suc.hyps(1) [OF ge(1) builder_Generate [OF Suc.prems(1) create_append] ge(2)]
  obtain gs' ks' where "builder_ok create gs' ks' (StartBlock_loop create idx (GenerateFilter create b))" "length gs' = idx"
      and g: "grows ((gs @ [ks]) @ [[]]) (gs' @ [ks'])"
    by blast
  moreover have "grows (gs @ [ks]) (gs' @ [ks'])" by (rule grows_trans [OF grows_append g])
  ultimately show ?case by (intro exI [of _ gs'] exI [of _ ks']) simp
qed

lemma build_block_ok:
  assumes "builder_ok create gs ks b" and "length gs \<le> unat off div 2048"
  shows "\<exists>gs' ks'. builder_ok create gs' ks' (build_block create (off, keys) b) \<and> length gs' = unat off div 2048
    \<and> grows (gs @ [ks]) (gs' @ [ks']) \<and> set keys \<subseteq> set ks'"
proof -
  obtain gs' ks' where gs': "builder_ok create gs' ks' (StartBlock create off b)" "length gs' = unat off div 2048" "grows (gs @ [ks]) (gs' @ [ks'])"
    using StartBlock_loop_ok [OF assms] unfolding StartBlock_def by blast
  have "grows (gs' @ [ks']) (gs' @ [ks' @ keys])" by (auto simp: grows_def nth_append)
  from grows_trans [OF gs'(3) this] show ?thesis using builder_AddKeys [OF gs'(1), of keys] gs'(2)
    by (intro exI [of _ gs'] exI [of _ "ks' @ keys"]) (simp add: build_block_def)
qed

lemma build_blocks_ok:
  assumes "builder_ok create gs ks b" and "sorted (map fst blks)" and "\<forall>blk \<in> set blks. length gs \<le> unat (fst blk) div 2048"
  shows "\<exists>gs' ks'. builder_ok create gs' ks' (fold (build_block create) blks b) \<and> grows (gs @ [ks]) (gs' @ [ks'])
    \<and> (\<forall>blk \<in> set blks. unat (fst blk) div 2048 \<le> length gs' \<and> set (snd blk) \<subseteq> set ((gs' @ [ks']) ! (unat (fst blk) div 2048)))"
  using assms
proof (induction blks arbitrary: gs ks b)
  case Nil
  then show ?case by (intro exI [of _ gs] exI [of _ ks]) (simp add: grows_def)
next
  case (Cons blk blks)
  obtain off keys where blk: "blk = (off, keys)" by (rule prod.exhaust)
  obtain gs1 ks1 where 1: "builder_ok create gs1 ks1 (build_block create blk b)" "length gs1 = unat off div 2048"
      "grows (gs @ [ks]) (gs1 @ [ks1])" "set keys \<subseteq> set ks1"
    using build_block_ok [OF Cons.prems(1), of off keys] Cons.prems(3) by (auto simp: blk)
  have "\<forall>c \<in> set blks. length gs1 \<le> unat (fst c) div 2048"
    using Cons.prems(2) 1(2) by (auto simp: blk word_le_nat_alt intro: div_le_mono)
  then obtain gs2 ks2 where 2: "builder_ok create gs2 ks2 (fold (build_block create) blks (build_block create blk b))"
      "grows (gs1 @ [ks1]) (gs2 @ [ks2])"
      "\<forall>c \<in> set blks. unat (fst c) div 2048 \<le> length gs2 \<and> set (snd c) \<subseteq> set ((gs2 @ [ks2]) ! (unat (fst c) div 2048))"
    using Cons.IH [OF 1(1)] Cons.prems(2) by auto
  have "set ((gs1 @ [ks1]) ! i) \<subseteq> set ((gs2 @ [ks2]) ! i)" if "i < length (gs1 @ [ks1])" for i
    using 2(2) that unfolding grows_def by blast
  from this [of "length gs1"] have "set keys \<subseteq> set ((gs2 @ [ks2]) ! length gs1)" using 1(4) by simp
  moreover have "length gs1 \<le> length gs2" using 2(2) by (simp add: grows_def)
  ultimately show ?case using 2(1,3) 1(2) grows_trans [OF 1(3) 2(2)] by (intro exI [of _ gs2] exI [of _ ks2]) (simp add: blk)
qed

lemma filter_block_match:
  assumes "sorted (map fst blks)" and "length (filter_block create blks) < 2 ^ 32" and "(off, keys) \<in> set blks" and "k \<in> set keys" and "same k' k"
  shows "fr_KeyMayMatch may_match off k' (FilterBlockReader (filter_block create blks))"
proof -
  let ?b = "fold (build_block create) blks FilterBlockBuilder" and ?i = "unat off div 2048"
  obtain gs ks where b: "builder_ok create gs ks ?b" and "?i \<le> length gs \<and> k \<in> set ((gs @ [ks]) ! ?i)"
    using build_blocks_ok [OF builder_new assms(1)] assms(3,4) by force
  then obtain gs' b' where b': "builder_ok create gs' [] b'" "b' = (if fb_start ?b \<noteq> [] then GenerateFilter create ?b else ?b)"
      and i: "?i < length gs'" "k \<in> set (gs' ! ?i)"
  proof (cases "ks = []")
    case True
    have "fb_start ?b = []" using b True by (simp add: builder_ok_def)
    moreover have "?i < length gs" using \<open>?i \<le> length gs \<and> _\<close> True by (cases "?i = length gs") auto
    ultimately show thesis using that [of gs ?b] b True \<open>?i \<le> length gs \<and> _\<close> by (simp add: nth_append)
  next
    case False
    then have "fb_start ?b \<noteq> []" using b by (auto simp: builder_ok_def prefix_lengths_def)
    then show thesis using that [of "gs @ [ks]" "GenerateFilter create ?b"] builder_Generate [OF b create_append] \<open>?i \<le> length gs \<and> _\<close> by simp
  qed
  let ?F = "map (filter_bytes create) gs'"
  have "filter_block create blks =
      concat ?F @ concat (map EncodeFixed32 (map word_of_nat (prefix_lengths ?F @ [length (concat ?F)]))) @ [11]"
    using b'(1) unfolding filter_block_def fb_Finish_def b'(2) [symmetric]
    by (simp add: Let_def fold_PutFixed32 PutFixed32_def builder_ok_def)
  then have "fr_KeyMayMatch may_match off k' (FilterBlockReader (filter_block create blks)) = may_match k' (?F ! ?i)"
    using read_filter [of ?F off may_match k'] assms(2) i(1) by simp
  moreover have "?F ! ?i = create (gs' ! ?i) []" using i by (auto simp: filter_bytes_def)
  ultimately show ?thesis using no_false_negative [OF i(2) assms(5)] by simp
qed

end

text \<open>A table never skips a block that holds the key.  For a filter block built from data
  blocks in file order with Bloom filters over user keys, whatever the bits per key, a lookup of any
  internal key, with any sequence number, whose user key went into the block at \<open>off\<close> matches
  the filter read for \<open>off\<close>.\<close>

theorem filter_block_no_false_negatives:
  assumes "sorted (map fst blks)" and "length (filter_block (internal_CreateFilter (bloom_CreateFilter n)) blks) < 2 ^ 32"
    and "(off, keys) \<in> set blks" and "k \<in> set keys" and "ExtractUserKey k' = ExtractUserKey k"
  shows "fr_KeyMayMatch (internal_KeyMayMatch bloom_KeyMayMatch) off k'
    (FilterBlockReader (filter_block (internal_CreateFilter (bloom_CreateFilter n)) blks))"
  using assms by (rule internal_bloom.filter_block_match)

lemma length_bloom_filter:
  "length (bloom_CreateFilter n keys []) = (if length keys * n < 64 then 9 else (length keys * n + 7) div 8 + 1)"
  using add_keys_array [of "(length keys * n + 7) div 8 * 8" "replicate ((length keys * n + 7) div 8) 0" "bloom_k n" keys]
    add_keys_array [of 64 "replicate 8 0" "bloom_k n" keys]
  by (simp add: bloom_CreateFilter_def Let_def)

theorem filter_block_no_false_negatives_witness:
  "fr_KeyMayMatch (internal_KeyMayMatch bloom_KeyMayMatch) 0 [97, 1, 9, 0, 0, 0, 0, 0, 0]
    (FilterBlockReader (filter_block (internal_CreateFilter (bloom_CreateFilter 10)) [(0, [[97, 1, 1, 0, 0, 0, 0, 0, 0]])]))"
proof (rule filter_block_no_false_negatives [where k = "[97, 1, 1, 0, 0, 0, 0, 0, 0]" and keys = "[[97, 1, 1, 0, 0, 0, 0, 0, 0]]"])
  show "length (filter_block (internal_CreateFilter (bloom_CreateFilter 10)) [(0, [[97, 1, 1, 0, 0, 0, 0, 0, 0]])]) < 2 ^ 32"
    by (simp add: filter_block_def build_block_def StartBlock_def StartBlock_loop.simps fb_AddKey_def FilterBlockBuilder_def fb_Finish_def
        GenerateFilter_def internal_CreateFilter_def PutFixed32_def Let_def length_bloom_filter)
qed (simp_all add: ExtractUserKey_def)

end
