(* ===== verification/Ldb_Block.thy ===== *)
theory Ldb_Block
  imports Ldb_Filter Ldb_Skiplist
begin

text \<open>
  The blocks of a table file (\<open>src/leveldb/table/block_builder.cc\<close> and \<open>block.cc\<close>):
  entries whose keys share a prefix with the key before, restart points that store the whole key,
  and the iterator that searches them.  A pointer into a block is an offset; offsets are natural
  numbers, so blocks of 4 GiB, whose \<open>uint32_t\<close> offsets wrap, are outside the model.
\<close>

section \<open>Builder\<close>

record block_builder =
  bb_buffer :: slice
  bb_restarts :: "32 word list"
  bb_counter :: nat
  bb_finished :: bool
  bb_last_key :: slice

definition BlockBuilder :: block_builder where
  "BlockBuilder = \<lparr>bb_buffer = [], bb_restarts = [0], bb_counter = 0, bb_finished = False, bb_last_key = []\<rparr>"

definition bb_Reset :: "block_builder \<Rightarrow> block_builder" where
  "bb_Reset b = b\<lparr>bb_buffer := [], bb_restarts := [0], bb_counter := 0, bb_finished := False, bb_last_key := []\<rparr>"

definition CurrentSizeEstimate :: "block_builder \<Rightarrow> nat" where
  "CurrentSizeEstimate b = length (bb_buffer b) + length (bb_restarts b) * 4 + 4"

definition bb_Finish :: "block_builder \<Rightarrow> slice \<times> block_builder" where
  "bb_Finish b =
     (let buffer = PutFixed32 (fold (\<lambda>x r. PutFixed32 r x) (bb_restarts b) (bb_buffer b)) (word_of_nat (length (bb_restarts b)))
      in (buffer, b\<lparr>bb_buffer := buffer, bb_finished := True\<rparr>))"

fun shared_prefix :: "slice \<Rightarrow> slice \<Rightarrow> nat" where
  "shared_prefix (a # as) (b # bs) = (if a = b then Suc (shared_prefix as bs) else 0)"
| "shared_prefix _ _ = 0"

definition bb_Add :: "nat \<Rightarrow> slice \<Rightarrow> slice \<Rightarrow> block_builder \<Rightarrow> block_builder" where
  "bb_Add block_restart_interval key v b =
     (let share = (bb_counter b < block_restart_interval);
          shared = (if share then shared_prefix (bb_last_key b) key else 0);
          restarts = (if share then bb_restarts b else bb_restarts b @ [word_of_nat (length (bb_buffer b))]);
          counter = (if share then bb_counter b else 0);
          non_shared = length key - shared;
          buffer = PutVarint32 (PutVarint32 (PutVarint32 (bb_buffer b) (word_of_nat shared)) (word_of_nat non_shared)) (word_of_nat (length v))
      in b\<lparr>bb_buffer := buffer @ take non_shared (drop shared key) @ v, bb_restarts := restarts,
           bb_counter := counter + 1,
           bb_last_key := take shared (bb_last_key b) @ take non_shared (drop shared key)\<rparr>)"

section \<open>Block and iterator\<close>

record block =
  blk_data :: slice
  blk_size :: nat
  blk_restart_offset :: nat

definition NumRestarts :: "slice \<Rightarrow> nat" where
  "NumRestarts data = unat (DecodeFixed32 (drop (length data - 4) data))"

definition Block_new :: "slice \<Rightarrow> block" where
  "Block_new data =
     (if length data < 4 then \<lparr>blk_data = data, blk_size = 0, blk_restart_offset = 0\<rparr>
      else if NumRestarts data > (length data - 4) div 4 then \<lparr>blk_data = data, blk_size = 0, blk_restart_offset = 0\<rparr>
      else \<lparr>blk_data = data, blk_size = length data, blk_restart_offset = length data - (1 + NumRestarts data) * 4\<rparr>)"

text \<open>The lengths and the bytes that follow them, up to the limit.\<close>

definition DecodeEntry :: "slice \<Rightarrow> (32 word \<times> 32 word \<times> 32 word \<times> slice) option" where
  "DecodeEntry p =
     (if length p < 3 then None
      else let shared = ucast (p ! 0); non_shared = ucast (p ! 1); value_length = ucast (p ! 2);
               r = (if (shared OR non_shared OR value_length) < 128 then Some (shared, non_shared, value_length, drop 3 p)
                    else case GetVarint32Ptr p of None \<Rightarrow> None
                    | Some (shared, p) \<Rightarrow> (case GetVarint32Ptr p of None \<Rightarrow> None
                    | Some (non_shared, p) \<Rightarrow> (case GetVarint32Ptr p of None \<Rightarrow> None
                    | Some (value_length, p) \<Rightarrow> Some (shared, non_shared, value_length, p))))
           in case r of None \<Rightarrow> None
              | Some (shared, non_shared, value_length, p) \<Rightarrow>
                  if word_of_nat (length p) < non_shared + value_length then None else Some (shared, non_shared, value_length, p))"

record block_iter =
  bi_data :: slice
  bi_restarts :: nat
  bi_num_restarts :: nat
  bi_current :: nat
  bi_restart_index :: nat
  bi_key :: slice
  bi_value :: "nat \<times> nat"
  bi_corrupt :: bool

definition Iter_new :: "slice \<Rightarrow> nat \<Rightarrow> nat \<Rightarrow> block_iter" where
  "Iter_new data restarts num_restarts =
     \<lparr>bi_data = data, bi_restarts = restarts, bi_num_restarts = num_restarts, bi_current = restarts,
      bi_restart_index = num_restarts, bi_key = [], bi_value = (0, 0), bi_corrupt = False\<rparr>"

text \<open>
  The statuses of the table code other than OK; \<open>OutOfBounds\<close> marks a read past a buffer, which
  has no meaning in C++.  An empty iterator has a status (\<open>table/iterator.cc\<close>).
\<close>

datatype ldb_error = kCorruption string | kIOError | kInvalidArgument string | OutOfBounds

datatype any_iter = EmptyIterator "ldb_error option" | BlockIterator block_iter

definition Block_NewIterator :: "block \<Rightarrow> any_iter" where
  "Block_NewIterator b =
     (if blk_size b < 4 then EmptyIterator (Some (kCorruption ''bad block contents''))
      else let num_restarts = NumRestarts (blk_data b)
           in if num_restarts = 0 then EmptyIterator None
              else BlockIterator (Iter_new (blk_data b) (blk_restart_offset b) num_restarts))"

definition bi_Valid :: "block_iter \<Rightarrow> bool" where
  "bi_Valid it \<longleftrightarrow> bi_current it < bi_restarts it"

definition bi_value_bytes :: "block_iter \<Rightarrow> slice" where
  "bi_value_bytes it = take (snd (bi_value it)) (drop (fst (bi_value it)) (bi_data it))"

definition NextEntryOffset :: "block_iter \<Rightarrow> nat" where
  "NextEntryOffset it = fst (bi_value it) + snd (bi_value it)"

definition GetRestartPoint :: "block_iter \<Rightarrow> nat \<Rightarrow> nat" where
  "GetRestartPoint it index = unat (DecodeFixed32 (drop (bi_restarts it + index * 4) (bi_data it)))"

definition SeekToRestartPoint :: "nat \<Rightarrow> block_iter \<Rightarrow> block_iter" where
  "SeekToRestartPoint index it = it\<lparr>bi_key := [], bi_restart_index := index, bi_value := (GetRestartPoint it index, 0)\<rparr>"

definition CorruptionError :: "block_iter \<Rightarrow> block_iter" where
  "CorruptionError it = it\<lparr>bi_current := bi_restarts it, bi_restart_index := bi_num_restarts it, bi_corrupt := True,
     bi_key := [], bi_value := (0, 0)\<rparr>"

function advance_restart :: "block_iter \<Rightarrow> nat \<Rightarrow> nat" where
  "advance_restart it ri =
     (if ri + 1 < bi_num_restarts it \<and> GetRestartPoint it (ri + 1) < bi_current it then advance_restart it (ri + 1) else ri)"
  by pat_completeness auto

termination
  by (relation "measure (\<lambda>(it, ri). bi_num_restarts it - ri)") auto

declare advance_restart.simps [simp del]

definition ParseNextKey :: "block_iter \<Rightarrow> bool \<times> block_iter" where
  "ParseNextKey it0 =
     (let it = it0\<lparr>bi_current := NextEntryOffset it0\<rparr> in
      if bi_restarts it \<le> bi_current it
      then (False, it\<lparr>bi_current := bi_restarts it, bi_restart_index := bi_num_restarts it\<rparr>)
      else let p = drop (bi_current it) (take (bi_restarts it) (bi_data it)) in
        case DecodeEntry p of
          None \<Rightarrow> (False, CorruptionError it)
        | Some (shared, non_shared, value_length, q) \<Rightarrow>
            if length (bi_key it) < unat shared then (False, CorruptionError it)
            else let delta = bi_current it + (length p - length q);
                     it = it\<lparr>bi_key := take (unat shared) (bi_key it) @ take (unat non_shared) q,
                            bi_value := (delta + unat non_shared, unat value_length)\<rparr>
                 in (True, it\<lparr>bi_restart_index := advance_restart it (bi_restart_index it)\<rparr>))"

lemma GetVarint32Ptr_shorter: "GetVarint32Ptr p = Some (v, q) \<Longrightarrow> length q < length p"
  unfolding GetVarint32Ptr_loop by (rule varint32_loop_shorter)

lemma DecodeEntry_shorter: "DecodeEntry p = Some (shared, non_shared, value_length, q) \<Longrightarrow> length q + 3 \<le> length p"
  by (auto simp: DecodeEntry_def Let_def split: if_splits option.splits dest!: GetVarint32Ptr_shorter)

lemma ParseNextKey_moves:
  "fst (ParseNextKey it) \<Longrightarrow> NextEntryOffset it < bi_restarts it \<and> NextEntryOffset it < NextEntryOffset (snd (ParseNextKey it))"
  "bi_restarts (snd (ParseNextKey it)) = bi_restarts it"
  by (auto simp: ParseNextKey_def Let_def NextEntryOffset_def CorruptionError_def split: if_splits option.splits dest!: DecodeEntry_shorter)

text \<open>The loops \<open>while (ParseNextKey() && cond)\<close>.\<close>

function parse_while :: "(block_iter \<Rightarrow> bool) \<Rightarrow> block_iter \<Rightarrow> block_iter" where
  "parse_while cond it = (let r = ParseNextKey it in if fst r \<and> cond (snd r) then parse_while cond (snd r) else snd r)"
  by pat_completeness auto

termination
  by (relation "measure (\<lambda>(cond, it). bi_restarts it - NextEntryOffset it)")
    (use ParseNextKey_moves in \<open>force intro: diff_less_mono2\<close>)+

declare parse_while.simps [simp del]

definition bi_Next :: "block_iter \<Rightarrow> block_iter" where
  "bi_Next it = snd (ParseNextKey it)"

text \<open>The scan backwards to a restart point before \<open>original\<close>; \<open>None\<close> when there is none.\<close>

fun restart_before :: "block_iter \<Rightarrow> nat \<Rightarrow> nat \<Rightarrow> nat option" where
  "restart_before it original ri =
     (if GetRestartPoint it ri \<ge> original then (case ri of 0 \<Rightarrow> None | Suc ri' \<Rightarrow> restart_before it original ri') else Some ri)"

declare restart_before.simps [simp del]

definition bi_Prev :: "block_iter \<Rightarrow> block_iter" where
  "bi_Prev it =
     (let original = bi_current it in
      case restart_before it original (bi_restart_index it) of
        None \<Rightarrow> it\<lparr>bi_current := bi_restarts it, bi_restart_index := bi_num_restarts it\<rparr>
      | Some ri \<Rightarrow> parse_while (\<lambda>it. NextEntryOffset it < original) (SeekToRestartPoint ri it))"

text \<open>The binary search over the restart points; \<open>None\<close> for a corrupt one.\<close>

function search_restarts :: "(slice \<Rightarrow> slice \<Rightarrow> int) \<Rightarrow> block_iter \<Rightarrow> slice \<Rightarrow> nat \<Rightarrow> nat \<Rightarrow> nat option" where
  "search_restarts cmp it target left right =
     (if left < right
      then let mid = (left + right + 1) div 2
           in case DecodeEntry (drop (GetRestartPoint it mid) (take (bi_restarts it) (bi_data it))) of
                None \<Rightarrow> None
              | Some (shared, non_shared, value_length, q) \<Rightarrow>
                  if shared \<noteq> 0 then None
                  else if cmp (take (unat non_shared) q) target < 0 then search_restarts cmp it target mid right
                  else search_restarts cmp it target left (mid - 1)
      else Some left)"
  by pat_completeness auto

termination
  by (relation "measure (\<lambda>(cmp, it, target, left, right). right - left)") auto

declare search_restarts.simps [simp del]

definition bi_Seek :: "(slice \<Rightarrow> slice \<Rightarrow> int) \<Rightarrow> slice \<Rightarrow> block_iter \<Rightarrow> block_iter" where
  "bi_Seek cmp target it =
     (let current_key_compare = (if bi_Valid it then cmp (bi_key it) target else 0) in
      if bi_Valid it \<and> current_key_compare = 0 then it
      else let left = (if current_key_compare < 0 then bi_restart_index it else 0);
               right = (if current_key_compare > 0 then bi_restart_index it else bi_num_restarts it - 1)
           in case search_restarts cmp it target left right of
                None \<Rightarrow> CorruptionError it
              | Some left \<Rightarrow>
                  let skip_seek = (left = bi_restart_index it \<and> current_key_compare < 0);
                      it = (if skip_seek then it else SeekToRestartPoint left it)
                  in parse_while (\<lambda>it. cmp (bi_key it) target < 0) it)"

definition bi_SeekToFirst :: "block_iter \<Rightarrow> block_iter" where
  "bi_SeekToFirst it = snd (ParseNextKey (SeekToRestartPoint 0 it))"

definition bi_SeekToLast :: "block_iter \<Rightarrow> block_iter" where
  "bi_SeekToLast it =
     parse_while (\<lambda>it. NextEntryOffset it < bi_restarts it) (SeekToRestartPoint (bi_num_restarts it - 1) it)"


section \<open>What the builder writes\<close>

lemma shared_prefix_le: "shared_prefix a b \<le> length a" "shared_prefix a b \<le> length b"
  by (induction a b rule: shared_prefix.induct) auto

lemma shared_prefix_take: "take (shared_prefix a b) a = take (shared_prefix a b) b"
  by (induction a b rule: shared_prefix.induct) auto

text \<open>Entry \<open>j\<close> of a block with restart interval \<open>I\<close>, its offset and the number of restart points.\<close>

definition entry_shared :: "nat \<Rightarrow> (slice \<times> slice) list \<Rightarrow> nat \<Rightarrow> nat" where
  "entry_shared I es j = (if j mod I = 0 then 0 else shared_prefix (fst (es ! (j - 1))) (fst (es ! j)))"

definition entry_bytes :: "nat \<Rightarrow> (slice \<times> slice) list \<Rightarrow> nat \<Rightarrow> slice" where
  "entry_bytes I es j =
     EncodeVarint32 (word_of_nat (entry_shared I es j)) @ EncodeVarint32 (word_of_nat (length (fst (es ! j)) - entry_shared I es j))
     @ EncodeVarint32 (word_of_nat (length (snd (es ! j)))) @ drop (entry_shared I es j) (fst (es ! j)) @ snd (es ! j)"

definition block_entries :: "nat \<Rightarrow> (slice \<times> slice) list \<Rightarrow> slice list" where
  "block_entries I es = map (entry_bytes I es) [0..<length es]"

definition entry_off :: "nat \<Rightarrow> (slice \<times> slice) list \<Rightarrow> nat \<Rightarrow> nat" where
  "entry_off I es j = length (concat (take j (block_entries I es)))"

definition restart_count :: "nat \<Rightarrow> (slice \<times> slice) list \<Rightarrow> nat" where
  "restart_count I es = (if es = [] then 1 else (length es - 1) div I + 1)"

definition bb_build :: "nat \<Rightarrow> (slice \<times> slice) list \<Rightarrow> block_builder" where
  "bb_build I es = fold (\<lambda>(key, v). bb_Add I key v) es BlockBuilder"

lemma entry_shared_le: "entry_shared I es j \<le> length (fst (es ! j))" "0 < j \<Longrightarrow> entry_shared I es j \<le> length (fst (es ! (j - 1)))"
  by (simp_all add: entry_shared_def shared_prefix_le)

lemma entry_snoc: "j < length es \<Longrightarrow> entry_bytes I (es @ [e]) j = entry_bytes I es j"
  by (cases j) (simp_all add: entry_bytes_def entry_shared_def nth_append)

lemma block_entries_snoc: "block_entries I (es @ [e]) = block_entries I es @ [entry_bytes I (es @ [e]) (length es)]"
  by (simp add: block_entries_def entry_snoc)

lemma length_block_entries [simp]: "length (block_entries I es) = length es"
  by (simp add: block_entries_def)

lemma entry_off_snoc: "j \<le> length es \<Longrightarrow> entry_off I (es @ [e]) j = entry_off I es j"
  by (simp add: entry_off_def block_entries_snoc)

lemma restart_count_last: "0 < I \<Longrightarrow> es \<noteq> [] \<Longrightarrow> r < restart_count I es \<Longrightarrow> r * I < length es"
proof -
  assume I: "0 < I" and es: "es \<noteq> []" and "r < restart_count I es"
  then have "r \<le> (length es - 1) div I" by (simp add: restart_count_def)
  then have "r * I \<le> length es - 1" using I by (simp add: less_eq_div_iff_mult_less_eq)
  then show ?thesis using es by (cases es) auto
qed

lemma restart_count_snoc:
  "0 < I \<Longrightarrow> restart_count I (es @ [e]) = (if es = [] \<or> length es mod I \<noteq> 0 then restart_count I es else restart_count I es + 1)"
  by (cases "length es") (auto simp: restart_count_def div_Suc)

lemma build_state:
  assumes "0 < I"
  shows "bb_buffer (bb_build I es) = concat (block_entries I es)
    \<and> bb_last_key (bb_build I es) = (if es = [] then [] else fst (last es))
    \<and> bb_counter (bb_build I es) = (if es = [] then 0 else (length es - 1) mod I + 1)
    \<and> bb_restarts (bb_build I es) = map (\<lambda>r. word_of_nat (entry_off I es (r * I))) [0..<restart_count I es]"
proof (induction es rule: rev_induct)
  case Nil
  show ?case by (simp add: bb_build_def BlockBuilder_def block_entries_def restart_count_def entry_off_def)
next
  case (snoc e es)
  let ?b = "bb_build I es" and ?n = "length es"
  obtain key v where e: "e = (key, v)" by fastforce
  have step: "bb_build I (es @ [e]) = bb_Add I key v ?b" by (simp add: bb_build_def e)
  have share: "bb_counter ?b < I \<longleftrightarrow> es = [] \<or> ?n mod I \<noteq> 0"
    using snoc assms by (cases ?n) (auto simp: mod_Suc Suc_lessI)
  define s where "s = entry_shared I (es @ [e]) ?n"
  have s: "s = (if bb_counter ?b < I then shared_prefix (bb_last_key ?b) key else 0)"
    using snoc share unfolding s_def entry_shared_def by (cases "es = []") (auto simp: e nth_append last_conv_nth)
  have sk: "s \<le> length key" "take s (bb_last_key ?b) = take s key"
    by (simp_all add: s shared_prefix_le shared_prefix_take)
  have bytes: "entry_bytes I (es @ [e]) ?n = EncodeVarint32 (word_of_nat s) @ EncodeVarint32 (word_of_nat (length key - s))
      @ EncodeVarint32 (word_of_nat (length v)) @ drop s key @ v"
    unfolding entry_bytes_def s_def [symmetric] by (simp add: e)
  have add: "bb_Add I key v ?b = ?b\<lparr>bb_buffer := concat (block_entries I (es @ [e])),
      bb_restarts := (if bb_counter ?b < I then bb_restarts ?b else bb_restarts ?b @ [word_of_nat (length (bb_buffer ?b))]),
      bb_counter := (if bb_counter ?b < I then bb_counter ?b else 0) + 1, bb_last_key := key\<rparr>"
    unfolding bb_Add_def s [symmetric] Let_def
    using snoc sk by (simp add: block_entries_snoc bytes PutVarint32_def)
  have counter: "(if bb_counter ?b < I then bb_counter ?b else 0) = ?n mod I"
    using snoc share by (cases ?n) (auto simp: mod_Suc)
  have off: "map (\<lambda>r. word_of_nat (entry_off I (es @ [e]) (r * I))) [0..<restart_count I es] = (bb_restarts ?b :: 32 word list)"
  proof (cases "es = []")
    case False
    then show ?thesis using snoc restart_count_last [OF assms False] by (auto simp: entry_off_snoc intro!: arg_cong [of _ _ word_of_nat] entry_off_snoc less_imp_le)
  qed (use snoc in \<open>simp add: restart_count_def entry_off_def block_entries_def\<close>)
  have "restart_count I es * I = ?n" if "\<not> bb_counter ?b < I"
    using that share assms by (cases ?n) (auto simp: restart_count_def mod_Suc mult.commute minus_mod_eq_mult_div [symmetric] split: if_splits)
  then have new: "bb_restarts (bb_build I (es @ [e])) = map (\<lambda>r. word_of_nat (entry_off I (es @ [e]) (r * I))) [0..<restart_count I (es @ [e])]"
    using snoc share off unfolding step add restart_count_snoc [OF assms]
    by (auto simp: entry_off_snoc) (simp add: entry_off_def block_entries_def)
  then show ?case using counter unfolding step add by (simp add: e)
qed


section \<open>What the iterator reads\<close>

text \<open>The fast path of \<open>DecodeEntry\<close> for three one-byte lengths reads what the general path reads.\<close>

lemma below_128: "x < 128 \<longleftrightarrow> (\<forall>n. bit x n \<longrightarrow> n < 7)" for x :: "32 word"
proof -
  have "x < 128 \<longleftrightarrow> unat x < 2 ^ 7" by (simp add: word_less_nat_alt)
  also have "\<dots> \<longleftrightarrow> take_bit 7 (unat x) = unat x" by (simp add: take_bit_nat_eq_self_iff)
  also have "\<dots> \<longleftrightarrow> (\<forall>n. bit x n \<longrightarrow> n < 7)" by (auto simp: bit_eq_iff bit_take_bit_iff bit_unsigned_iff possible_bit_word dest: bit_imp_le_length)
  finally show ?thesis .
qed

lemma GetVarint32Ptr_short: "(ucast b :: 32 word) < 128 \<Longrightarrow> GetVarint32Ptr (b # p) = Some (ucast b, p)"
proof -
  assume "(ucast b :: 32 word) < 128"
  then have "(ucast b :: 32 word) AND 128 = 0" unfolding below_128 by (intro bit_word_eqI) (auto simp: bit_and_iff bit_128 simp del: bit_numeral_word_iff)
  then show ?thesis by (simp add: GetVarint32Ptr_def Let_def)
qed

lemma DecodeEntry_general:
  assumes "3 \<le> length p"
  shows "DecodeEntry p =
    (case (case GetVarint32Ptr p of None \<Rightarrow> None
           | Some (shared, p) \<Rightarrow> (case GetVarint32Ptr p of None \<Rightarrow> None
           | Some (non_shared, p) \<Rightarrow> (case GetVarint32Ptr p of None \<Rightarrow> None
           | Some (value_length, p) \<Rightarrow> Some (shared, non_shared, value_length, p)))) of
       None \<Rightarrow> None
     | Some (shared, non_shared, value_length, p) \<Rightarrow>
         if word_of_nat (length p) < non_shared + value_length then None else Some (shared, non_shared, value_length, p))"
proof (cases "(ucast (p ! 0) OR ucast (p ! 1) OR ucast (p ! 2) :: 32 word) < 128")
  case True
  obtain a b c q where p: "p = a # b # c # q" using assms by (cases p rule: list.exhaust; cases "tl p"; cases "tl (tl p)") auto
  have "(ucast a :: 32 word) < 128" "(ucast b :: 32 word) < 128" "(ucast c :: 32 word) < 128"
    using True unfolding p below_128 by (auto simp: bit_or_iff)
  then show ?thesis using True by (simp add: p DecodeEntry_def GetVarint32Ptr_short)
qed (use assms in \<open>simp add: DecodeEntry_def Let_def\<close>)

lemma EncodeVarint32_nonempty: "1 \<le> length (EncodeVarint32 v)"
  by (simp add: EncodeVarint32_loop EncodeVarint64.simps [of "ucast v"])

lemma unat_small: "n < 2 ^ 32 \<Longrightarrow> unat (word_of_nat n :: 32 word) = n"
  by (simp add: unat_of_nat take_bit_nat_eq_self)

lemma DecodeEntry_entry:
  assumes "length q < 2 ^ 32" and "n + m \<le> length q"
  shows "DecodeEntry (EncodeVarint32 a @ EncodeVarint32 (word_of_nat n) @ EncodeVarint32 (word_of_nat m) @ q)
    = Some (a, word_of_nat n, word_of_nat m, q)"
proof -
  have get: "GetVarint32Ptr (EncodeVarint32 v @ s) = Some (v, s)" for v s
    using GetVarint32_Encode [of v s] by (simp add: GetVarint32_def)
  have "\<not> word_of_nat (length q) < (word_of_nat (n + m) :: 32 word)"
    using assms by (simp only: word_less_nat_alt unat_small order.strict_trans1)
  then show ?thesis
    using EncodeVarint32_nonempty [of a] EncodeVarint32_nonempty [of "word_of_nat n"] EncodeVarint32_nonempty [of "word_of_nat m"]
    by (subst DecodeEntry_general) (simp_all add: get)
qed


text \<open>
  The sum of the two lengths is a 32-bit one: lengths whose sum wraps pass the check, although the
  comment on \<open>DecodeEntry\<close> excludes an access past the limit.  (The source would read past the
  limit then; the model stops there.  No block of a builder below 4 GiB has such an entry.)
\<close>

lemma DecodeEntry_wraps: "DecodeEntry [0, 255, 255, 255, 255, 15, 1] = Some (0, 0xFFFFFFFF, 1, [])"
  by code_simp

definition block_data :: "nat \<Rightarrow> (slice \<times> slice) list \<Rightarrow> slice" where
  "block_data I es = fst (bb_Finish (bb_build I es))"

definition block_fits :: "nat \<Rightarrow> (slice \<times> slice) list \<Rightarrow> bool" where
  "block_fits I es \<longleftrightarrow> 0 < I \<and> length (block_data I es) < 2 ^ 32 \<and> (\<forall>e \<in> set es. length (fst e) < 2 ^ 32)"

lemma block_data_parts:
  assumes "0 < I"
  shows "block_data I es = concat (block_entries I es)
    @ concat (map EncodeFixed32 (map (\<lambda>r. word_of_nat (entry_off I es (r * I))) [0..<restart_count I es]))
    @ EncodeFixed32 (word_of_nat (restart_count I es))"
  using build_state [OF assms, of es] by (simp add: block_data_def bb_Finish_def Let_def PutFixed32_def fold_PutFixed32)

lemma length_block_data:
  assumes "0 < I"
  shows "length (block_data I es) = entry_off I es (length es) + 4 * restart_count I es + 4"
  unfolding block_data_parts [OF assms] by (simp add: length_words entry_off_def del: map_map)

lemma entry_off_Suc:
  assumes "j < length es"
  shows "entry_off I es (Suc j) = entry_off I es j + length (entry_bytes I es j)"
  using concat_part(2) [of j "block_entries I es"] assms by (simp add: entry_off_def) (simp add: block_entries_def)

lemma entry_bytes_nonempty: "3 \<le> length (entry_bytes I es j)"
  using EncodeVarint32_nonempty [of "word_of_nat (entry_shared I es j)"]
    EncodeVarint32_nonempty [of "word_of_nat (length (fst (es ! j)) - entry_shared I es j)"]
    EncodeVarint32_nonempty [of "word_of_nat (length (snd (es ! j)))"]
  unfolding entry_bytes_def length_append by linarith

lemma entry_off_less: "i < j \<Longrightarrow> j \<le> length es \<Longrightarrow> entry_off I es i < entry_off I es j"
proof (induction j)
  case (Suc j)
  have "entry_off I es j < entry_off I es (Suc j)"
    using Suc.prems(2) entry_bytes_nonempty [of I es j] by (simp add: entry_off_Suc) auto
  then show ?case using Suc by (cases "i = j") auto
qed simp

lemma entry_off_less_iff: "i \<le> length es \<Longrightarrow> j \<le> length es \<Longrightarrow> entry_off I es i < entry_off I es j \<longleftrightarrow> i < j"
  using entry_off_less [of i j es I] entry_off_less [of j i es I] by (cases i j rule: linorder_cases) auto

lemma block_at:
  assumes "0 < I" and "j < length es"
  shows "drop (entry_off I es j) (take (entry_off I es (length es)) (block_data I es))
      = entry_bytes I es j @ concat (drop (Suc j) (block_entries I es))"
    and "\<exists>s. drop (entry_off I es j) (block_data I es) = entry_bytes I es j @ s"
proof -
  let ?B = "block_entries I es"
  have B: "concat ?B = concat (take j ?B) @ entry_bytes I es j @ concat (drop (Suc j) ?B)"
    using arg_cong [OF id_take_nth_drop [of j ?B], of concat] assms(2) by (simp add: block_entries_def)
  have d: "drop (entry_off I es j) (concat ?B @ t) = entry_bytes I es j @ concat (drop (Suc j) ?B) @ t" for t
    unfolding B by (simp add: entry_off_def)
  have "take (entry_off I es (length es)) (block_data I es) = concat ?B"
    unfolding block_data_parts [OF assms(1)] by (simp add: entry_off_def)
  then show "drop (entry_off I es j) (take (entry_off I es (length es)) (block_data I es))
      = entry_bytes I es j @ concat (drop (Suc j) ?B)"
    using d [of "[]"] by simp
  show "\<exists>s. drop (entry_off I es j) (block_data I es) = entry_bytes I es j @ s"
    unfolding block_data_parts [OF assms(1)] d by blast
qed


text \<open>An iterator over the block; one that stands on entry \<open>j\<close>; one whose next parse is entry \<open>j\<close>.\<close>

definition reads :: "nat \<Rightarrow> (slice \<times> slice) list \<Rightarrow> block_iter \<Rightarrow> bool" where
  "reads I es it \<longleftrightarrow> bi_data it = block_data I es \<and> bi_restarts it = entry_off I es (length es)
     \<and> bi_num_restarts it = restart_count I es \<and> \<not> bi_corrupt it"

definition restart_ok :: "nat \<Rightarrow> (slice \<times> slice) list \<Rightarrow> block_iter \<Rightarrow> nat \<Rightarrow> bool" where
  "restart_ok I es it j \<longleftrightarrow> bi_restart_index it < restart_count I es \<and> bi_restart_index it * I \<le> j"

definition at_entry :: "nat \<Rightarrow> (slice \<times> slice) list \<Rightarrow> block_iter \<Rightarrow> nat \<Rightarrow> bool" where
  "at_entry I es it j \<longleftrightarrow> reads I es it \<and> restart_ok I es it j \<and> j < length es \<and> bi_current it = entry_off I es j
     \<and> bi_key it = fst (es ! j) \<and> bi_value_bytes it = snd (es ! j) \<and> NextEntryOffset it = entry_off I es (Suc j)"

definition before_entry :: "nat \<Rightarrow> (slice \<times> slice) list \<Rightarrow> block_iter \<Rightarrow> nat \<Rightarrow> bool" where
  "before_entry I es it j \<longleftrightarrow> reads I es it \<and> restart_ok I es it j \<and> j \<le> length es
     \<and> NextEntryOffset it = entry_off I es j \<and> (j mod I = 0 \<or> bi_key it = fst (es ! (j - 1)))"

fun at_pos :: "nat \<Rightarrow> (slice \<times> slice) list \<Rightarrow> block_iter \<Rightarrow> nat option \<Rightarrow> bool" where
  "at_pos I es it None \<longleftrightarrow> reads I es it \<and> bi_current it = bi_restarts it"
| "at_pos I es it (Some j) \<longleftrightarrow> at_entry I es it j"

lemma at_before: "at_entry I es it j \<Longrightarrow> before_entry I es it (Suc j)"
  by (simp add: at_entry_def before_entry_def restart_ok_def)

lemma at_pos_Valid: "at_pos I es it p \<Longrightarrow> bi_Valid it \<longleftrightarrow> p \<noteq> None"
  using entry_off_less by (cases p) (auto simp: bi_Valid_def at_entry_def reads_def)

lemma at_pos_reads: "at_pos I es it p \<Longrightarrow> reads I es it"
  by (cases p) (simp_all add: at_entry_def)

lemma restart_at: "0 < I \<Longrightarrow> r < restart_count I es \<Longrightarrow> r * I \<le> length es"
  using restart_count_last [of I es r] by (cases "es = []") (simp_all add: restart_count_def)

lemma restart_point:
  assumes "block_fits I es" and "reads I es it" and "r < restart_count I es"
  shows "GetRestartPoint it r = entry_off I es (r * I)"
proof -
  have I: "0 < I" and len: "length (block_data I es) < 2 ^ 32" using assms(1) by (simp_all add: block_fits_def)
  have "entry_off I es (r * I) \<le> entry_off I es (length es)"
    using entry_off_less [of "r * I" "length es" es I] restart_at [OF I assms(3)] by (cases "r * I = length es") auto
  then have "entry_off I es (r * I) < 2 ^ 32" using len unfolding length_block_data [OF I] by linarith
  then show ?thesis
    using assms(2,3) Decode_words [of r "map (\<lambda>r. word_of_nat (entry_off I es (r * I))) [0..<restart_count I es]"]
    unfolding GetRestartPoint_def reads_def
    by (simp add: block_data_parts [OF I] entry_off_def [of I es "length es"] unat_small del: map_map)
qed

lemma before_restart:
  assumes "block_fits I es" and "reads I es it" and "r < restart_count I es"
  shows "before_entry I es (SeekToRestartPoint r it) (r * I)"
  using assms restart_at [of I r es]
  by (simp add: before_entry_def SeekToRestartPoint_def NextEntryOffset_def restart_point)
    (simp add: reads_def restart_ok_def block_fits_def)

lemma advance_restart_range:
  "r \<le> advance_restart it r \<and> (advance_restart it r = r
     \<or> advance_restart it r < bi_num_restarts it \<and> GetRestartPoint it (advance_restart it r) < bi_current it)"
proof (induction it r rule: advance_restart.induct)
  case (1 it r)
  then show ?case by (subst (1 2 3 4) advance_restart.simps) auto
qed

lemma entry_decoded:
  assumes "block_fits I es" and "j < length es"
  defines "s \<equiv> entry_shared I es j" and "n \<equiv> length (fst (es ! j)) - entry_shared I es j"
  obtains h q where "drop (entry_off I es j) (take (entry_off I es (length es)) (block_data I es)) = h @ q"
    and "DecodeEntry (h @ q) = Some (word_of_nat s, word_of_nat n, word_of_nat (length (snd (es ! j))), q)"
    and "entry_bytes I es j = h @ drop s (fst (es ! j)) @ snd (es ! j)" and "take n q = drop s (fst (es ! j))"
    and "s < 2 ^ 32" and "n < 2 ^ 32" and "length (snd (es ! j)) < 2 ^ 32"
proof -
  have I: "0 < I" and len: "length (block_data I es) < 2 ^ 32" using assms(1) by (simp_all add: block_fits_def)
  let ?k = "fst (es ! j)" and ?v = "snd (es ! j)"
  define h where "h = EncodeVarint32 (word_of_nat s) @ EncodeVarint32 (word_of_nat n) @ EncodeVarint32 (word_of_nat (length ?v) :: 32 word)"
  define q where "q = drop s ?k @ ?v @ concat (drop (Suc j) (block_entries I es))"
  have bytes: "entry_bytes I es j = h @ drop s ?k @ ?v" by (simp add: entry_bytes_def h_def n_def s_def)
  have p: "drop (entry_off I es j) (take (entry_off I es (length es)) (block_data I es)) = h @ q"
    using block_at(1) [OF I assms(2)] by (simp add: bytes q_def)
  have ql: "length q < 2 ^ 32" using arg_cong [OF p, of length] len by simp
  have kl: "length ?k < 2 ^ 32" using assms(1,2) by (simp add: block_fits_def)
  have sl: "s \<le> length ?k" unfolding s_def by (rule entry_shared_le)
  have nl: "length (drop s ?k) = n" by (simp add: n_def s_def)
  then have nv: "n + length ?v \<le> length q" by (simp add: q_def)
  show ?thesis
  proof (rule that [OF p _ bytes])
    show "DecodeEntry (h @ q) = Some (word_of_nat s, word_of_nat n, word_of_nat (length ?v), q)"
      using DecodeEntry_entry [OF ql nv] by (simp add: h_def)
    show "take n q = drop s ?k" using nl by (simp add: q_def)
    show "s < 2 ^ 32" "n < 2 ^ 32" "length ?v < 2 ^ 32" using sl kl nv ql by linarith+
  qed
qed

lemma parse_entry:
  assumes "block_fits I es" and "before_entry I es it j" and "j < length es"
  shows "fst (ParseNextKey it) \<and> at_entry I es (snd (ParseNextKey it)) j"
proof -
  have I: "0 < I" using assms(1) by (simp add: block_fits_def)
  let ?k = "fst (es ! j)" and ?v = "snd (es ! j)" and ?s = "entry_shared I es j"
  define n where "n = length ?k - ?s"
  obtain h q where p: "drop (entry_off I es j) (take (entry_off I es (length es)) (block_data I es)) = h @ q"
    and decode: "DecodeEntry (h @ q) = Some (word_of_nat ?s, word_of_nat n, word_of_nat (length ?v), q)"
    and bytes: "entry_bytes I es j = h @ drop ?s ?k @ ?v" and qn: "take n q = drop ?s ?k"
    and small: "?s < 2 ^ 32" "n < 2 ^ 32" "length ?v < 2 ^ 32"
    unfolding n_def by (rule entry_decoded [OF assms(1,3)])
  note un = small [THEN unat_small]
  have ns: "length ?k = ?s + n" "length (drop ?s ?k) = n" using entry_shared_le(1) [of I es j] by (simp_all add: n_def)
  have before: "reads I es it" "restart_ok I es it j" "NextEntryOffset it = entry_off I es j" "j mod I = 0 \<or> bi_key it = fst (es ! (j - 1))"
    using assms(2) by (simp_all add: before_entry_def)
  have key: "take ?s (bi_key it) = take ?s ?k" "?s \<le> length (bi_key it)"
    using before(4) shared_prefix_le(1) shared_prefix_take by (auto simp: entry_shared_def)
  define it' where "it' = it\<lparr>bi_current := entry_off I es j, bi_key := ?k, bi_value := (entry_off I es j + length h + n, length ?v)\<rparr>"
  have parse: "ParseNextKey it = (True, it'\<lparr>bi_restart_index := advance_restart it' (bi_restart_index it)\<rparr>)"
    using before(1,3) p key ns entry_off_less [OF assms(3) order.refl, of I]
    by (simp add: ParseNextKey_def Let_def reads_def decode un it'_def qn)
  have reads': "reads I es it'" using before(1) by (simp add: reads_def it'_def)
  have "entry_off I es (advance_restart it' (bi_restart_index it) * I) < entry_off I es j \<Longrightarrow>
      advance_restart it' (bi_restart_index it) < restart_count I es \<Longrightarrow> advance_restart it' (bi_restart_index it) * I < j"
    using restart_at [OF I] assms(3) by (simp add: entry_off_less_iff)
  then have ri: "restart_ok I es (it'\<lparr>bi_restart_index := advance_restart it' (bi_restart_index it)\<rparr>) j"
    using advance_restart_range [of "bi_restart_index it" it'] before(2) restart_point [OF assms(1) reads'] reads'
    by (auto simp: restart_ok_def reads_def it'_def)
  obtain t where t: "drop (entry_off I es j) (block_data I es) = (h @ drop ?s ?k) @ ?v @ t"
    using block_at(2) [OF I assms(3)] by (auto simp: bytes)
  have "drop (entry_off I es j + length h + n) (block_data I es) = ?v @ t"
    using arg_cong [OF t, of "drop (length h + n)"] ns(2) by (simp add: ac_simps)
  then have v: "take (length ?v) (drop (entry_off I es j + length h + n) (block_data I es)) = ?v" by simp
  show ?thesis
    unfolding parse using ri reads' assms(3) v ns(2)
    by (simp add: at_entry_def reads_def it'_def bi_value_bytes_def NextEntryOffset_def entry_off_Suc bytes)
qed

lemma parse_last:
  assumes "before_entry I es it (length es)"
  shows "\<not> fst (ParseNextKey it) \<and> at_pos I es (snd (ParseNextKey it)) None"
  using assms by (simp add: before_entry_def ParseNextKey_def Let_def reads_def)

lemma parse_next:
  assumes "block_fits I es" and "before_entry I es it j"
  shows "at_pos I es (snd (ParseNextKey it)) (if j < length es then Some j else None)"
  using assms parse_entry [OF assms] parse_last [of I es it] by (cases "j = length es") (auto simp: before_entry_def)

text \<open>The linear search stops at the first entry that does not satisfy the condition.\<close>

lemma parse_while_find:
  assumes "block_fits I es" and "\<And>it k. at_entry I es it k \<Longrightarrow> cond it = P k" and "before_entry I es it j"
  shows "at_pos I es (parse_while cond it) (find (\<lambda>k. \<not> P k) [j..<length es])"
  using assms(3)
proof (induction "length es - j" arbitrary: j it)
  case 0
  then have "j = length es" by (simp add: before_entry_def)
  then show ?case using parse_last [of I es it] 0 by (simp add: parse_while.simps [of cond it] Let_def)
next
  case (Suc d)
  then have j: "j < length es" by simp
  note parsed = parse_entry [OF assms(1) Suc.prems j]
  show ?case
  proof (cases "P j")
    case True
    then have "parse_while cond it = parse_while cond (snd (ParseNextKey it))"
      using parsed assms(2) [of "snd (ParseNextKey it)" j] by (simp add: parse_while.simps [of cond it] Let_def)
    then show ?thesis using Suc.hyps(1) [of "Suc j", OF _ at_before] Suc.hyps(2) parsed True j by (simp add: upt_conv_Cons)
  next
    case False
    then show ?thesis using parsed assms(2) [of "snd (ParseNextKey it)" j] j by (simp add: parse_while.simps [of cond it] Let_def upt_conv_Cons)
  qed
qed

lemma find_append: "find P (xs @ ys) = (case find P xs of None \<Rightarrow> find P ys | Some x \<Rightarrow> Some x)"
  by (induction xs) auto

lemma find_from:
  assumes "\<And>k. k < j \<Longrightarrow> P k" and "j \<le> n"
  shows "find (\<lambda>k. \<not> P k) [j..<n] = find (\<lambda>k. \<not> P k) [0..<n]"
proof -
  have "[0..<n] = [0..<j] @ [j..<n]" using assms(2) by (metis le0 upt_add_eq_append le_add_diff_inverse)
  moreover have "find (\<lambda>k. \<not> P k) [0..<j] = None" using assms(1) by (simp add: find_None_iff)
  ultimately show ?thesis by (simp add: find_append)
qed

lemma find_at:
  assumes "\<And>i. l \<le> i \<Longrightarrow> i < k \<Longrightarrow> P i" and "\<not> P k" and "l \<le> k" and "k < n"
  shows "find (\<lambda>k. \<not> P k) [l..<n] = Some k"
  unfolding find_Some_iff using assms by (intro exI [of _ "k - l"]) simp

section \<open>The iterator is a cursor over the entries\<close>

lemma restart_before_spec:
  assumes "block_fits I es" and "reads I es it" and "r < restart_count I es" and "j \<le> length es"
  shows "case restart_before it (entry_off I es j) r of None \<Rightarrow> j = 0 | Some r' \<Rightarrow> r' \<le> r \<and> r' * I < j"
  using assms(3)
proof (induction r)
  case 0
  then show ?case using restart_point [OF assms(1,2), of 0] entry_off_less_iff [of 0 es j I] assms(4)
    by (auto simp: restart_before.simps [of _ _ 0] not_le)
next
  case (Suc r)
  have "GetRestartPoint it (Suc r) = entry_off I es (Suc r * I)" by (rule restart_point [OF assms(1,2) Suc.prems])
  moreover have "Suc r * I \<le> length es" using restart_at [OF _ Suc.prems] assms(1) by (simp add: block_fits_def)
  ultimately show ?case using Suc entry_off_less_iff [of "Suc r * I" es j I] assms(4)
    by (auto simp: restart_before.simps [of _ _ "Suc r"] not_le split: option.splits)
qed

lemma Prev_entry:
  assumes "block_fits I es" and "at_entry I es it j"
  shows "at_pos I es (bi_Prev it) (if j = 0 then None else Some (j - 1))"
proof -
  have it: "reads I es it" "bi_current it = entry_off I es j" "j < length es" "bi_restart_index it < restart_count I es"
    using assms(2) by (simp_all add: at_entry_def restart_ok_def)
  note spec = restart_before_spec [OF assms(1) it(1,4), of j]
  show ?thesis
  proof (cases "restart_before it (entry_off I es j) (bi_restart_index it)")
    case None
    then show ?thesis using spec it by (simp add: bi_Prev_def Let_def reads_def)
  next
    case (Some r)
    then have r: "r < restart_count I es" "r * I < j" using spec it by simp_all
    have "at_pos I es (bi_Prev it) (find (\<lambda>k. \<not> Suc k < j) [r * I..<length es])"
      using Some it(2) unfolding bi_Prev_def Let_def
      by (simp, intro parse_while_find [OF assms(1)] before_restart [OF assms(1) it(1) r(1)])
        (use it(3) in \<open>auto simp: at_entry_def entry_off_less_iff\<close>)
    moreover have "find (\<lambda>k. \<not> Suc k < j) [r * I..<length es] = Some (j - 1)"
      by (rule find_at) (use r(2) it(3) in auto)
    ultimately show ?thesis using r(2) by simp
  qed
qed


text \<open>The search over the restart points ends at one whose key is before the target, or at the left end.\<close>

lemma search_restarts_spec:
  assumes "block_fits I es" and "reads I es it"
  shows "l \<le> r \<Longrightarrow> r < restart_count I es \<Longrightarrow>
    \<exists>L. search_restarts cmp it target l r = Some L \<and> l \<le> L \<and> L \<le> r \<and> (L = l \<or> L * I < length es \<and> cmp (fst (es ! (L * I))) target < 0)"
proof (induction "r - l" arbitrary: l r rule: less_induct)
  case less
  show ?case
  proof (cases "l < r")
    case False
    then have "search_restarts cmp it target l r = Some l" by (simp add: search_restarts.simps)
    then show ?thesis using less.prems(1) by blast
  next
    case True
    define m where "m = (l + r + 1) div 2"
    note True' = True
    have m: "l < m" "m \<le> r" using True by (simp_all add: m_def)
    then have es: "es \<noteq> []" using less.prems(2) by (cases "es = []") (simp_all add: restart_count_def)
    have mj: "m * I < length es" using restart_count_last [OF _ es] assms(1) m(2) less.prems(2) by (simp add: block_fits_def)
    have sh: "entry_shared I es (m * I) = 0" by (simp add: entry_shared_def)
    obtain h q where p: "drop (entry_off I es (m * I)) (take (entry_off I es (length es)) (block_data I es)) = h @ q"
      and d: "DecodeEntry (h @ q) = Some (0, word_of_nat (length (fst (es ! (m * I)))), word_of_nat (length (snd (es ! (m * I)))), q)"
      and k: "take (length (fst (es ! (m * I)))) q = fst (es ! (m * I))" and kl: "length (fst (es ! (m * I))) < 2 ^ 32"
      by (rule entry_decoded [OF assms(1) mj]) (simp add: sh)
    have "GetRestartPoint it m = entry_off I es (m * I)" using restart_point [OF assms] m less.prems(2) by simp
    then have step: "search_restarts cmp it target l r =
        (if cmp (fst (es ! (m * I))) target < 0 then search_restarts cmp it target m r else search_restarts cmp it target l (m - 1))"
      unfolding search_restarts.simps [of cmp it target l r] m_def [symmetric] Let_def
      using True assms(2) p d k by (simp add: reads_def unat_small [OF kl])
    show ?thesis
    proof (cases "cmp (fst (es ! (m * I))) target < 0")
      case True
      then have "search_restarts cmp it target l r = search_restarts cmp it target m r" by (simp add: step)
      then obtain L where "search_restarts cmp it target l r = Some L" "m \<le> L" "L \<le> r"
          "L = m \<or> L * I < length es \<and> cmp (fst (es ! (L * I))) target < 0"
        using less.hyps [OF _ m(2) less.prems(2)] diff_less_mono2 [OF m(1)] True' by auto
      then show ?thesis using m mj True by (intro exI [of _ L]) auto
    next
      case False
      then have "search_restarts cmp it target l r = search_restarts cmp it target l (m - 1)" by (simp add: step)
      moreover have "m - 1 - l < r - l" "l \<le> m - 1" "m - 1 < restart_count I es" using m less.prems(2) by simp_all
      ultimately obtain L where "search_restarts cmp it target l r = Some L" "l \<le> L" "L \<le> m - 1"
          "L = l \<or> L * I < length es \<and> cmp (fst (es ! (L * I))) target < 0"
        using less.hyps [of "m - 1" l] by auto
      then show ?thesis using m by (intro exI [of _ L]) auto
    qed
  qed
qed

text \<open>A comparator whose equality is compatible with its order, and the entries in its order.\<close>

locale block_order = key_order cmp valid for cmp :: "slice \<Rightarrow> slice \<Rightarrow> int" and valid +
  assumes less_equal: "valid a \<Longrightarrow> valid b \<Longrightarrow> valid c \<Longrightarrow> cmp a b < 0 \<Longrightarrow> cmp b c = 0 \<Longrightarrow> cmp a c < 0"
begin

lemma below_target:
  assumes "lane_ok (map fst es)" and "valid target" and "k < j" and "j < length es" and "cmp (fst (es ! j)) target \<le> 0"
  shows "cmp (fst (es ! k)) target < 0"
proof -
  have "cmp (fst (es ! k)) (fst (es ! j)) < 0" using assms(1,3,4) by (auto simp: lane_ok_def dest: sorted_wrt_nth_less)
  moreover have "valid (fst (es ! k))" "valid (fst (es ! j))" using assms(1,3,4) by (simp_all add: lane_ok_def)
  ultimately show ?thesis using assms(2,5) less_trans [of "fst (es ! k)" "fst (es ! j)" target] less_equal [of "fst (es ! k)" "fst (es ! j)" target] by linarith
qed

lemma Seek_here:
  assumes "lane_ok (map fst es)" and "valid target" and "at_entry I es it j" and "cmp (fst (es ! j)) target = 0"
  shows "at_pos I es (bi_Seek cmp target it) (find (\<lambda>k. \<not> cmp (fst (es ! k)) target < 0) [0..<length es])"
proof -
  have "bi_Seek cmp target it = it" using assms(3,4) at_pos_Valid [of I es it "Some j"] by (simp add: bi_Seek_def at_entry_def)
  moreover have "find (\<lambda>k. \<not> cmp (fst (es ! k)) target < 0) [0..<length es] = Some j"
    using assms(3,4) below_target [OF assms(1,2), of _ j] by (intro find_at) (simp_all add: at_entry_def)
  ultimately show ?thesis using assms(3) by simp
qed

lemma Seek_pos:
  assumes "block_fits I es" and "lane_ok (map fst es)" and "valid target" and "at_pos I es it p"
  shows "at_pos I es (bi_Seek cmp target it) (find (\<lambda>k. \<not> cmp (fst (es ! k)) target < 0) [0..<length es])"
proof (cases "\<exists>j. p = Some j \<and> cmp (fst (es ! j)) target = 0")
  case True
  then show ?thesis using Seek_here [OF assms(2,3)] assms(4) by auto
next
  case False
  define c where "c = (if bi_Valid it then cmp (bi_key it) target else 0)"
  define l where "l = (if c < 0 then bi_restart_index it else 0)"
  define r where "r = (if c > 0 then bi_restart_index it else bi_num_restarts it - 1)"
  have it: "reads I es it" by (rule at_pos_reads [OF assms(4)])
  have nonzero: "bi_Valid it \<Longrightarrow> c \<noteq> 0" and here: "c \<noteq> 0 \<Longrightarrow> \<exists>j. at_entry I es it j \<and> c = cmp (fst (es ! j)) target"
    using False assms(4) at_pos_Valid [OF assms(4)] by (auto simp: c_def at_entry_def split: if_splits)
  have "bi_num_restarts it = restart_count I es" using it by (simp add: reads_def)
  moreover have "0 < restart_count I es" by (simp add: restart_count_def)
  moreover have "c \<noteq> 0 \<Longrightarrow> bi_restart_index it < restart_count I es" using here by (auto simp: at_entry_def restart_ok_def)
  ultimately have lr: "l \<le> r" "r < restart_count I es" by (auto simp: l_def r_def)
  obtain L where L: "search_restarts cmp it target l r = Some L" "l \<le> L" "L \<le> r"
      "L = l \<or> L * I < length es \<and> cmp (fst (es ! (L * I))) target < 0"
    using search_restarts_spec [OF assms(1) it lr] by blast
  define it' where "it' = (if L = bi_restart_index it \<and> c < 0 then it else SeekToRestartPoint L it)"
  have seek: "bi_Seek cmp target it = parse_while (\<lambda>it. cmp (bi_key it) target < 0) it'"
    using nonzero L(1) unfolding bi_Seek_def c_def [symmetric] by (auto simp: Let_def it'_def l_def r_def)
  have "\<exists>j. before_entry I es it' j \<and> (\<forall>k < j. cmp (fst (es ! k)) target < 0)"
  proof (cases "L = bi_restart_index it \<and> c < 0")
    case True
    then obtain j where j: "at_entry I es it j" "cmp (fst (es ! j)) target < 0" using here by auto
    then have "\<forall>k < Suc j. cmp (fst (es ! k)) target < 0"
      using below_target [OF assms(2,3), of _ j] by (auto simp: less_Suc_eq at_entry_def)
    then show ?thesis using True at_before [OF j(1)] by (auto simp: it'_def)
  next
    case False
    have "before_entry I es it' (L * I)"
      using before_restart [OF assms(1) it, of L] L(3) lr(2) False by (auto simp: it'_def)
    moreover have "cmp (fst (es ! k)) target < 0" if "k < L * I" for k
    proof (cases "L = l")
      case True
      then show ?thesis using False that by (auto simp: l_def split: if_splits)
    next
      case False
      then show ?thesis using L(4) below_target [OF assms(2,3) that] by simp
    qed
    ultimately show ?thesis by blast
  qed
  then obtain j where j: "before_entry I es it' j" "\<forall>k < j. cmp (fst (es ! k)) target < 0" by blast
  have "at_pos I es (bi_Seek cmp target it) (find (\<lambda>k. \<not> cmp (fst (es ! k)) target < 0) [j..<length es])"
    unfolding seek by (rule parse_while_find [OF assms(1) _ j(1)]) (simp add: at_entry_def)
  moreover have "j \<le> length es" using j(1) by (simp add: before_entry_def)
  ultimately show ?thesis using find_from [of j "\<lambda>k. cmp (fst (es ! k)) target < 0"] j(2) by simp
qed

end

interpretation internal_order: block_order internal_compare "\<lambda>k. True"
  by unfold_locales (auto simp: internal_compare_order)


text \<open>
  The calls of an \<open>Iterator\<close>; \<open>Next\<close> and \<open>Prev\<close> are called on a valid iterator only
  (\<open>assert(Valid())\<close>).  The specification is a position in the list of entries.
\<close>

datatype iter_call = callSeek slice | callSeekToFirst | callSeekToLast | callNext | callPrev

fun bi_call :: "(slice \<Rightarrow> slice \<Rightarrow> int) \<Rightarrow> iter_call \<Rightarrow> block_iter \<Rightarrow> block_iter" where
  "bi_call cmp (callSeek target) it = bi_Seek cmp target it"
| "bi_call cmp callSeekToFirst it = bi_SeekToFirst it"
| "bi_call cmp callSeekToLast it = bi_SeekToLast it"
| "bi_call cmp callNext it = (if bi_Valid it then bi_Next it else it)"
| "bi_call cmp callPrev it = (if bi_Valid it then bi_Prev it else it)"

fun cursor_call :: "(slice \<Rightarrow> slice \<Rightarrow> int) \<Rightarrow> slice list \<Rightarrow> iter_call \<Rightarrow> nat option \<Rightarrow> nat option" where
  "cursor_call cmp ks (callSeek target) p = find (\<lambda>k. \<not> cmp (ks ! k) target < 0) [0..<length ks]"
| "cursor_call cmp ks callSeekToFirst p = (if ks = [] then None else Some 0)"
| "cursor_call cmp ks callSeekToLast p = (if ks = [] then None else Some (length ks - 1))"
| "cursor_call cmp ks callNext p = (case p of Some j \<Rightarrow> if Suc j < length ks then Some (Suc j) else None | None \<Rightarrow> None)"
| "cursor_call cmp ks callPrev p = (case p of Some (Suc j) \<Rightarrow> Some j | _ \<Rightarrow> None)"

definition bi_entry :: "block_iter \<Rightarrow> (slice \<times> slice) option" where
  "bi_entry it = (if bi_Valid it then Some (bi_key it, bi_value_bytes it) else None)"

lemma restart_count_pos: "0 < restart_count I es"
  by (simp add: restart_count_def)

lemma SeekToLast_pos:
  assumes "block_fits I es" and "reads I es it"
  shows "at_pos I es (bi_SeekToLast it) (if es = [] then None else Some (length es - 1))"
proof -
  let ?j = "(restart_count I es - 1) * I"
  have r: "restart_count I es - 1 < restart_count I es" by (simp add: restart_count_pos)
  have "at_pos I es (bi_SeekToLast it) (find (\<lambda>k. \<not> Suc k < length es) [?j..<length es])"
    using assms(2) before_restart [OF assms r] unfolding bi_SeekToLast_def
    by (intro parse_while_find [OF assms(1)]) (auto simp: at_entry_def reads_def entry_off_less_iff)
  moreover have "find (\<lambda>k. \<not> Suc k < length es) [?j..<length es] = Some (length es - 1)" if "es \<noteq> []"
    using that restart_count_last [OF _ that r] assms(1) by (intro find_at) (auto simp: block_fits_def)
  ultimately show ?thesis by auto
qed

lemma bi_call_pos:
  assumes "block_fits I es" and "internal_order.lane_ok (map fst es)" and "at_pos I es it p"
  shows "at_pos I es (bi_call internal_compare call it) (cursor_call internal_compare (map fst es) call p)"
proof (cases call)
  case (callSeek target)
  have "find (\<lambda>k. \<not> internal_compare (map fst es ! k) target < 0) [0..<length es] = find (\<lambda>k. \<not> internal_compare (fst (es ! k)) target < 0) [0..<length es]"
    by (rule find_cong) simp_all
  then show ?thesis using internal_order.Seek_pos [OF assms(1,2) TrueI assms(3), of target] by (simp add: callSeek)
next
  case callSeekToFirst
  have "before_entry I es (SeekToRestartPoint 0 it) 0"
    using before_restart [OF assms(1) at_pos_reads [OF assms(3)] restart_count_pos] by simp
  from parse_next [OF assms(1) this] show ?thesis by (simp add: callSeekToFirst bi_SeekToFirst_def split: if_splits)
next
  case callSeekToLast
  show ?thesis using SeekToLast_pos [OF assms(1) at_pos_reads [OF assms(3)]] by (auto simp: callSeekToLast)
next
  case callNext
  show ?thesis
    using assms(3) at_pos_Valid [OF assms(3)] parse_next [OF assms(1) at_before, of it "the p"]
    by (cases p) (auto simp: callNext bi_Next_def split: if_splits)
next
  case callPrev
  show ?thesis
    using assms(3) at_pos_Valid [OF assms(3)] Prev_entry [OF assms(1), of it "the p"]
    by (cases p) (auto simp: callPrev split: nat.splits)
qed

lemma at_pos_entry: "at_pos I es it p \<Longrightarrow> bi_entry it = map_option (nth es) p \<and> \<not> bi_corrupt it"
  using at_pos_Valid [of I es it p] by (cases p) (auto simp: bi_entry_def at_entry_def reads_def)

lemma Block_opens:
  assumes "block_fits I es"
  shows "Block_NewIterator (Block_new (block_data I es))
    = BlockIterator (Iter_new (block_data I es) (entry_off I es (length es)) (restart_count I es))"
proof -
  have I: "0 < I" and len: "length (block_data I es) < 2 ^ 32" using assms by (simp_all add: block_fits_def)
  note n = length_block_data [OF I, of es]
  have "restart_count I es < 2 ^ 32" using len n by linarith
  moreover have "drop (length (block_data I es) - 4) (block_data I es) = EncodeFixed32 (word_of_nat (restart_count I es)) @ []"
    unfolding n unfolding block_data_parts [OF I] by (simp add: length_words entry_off_def del: map_map)
  ultimately have "NumRestarts (block_data I es) = restart_count I es"
    unfolding NumRestarts_def by (simp only: DecodeFixed32_Encode unat_small)
  then show ?thesis using n restart_count_pos [of I es]
    by (simp add: Block_new_def Block_NewIterator_def Let_def)
qed

text \<open>C33. The iterator over a finished block is a cursor over its entries: for any entries in the order
  of the internal keys, any restart interval and any sequence of \<open>Seek\<close>, \<open>SeekToFirst\<close>,
  \<open>SeekToLast\<close>, \<open>Next\<close> and \<open>Prev\<close>, the key and the value it shows are those of the entry at the
  cursor's position, it is valid exactly when there is one, and no corruption is reported.  So
  \<open>Seek\<close> finds the first key at or after the target, whatever the prefix compression, the restart
  points and the position the search starts from.
\<close>

theorem block_iterator_refines:
  assumes "0 < I" and "sorted_wrt (\<lambda>a b. internal_compare a b < 0) (map fst es)"
    and "length (block_data I es) < 2 ^ 32" and "\<forall>e \<in> set es. length (fst e) < 2 ^ 32"
  shows "\<exists>it. Block_NewIterator (Block_new (block_data I es)) = BlockIterator it
    \<and> (\<forall>calls. bi_entry (fold (bi_call internal_compare) calls it)
              = map_option (nth es) (fold (cursor_call internal_compare (map fst es)) calls None)
            \<and> \<not> bi_corrupt (fold (bi_call internal_compare) calls it))"
proof -
  have fits: "block_fits I es" using assms(1,3,4) by (simp add: block_fits_def)
  let ?it = "Iter_new (block_data I es) (entry_off I es (length es)) (restart_count I es)"
  have "at_pos I es ?it None" by (simp add: reads_def Iter_new_def)
  then have "at_pos I es (fold (bi_call internal_compare) calls ?it) (fold (cursor_call internal_compare (map fst es)) calls None)" for calls
    using assms(2) by (induction calls rule: rev_induct) (simp_all add: bi_call_pos [OF fits] internal_order.lane_ok_def)
  then show ?thesis using Block_opens [OF fits] at_pos_entry by blast
qed


definition sample_entries :: "(slice \<times> slice) list" where
  "sample_entries = [(AppendInternalKey [] \<lparr>pk_user_key = [65], pk_sequence = 7, pk_type = kTypeValue\<rparr>, [1]),
     (AppendInternalKey [] \<lparr>pk_user_key = [65], pk_sequence = 3, pk_type = kTypeValue\<rparr>, []),
     (AppendInternalKey [] \<lparr>pk_user_key = [65, 66], pk_sequence = 5, pk_type = kTypeDeletion\<rparr>, [2, 3])]"

theorem block_iterator_refines_witness:
  "\<exists>it. Block_NewIterator (Block_new (block_data 2 sample_entries)) = BlockIterator it
    \<and> bi_entry (fold (bi_call internal_compare) [callSeek (fst (sample_entries ! 2)), callPrev] it) = Some (sample_entries ! 1)"
proof -
  have "length (block_data 2 sample_entries) < 100" by code_simp
  then have size: "length (block_data 2 sample_entries) < 2 ^ 32" by simp
  have order: "sorted_wrt (\<lambda>a b. internal_compare a b < 0) (map fst sample_entries)" by code_simp
  have keys: "\<forall>e \<in> set sample_entries. length (fst e) < 2 ^ 32" by (simp add: sample_entries_def AppendInternalKey_def PutFixed64_def)
  have pos: "fold (cursor_call internal_compare (map fst sample_entries)) [callSeek (fst (sample_entries ! 2)), callPrev] None = Some 1"
    by code_simp
  obtain it where "Block_NewIterator (Block_new (block_data 2 sample_entries)) = BlockIterator it"
      "\<And>calls. bi_entry (fold (bi_call internal_compare) calls it)
         = map_option (nth sample_entries) (fold (cursor_call internal_compare (map fst sample_entries)) calls None)"
    using block_iterator_refines [OF zero_less_numeral order size keys] by blast
  then show ?thesis using pos by (intro exI [of _ it]) (simp only: option.map simp_thms)
qed

end
