(* ===== verification/Ldb_Table.thy ===== *)
theory Ldb_Table
  imports Ldb_Block Ldb_Replay
begin

text \<open>
  Table files: block handles, the footer and reading a block (\<open>src/leveldb/table/format.cc\<close>),
  the builder (\<open>table/table_builder.cc\<close>) and lookups (\<open>table/table.cc\<close>).  The compression
  libraries behind \<open>port/\<close> and the checksum are parameters.  Reading a file is a function from an
  offset and a length to the bytes read, \<open>None\<close> for an I/O error, with a flag that says whether
  they are in the caller's buffer.  The block cache is a map; entries may leave it between calls.
\<close>

section \<open>Format\<close>

record BlockHandle =
  bh_offset :: "64 word"
  bh_size :: "64 word"

definition BlockHandle_new :: BlockHandle where
  "BlockHandle_new = \<lparr>bh_offset = NOT 0, bh_size = NOT 0\<rparr>"

definition BlockHandle_EncodeTo :: "slice \<Rightarrow> BlockHandle \<Rightarrow> slice" where
  "BlockHandle_EncodeTo dst h = PutVarint64 (PutVarint64 dst (bh_offset h)) (bh_size h)"

definition BlockHandle_DecodeFrom :: "slice \<Rightarrow> ldb_error + BlockHandle \<times> slice" where
  "BlockHandle_DecodeFrom input =
     (case GetVarint64 input of
        Some (offset, input) \<Rightarrow> (case GetVarint64 input of
          Some (sz, input) \<Rightarrow> Inr (\<lparr>bh_offset = offset, bh_size = sz\<rparr>, input)
        | None \<Rightarrow> Inl (kCorruption ''bad block handle''))
      | None \<Rightarrow> Inl (kCorruption ''bad block handle''))"

definition kMaxEncodedLength :: nat where "kMaxEncodedLength = 10 + 10"

definition kEncodedLength :: nat where "kEncodedLength = 2 * kMaxEncodedLength + 8"

definition kTableMagicNumber :: "64 word" where "kTableMagicNumber = 0xdb4775248b80fb57"

definition kBlockTrailerSize :: "64 word" where "kBlockTrailerSize = 5"

record Footer =
  ft_metaindex_handle :: BlockHandle
  ft_index_handle :: BlockHandle

definition resize_bytes :: "nat \<Rightarrow> slice \<Rightarrow> slice" where
  "resize_bytes n s = take n s @ replicate (n - length s) 0"

definition Footer_EncodeTo :: "slice \<Rightarrow> Footer \<Rightarrow> slice" where
  "Footer_EncodeTo dst f =
     (let dst = BlockHandle_EncodeTo (BlockHandle_EncodeTo dst (ft_metaindex_handle f)) (ft_index_handle f);
          dst = resize_bytes (2 * kMaxEncodedLength) dst
      in PutFixed32 (PutFixed32 dst (ucast (kTableMagicNumber AND 0xffffffff))) (ucast (drop_bit 32 kTableMagicNumber)))"

definition Footer_DecodeFrom :: "slice \<Rightarrow> ldb_error + Footer \<times> slice" where
  "Footer_DecodeFrom input =
     (if length input < kEncodedLength then Inl (kCorruption ''not an sstable (footer too short)'')
      else let magic_ptr = drop (kEncodedLength - 8) input;
               magic_lo = DecodeFixed32 magic_ptr; magic_hi = DecodeFixed32 (drop 4 magic_ptr);
               magic = push_bit 32 (ucast magic_hi) OR ucast magic_lo
           in if magic \<noteq> kTableMagicNumber then Inl (kCorruption ''not an sstable (bad magic number)'')
              else case BlockHandle_DecodeFrom input of Inl e \<Rightarrow> Inl e
              | Inr (metaindex_handle, rest) \<Rightarrow>
                  (case BlockHandle_DecodeFrom rest of Inl e \<Rightarrow> Inl e
                   | Inr (index_handle, _) \<Rightarrow>
                       Inr (\<lparr>ft_metaindex_handle = metaindex_handle, ft_index_handle = index_handle\<rparr>, drop 8 magic_ptr)))"

datatype CompressionType = kNoCompression | kSnappyCompression | kZstdCompression

fun compression_code :: "CompressionType \<Rightarrow> byte" where
  "compression_code kNoCompression = 0"
| "compression_code kSnappyCompression = 1"
| "compression_code kZstdCompression = 2"

text \<open>The functions of \<open>port/port.h\<close>; \<open>None\<close> is \<open>false\<close>.\<close>

record port =
  Snappy_Compress :: "slice \<Rightarrow> slice option"
  Snappy_GetUncompressedLength :: "slice \<Rightarrow> nat option"
  Snappy_Uncompress :: "slice \<Rightarrow> slice option"
  Zstd_Compress :: "int \<Rightarrow> slice \<Rightarrow> slice option"
  Zstd_GetUncompressedLength :: "slice \<Rightarrow> nat option"
  Zstd_Uncompress :: "slice \<Rightarrow> slice option"
  crc_Extend :: crc_extend

type_synonym random_file = "64 word \<Rightarrow> nat \<Rightarrow> (slice \<times> bool) option"

record BlockContents =
  bc_data :: slice
  bc_cachable :: bool
  bc_heap_allocated :: bool

definition uncompressed :: "string \<Rightarrow> (slice \<Rightarrow> nat option) \<Rightarrow> (slice \<Rightarrow> slice option) \<Rightarrow> slice \<Rightarrow> ldb_error + BlockContents" where
  "uncompressed name get_length uncompress data =
     (case get_length data of
        None \<Rightarrow> Inl (kCorruption (''corrupted '' @ name @ '' compressed block length''))
      | Some ulength \<Rightarrow> (case uncompress data of
          None \<Rightarrow> Inl (kCorruption (''corrupted '' @ name @ '' compressed block contents''))
        | Some ubuf \<Rightarrow> Inr \<lparr>bc_data = take ulength ubuf, bc_cachable = True, bc_heap_allocated = True\<rparr>))"

definition ReadBlock :: "port \<Rightarrow> random_file \<Rightarrow> bool \<Rightarrow> BlockHandle \<Rightarrow> ldb_error + BlockContents" where
  "ReadBlock pt read verify_checksums handle =
     (let n = bh_size handle in
      case read (bh_offset handle) (unat (n + kBlockTrailerSize)) of
        None \<Rightarrow> Inl kIOError
      | Some (data, in_buf) \<Rightarrow>
          if length data \<noteq> unat (n + kBlockTrailerSize) then Inl (kCorruption ''truncated block read'')
          else if length data < unat n + 5 then Inl OutOfBounds
          else if verify_checksums \<and> crc_Value (crc_Extend pt) (take (unat n + 1) data) \<noteq> Unmask (DecodeFixed32 (drop (unat n + 1) data))
          then Inl (kCorruption ''block checksum mismatch'')
          else if data ! unat n = compression_code kNoCompression
          then Inr \<lparr>bc_data = take (unat n) data, bc_cachable = in_buf, bc_heap_allocated = in_buf\<rparr>
          else if data ! unat n = compression_code kSnappyCompression
          then uncompressed ''snappy'' (Snappy_GetUncompressedLength pt) (Snappy_Uncompress pt) (take (unat n) data)
          else if data ! unat n = compression_code kZstdCompression
          then uncompressed ''zstd'' (Zstd_GetUncompressedLength pt) (Zstd_Uncompress pt) (take (unat n) data)
          else Inl (kCorruption ''bad block type''))"

section \<open>Builder\<close>

record comparator =
  cmp_Compare :: "slice \<Rightarrow> slice \<Rightarrow> int"
  cmp_FindShortestSeparator :: "slice \<Rightarrow> slice \<Rightarrow> slice"
  cmp_FindShortSuccessor :: "slice \<Rightarrow> slice"

definition InternalKeyComparator :: comparator where
  "InternalKeyComparator = \<lparr>cmp_Compare = internal_compare, cmp_FindShortestSeparator = internal_FindShortestSeparator,
     cmp_FindShortSuccessor = internal_FindShortSuccessor\<rparr>"

record policy =
  fp_Name :: slice
  fp_CreateFilter :: "slice list \<Rightarrow> slice \<Rightarrow> slice"
  fp_KeyMayMatch :: "slice \<Rightarrow> slice \<Rightarrow> bool"

record table_options =
  opt_comparator :: comparator
  opt_paranoid_checks :: bool
  opt_block_cache :: bool
  opt_block_size :: nat
  opt_restart_interval :: nat
  opt_compression :: CompressionType
  opt_zstd_level :: int
  opt_filter_policy :: "policy option"

record table_builder =
  tb_options :: table_options
  tb_file :: log_file
  tb_offset :: "64 word"
  tb_ok :: bool
  tb_data_block :: block_builder
  tb_index_block :: block_builder
  tb_last_key :: slice
  tb_num_entries :: "64 word"
  tb_closed :: bool
  tb_filter_block :: "(policy \<times> filter_builder) option"
  tb_pending_index_entry :: bool
  tb_pending_handle :: BlockHandle

definition Rep_new :: "table_options \<Rightarrow> log_file \<Rightarrow> table_builder" where
  "Rep_new opt f =
     \<lparr>tb_options = opt, tb_file = f, tb_offset = 0, tb_ok = True, tb_data_block = BlockBuilder, tb_index_block = BlockBuilder,
      tb_last_key = [], tb_num_entries = 0, tb_closed = False,
      tb_filter_block = map_option (\<lambda>p. (p, FilterBlockBuilder)) (opt_filter_policy opt),
      tb_pending_index_entry = False, tb_pending_handle = BlockHandle_new\<rparr>"

text \<open>An operation of the filter block, skipped when there is none.\<close>

definition on_filter :: "((slice list \<Rightarrow> slice \<Rightarrow> slice) \<Rightarrow> filter_builder \<Rightarrow> filter_builder) \<Rightarrow> table_builder \<Rightarrow> table_builder" where
  "on_filter f r = r\<lparr>tb_filter_block := map_option (\<lambda>(p, b). (p, f (fp_CreateFilter p) b)) (tb_filter_block r)\<rparr>"

definition TableBuilder :: "table_options \<Rightarrow> log_file \<Rightarrow> table_builder" where
  "TableBuilder opt f = on_filter (\<lambda>create. StartBlock create 0) (Rep_new opt f)"

text \<open>\<open>same\<close> says whether the comparator of the new options is the present one.\<close>

definition ChangeOptions :: "bool \<Rightarrow> table_options \<Rightarrow> table_builder \<Rightarrow> ldb_error option \<times> table_builder" where
  "ChangeOptions same opt r =
     (if \<not> same then (Some (kInvalidArgument ''changing comparator while building table''), r)
      else (None, r\<lparr>tb_options := opt\<rparr>))"

definition WriteRawBlock :: "port \<Rightarrow> slice \<Rightarrow> CompressionType \<Rightarrow> table_builder \<Rightarrow> BlockHandle \<times> table_builder" where
  "WriteRawBlock pt block_contents t r =
     (let handle = \<lparr>bh_offset = tb_offset r, bh_size = word_of_nat (length block_contents)\<rparr>;
          (ok, f) = lf_Append block_contents (tb_file r)
      in if \<not> ok then (handle, r\<lparr>tb_file := f, tb_ok := False\<rparr>)
         else let crc = crc_Extend pt (crc_Value (crc_Extend pt) block_contents) [compression_code t];
                  trailer = compression_code t # EncodeFixed32 (Mask crc);
                  (ok, f) = lf_Append trailer f;
                  r = r\<lparr>tb_file := f, tb_ok := ok\<rparr>
              in (handle, if ok then r\<lparr>tb_offset := tb_offset r + word_of_nat (length block_contents) + kBlockTrailerSize\<rparr> else r))"

definition compressed_form :: "port \<Rightarrow> table_options \<Rightarrow> slice \<Rightarrow> slice \<times> CompressionType" where
  "compressed_form pt opt raw =
     (case opt_compression opt of
        kNoCompression \<Rightarrow> (raw, kNoCompression)
      | kSnappyCompression \<Rightarrow> (case Snappy_Compress pt raw of
          Some c \<Rightarrow> if length c < length raw - length raw div 8 then (c, kSnappyCompression) else (raw, kNoCompression)
        | None \<Rightarrow> (raw, kNoCompression))
      | kZstdCompression \<Rightarrow> (case Zstd_Compress pt (opt_zstd_level opt) raw of
          Some c \<Rightarrow> if length c < length raw - length raw div 8 then (c, kZstdCompression) else (raw, kNoCompression)
        | None \<Rightarrow> (raw, kNoCompression)))"

text \<open>The handle of the block, the block after \<open>Reset\<close> and the table.\<close>

definition WriteBlock :: "port \<Rightarrow> block_builder \<Rightarrow> table_builder \<Rightarrow> BlockHandle \<times> block_builder \<times> table_builder" where
  "WriteBlock pt b r =
     (let (raw, b) = bb_Finish b;
          (block_contents, t) = compressed_form pt (tb_options r) raw;
          (handle, r) = WriteRawBlock pt block_contents t r
      in (handle, bb_Reset b, r))"

definition tb_Flush :: "port \<Rightarrow> table_builder \<Rightarrow> table_builder" where
  "tb_Flush pt r =
     (if \<not> tb_ok r then r
      else if bb_buffer (tb_data_block r) = [] then r
      else let (handle, b, r) = WriteBlock pt (tb_data_block r) r;
               r = r\<lparr>tb_data_block := b, tb_pending_handle := handle\<rparr>;
               r = (if tb_ok r
                    then let (ok, f) = lf_Flush (tb_file r)
                         in r\<lparr>tb_pending_index_entry := True, tb_file := f, tb_ok := ok\<rparr>
                    else r)
           in on_filter (\<lambda>create. StartBlock create (tb_offset r)) r)"

definition tb_Add :: "port \<Rightarrow> slice \<Rightarrow> slice \<Rightarrow> table_builder \<Rightarrow> table_builder" where
  "tb_Add pt key v r =
     (if \<not> tb_ok r then r
      else let interval = opt_restart_interval (tb_options r);
               r = (if tb_pending_index_entry r
                    then let last_key = cmp_FindShortestSeparator (opt_comparator (tb_options r)) (tb_last_key r) key
                         in r\<lparr>tb_last_key := last_key,
                              tb_index_block := bb_Add 1 last_key (BlockHandle_EncodeTo [] (tb_pending_handle r)) (tb_index_block r),
                              tb_pending_index_entry := False\<rparr>
                    else r);
               r = on_filter (\<lambda>create. fb_AddKey key) r;
               r = r\<lparr>tb_last_key := key, tb_num_entries := tb_num_entries r + 1,
                     tb_data_block := bb_Add interval key v (tb_data_block r)\<rparr>
           in if CurrentSizeEstimate (tb_data_block r) \<ge> opt_block_size (tb_options r) then tb_Flush pt r else r)"

definition filter_key :: "policy \<Rightarrow> slice" where
  "filter_key p = map (word_of_nat \<circ> of_char) ''filter.'' @ fp_Name p"

text \<open>The three parts of \<open>Finish\<close> after the flush, each skipped after an error.\<close>

definition finish_filter :: "port \<Rightarrow> table_builder \<Rightarrow> BlockHandle \<times> table_builder" where
  "finish_filter pt r =
     (case tb_filter_block r of
        Some (p, b) \<Rightarrow> if tb_ok r then WriteRawBlock pt (fb_Finish (fp_CreateFilter p) b) kNoCompression r else (BlockHandle_new, r)
      | None \<Rightarrow> (BlockHandle_new, r))"

definition finish_metaindex :: "port \<Rightarrow> BlockHandle \<Rightarrow> table_builder \<Rightarrow> BlockHandle \<times> table_builder" where
  "finish_metaindex pt filter_block_handle r =
     (if \<not> tb_ok r then (BlockHandle_new, r)
      else let meta = (case (tb_filter_block r, opt_filter_policy (tb_options r)) of
                         (Some _, Some p) \<Rightarrow> bb_Add (opt_restart_interval (tb_options r)) (filter_key p)
                                             (BlockHandle_EncodeTo [] filter_block_handle) BlockBuilder
                       | _ \<Rightarrow> BlockBuilder);
               (handle, _, r) = WriteBlock pt meta r
           in (handle, r))"

definition finish_index :: "port \<Rightarrow> table_builder \<Rightarrow> BlockHandle \<times> table_builder" where
  "finish_index pt r =
     (if \<not> tb_ok r then (BlockHandle_new, r)
      else let r = (if tb_pending_index_entry r
                    then let last_key = cmp_FindShortSuccessor (opt_comparator (tb_options r)) (tb_last_key r)
                         in r\<lparr>tb_last_key := last_key,
                              tb_index_block := bb_Add 1 last_key (BlockHandle_EncodeTo [] (tb_pending_handle r)) (tb_index_block r),
                              tb_pending_index_entry := False\<rparr>
                    else r);
               (handle, b, r) = WriteBlock pt (tb_index_block r) r
           in (handle, r\<lparr>tb_index_block := b\<rparr>))"

definition tb_Finish :: "port \<Rightarrow> table_builder \<Rightarrow> table_builder" where
  "tb_Finish pt r =
     (let r = (tb_Flush pt r)\<lparr>tb_closed := True\<rparr>;
          (filter_block_handle, r) = finish_filter pt r;
          (metaindex_block_handle, r) = finish_metaindex pt filter_block_handle r;
          (index_block_handle, r) = finish_index pt r
      in if \<not> tb_ok r then r
         else let footer_encoding = Footer_EncodeTo [] \<lparr>ft_metaindex_handle = metaindex_block_handle, ft_index_handle = index_block_handle\<rparr>;
                  (ok, f) = lf_Append footer_encoding (tb_file r);
                  r = r\<lparr>tb_file := f, tb_ok := ok\<rparr>
              in if ok then r\<lparr>tb_offset := tb_offset r + word_of_nat (length footer_encoding)\<rparr> else r)"

definition Abandon :: "table_builder \<Rightarrow> table_builder" where
  "Abandon r = r\<lparr>tb_closed := True\<rparr>"

definition NumEntries :: "table_builder \<Rightarrow> 64 word" where
  "NumEntries r = tb_num_entries r"

definition FileSize :: "table_builder \<Rightarrow> 64 word" where
  "FileSize r = tb_offset r"

section \<open>Lookup\<close>

fun any_Valid :: "any_iter \<Rightarrow> bool" where
  "any_Valid (EmptyIterator s) = False"
| "any_Valid (BlockIterator it) = bi_Valid it"

fun any_status :: "any_iter \<Rightarrow> ldb_error option" where
  "any_status (EmptyIterator s) = s"
| "any_status (BlockIterator it) = (if bi_corrupt it then Some (kCorruption ''bad entry in block'') else None)"

fun any_Seek :: "(slice \<Rightarrow> slice \<Rightarrow> int) \<Rightarrow> slice \<Rightarrow> any_iter \<Rightarrow> any_iter" where
  "any_Seek cmp target (EmptyIterator s) = EmptyIterator s"
| "any_Seek cmp target (BlockIterator it) = BlockIterator (bi_Seek cmp target it)"

fun any_entry :: "any_iter \<Rightarrow> (slice \<times> slice) option" where
  "any_entry (EmptyIterator s) = None"
| "any_entry (BlockIterator it) = bi_entry it"

record table =
  tbl_options :: table_options
  tbl_file :: random_file
  tbl_cache_id :: "64 word"
  tbl_filter :: "filter_reader option"
  tbl_metaindex_handle :: BlockHandle
  tbl_index_block :: block

definition ReadFilter :: "port \<Rightarrow> slice \<Rightarrow> table \<Rightarrow> table" where
  "ReadFilter pt filter_handle_value t =
     (case BlockHandle_DecodeFrom filter_handle_value of Inl _ \<Rightarrow> t
      | Inr (filter_handle, _) \<Rightarrow>
          (case ReadBlock pt (tbl_file t) (opt_paranoid_checks (tbl_options t)) filter_handle of Inl _ \<Rightarrow> t
           | Inr block \<Rightarrow> t\<lparr>tbl_filter := Some (FilterBlockReader (bc_data block))\<rparr>))"

definition ReadMeta :: "port \<Rightarrow> Footer \<Rightarrow> table \<Rightarrow> table" where
  "ReadMeta pt footer t =
     (case opt_filter_policy (tbl_options t) of None \<Rightarrow> t
      | Some p \<Rightarrow>
          (case ReadBlock pt (tbl_file t) (opt_paranoid_checks (tbl_options t)) (ft_metaindex_handle footer) of Inl _ \<Rightarrow> t
           | Inr contents \<Rightarrow>
               (case any_entry (any_Seek slice_compare (filter_key p) (Block_NewIterator (Block_new (bc_data contents)))) of
                  Some (key, v) \<Rightarrow> if key = filter_key p then ReadFilter pt v t else t
                | None \<Rightarrow> t)))"

text \<open>\<open>new_id\<close> is the identity a block cache gives out.\<close>

definition Table_Open :: "port \<Rightarrow> 64 word \<Rightarrow> table_options \<Rightarrow> random_file \<Rightarrow> 64 word \<Rightarrow> ldb_error + table" where
  "Table_Open pt new_id opt file file_size =
     (if file_size < word_of_nat kEncodedLength then Inl (kCorruption ''file is too short to be an sstable'')
      else case file (file_size - word_of_nat kEncodedLength) kEncodedLength of None \<Rightarrow> Inl kIOError
      | Some (footer_input, _) \<Rightarrow>
          (case Footer_DecodeFrom footer_input of Inl e \<Rightarrow> Inl e
           | Inr (footer, _) \<Rightarrow>
               (case ReadBlock pt file (opt_paranoid_checks opt) (ft_index_handle footer) of Inl e \<Rightarrow> Inl e
                | Inr index_block_contents \<Rightarrow>
                    Inr (ReadMeta pt footer \<lparr>tbl_options = opt, tbl_file = file,
                      tbl_cache_id = (if opt_block_cache opt then new_id else 0), tbl_filter = None,
                      tbl_metaindex_handle = ft_metaindex_handle footer,
                      tbl_index_block = Block_new (bc_data index_block_contents)\<rparr>))))"

type_synonym block_cache = "slice \<rightharpoonup> block"

record read_options =
  ro_verify_checksums :: bool
  ro_fill_cache :: bool

definition cache_key :: "table \<Rightarrow> BlockHandle \<Rightarrow> slice" where
  "cache_key t handle = EncodeFixed64 (tbl_cache_id t) @ EncodeFixed64 (bh_offset handle)"

text \<open>The block behind a handle, and the cache afterwards.\<close>

definition find_block :: "port \<Rightarrow> read_options \<Rightarrow> table \<Rightarrow> BlockHandle \<Rightarrow> block_cache \<Rightarrow> (ldb_error + block) \<times> block_cache" where
  "find_block pt ro t handle cache =
     (let fetch = ReadBlock pt (tbl_file t) (ro_verify_checksums ro) handle in
      if opt_block_cache (tbl_options t)
      then case cache (cache_key t handle) of
             Some block \<Rightarrow> (Inr block, cache)
           | None \<Rightarrow>
               (case fetch of Inl e \<Rightarrow> (Inl e, cache)
                | Inr contents \<Rightarrow>
                    let block = Block_new (bc_data contents)
                    in (Inr block, if bc_cachable contents \<and> ro_fill_cache ro then cache(cache_key t handle \<mapsto> block) else cache))
      else case fetch of Inl e \<Rightarrow> (Inl e, cache) | Inr contents \<Rightarrow> (Inr (Block_new (bc_data contents)), cache))"

definition BlockReader :: "port \<Rightarrow> read_options \<Rightarrow> table \<Rightarrow> slice \<Rightarrow> block_cache \<Rightarrow> any_iter \<times> block_cache" where
  "BlockReader pt ro t index_value cache =
     (case BlockHandle_DecodeFrom index_value of Inl e \<Rightarrow> (EmptyIterator (Some e), cache)
      | Inr (handle, _) \<Rightarrow>
          (case find_block pt ro t handle cache of
             (Inl e, cache) \<Rightarrow> (EmptyIterator (Some e), cache)
           | (Inr block, cache) \<Rightarrow> (Block_NewIterator block, cache)))"

text \<open>Whether the filter of the table excludes the key from the block.\<close>

definition filter_excludes :: "table \<Rightarrow> slice \<Rightarrow> slice \<Rightarrow> bool" where
  "filter_excludes t handle_value k =
     (case (tbl_filter t, opt_filter_policy (tbl_options t), BlockHandle_DecodeFrom handle_value) of
        (Some fltr, Some p, Inr (handle, _)) \<Rightarrow> \<not> fr_KeyMayMatch (fp_KeyMayMatch p) (bh_offset handle) k fltr
      | _ \<Rightarrow> False)"

text \<open>The status, the entry handed to \<open>handle_result\<close>, and the cache.\<close>

definition InternalGet :: "port \<Rightarrow> read_options \<Rightarrow> table \<Rightarrow> slice \<Rightarrow> block_cache
    \<Rightarrow> ldb_error option \<times> (slice \<times> slice) option \<times> block_cache" where
  "InternalGet pt ro t k cache =
     (let compare = cmp_Compare (opt_comparator (tbl_options t));
          iiter = any_Seek compare k (Block_NewIterator (tbl_index_block t));
          (s, found, cache) =
            (case any_entry iiter of None \<Rightarrow> (None, None, cache)
             | Some (_, handle_value) \<Rightarrow>
                 if filter_excludes t handle_value k then (None, None, cache)
                 else case BlockReader pt ro t handle_value cache of (block_iter, cache) \<Rightarrow>
                   let block_iter = any_Seek compare k block_iter
                   in (any_status block_iter, any_entry block_iter, cache))
      in (if s = None then any_status iiter else s, found, cache))"

definition ApproximateOffsetOf :: "table \<Rightarrow> slice \<Rightarrow> 64 word" where
  "ApproximateOffsetOf t key =
     (case any_entry (any_Seek (cmp_Compare (opt_comparator (tbl_options t))) key (Block_NewIterator (tbl_index_block t))) of
        Some (_, v) \<Rightarrow> (case BlockHandle_DecodeFrom v of Inr (handle, _) \<Rightarrow> bh_offset handle | Inl _ \<Rightarrow> bh_offset (tbl_metaindex_handle t))
      | None \<Rightarrow> bh_offset (tbl_metaindex_handle t))"

end
