(* ===== verification/Ldb_Edit.thy ===== *)
theory Ldb_Edit
  imports Ldb_Table "HOL-Library.Product_Lexorder"
begin

text \<open>
  Version edits (\<open>src/leveldb/db/version_edit.h\<close> and \<open>version_edit.cc\<close>): the records of the
  manifest, which say what a change of the set of table files adds, removes and sets.  A
  \<open>std::set\<close> is the list of its elements in order; an \<open>InternalKey\<close> is its bytes.
\<close>

section \<open>Edits\<close>

definition kNumLevels :: nat where "kNumLevels = 7"

record FileMetaData =
  fm_refs :: int
  fm_allowed_seeks :: int
  fm_number :: "64 word"
  fm_file_size :: "64 word"
  fm_smallest :: slice
  fm_largest :: slice

text \<open>The constructor leaves \<open>number\<close> unset; every use assigns it.\<close>

definition FileMetaData_new :: "64 word \<Rightarrow> 64 word \<Rightarrow> slice \<Rightarrow> slice \<Rightarrow> FileMetaData" where
  "FileMetaData_new number file_size smallest largest =
     \<lparr>fm_refs = 0, fm_allowed_seeks = 2 ^ 30, fm_number = number, fm_file_size = file_size, fm_smallest = smallest, fm_largest = largest\<rparr>"

record VersionEdit =
  ve_comparator :: slice
  ve_log_number :: "64 word"
  ve_prev_log_number :: "64 word"
  ve_next_file_number :: "64 word"
  ve_last_sequence :: "64 word"
  ve_has_comparator :: bool
  ve_has_log_number :: bool
  ve_has_prev_log_number :: bool
  ve_has_next_file_number :: bool
  ve_has_last_sequence :: bool
  ve_compact_pointers :: "(nat \<times> slice) list"
  ve_deleted_files :: "(nat \<times> 64 word) list"
  ve_new_files :: "(nat \<times> FileMetaData) list"

definition ve_Clear :: VersionEdit where
  "ve_Clear = \<lparr>ve_comparator = [], ve_log_number = 0, ve_prev_log_number = 0, ve_next_file_number = 0, ve_last_sequence = 0,
     ve_has_comparator = False, ve_has_log_number = False, ve_has_prev_log_number = False, ve_has_next_file_number = False,
     ve_has_last_sequence = False, ve_compact_pointers = [], ve_deleted_files = [], ve_new_files = []\<rparr>"

definition SetComparatorName :: "slice \<Rightarrow> VersionEdit \<Rightarrow> VersionEdit" where
  "SetComparatorName name e = e\<lparr>ve_has_comparator := True, ve_comparator := name\<rparr>"

definition SetLogNumber :: "64 word \<Rightarrow> VersionEdit \<Rightarrow> VersionEdit" where
  "SetLogNumber num e = e\<lparr>ve_has_log_number := True, ve_log_number := num\<rparr>"

definition SetPrevLogNumber :: "64 word \<Rightarrow> VersionEdit \<Rightarrow> VersionEdit" where
  "SetPrevLogNumber num e = e\<lparr>ve_has_prev_log_number := True, ve_prev_log_number := num\<rparr>"

definition SetNextFile :: "64 word \<Rightarrow> VersionEdit \<Rightarrow> VersionEdit" where
  "SetNextFile num e = e\<lparr>ve_has_next_file_number := True, ve_next_file_number := num\<rparr>"

definition SetLastSequence :: "64 word \<Rightarrow> VersionEdit \<Rightarrow> VersionEdit" where
  "SetLastSequence s e = e\<lparr>ve_has_last_sequence := True, ve_last_sequence := s\<rparr>"

definition SetCompactPointer :: "nat \<Rightarrow> slice \<Rightarrow> VersionEdit \<Rightarrow> VersionEdit" where
  "SetCompactPointer level key e = e\<lparr>ve_compact_pointers := ve_compact_pointers e @ [(level, key)]\<rparr>"

definition AddFile :: "nat \<Rightarrow> 64 word \<Rightarrow> 64 word \<Rightarrow> slice \<Rightarrow> slice \<Rightarrow> VersionEdit \<Rightarrow> VersionEdit" where
  "AddFile level file_number file_size smallest largest e =
     e\<lparr>ve_new_files := ve_new_files e @ [(level, FileMetaData_new file_number file_size smallest largest)]\<rparr>"

definition RemoveFile :: "nat \<Rightarrow> 64 word \<Rightarrow> VersionEdit \<Rightarrow> VersionEdit" where
  "RemoveFile level file_number e = e\<lparr>ve_deleted_files := insort_insert (level, file_number) (ve_deleted_files e)\<rparr>"

section \<open>Encoding\<close>

definition kComparator :: "32 word" where "kComparator = 1"
definition kLogNumber :: "32 word" where "kLogNumber = 2"
definition kNextFileNumber :: "32 word" where "kNextFileNumber = 3"
definition kLastSequence :: "32 word" where "kLastSequence = 4"
definition kCompactPointer :: "32 word" where "kCompactPointer = 5"
definition kDeletedFile :: "32 word" where "kDeletedFile = 6"
definition kNewFile :: "32 word" where "kNewFile = 7"
definition kPrevLogNumber :: "32 word" where "kPrevLogNumber = 9"

definition put_number :: "32 word \<Rightarrow> 64 word \<Rightarrow> slice \<Rightarrow> slice" where
  "put_number tag v dst = PutVarint64 (PutVarint32 dst tag) v"

definition put_compact_pointer :: "nat \<times> slice \<Rightarrow> slice \<Rightarrow> slice" where
  "put_compact_pointer p dst =
     PutLengthPrefixedSlice (PutVarint32 (PutVarint32 dst kCompactPointer) (word_of_nat (fst p))) (snd p)"

definition put_deleted_file :: "nat \<times> 64 word \<Rightarrow> slice \<Rightarrow> slice" where
  "put_deleted_file p dst = PutVarint64 (PutVarint32 (PutVarint32 dst kDeletedFile) (word_of_nat (fst p))) (snd p)"

definition put_new_file :: "nat \<times> FileMetaData \<Rightarrow> slice \<Rightarrow> slice" where
  "put_new_file p dst =
     (let f = snd p;
          dst = PutVarint32 (PutVarint32 dst kNewFile) (word_of_nat (fst p));
          dst = PutVarint64 (PutVarint64 dst (fm_number f)) (fm_file_size f)
      in PutLengthPrefixedSlice (PutLengthPrefixedSlice dst (fm_smallest f)) (fm_largest f))"

definition VersionEdit_EncodeTo :: "VersionEdit \<Rightarrow> slice \<Rightarrow> slice" where
  "VersionEdit_EncodeTo e dst =
     (let dst = (if ve_has_comparator e then PutLengthPrefixedSlice (PutVarint32 dst kComparator) (ve_comparator e) else dst);
          dst = (if ve_has_log_number e then put_number kLogNumber (ve_log_number e) dst else dst);
          dst = (if ve_has_prev_log_number e then put_number kPrevLogNumber (ve_prev_log_number e) dst else dst);
          dst = (if ve_has_next_file_number e then put_number kNextFileNumber (ve_next_file_number e) dst else dst);
          dst = (if ve_has_last_sequence e then put_number kLastSequence (ve_last_sequence e) dst else dst);
          dst = fold put_compact_pointer (ve_compact_pointers e) dst;
          dst = fold put_deleted_file (ve_deleted_files e) dst
      in fold put_new_file (ve_new_files e) dst)"

section \<open>Decoding\<close>

definition GetInternalKey :: "slice \<Rightarrow> (slice \<times> slice) option" where
  "GetInternalKey input =
     (case GetLengthPrefixedSlice input of
        Some (str, input) \<Rightarrow> if str \<noteq> [] then Some (str, input) else None
      | None \<Rightarrow> None)"

definition GetLevel :: "slice \<Rightarrow> (nat \<times> slice) option" where
  "GetLevel input =
     (case GetVarint32 input of
        Some (v, input) \<Rightarrow> if v < word_of_nat kNumLevels then Some (unat v, input) else None
      | None \<Rightarrow> None)"

text \<open>A number field: the edit with the number, or the message.\<close>

definition get_number :: "string \<Rightarrow> (64 word \<Rightarrow> VersionEdit) \<Rightarrow> slice \<Rightarrow> string + VersionEdit \<times> slice" where
  "get_number msg set_field input = (case GetVarint64 input of Some (v, input) \<Rightarrow> Inr (set_field v, input) | None \<Rightarrow> Inl msg)"

definition get_new_file :: "VersionEdit \<Rightarrow> slice \<Rightarrow> string + VersionEdit \<times> slice" where
  "get_new_file e input =
     (case Option.bind (GetLevel input) (\<lambda>(level, input).
           Option.bind (GetVarint64 input) (\<lambda>(number, input).
           Option.bind (GetVarint64 input) (\<lambda>(file_size, input).
           Option.bind (GetInternalKey input) (\<lambda>(smallest, input).
           map_option (\<lambda>(largest, input). (AddFile level number file_size smallest largest e, input)) (GetInternalKey input))))) of
        Some r \<Rightarrow> Inr r
      | None \<Rightarrow> Inl ''new-file entry'')"

text \<open>The body of the switch, on the input after the tag.\<close>

definition decode_field :: "32 word \<Rightarrow> VersionEdit \<Rightarrow> slice \<Rightarrow> string + VersionEdit \<times> slice" where
  "decode_field tag e input =
     (if tag = kComparator
      then case GetLengthPrefixedSlice input of Some (str, input) \<Rightarrow> Inr (SetComparatorName str e, input) | None \<Rightarrow> Inl ''comparator name''
      else if tag = kLogNumber then get_number ''log number'' (\<lambda>v. SetLogNumber v e) input
      else if tag = kPrevLogNumber then get_number ''previous log number'' (\<lambda>v. SetPrevLogNumber v e) input
      else if tag = kNextFileNumber then get_number ''next file number'' (\<lambda>v. SetNextFile v e) input
      else if tag = kLastSequence then get_number ''last sequence number'' (\<lambda>v. SetLastSequence v e) input
      else if tag = kCompactPointer
      then case Option.bind (GetLevel input) (\<lambda>(level, input).
             map_option (\<lambda>(key, input). (SetCompactPointer level key e, input)) (GetInternalKey input)) of
             Some r \<Rightarrow> Inr r | None \<Rightarrow> Inl ''compaction pointer''
      else if tag = kDeletedFile
      then case Option.bind (GetLevel input) (\<lambda>(level, input).
             map_option (\<lambda>(number, input). (RemoveFile level number e, input)) (GetVarint64 input)) of
             Some r \<Rightarrow> Inr r | None \<Rightarrow> Inl ''deleted file''
      else if tag = kNewFile then get_new_file e input
      else Inl ''unknown tag'')"

lemma varint64_loop_shorter: "varint64_loop sh r p = Some (v, rest) \<Longrightarrow> length rest < length p"
  by (induction sh r p rule: varint64_loop.induct) (auto simp: Let_def less_SucI split: if_splits)

lemma GetVarint64_shorter: "GetVarint64 p = Some (v, rest) \<Longrightarrow> length rest < length p"
  by (auto simp: GetVarint64_def GetVarint64Ptr_def dest: varint64_loop_shorter)

lemma GetVarint32_shorter: "GetVarint32 p = Some (v, rest) \<Longrightarrow> length rest < length p"
  by (auto simp: GetVarint32_def GetVarint32Ptr_loop dest: varint32_loop_shorter)

lemma GetLevel_shorter: "GetLevel p = Some (v, rest) \<Longrightarrow> length rest < length p"
  by (auto simp: GetLevel_def dest: GetVarint32_shorter split: option.splits if_splits)

lemma GetInternalKey_shorter: "GetInternalKey p = Some (v, rest) \<Longrightarrow> length rest < length p"
  by (auto simp: GetInternalKey_def dest: GetLengthPrefixedSlice_shorter split: option.splits if_splits)

lemmas get_shorter = GetVarint32_shorter GetVarint64_shorter GetLevel_shorter GetInternalKey_shorter GetLengthPrefixedSlice_shorter

lemma get_number_shorter: "get_number msg f p = Inr (e, rest) \<Longrightarrow> length rest < length p"
  by (auto simp: get_number_def dest: get_shorter split: option.splits)

lemma get_new_file_shorter: "get_new_file e p = Inr (e', rest) \<Longrightarrow> length rest < length p"
  by (force simp: get_new_file_def bind_eq_Some_conv dest: get_shorter split: option.splits prod.splits)

lemma decode_field_shorter: "decode_field tag e p = Inr (e', rest) \<Longrightarrow> length rest < length p"
  by (force simp: decode_field_def bind_eq_Some_conv dest: get_shorter get_number_shorter get_new_file_shorter
      split: option.splits prod.splits if_splits)

text \<open>The loop: the message of the failure, if any, and the edit as far as it was read.\<close>

function decode_fields :: "VersionEdit \<Rightarrow> slice \<Rightarrow> string option \<times> VersionEdit" where
  "decode_fields e input =
     (case GetVarint32 input of
        None \<Rightarrow> (if input \<noteq> [] then Some ''invalid tag'' else None, e)
      | Some (tag, input) \<Rightarrow>
          (case decode_field tag e input of
             Inl msg \<Rightarrow> (Some msg, e)
           | Inr (e, input) \<Rightarrow> decode_fields e input))"
  by pat_completeness auto
termination
  by (relation "measure (\<lambda>(e, input). length input)")
     (auto dest!: GetVarint32_shorter decode_field_shorter)

declare decode_fields.simps [simp del]

text \<open>\<open>DecodeFrom\<close> clears the edit first.\<close>

definition VersionEdit_DecodeFrom :: "slice \<Rightarrow> ldb_error option \<times> VersionEdit" where
  "VersionEdit_DecodeFrom src =
     (let (msg, e) = decode_fields ve_Clear src in (map_option (\<lambda>m. kCorruption (''VersionEdit: '' @ m)) msg, e))"

section \<open>An edit survives the manifest\<close>

text \<open>The calls that build an edit, and the arguments the encoding has room for.\<close>

datatype edit_call = Set_Comparator slice | Set_Log "64 word" | Set_Prev_Log "64 word" | Set_Next_File "64 word"
  | Set_Last_Sequence "64 word" | Set_Compact_Pointer nat slice | Add_File nat "64 word" "64 word" slice slice
  | Remove_File nat "64 word"

fun edit_step :: "edit_call \<Rightarrow> VersionEdit \<Rightarrow> VersionEdit" where
  "edit_step (Set_Comparator n) = SetComparatorName n"
| "edit_step (Set_Log n) = SetLogNumber n"
| "edit_step (Set_Prev_Log n) = SetPrevLogNumber n"
| "edit_step (Set_Next_File n) = SetNextFile n"
| "edit_step (Set_Last_Sequence n) = SetLastSequence n"
| "edit_step (Set_Compact_Pointer l k) = SetCompactPointer l k"
| "edit_step (Add_File l n sz a b) = AddFile l n sz a b"
| "edit_step (Remove_File l n) = RemoveFile l n"

definition key_fits :: "slice \<Rightarrow> bool" where
  "key_fits k \<longleftrightarrow> k \<noteq> [] \<and> length k < 2 ^ 32"

fun call_fits :: "edit_call \<Rightarrow> bool" where
  "call_fits (Set_Comparator n) \<longleftrightarrow> length n < 2 ^ 32"
| "call_fits (Set_Compact_Pointer l k) \<longleftrightarrow> l < kNumLevels \<and> key_fits k"
| "call_fits (Add_File l n sz a b) \<longleftrightarrow> l < kNumLevels \<and> key_fits a \<and> key_fits b"
| "call_fits (Remove_File l n) \<longleftrightarrow> l < kNumLevels"
| "call_fits _ \<longleftrightarrow> True"

definition file_fits :: "nat \<times> FileMetaData \<Rightarrow> bool" where
  "file_fits p \<longleftrightarrow> fst p < kNumLevels \<and> fm_refs (snd p) = 0 \<and> fm_allowed_seeks (snd p) = 2 ^ 30 \<and>
     key_fits (fm_smallest (snd p)) \<and> key_fits (fm_largest (snd p))"

text \<open>What the calls keep of an edit.\<close>

definition edit_ok :: "VersionEdit \<Rightarrow> bool" where
  "edit_ok e \<longleftrightarrow> (if ve_has_comparator e then length (ve_comparator e) < 2 ^ 32 else ve_comparator e = []) \<and>
     (ve_has_log_number e \<or> ve_log_number e = 0) \<and> (ve_has_prev_log_number e \<or> ve_prev_log_number e = 0) \<and>
     (ve_has_next_file_number e \<or> ve_next_file_number e = 0) \<and> (ve_has_last_sequence e \<or> ve_last_sequence e = 0) \<and>
     (\<forall>p \<in> set (ve_compact_pointers e). fst p < kNumLevels \<and> key_fits (snd p)) \<and>
     (\<forall>p \<in> set (ve_deleted_files e). fst p < kNumLevels) \<and>
     sorted (ve_deleted_files e) \<and> distinct (ve_deleted_files e) \<and>
     (\<forall>p \<in> set (ve_new_files e). file_fits p)"

lemma edit_ok_Clear: "edit_ok ve_Clear"
  by (simp add: edit_ok_def ve_Clear_def)

lemma edit_ok_step: "edit_ok e \<Longrightarrow> call_fits c \<Longrightarrow> edit_ok (edit_step c e)"
  by (cases c) (auto simp: edit_ok_def SetComparatorName_def SetLogNumber_def SetPrevLogNumber_def SetNextFile_def
      SetLastSequence_def SetCompactPointer_def AddFile_def RemoveFile_def FileMetaData_new_def file_fits_def
      set_insort_insert sorted_insort_insert distinct_insort_insert)

lemma edit_ok_fold: "edit_ok e \<Longrightarrow> \<forall>c \<in> set cs. call_fits c \<Longrightarrow> edit_ok (fold edit_step cs e)"
  by (induction cs arbitrary: e) (auto intro: edit_ok_step)

lemma decode_tag: "decode_fields e (EncodeVarint32 tag @ p) = (case decode_field tag e p of Inl msg \<Rightarrow> (Some msg, e) | Inr (e', rest) \<Rightarrow> decode_fields e' rest)"
  by (subst decode_fields.simps) simp

lemma GetLevel_Encode [simp]: "l < kNumLevels \<Longrightarrow> GetLevel (EncodeVarint32 (word_of_nat l) @ p) = Some (l, p)"
  by (auto simp: GetLevel_def kNumLevels_def word_less_nat_alt unat_of_nat take_bit_nat_eq_self)

lemma GetInternalKey_Put [simp]: "key_fits k \<Longrightarrow> GetInternalKey (PutLengthPrefixedSlice [] k @ p) = Some (k, p)"
  by (auto simp: GetInternalKey_def key_fits_def)

text \<open>Every field is appended to the output, and read back by one turn of the loop.\<close>

lemmas put_defs = put_number_def put_compact_pointer_def put_deleted_file_def put_new_file_def PutVarint32_def PutVarint64_def Let_def
lemmas tag_defs = kComparator_def kLogNumber_def kNextFileNumber_def kLastSequence_def kCompactPointer_def kDeletedFile_def
  kNewFile_def kPrevLogNumber_def

lemma put_append:
  "put_number tag v dst = dst @ put_number tag v []"
  "put_compact_pointer p dst = dst @ put_compact_pointer p []"
  "put_deleted_file d dst = dst @ put_deleted_file d []"
  "put_new_file f dst = dst @ put_new_file f []"
  by (simp_all add: put_defs PutLengthPrefixedSlice_def)

lemma fold_put: "(\<And>x dst. f x dst = dst @ f x []) \<Longrightarrow> fold f xs dst = dst @ concat (map (\<lambda>x. f x []) xs)"
proof (induction xs arbitrary: dst)
  case Nil
  show ?case by simp
next
  case (Cons x xs)
  show ?case using Cons.IH [OF Cons.prems, of "f x dst"] arg_cong [OF Cons.prems [of x dst], of "\<lambda>y. y @ concat (map (\<lambda>x. f x []) xs)"]
    by simp
qed

lemma decode_numbers:
  "decode_fields e (put_number kLogNumber v [] @ p) = decode_fields (SetLogNumber v e) p"
  "decode_fields e (put_number kPrevLogNumber v [] @ p) = decode_fields (SetPrevLogNumber v e) p"
  "decode_fields e (put_number kNextFileNumber v [] @ p) = decode_fields (SetNextFile v e) p"
  "decode_fields e (put_number kLastSequence v [] @ p) = decode_fields (SetLastSequence v e) p"
  by (simp_all add: put_defs decode_tag decode_field_def tag_defs get_number_def)

lemma decode_comparator:
  "length c < 2 ^ 32 \<Longrightarrow>
   decode_fields e (PutLengthPrefixedSlice (PutVarint32 [] kComparator) c @ p) = decode_fields (SetComparatorName c e) p"
  by (subst PutLengthPrefixedSlice_append) (simp add: PutVarint32_def decode_tag decode_field_def)

lemma decode_compact_pointer:
  "fst q < kNumLevels \<Longrightarrow> key_fits (snd q) \<Longrightarrow>
   decode_fields e (put_compact_pointer q [] @ p) = decode_fields (SetCompactPointer (fst q) (snd q) e) p"
  by (simp add: put_compact_pointer_def, subst PutLengthPrefixedSlice_append)
     (simp add: put_defs decode_tag decode_field_def tag_defs)

lemma decode_deleted_file:
  "fst q < kNumLevels \<Longrightarrow> decode_fields e (put_deleted_file q [] @ p) = decode_fields (RemoveFile (fst q) (snd q) e) p"
  by (simp add: put_defs decode_tag decode_field_def tag_defs)

lemma put_two_slices: "PutLengthPrefixedSlice (PutLengthPrefixedSlice dst a) b = dst @ PutLengthPrefixedSlice [] a @ PutLengthPrefixedSlice [] b"
  by (simp add: PutLengthPrefixedSlice_def PutVarint32_def)

lemma decode_new_file:
  "file_fits q \<Longrightarrow> decode_fields e (put_new_file q [] @ p) = decode_fields (e\<lparr>ve_new_files := ve_new_files e @ [q]\<rparr>) p"
  by (cases q, cases "snd q") (simp add: put_new_file_def put_two_slices PutVarint32_def PutVarint64_def decode_tag decode_field_def
      tag_defs get_new_file_def file_fits_def AddFile_def FileMetaData_new_def)

lemma decode_optional:
  "(b \<Longrightarrow> decode_fields e (x @ p) = decode_fields (f e) p) \<Longrightarrow>
   decode_fields e ((if b then x else []) @ p) = decode_fields (if b then f e else e) p"
  by simp

lemma decode_compact_pointers:
  "\<forall>q \<in> set qs. fst q < kNumLevels \<and> key_fits (snd q) \<Longrightarrow>
   decode_fields e (concat (map (\<lambda>q. put_compact_pointer q []) qs) @ p) =
   decode_fields (e\<lparr>ve_compact_pointers := ve_compact_pointers e @ qs\<rparr>) p"
  by (induction qs arbitrary: e) (auto simp: decode_compact_pointer SetCompactPointer_def)

lemma decode_new_files:
  "\<forall>q \<in> set qs. file_fits q \<Longrightarrow>
   decode_fields e (concat (map (\<lambda>q. put_new_file q []) qs) @ p) = decode_fields (e\<lparr>ve_new_files := ve_new_files e @ qs\<rparr>) p"
  by (induction qs arbitrary: e) (auto simp: decode_new_file)

lemma insort_insert_last: "\<forall>y \<in> set xs. y < x \<Longrightarrow> insort_insert x xs = xs @ [x]" for x :: "'a::linorder"
  by (induction xs) (auto simp: insort_insert_key_def)

lemma decode_deleted_files:
  "\<forall>q \<in> set qs. fst q < kNumLevels \<Longrightarrow> sorted (ve_deleted_files e @ qs) \<Longrightarrow> distinct (ve_deleted_files e @ qs) \<Longrightarrow>
   decode_fields e (concat (map (\<lambda>q. put_deleted_file q []) qs) @ p) =
   decode_fields (e\<lparr>ve_deleted_files := ve_deleted_files e @ qs\<rparr>) p"
proof (induction qs arbitrary: e)
  case (Cons q qs)
  have "RemoveFile (fst q) (snd q) e = e\<lparr>ve_deleted_files := ve_deleted_files e @ [q]\<rparr>"
    using Cons.prems by (auto simp: RemoveFile_def sorted_append order.strict_iff_order intro!: arg_cong [where f = "\<lambda>d. e\<lparr>ve_deleted_files := d\<rparr>"] insort_insert_last)
  then show ?case
    using Cons.prems Cons.IH [of "e\<lparr>ve_deleted_files := ve_deleted_files e @ [q]\<rparr>"] by (simp add: decode_deleted_file)
qed simp

lemma DecodeFrom_EncodeTo:
  assumes "edit_ok e"
  shows "VersionEdit_DecodeFrom (VersionEdit_EncodeTo e []) = (None, e)"
proof -
  have enc: "VersionEdit_EncodeTo e [] =
      (if ve_has_comparator e then PutLengthPrefixedSlice (PutVarint32 [] kComparator) (ve_comparator e) else []) @
      (if ve_has_log_number e then put_number kLogNumber (ve_log_number e) [] else []) @
      (if ve_has_prev_log_number e then put_number kPrevLogNumber (ve_prev_log_number e) [] else []) @
      (if ve_has_next_file_number e then put_number kNextFileNumber (ve_next_file_number e) [] else []) @
      (if ve_has_last_sequence e then put_number kLastSequence (ve_last_sequence e) [] else []) @
      concat (map (\<lambda>q. put_compact_pointer q []) (ve_compact_pointers e)) @
      concat (map (\<lambda>q. put_deleted_file q []) (ve_deleted_files e)) @
      concat (map (\<lambda>q. put_new_file q []) (ve_new_files e)) @ []"
    unfolding VersionEdit_EncodeTo_def Let_def
    by (simp add: fold_put [OF put_append(2)] fold_put [OF put_append(3)] fold_put [OF put_append(4)] put_append(1) [of _ _ "_ @ _"]
        put_append(1) [of _ _ "PutLengthPrefixedSlice _ _"] put_append(1) [of _ _ "put_number _ _ _"])
  have stop: "decode_fields e' [] = (None, e')" for e'
    by (subst decode_fields.simps) (simp add: GetVarint32_def GetVarint32Ptr_loop)
  have parts: "length (ve_comparator e) < 2 ^ 32"
    "\<forall>q \<in> set (ve_compact_pointers e). fst q < kNumLevels \<and> key_fits (snd q)" "\<forall>q \<in> set (ve_deleted_files e). fst q < kNumLevels"
    "sorted (ve_deleted_files e)" "distinct (ve_deleted_files e)" "\<forall>q \<in> set (ve_new_files e). file_fits q"
    using assms by (auto simp: edit_ok_def split: if_splits)
  let ?s = "\<lambda>b f e. if b then f e else e"
  let ?e5 = "?s (ve_has_last_sequence e) (SetLastSequence (ve_last_sequence e))
      (?s (ve_has_next_file_number e) (SetNextFile (ve_next_file_number e))
      (?s (ve_has_prev_log_number e) (SetPrevLogNumber (ve_prev_log_number e))
      (?s (ve_has_log_number e) (SetLogNumber (ve_log_number e))
      (?s (ve_has_comparator e) (SetComparatorName (ve_comparator e)) ve_Clear))))"
  have five: "?e5 = e\<lparr>ve_compact_pointers := [], ve_deleted_files := [], ve_new_files := []\<rparr>"
    using assms by (cases e) (auto simp: edit_ok_def ve_Clear_def SetComparatorName_def SetLogNumber_def SetPrevLogNumber_def
        SetNextFile_def SetLastSequence_def)
  have "decode_fields ve_Clear (VersionEdit_EncodeTo e []) =
      decode_fields ?e5 (concat (map (\<lambda>q. put_compact_pointer q []) (ve_compact_pointers e)) @
      concat (map (\<lambda>q. put_deleted_file q []) (ve_deleted_files e)) @ concat (map (\<lambda>q. put_new_file q []) (ve_new_files e)) @ [])"
    unfolding enc
    by (simp only: decode_optional [where f = "SetComparatorName (ve_comparator e)", OF decode_comparator [OF parts(1)]] decode_optional [where f = "SetLogNumber (ve_log_number e)", OF decode_numbers(1)]
        decode_optional [where f = "SetPrevLogNumber (ve_prev_log_number e)", OF decode_numbers(2)] decode_optional [where f = "SetNextFile (ve_next_file_number e)", OF decode_numbers(3)] decode_optional [where f = "SetLastSequence (ve_last_sequence e)", OF decode_numbers(4)])
  also have "\<dots> = (None, e)"
    unfolding five using parts
    by (simp add: decode_compact_pointers decode_deleted_files decode_new_files [where p = "[]", simplified] stop)
  finally have "decode_fields ve_Clear (VersionEdit_EncodeTo e []) = (None, e)" .
  then show ?thesis by (simp add: VersionEdit_DecodeFrom_def)
qed

text \<open>Whatever bytes are read, a turn of the loop makes one of the calls, with arguments that fit.\<close>

lemma GetLength_fits: "GetLengthPrefixedSlice p = Some (x, rest) \<Longrightarrow> length x < 2 ^ 32"
  using unat_range [where 'a = 32] by (auto simp: GetLengthPrefixedSlice_def min_def split: option.splits if_splits)

lemma GetInternalKey_fits: "GetInternalKey p = Some (x, rest) \<Longrightarrow> key_fits x"
  by (auto simp: GetInternalKey_def key_fits_def dest: GetLength_fits split: option.splits if_splits)

lemma GetLevel_fits: "GetLevel p = Some (l, rest) \<Longrightarrow> l < kNumLevels"
  by (auto simp: GetLevel_def kNumLevels_def word_less_nat_alt split: option.splits if_splits)

definition by_call :: "VersionEdit \<Rightarrow> VersionEdit \<Rightarrow> bool" where
  "by_call e e' \<longleftrightarrow> (\<exists>c. call_fits c \<and> e' = edit_step c e)"

lemma by_call_intros [intro]:
  "length n < 2 ^ 32 \<Longrightarrow> by_call e (SetComparatorName n e)"
  "by_call e (SetLogNumber v e)" "by_call e (SetPrevLogNumber v e)" "by_call e (SetNextFile v e)" "by_call e (SetLastSequence v e)"
  "l < kNumLevels \<Longrightarrow> key_fits k \<Longrightarrow> by_call e (SetCompactPointer l k e)"
  "l < kNumLevels \<Longrightarrow> by_call e (RemoveFile l v e)"
  "l < kNumLevels \<Longrightarrow> key_fits a \<Longrightarrow> key_fits b \<Longrightarrow> by_call e (AddFile l v sz a b e)"
  using call_fits.simps edit_step.simps unfolding by_call_def by metis+

lemma get_new_file_call: "get_new_file e p = Inr (e', rest) \<Longrightarrow> by_call e e'"
  by (auto simp: get_new_file_def bind_eq_Some_conv dest!: GetLevel_fits GetInternalKey_fits split: option.splits)

lemma get_number_call: "get_number msg f p = Inr (e', rest) \<Longrightarrow> (\<And>v. by_call e (f v)) \<Longrightarrow> by_call e e'"
  by (auto simp: get_number_def split: option.splits)

lemma decode_field_call:
  assumes d: "decode_field tag e p = Inr (e', rest)"
  shows "by_call e e'"
proof -
  consider "tag = kComparator" | "tag = kCompactPointer" | "tag = kDeletedFile" | "tag = kNewFile"
    | "tag \<in> {kLogNumber, kPrevLogNumber, kNextFileNumber, kLastSequence}"
    using d by (auto simp: decode_field_def split: if_splits)
  then show ?thesis
  proof cases
    case 1
    then show ?thesis using d by (auto simp: decode_field_def dest!: GetLength_fits split: option.splits)
  next
    case 2
    then show ?thesis using d
      by (auto simp: decode_field_def tag_defs bind_eq_Some_conv dest!: GetLevel_fits GetInternalKey_fits split: option.splits)
  next
    case 3
    then show ?thesis using d
      by (auto simp: decode_field_def tag_defs bind_eq_Some_conv dest!: GetLevel_fits split: option.splits)
  next
    case 4
    then show ?thesis using d get_new_file_call [of e p e' rest] by (simp add: decode_field_def tag_defs)
  next
    case 5
    then show ?thesis using d by (auto simp: decode_field_def tag_defs elim!: get_number_call)
  qed
qed

lemma decode_field_ok: "decode_field tag e p = Inr (e', rest) \<Longrightarrow> edit_ok e \<Longrightarrow> edit_ok e'"
  using decode_field_call [of tag e p e' rest] by (auto simp: by_call_def intro: edit_ok_step)

lemma decode_fields_ok: "edit_ok e \<Longrightarrow> edit_ok (snd (decode_fields e p))"
proof (induction e p rule: decode_fields.induct)
  case (1 e p)
  show ?case
  proof (cases "GetVarint32 p")
    case None
    then show ?thesis using 1 by (subst decode_fields.simps) simp
  next
    case (Some q)
    then show ?thesis using 1 decode_field_ok [of "fst q" e "snd q"]
      by (subst decode_fields.simps) (auto split: sum.splits prod.splits)
  qed
qed

section \<open>Properties\<close>

text \<open>C34. An edit survives the manifest: built by any calls whose levels exist and whose keys and names the encoding has
  room for, it is read back from its encoding with no error, every field and every file as it was.\<close>

theorem edit_roundtrip:
  assumes "\<forall>c \<in> set calls. call_fits c"
  shows "VersionEdit_DecodeFrom (VersionEdit_EncodeTo (fold edit_step calls ve_Clear) []) = (None, fold edit_step calls ve_Clear)"
  by (rule DecodeFrom_EncodeTo [OF edit_ok_fold [OF edit_ok_Clear assms]])

theorem edit_roundtrip_witness:
  "VersionEdit_DecodeFrom (VersionEdit_EncodeTo (fold edit_step [Set_Log 7, Remove_File 2 5, Remove_File 1 9, Add_File 1 12 4096 [1] [2]] ve_Clear) []) =
     (None, fold edit_step [Set_Log 7, Remove_File 2 5, Remove_File 1 9, Add_File 1 12 4096 [1] [2]] ve_Clear)"
  by (rule edit_roundtrip) (simp add: kNumLevels_def key_fits_def)

text \<open>C35. Whatever bytes a manifest record holds, also when the decoder reports corruption, the edit it leaves is well
  formed: every level is an index of the level arrays, no key is empty, the deleted files are in order without
  repetition, and the fields that were not read are as \<open>Clear\<close> left them.\<close>

theorem decoded_edit_ok: "edit_ok (snd (VersionEdit_DecodeFrom src))"
  using decode_fields_ok [OF edit_ok_Clear, of src] by (auto simp: VersionEdit_DecodeFrom_def split: prod.splits)

end
