(* ===== verification/Ldb_Sst.thy ===== *)
theory Ldb_Sst
  imports Ldb_Table
begin

text \<open>
  What a finished table file contains and that a lookup in it finds every entry: the layout the
  builder of \<open>Ldb_Table\<close> produces as blocks of entries and an index over them, reading each part
  back, and the lookup through index, filter and block cache.
\<close>

section \<open>Handles, footers and stored blocks\<close>

lemma handle_append: "BlockHandle_EncodeTo dst h = dst @ BlockHandle_EncodeTo [] h"
  by (simp add: BlockHandle_EncodeTo_def PutVarint64_def)

lemma handle_roundtrip: "BlockHandle_DecodeFrom (BlockHandle_EncodeTo [] h @ s) = Inr (h, s)"
  by (simp add: BlockHandle_DecodeFrom_def BlockHandle_EncodeTo_def PutVarint64_def)

lemma handle_length: "length (BlockHandle_EncodeTo [] h) \<le> 20"
proof -
  have "length (EncodeVarint64 w) \<le> 10" for w
    using length_EncodeVarint64 [of w 10] unat_range [of w] by simp
  from this [of "bh_offset h"] this [of "bh_size h"] show ?thesis by (simp add: BlockHandle_EncodeTo_def PutVarint64_def)
qed

lemma footer_parts: "\<exists>pad. Footer_EncodeTo [] f = BlockHandle_EncodeTo [] (ft_metaindex_handle f) @ BlockHandle_EncodeTo [] (ft_index_handle f) @ pad
    @ EncodeFixed32 0x8b80fb57 @ EncodeFixed32 0xdb477524
  \<and> length (BlockHandle_EncodeTo [] (ft_metaindex_handle f) @ BlockHandle_EncodeTo [] (ft_index_handle f) @ pad) = 40"
proof -
  let ?h = "BlockHandle_EncodeTo [] (ft_metaindex_handle f) @ BlockHandle_EncodeTo [] (ft_index_handle f)"
  have "length ?h \<le> 40" using handle_length [of "ft_metaindex_handle f"] handle_length [of "ft_index_handle f"] by simp
  then have "resize_bytes 40 ?h = ?h @ replicate (40 - length ?h) 0" "length (?h @ replicate (40 - length ?h) 0) = 40"
    by (simp_all add: resize_bytes_def)
  then show ?thesis
    by (intro exI [of _ "replicate (40 - length ?h) 0"])
      (simp add: Footer_EncodeTo_def Let_def kMaxEncodedLength_def handle_append [of "BlockHandle_EncodeTo [] _"] PutFixed32_def kTableMagicNumber_def)
qed

lemma footer_roundtrip: "Footer_DecodeFrom (Footer_EncodeTo [] f @ s) = Inr (f, s)" and footer_length: "length (Footer_EncodeTo [] f) = 48"
proof -
  define m i where "m = BlockHandle_EncodeTo [] (ft_metaindex_handle f)" and "i = BlockHandle_EncodeTo [] (ft_index_handle f)"
  obtain pad where pad: "Footer_EncodeTo [] f = (m @ i @ pad) @ EncodeFixed32 0x8b80fb57 @ EncodeFixed32 0xdb477524"
      and len: "length (m @ i @ pad) = 40"
    using footer_parts [of f] by (auto simp: m_def i_def)
  show l: "length (Footer_EncodeTo [] f) = 48" unfolding pad using len by simp
  have ptr: "drop 40 (Footer_EncodeTo [] f @ s) = EncodeFixed32 0x8b80fb57 @ EncodeFixed32 0xdb477524 @ s"
    unfolding pad using len by simp
  have d: "drop 4 (EncodeFixed32 0x8b80fb57 @ EncodeFixed32 0xdb477524 @ s) = EncodeFixed32 0xdb477524 @ s"
      "drop 8 (EncodeFixed32 0x8b80fb57 @ EncodeFixed32 0xdb477524 @ s) = s"
    by simp_all
  have magic: "push_bit 32 (ucast (0xdb477524 :: 32 word)) OR ucast (0x8b80fb57 :: 32 word) = kTableMagicNumber"
    by (simp add: kTableMagicNumber_def push_bit_eq_mult)
  have h1: "BlockHandle_DecodeFrom (Footer_EncodeTo [] f @ s) = Inr (ft_metaindex_handle f, i @ pad @ EncodeFixed32 0x8b80fb57 @ EncodeFixed32 0xdb477524 @ s)"
    unfolding pad by (simp add: m_def handle_roundtrip)
  show "Footer_DecodeFrom (Footer_EncodeTo [] f @ s) = Inr (f, s)"
    using l h1 handle_roundtrip [of "ft_index_handle f"] magic
    by (simp add: Footer_DecodeFrom_def kEncodedLength_def kMaxEncodedLength_def Let_def ptr d i_def del: drop_append)
qed

text \<open>The bytes of a stored block, and what is asked of the libraries behind \<open>port\<close> and of the file.\<close>

definition stored_bytes :: "port \<Rightarrow> slice \<Rightarrow> CompressionType \<Rightarrow> slice" where
  "stored_bytes pt c t = c @ compression_code t # EncodeFixed32 (Mask (crc_Extend pt (crc_Value (crc_Extend pt) c) [compression_code t]))"

definition block_bytes :: "port \<Rightarrow> table_options \<Rightarrow> slice \<Rightarrow> slice" where
  "block_bytes pt opt raw = (case compressed_form pt opt raw of (c, t) \<Rightarrow> stored_bytes pt c t)"

definition port_ok :: "port \<Rightarrow> bool" where
  "port_ok pt \<longleftrightarrow> crc_extends (crc_Extend pt)
     \<and> (\<forall>x y. Snappy_Compress pt x = Some y \<longrightarrow> Snappy_GetUncompressedLength pt y = Some (length x) \<and> Snappy_Uncompress pt y = Some x)
     \<and> (\<forall>level x y. Zstd_Compress pt level x = Some y \<longrightarrow> Zstd_GetUncompressedLength pt y = Some (length x) \<and> Zstd_Uncompress pt y = Some x)"

definition serves :: "random_file \<Rightarrow> slice \<Rightarrow> bool" where
  "serves file F \<longleftrightarrow> (\<forall>off n. unat off + n \<le> length F \<longrightarrow> (\<exists>b. file off n = Some (take n (drop (unat off) F), b)))"

lemma length_stored: "length (stored_bytes pt c t) = length c + 5"
  by (simp add: stored_bytes_def)

lemma ReadBlock_stored:
  assumes "port_ok pt" and "serves file (pre @ stored_bytes pt c t @ post)" and "length (pre @ stored_bytes pt c t @ post) < 2 ^ 32"
  defines "h \<equiv> \<lparr>bh_offset = word_of_nat (length pre), bh_size = word_of_nat (length c)\<rparr>"
  shows "\<exists>b. ReadBlock pt file verify h =
    (case t of kNoCompression \<Rightarrow> Inr \<lparr>bc_data = c, bc_cachable = b, bc_heap_allocated = b\<rparr>
     | kSnappyCompression \<Rightarrow> uncompressed ''snappy'' (Snappy_GetUncompressedLength pt) (Snappy_Uncompress pt) c
     | kZstdCompression \<Rightarrow> uncompressed ''zstd'' (Zstd_GetUncompressedLength pt) (Zstd_Uncompress pt) c)"
proof -
  let ?S = "stored_bytes pt c t"
  have small: "n < 2 ^ 32 \<Longrightarrow> unat (word_of_nat n :: 64 word) = n" for n :: nat
    by (simp add: unat_of_nat take_bit_nat_eq_self)
  have len: "length pre + (length c + 5) \<le> length (pre @ ?S @ post)" by (simp add: length_stored)
  have "unat (word_of_nat (length c) + kBlockTrailerSize :: 64 word) = unat (word_of_nat (length c + 5) :: 64 word)"
    by (simp add: kBlockTrailerSize_def)
  also have "\<dots> = length c + 5" using len assms(3) by (intro small) linarith
  finally have n5: "unat (word_of_nat (length c) + kBlockTrailerSize :: 64 word) = length c + 5" .
  have n: "unat (word_of_nat (length c) :: 64 word) = length c" "unat (word_of_nat (length pre) :: 64 word) = length pre"
    using len assms(3) by (simp_all add: small)
  obtain b where rd: "file (word_of_nat (length pre)) (length c + 5) = Some (take (length c + 5) (drop (length pre) (pre @ ?S @ post)), b)"
    using assms(2) len unfolding serves_def by (metis n(2))
  have data: "take (length c + 5) (drop (length pre) (pre @ ?S @ post)) = ?S" by (simp add: length_stored)
  have crc: "crc_Value (crc_Extend pt) (take (length c + 1) ?S) = Unmask (DecodeFixed32 (drop (length c + 1) ?S))"
  proof -
    have "take (length c + 1) ?S = c @ [compression_code t]" "drop (length c + 1) ?S = EncodeFixed32 (Mask (crc_Extend pt (crc_Value (crc_Extend pt) c) [compression_code t])) @ []"
      by (simp_all add: stored_bytes_def)
    then show ?thesis using assms(1) unfolding port_ok_def crc_extends_def
      by (simp only: DecodeFixed32_Encode Unmask_Mask crc_Value_def)
  qed
  have tb: "?S ! length c = compression_code t" "take (length c) ?S = c" by (simp_all add: stored_bytes_def nth_append)
  show ?thesis
    unfolding ReadBlock_def h_def using rd data crc tb
    by (intro exI [of _ b]) (cases t; simp add: Let_def n n5 length_stored)
qed

lemma ReadBlock_block:
  assumes "port_ok pt" and "serves file (pre @ block_bytes pt opt raw @ post)" and "length (pre @ block_bytes pt opt raw @ post) < 2 ^ 32"
    and "h = \<lparr>bh_offset = word_of_nat (length pre), bh_size = word_of_nat (length (fst (compressed_form pt opt raw)))\<rparr>"
  shows "\<exists>bc. ReadBlock pt file verify h = Inr bc \<and> bc_data bc = raw"
proof -
  obtain c t where ct: "compressed_form pt opt raw = (c, t)" by fastforce
  then have S: "block_bytes pt opt raw = stored_bytes pt c t" by (simp add: block_bytes_def)
  have form: "t = kNoCompression \<and> c = raw \<or> t = kSnappyCompression \<and> Snappy_Compress pt raw = Some c
      \<or> t = kZstdCompression \<and> (\<exists>level. Zstd_Compress pt level raw = Some c)"
    using ct unfolding compressed_form_def by (auto split: CompressionType.splits option.splits if_splits)
  obtain b where "ReadBlock pt file verify h =
    (case t of kNoCompression \<Rightarrow> Inr \<lparr>bc_data = c, bc_cachable = b, bc_heap_allocated = b\<rparr>
     | kSnappyCompression \<Rightarrow> uncompressed ''snappy'' (Snappy_GetUncompressedLength pt) (Snappy_Uncompress pt) c
     | kZstdCompression \<Rightarrow> uncompressed ''zstd'' (Zstd_GetUncompressedLength pt) (Zstd_Uncompress pt) c)"
    using ReadBlock_stored [OF assms(1) assms(2,3) [unfolded S]] assms(4) ct by auto
  then show ?thesis using form assms(1) by (auto simp: uncompressed_def port_ok_def)
qed

section \<open>What the builder has written\<close>

text \<open>A data block of the file, its offset and its handle, and the calls of the filter block.\<close>

definition seg_bytes :: "port \<Rightarrow> table_options \<Rightarrow> (slice \<times> slice) list \<Rightarrow> slice" where
  "seg_bytes pt opt es = block_bytes pt opt (block_data (opt_restart_interval opt) es)"

definition seg_off :: "port \<Rightarrow> table_options \<Rightarrow> (slice \<times> slice) list list \<Rightarrow> nat \<Rightarrow> nat" where
  "seg_off pt opt ess i = length (concat (map (seg_bytes pt opt) (take i ess)))"

definition seg_handle :: "port \<Rightarrow> table_options \<Rightarrow> (slice \<times> slice) list list \<Rightarrow> nat \<Rightarrow> BlockHandle" where
  "seg_handle pt opt ess i =
     \<lparr>bh_offset = word_of_nat (seg_off pt opt ess i),
      bh_size = word_of_nat (length (fst (compressed_form pt opt (block_data (opt_restart_interval opt) (ess ! i)))))\<rparr>"

definition filter_calls :: "port \<Rightarrow> table_options \<Rightarrow> (slice \<times> slice) list list \<Rightarrow> (slice \<times> slice) list \<Rightarrow> (64 word \<times> slice list) list" where
  "filter_calls pt opt ess cur = map (\<lambda>i. (word_of_nat (seg_off pt opt ess i), map fst ((ess @ [cur]) ! i))) [0..<Suc (length ess)]"

text \<open>The key of a block in the index, given the first key after the block.\<close>

definition index_key_ok :: "(slice \<times> slice) list \<Rightarrow> slice \<Rightarrow> slice \<Rightarrow> bool" where
  "index_key_ok es k nx \<longleftrightarrow> internal_compare (fst (last es)) k \<le> 0 \<and> internal_compare k nx < 0
     \<and> (k = fst (last es) \<or> ExtractUserKey k < ExtractUserKey nx) \<and> length k \<le> length (fst (last es))"

definition index_ok :: "port \<Rightarrow> table_options \<Rightarrow> (slice \<times> slice) list list \<Rightarrow> (slice \<times> slice) list \<Rightarrow> (slice \<times> slice) list \<Rightarrow> bool" where
  "index_ok pt opt ess idx cur \<longleftrightarrow>
     (\<forall>i < length idx. snd (idx ! i) = BlockHandle_EncodeTo [] (seg_handle pt opt ess i) \<and> concat (drop (Suc i) ess) @ cur \<noteq> []
        \<and> index_key_ok (ess ! i) (fst (idx ! i)) (fst (hd (concat (drop (Suc i) ess) @ cur))))"

text \<open>A builder without errors that has written the blocks \<open>ess\<close>, with \<open>cur\<close> in the current block.\<close>

definition tb_state :: "port \<Rightarrow> table_options \<Rightarrow> (slice \<times> slice) list list \<Rightarrow> (slice \<times> slice) list \<Rightarrow> (slice \<times> slice) list \<Rightarrow> table_builder \<Rightarrow> bool" where
  "tb_state pt opt ess idx cur r \<longleftrightarrow>
     tb_options r = opt \<and> tb_ok r \<and> lf_bytes (tb_file r) = concat (map (seg_bytes pt opt) ess)
     \<and> tb_offset r = word_of_nat (length (lf_bytes (tb_file r)))
     \<and> tb_data_block r = bb_build (opt_restart_interval opt) cur \<and> tb_index_block r = bb_build 1 idx
     \<and> (concat ess @ cur \<noteq> [] \<longrightarrow> tb_last_key r = fst (last (concat ess @ cur)))
     \<and> tb_filter_block r = map_option (\<lambda>p. (p, fold (build_block (fp_CreateFilter p)) (filter_calls pt opt ess cur) FilterBlockBuilder)) (opt_filter_policy opt)
     \<and> [] \<notin> set ess \<and> length ess = length idx + (if tb_pending_index_entry r then 1 else 0)
     \<and> (tb_pending_index_entry r \<longrightarrow> cur = [] \<and> tb_pending_handle r = seg_handle pt opt ess (length ess - 1))
     \<and> index_ok pt opt ess idx cur"

lemma lf_Append_ok: "fst (lf_Append d f) \<Longrightarrow> lf_bytes (snd (lf_Append d f)) = lf_bytes f @ d"
  by (auto simp: lf_Append_def split: list.splits)

lemma lf_Flush_bytes: "lf_bytes (snd (lf_Flush f)) = lf_bytes f"
  by (simp add: lf_Flush_def split: list.splits)

lemma WriteRawBlock_ok:
  assumes "tb_ok (snd (WriteRawBlock pt c t r))"
  shows "\<exists>f. WriteRawBlock pt c t r = (\<lparr>bh_offset = tb_offset r, bh_size = word_of_nat (length c)\<rparr>,
      r\<lparr>tb_file := f, tb_ok := True, tb_offset := tb_offset r + word_of_nat (length (stored_bytes pt c t))\<rparr>)
    \<and> lf_bytes f = lf_bytes (tb_file r) @ stored_bytes pt c t"
proof -
  define tr where "tr = compression_code t # EncodeFixed32 (Mask (crc_Extend pt (crc_Value (crc_Extend pt) c) [compression_code t]))"
  define a where "a = lf_Append c (tb_file r)"
  define b where "b = lf_Append tr (snd a)"
  have w: "WriteRawBlock pt c t r = (\<lparr>bh_offset = tb_offset r, bh_size = word_of_nat (length c)\<rparr>,
      if \<not> fst a then r\<lparr>tb_file := snd a, tb_ok := False\<rparr>
      else if fst b then r\<lparr>tb_file := snd b, tb_ok := True, tb_offset := tb_offset r + word_of_nat (length c) + kBlockTrailerSize\<rparr>
      else r\<lparr>tb_file := snd b, tb_ok := False\<rparr>)"
    by (simp add: WriteRawBlock_def Let_def a_def [symmetric] tr_def [symmetric] b_def split_beta)
  have "fst a" "fst b" using assms unfolding w by (auto split: if_splits)
  moreover have "lf_bytes (snd b) = lf_bytes (tb_file r) @ stored_bytes pt c t"
    using lf_Append_ok [of c "tb_file r"] lf_Append_ok [of tr "snd a"] calculation
    by (simp add: a_def [symmetric] b_def [symmetric]) (simp add: stored_bytes_def tr_def)
  ultimately show ?thesis unfolding w
    by (intro exI [of _ "snd b"]) (simp add: length_stored kBlockTrailerSize_def algebra_simps)
qed

lemma bb_Reset_new: "bb_Reset b = BlockBuilder"
  by (simp add: bb_Reset_def BlockBuilder_def)

lemma WriteBlock_ok:
  assumes "tb_ok (snd (snd (WriteBlock pt b r)))"
  defines "raw \<equiv> fst (bb_Finish b)"
  shows "\<exists>f. WriteBlock pt b r = (\<lparr>bh_offset = tb_offset r, bh_size = word_of_nat (length (fst (compressed_form pt (tb_options r) raw)))\<rparr>, BlockBuilder,
      r\<lparr>tb_file := f, tb_ok := True, tb_offset := tb_offset r + word_of_nat (length (block_bytes pt (tb_options r) raw))\<rparr>)
    \<and> lf_bytes f = lf_bytes (tb_file r) @ block_bytes pt (tb_options r) raw"
proof -
  obtain c t where ct: "compressed_form pt (tb_options r) raw = (c, t)" by fastforce
  have w: "WriteBlock pt b r = (fst (WriteRawBlock pt c t r), BlockBuilder, snd (WriteRawBlock pt c t r))"
    using ct by (simp add: WriteBlock_def raw_def split_beta bb_Reset_new)
  then have "tb_ok (snd (WriteRawBlock pt c t r))" using assms(1) by simp
  from WriteRawBlock_ok [OF this] show ?thesis unfolding w by (auto simp: ct block_bytes_def)
qed

lemma bb_build_empty: "0 < I \<Longrightarrow> bb_buffer (bb_build I es) = [] \<longleftrightarrow> es = []"
proof -
  assume I: "0 < I"
  have "bb_buffer (bb_build I es) = concat (block_entries I es)" using build_state [OF I, of es] by blast
  moreover have "entry_bytes I es 0 \<noteq> []" using entry_bytes_nonempty [of I es 0] by auto
  ultimately show ?thesis by (cases es) (auto simp: block_entries_def upt_conv_Cons simp del: upt_Suc)
qed

lemma bb_build_snoc: "bb_build I (es @ [(k, v)]) = bb_Add I k v (bb_build I es)"
  by (simp add: bb_build_def)

lemma seg_off_append: "i \<le> length ess \<Longrightarrow> seg_off pt opt (ess @ ess') i = seg_off pt opt ess i"
  by (simp add: seg_off_def)

lemma seg_handle_append: "i < length ess \<Longrightarrow> seg_handle pt opt (ess @ ess') i = seg_handle pt opt ess i"
  by (simp add: seg_handle_def seg_off_append nth_append)

lemma filter_calls_flush:
  "filter_calls pt opt (ess @ [cur]) [] = filter_calls pt opt ess cur @ [(word_of_nat (seg_off pt opt (ess @ [cur]) (Suc (length ess))), [])]"
proof -
  have "map (\<lambda>i. (word_of_nat (seg_off pt opt (ess @ [cur]) i) :: 64 word, map fst (((ess @ [cur]) @ [[]]) ! i))) [0..<Suc (length ess)]
      = filter_calls pt opt ess cur"
    unfolding filter_calls_def by (rule map_cong) (auto simp: seg_off_append nth_append less_Suc_eq)
  then show ?thesis by (simp add: filter_calls_def nth_append)
qed

lemma filter_calls_add:
  "fold (build_block create) (filter_calls pt opt ess (cur @ [e])) b = fb_AddKey (fst e) (fold (build_block create) (filter_calls pt opt ess cur) b)"
proof -
  have "map (\<lambda>i. (word_of_nat (seg_off pt opt ess i) :: 64 word, map fst ((ess @ [cur @ [e]]) ! i))) [0..<length ess]
      = map (\<lambda>i. (word_of_nat (seg_off pt opt ess i), map fst ((ess @ [cur]) ! i))) [0..<length ess]"
    by (rule map_cong) (auto simp: nth_append)
  then show ?thesis by (simp add: filter_calls_def build_block_def del: map_eq_conv)
qed

lemma index_ok_flush: "index_ok pt opt ess idx cur \<Longrightarrow> length idx \<le> length ess \<Longrightarrow> index_ok pt opt (ess @ [cur]) idx []"
  by (auto simp: index_ok_def seg_handle_append nth_append)

lemma index_ok_add: "index_ok pt opt ess idx cur \<Longrightarrow> index_ok pt opt ess idx (cur @ [e])"
proof -
  assume ok: "index_ok pt opt ess idx cur"
  have "hd (xs @ cur @ [e]) = hd (xs @ cur)" if "xs @ cur \<noteq> []" for xs using that by (metis append_assoc hd_append2)
  then show ?thesis using ok unfolding index_ok_def by (metis append_is_Nil_conv)
qed

lemma Flush_state:
  assumes "tb_state pt opt ess idx cur r" and "cur \<noteq> []" and "0 < opt_restart_interval opt" and "tb_ok (tb_Flush pt r)"
  shows "tb_state pt opt (ess @ [cur]) idx [] (tb_Flush pt r)"
proof -
  note st = assms(1) [unfolded tb_state_def]
  have base: "tb_offset r = word_of_nat (length (concat (map (seg_bytes pt opt) ess)))" using st by simp
  define w where "w = WriteBlock pt (tb_data_block r) r"
  have ne: "bb_buffer (tb_data_block r) \<noteq> []" using st assms(2) bb_build_empty [OF assms(3), of cur] by simp
  have np: "\<not> tb_pending_index_entry r" using st assms(2) by blast
  define r1 where "r1 = (snd (snd w))\<lparr>tb_data_block := fst (snd w), tb_pending_handle := fst w\<rparr>"
  define r2 where "r2 = (if tb_ok r1 then r1\<lparr>tb_pending_index_entry := True, tb_file := snd (lf_Flush (tb_file r1)), tb_ok := fst (lf_Flush (tb_file r1))\<rparr> else r1)"
  have fl: "tb_Flush pt r = on_filter (\<lambda>create. StartBlock create (tb_offset r2)) r2"
    using conjunct1 [OF conjunct2 [OF st]] ne by (simp add: tb_Flush_def w_def [symmetric] split_beta Let_def r1_def r2_def)
  have ok2: "tb_ok r2" using assms(4) unfolding fl by (simp add: on_filter_def)
  then have "tb_ok (snd (snd w))" by (auto simp: r2_def r1_def split: if_splits)
  moreover have raw: "fst (bb_Finish (tb_data_block r)) = block_data (opt_restart_interval opt) cur" using st by (simp add: block_data_def)
  ultimately obtain f where f: "w = (\<lparr>bh_offset = tb_offset r, bh_size = word_of_nat (length (fst (compressed_form pt opt (block_data (opt_restart_interval opt) cur))))\<rparr>, BlockBuilder,
      r\<lparr>tb_file := f, tb_ok := True, tb_offset := tb_offset r + word_of_nat (length (seg_bytes pt opt cur))\<rparr>)"
      and fb: "lf_bytes f = lf_bytes (tb_file r) @ seg_bytes pt opt cur"
    using WriteBlock_ok [of pt "tb_data_block r" r] st unfolding w_def [symmetric] by (auto simp: seg_bytes_def)
  have h: "fst w = seg_handle pt opt (ess @ [cur]) (length ess)"
    by (simp add: f base seg_handle_def seg_off_def)
  have r2: "r2 = r\<lparr>tb_file := snd (lf_Flush f), tb_ok := True, tb_offset := tb_offset r + word_of_nat (length (seg_bytes pt opt cur)),
      tb_data_block := BlockBuilder, tb_pending_handle := seg_handle pt opt (ess @ [cur]) (length ess), tb_pending_index_entry := True\<rparr>"
    using ok2 unfolding r2_def r1_def h by (simp add: f)
  have off: "tb_offset r2 = word_of_nat (seg_off pt opt (ess @ [cur]) (Suc (length ess)))"
    by (simp add: r2 base seg_off_def)
  show ?thesis
    unfolding fl off using st assms(2) np fb
    by (auto simp: tb_state_def on_filter_def r2 lf_Flush_bytes filter_calls_flush build_block_def bb_build_def map_option.compositionality comp_def
        option.map_comp intro: index_ok_flush)
qed

text \<open>An entry that follows the entries so far.\<close>

definition follows :: "(slice \<times> slice) list \<Rightarrow> slice \<Rightarrow> bool" where
  "follows es k \<longleftrightarrow> es = [] \<or> 8 \<le> length (fst (last es)) \<and> internal_compare (fst (last es)) k < 0"

lemma index_ok_new:
  assumes "index_ok pt opt ess idx []" and "length ess = Suc (length idx)" and "index_key_ok (last ess) sep (fst e)"
  shows "index_ok pt opt ess (idx @ [(sep, BlockHandle_EncodeTo [] (seg_handle pt opt ess (length idx)))]) [e]"
proof -
  have "ess ! length idx = last ess" using assms(2) by (subst last_conv_nth) auto
  then show ?thesis using index_ok_add [OF assms(1), of e] assms(2,3)
    by (auto simp: index_ok_def nth_append less_Suc_eq)
qed

lemma last_concat: "[] \<notin> set ess \<Longrightarrow> ess \<noteq> [] \<Longrightarrow> last (concat ess) = last (last ess)"
  by (induction ess rule: rev_induct) auto

lemma Add_put:
  assumes "tb_state pt opt ess idx cur r" and "opt_comparator opt = InternalKeyComparator" and "follows (concat ess @ cur) k"
  defines "last_key \<equiv> internal_FindShortestSeparator (tb_last_key r) k"
  defines "r1 \<equiv> (if tb_pending_index_entry r
      then r\<lparr>tb_last_key := last_key, tb_index_block := bb_Add 1 last_key (BlockHandle_EncodeTo [] (tb_pending_handle r)) (tb_index_block r),
             tb_pending_index_entry := False\<rparr>
      else r)"
  defines "r2 \<equiv> on_filter (\<lambda>create. fb_AddKey k) r1"
  shows "\<exists>idx'. tb_state pt opt ess idx' (cur @ [(k, v)])
    (r2\<lparr>tb_last_key := k, tb_num_entries := tb_num_entries r2 + 1, tb_data_block := bb_Add (opt_restart_interval opt) k v (tb_data_block r2)\<rparr>)"
proof -
  note st = assms(1) [unfolded tb_state_def]
  define idx' where "idx' = (if tb_pending_index_entry r then idx @ [(last_key, BlockHandle_EncodeTo [] (seg_handle pt opt ess (length idx)))] else idx)"
  have idx: "index_ok pt opt ess idx' (cur @ [(k, v)]) \<and> length ess = length idx'"
  proof (cases "tb_pending_index_entry r")
    case True
    then have p: "cur = []" "length ess = Suc (length idx)" "tb_pending_handle r = seg_handle pt opt ess (length idx)" "[] \<notin> set ess" "ess \<noteq> []"
      using st by auto
    then have ne: "concat ess \<noteq> []" by (cases ess) auto
    then have "tb_last_key r = fst (last (concat ess))" using st p(1) by simp
    with ne have "index_key_ok (last ess) last_key k"
      using separator_bounds [of "fst (last (concat ess))" k] assms(3) p last_concat [OF p(4,5)]
      by (auto simp: follows_def index_key_ok_def last_key_def)
    then show ?thesis using True st index_ok_new [of pt opt ess idx last_key "(k, v)"] p(1,2) by (simp add: idx'_def)
  next
    case False
    then show ?thesis using st index_ok_add [of pt opt ess idx cur "(k, v)"] by (simp add: idx'_def)
  qed
  have "r1 = r\<lparr>tb_last_key := (if tb_pending_index_entry r then last_key else tb_last_key r), tb_index_block := bb_build 1 idx',
      tb_pending_index_entry := False\<rparr>"
    using st by (auto simp: r1_def idx'_def bb_build_snoc)
  then obtain lk where r1: "r1 = r\<lparr>tb_last_key := lk, tb_index_block := bb_build 1 idx', tb_pending_index_entry := False\<rparr>" by blast
  have r2: "r2 = r1\<lparr>tb_filter_block := map_option (\<lambda>p. (p, fold (build_block (fp_CreateFilter p)) (filter_calls pt opt ess (cur @ [(k, v)])) FilterBlockBuilder)) (opt_filter_policy opt)\<rparr>"
    using st by (simp add: r2_def r1 on_filter_def option.map_comp comp_def filter_calls_add)
  show ?thesis
    unfolding r2 r1 using st idx by (intro exI [of _ idx']) (simp add: tb_state_def bb_build_snoc)
qed

lemma Add_state:
  assumes "tb_state pt opt ess idx cur r" and "opt_comparator opt = InternalKeyComparator" and "follows (concat ess @ cur) k"
    and "0 < opt_restart_interval opt" and "tb_ok (tb_Add pt k v r)"
  shows "\<exists>ess' idx' cur'. tb_state pt opt ess' idx' cur' (tb_Add pt k v r) \<and> concat ess' @ cur' = concat ess @ cur @ [(k, v)]"
proof -
  note st = assms(1) [unfolded tb_state_def]
  obtain r' idx' where r': "tb_Add pt k v r = (if CurrentSizeEstimate (tb_data_block r') \<ge> opt_block_size (tb_options r') then tb_Flush pt r' else r')"
      and st': "tb_state pt opt ess idx' (cur @ [(k, v)]) r'"
  proof -
    obtain idx' where "tb_state pt opt ess idx' (cur @ [(k, v)])
        (let r1 = (if tb_pending_index_entry r
            then r\<lparr>tb_last_key := internal_FindShortestSeparator (tb_last_key r) k,
                   tb_index_block := bb_Add 1 (internal_FindShortestSeparator (tb_last_key r) k) (BlockHandle_EncodeTo [] (tb_pending_handle r)) (tb_index_block r),
                   tb_pending_index_entry := False\<rparr>
            else r);
             r2 = on_filter (\<lambda>create. fb_AddKey k) r1
         in r2\<lparr>tb_last_key := k, tb_num_entries := tb_num_entries r2 + 1, tb_data_block := bb_Add (opt_restart_interval opt) k v (tb_data_block r2)\<rparr>)"
      using Add_put [OF assms(1-3), of v] unfolding Let_def by blast
    from that [OF _ this] show thesis
      using st assms(2) by (simp add: tb_Add_def Let_def InternalKeyComparator_def)
  qed
  show ?thesis
  proof (cases "CurrentSizeEstimate (tb_data_block r') \<ge> opt_block_size (tb_options r')")
    case True
    then have "tb_state pt opt (ess @ [cur @ [(k, v)]]) idx' [] (tb_Add pt k v r)"
      using Flush_state [OF st' _ assms(4)] assms(5) r' by simp
    then show ?thesis by (intro exI [of _ "ess @ [cur @ [(k, v)]]"] exI [of _ idx'] exI [of _ "[]"]) simp
  next
    case False
    then show ?thesis using st' r' by (intro exI [of _ ess] exI [of _ idx'] exI [of _ "cur @ [(k, v)]"]) simp
  qed
qed

lemma Add_stays_failed: "\<not> tb_ok r \<Longrightarrow> tb_Add pt k v r = r"
  by (simp add: tb_Add_def)

definition in_order :: "(slice \<times> slice) list \<Rightarrow> bool" where
  "in_order es \<longleftrightarrow> sorted_wrt (\<lambda>a b. internal_compare a b < 0) (map fst es) \<and> (\<forall>e \<in> set es. 8 \<le> length (fst e))"

lemma in_order_follows: "in_order (es @ [(k, v)]) \<Longrightarrow> follows es k"
  by (cases es rule: rev_cases) (auto simp: in_order_def follows_def sorted_wrt_append)

definition add_all :: "port \<Rightarrow> (slice \<times> slice) list \<Rightarrow> table_builder \<Rightarrow> table_builder" where
  "add_all pt es r = fold (\<lambda>(k, v). tb_Add pt k v) es r"

lemma TableBuilder_state:
  assumes "lf_bytes f = []"
  shows "tb_state pt opt [] [] [] (TableBuilder opt f)"
  using assms by (simp add: tb_state_def TableBuilder_def Rep_new_def on_filter_def bb_build_def index_ok_def filter_calls_def build_block_def
      seg_off_def option.map_comp comp_def)

lemma add_all_state:
  assumes "lf_bytes f = []" and "opt_comparator opt = InternalKeyComparator" and "0 < opt_restart_interval opt"
  shows "in_order es \<Longrightarrow> tb_ok (add_all pt es (TableBuilder opt f)) \<Longrightarrow>
    \<exists>ess idx cur. tb_state pt opt ess idx cur (add_all pt es (TableBuilder opt f)) \<and> concat ess @ cur = es"
proof (induction es rule: rev_induct)
  case Nil
  show ?case using TableBuilder_state [OF assms(1), of pt opt] by (intro exI [of _ "[]"]) (simp add: add_all_def)
next
  case (snoc e es)
  obtain k v where e: "e = (k, v)" by fastforce
  have add: "add_all pt (es @ [e]) (TableBuilder opt f) = tb_Add pt k v (add_all pt es (TableBuilder opt f))" by (simp add: add_all_def e)
  then have "tb_ok (add_all pt es (TableBuilder opt f))" using snoc.prems(2) Add_stays_failed by metis
  moreover have "in_order es" using snoc.prems(1) by (simp add: in_order_def sorted_wrt_append)
  ultimately obtain ess idx cur where st: "tb_state pt opt ess idx cur (add_all pt es (TableBuilder opt f))" "concat ess @ cur = es"
    using snoc.IH by blast
  moreover have "follows (concat ess @ cur) k" "tb_ok (tb_Add pt k v (add_all pt es (TableBuilder opt f)))"
    using in_order_follows [of es k v] snoc.prems st(2) unfolding add by (simp_all add: e)
  ultimately obtain ess' idx' cur' where "tb_state pt opt ess' idx' cur' (tb_Add pt k v (add_all pt es (TableBuilder opt f)))"
      "concat ess' @ cur' = concat ess @ cur @ [(k, v)]"
    using Add_state [OF _ assms(2) _ assms(3)] by blast
  moreover have "concat ess @ cur @ [(k, v)] = es @ [e]" using st(2) e by (metis append_assoc)
  ultimately show ?case unfolding add by metis
qed

section \<open>The finished file\<close>

text \<open>The index of a finished table: as \<open>index_ok\<close>, with a last key after all entries.\<close>

definition full_index_ok :: "port \<Rightarrow> table_options \<Rightarrow> (slice \<times> slice) list list \<Rightarrow> (slice \<times> slice) list \<Rightarrow> bool" where
  "full_index_ok pt opt ess idx \<longleftrightarrow> length idx = length ess \<and> [] \<notin> set ess
     \<and> (\<forall>i < length ess. snd (idx ! i) = BlockHandle_EncodeTo [] (seg_handle pt opt ess i)
          \<and> internal_compare (fst (last (ess ! i))) (fst (idx ! i)) \<le> 0 \<and> length (fst (idx ! i)) \<le> length (fst (last (ess ! i)))
          \<and> (Suc i < length ess \<longrightarrow> index_key_ok (ess ! i) (fst (idx ! i)) (fst (hd (ess ! Suc i)))))"

lemma hd_concat_drop: "[] \<notin> set ess \<Longrightarrow> i < length ess \<Longrightarrow> hd (concat (drop i ess)) = hd (ess ! i)"
  by (subst Cons_nth_drop_Suc [symmetric]) (auto simp: hd_append in_set_conv_nth)

text \<open>The parts of the file: blocks, filter block, metaindex block, index block, footer.\<close>

definition meta_block :: "port \<Rightarrow> table_options \<Rightarrow> BlockHandle \<Rightarrow> slice" where
  "meta_block pt opt fh = block_data (opt_restart_interval opt)
     (case opt_filter_policy opt of Some p \<Rightarrow> [(filter_key p, BlockHandle_EncodeTo [] fh)] | None \<Rightarrow> [])"

definition seg_filters :: "port \<Rightarrow> table_options \<Rightarrow> (slice \<times> slice) list list \<Rightarrow> slice option" where
  "seg_filters pt opt ess = map_option (\<lambda>p. filter_block (fp_CreateFilter p) (filter_calls pt opt ess [])) (opt_filter_policy opt)"

definition filter_part :: "port \<Rightarrow> table_options \<Rightarrow> (slice \<times> slice) list list \<Rightarrow> slice" where
  "filter_part pt opt ess = (case seg_filters pt opt ess of Some fs \<Rightarrow> stored_bytes pt fs kNoCompression | None \<Rightarrow> [])"

definition data_part :: "port \<Rightarrow> table_options \<Rightarrow> (slice \<times> slice) list list \<Rightarrow> slice" where
  "data_part pt opt ess = concat (map (seg_bytes pt opt) ess)"

definition filter_handle :: "port \<Rightarrow> table_options \<Rightarrow> (slice \<times> slice) list list \<Rightarrow> BlockHandle" where
  "filter_handle pt opt ess =
     (case seg_filters pt opt ess of
        Some fs \<Rightarrow> \<lparr>bh_offset = word_of_nat (length (data_part pt opt ess)), bh_size = word_of_nat (length fs)\<rparr>
      | None \<Rightarrow> BlockHandle_new)"

definition meta_raw :: "port \<Rightarrow> table_options \<Rightarrow> (slice \<times> slice) list list \<Rightarrow> slice" where
  "meta_raw pt opt ess = meta_block pt opt (filter_handle pt opt ess)"

text \<open>The handle of a block that follows the bytes \<open>pre\<close>.\<close>

definition handle_after :: "port \<Rightarrow> table_options \<Rightarrow> slice \<Rightarrow> slice \<Rightarrow> BlockHandle" where
  "handle_after pt opt pre raw =
     \<lparr>bh_offset = word_of_nat (length pre), bh_size = word_of_nat (length (fst (compressed_form pt opt raw)))\<rparr>"

definition meta_handle :: "port \<Rightarrow> table_options \<Rightarrow> (slice \<times> slice) list list \<Rightarrow> BlockHandle" where
  "meta_handle pt opt ess = handle_after pt opt (data_part pt opt ess @ filter_part pt opt ess) (meta_raw pt opt ess)"

definition index_handle :: "port \<Rightarrow> table_options \<Rightarrow> (slice \<times> slice) list list \<Rightarrow> (slice \<times> slice) list \<Rightarrow> BlockHandle" where
  "index_handle pt opt ess idx =
     handle_after pt opt (data_part pt opt ess @ filter_part pt opt ess @ block_bytes pt opt (meta_raw pt opt ess)) (block_data 1 idx)"

definition table_file :: "port \<Rightarrow> table_options \<Rightarrow> (slice \<times> slice) list list \<Rightarrow> (slice \<times> slice) list \<Rightarrow> slice" where
  "table_file pt opt ess idx =
     data_part pt opt ess @ filter_part pt opt ess @ block_bytes pt opt (meta_raw pt opt ess) @ block_bytes pt opt (block_data 1 idx)
       @ Footer_EncodeTo [] \<lparr>ft_metaindex_handle = meta_handle pt opt ess, ft_index_handle = index_handle pt opt ess idx\<rparr>"

text \<open>A builder that has no errors and has written \<open>F\<close>.\<close>

definition written :: "table_builder \<Rightarrow> slice \<Rightarrow> bool" where
  "written r F \<longleftrightarrow> tb_ok r \<and> lf_bytes (tb_file r) = F \<and> tb_offset r = word_of_nat (length F)"

lemma finish_filter_written:
  assumes "tb_ok (snd (finish_filter pt r))" and "written r F"
    and "tb_filter_block r = map_option (\<lambda>p. (p, fold (build_block (fp_CreateFilter p)) calls FilterBlockBuilder)) policy"
  defines "filters \<equiv> (case policy of Some p \<Rightarrow> filter_block (fp_CreateFilter p) calls | None \<Rightarrow> [])"
  defines "fpart \<equiv> (case policy of Some p \<Rightarrow> stored_bytes pt filters kNoCompression | None \<Rightarrow> [])"
  shows "\<exists>f ofs. finish_filter pt r =
      ((case policy of Some p \<Rightarrow> \<lparr>bh_offset = word_of_nat (length F), bh_size = word_of_nat (length filters)\<rparr> | None \<Rightarrow> BlockHandle_new),
       r\<lparr>tb_file := f, tb_offset := ofs\<rparr>)
    \<and> written (r\<lparr>tb_file := f, tb_offset := ofs\<rparr>) (F @ fpart)"
proof (cases policy)
  case None
  then show ?thesis using assms(2,3) by (intro exI [of _ "tb_file r"] exI [of _ "tb_offset r"]) (simp add: finish_filter_def fpart_def)
next
  case (Some p)
  have ok: "tb_ok r = True" using assms(2) by (simp add: written_def)
  have w: "finish_filter pt r = WriteRawBlock pt filters kNoCompression r"
    using assms(3) Some ok by (simp add: finish_filter_def filters_def filter_block_def)
  obtain f where "WriteRawBlock pt filters kNoCompression r = (\<lparr>bh_offset = tb_offset r, bh_size = word_of_nat (length filters)\<rparr>,
      r\<lparr>tb_file := f, tb_ok := True, tb_offset := tb_offset r + word_of_nat (length (stored_bytes pt filters kNoCompression))\<rparr>)"
      "lf_bytes f = lf_bytes (tb_file r) @ stored_bytes pt filters kNoCompression"
    using WriteRawBlock_ok assms(1) unfolding w by blast
  then show ?thesis using Some assms(2) ok unfolding w
    by (intro exI [of _ f] exI [of _ "word_of_nat (length (F @ fpart))"]) (simp add: written_def fpart_def)
qed

lemma WriteBlock_written:
  assumes "tb_ok (snd (snd (WriteBlock pt b r)))" and "written r F"
  defines "raw \<equiv> fst (bb_Finish b)"
  shows "\<exists>f ofs. WriteBlock pt b r =
      (\<lparr>bh_offset = word_of_nat (length F), bh_size = word_of_nat (length (fst (compressed_form pt (tb_options r) raw)))\<rparr>, BlockBuilder,
       r\<lparr>tb_file := f, tb_offset := ofs\<rparr>)
    \<and> written (r\<lparr>tb_file := f, tb_offset := ofs\<rparr>) (F @ block_bytes pt (tb_options r) raw)"
proof -
  have ok: "tb_ok r = True" using assms(2) by (simp add: written_def)
  obtain f where "WriteBlock pt b r = (\<lparr>bh_offset = tb_offset r, bh_size = word_of_nat (length (fst (compressed_form pt (tb_options r) raw)))\<rparr>, BlockBuilder,
      r\<lparr>tb_file := f, tb_ok := True, tb_offset := tb_offset r + word_of_nat (length (block_bytes pt (tb_options r) raw))\<rparr>)"
      "lf_bytes f = lf_bytes (tb_file r) @ block_bytes pt (tb_options r) raw"
    using WriteBlock_ok [OF assms(1)] unfolding raw_def by blast
  then show ?thesis using assms(2) ok
    by (intro exI [of _ f] exI [of _ "word_of_nat (length (F @ block_bytes pt (tb_options r) raw))"]) (simp add: written_def)
qed

lemma finish_metaindex_written:
  assumes "tb_ok (snd (finish_metaindex pt fh r))" and "written r F" and "tb_filter_block r = None \<longleftrightarrow> opt_filter_policy (tb_options r) = None"
  defines "meta \<equiv> meta_block pt (tb_options r) fh"
  shows "\<exists>f ofs. finish_metaindex pt fh r =
      (\<lparr>bh_offset = word_of_nat (length F), bh_size = word_of_nat (length (fst (compressed_form pt (tb_options r) meta)))\<rparr>, r\<lparr>tb_file := f, tb_offset := ofs\<rparr>)
    \<and> written (r\<lparr>tb_file := f, tb_offset := ofs\<rparr>) (F @ block_bytes pt (tb_options r) meta)"
proof -
  define b where "b = (case (tb_filter_block r, opt_filter_policy (tb_options r)) of
      (Some _, Some p) \<Rightarrow> bb_Add (opt_restart_interval (tb_options r)) (filter_key p) (BlockHandle_EncodeTo [] fh) BlockBuilder
    | _ \<Rightarrow> BlockBuilder)"
  have raw: "fst (bb_Finish b) = meta"
    using assms(3) by (auto simp: b_def meta_def meta_block_def block_data_def bb_build_def split: option.splits)
  have ok: "tb_ok r" using assms(2) by (simp add: written_def)
  have w: "finish_metaindex pt fh r = (fst (WriteBlock pt b r), snd (snd (WriteBlock pt b r)))"
    using ok unfolding finish_metaindex_def b_def [symmetric] by (simp add: split_beta)
  have "tb_ok (snd (snd (WriteBlock pt b r)))" using assms(1) unfolding w by simp
  from WriteBlock_written [OF this assms(2)] obtain f ofs where "WriteBlock pt b r =
      (\<lparr>bh_offset = word_of_nat (length F), bh_size = word_of_nat (length (fst (compressed_form pt (tb_options r) meta)))\<rparr>, BlockBuilder,
       r\<lparr>tb_file := f, tb_offset := ofs\<rparr>)" "written (r\<lparr>tb_file := f, tb_offset := ofs\<rparr>) (F @ block_bytes pt (tb_options r) meta)"
    unfolding raw by blast
  then show ?thesis unfolding w by (intro exI [of _ f] exI [of _ ofs]) simp
qed

lemma finish_index_written:
  assumes "tb_ok (snd (finish_index pt r))" and "written r F" and "opt_comparator (tb_options r) = InternalKeyComparator"
  defines "last_key \<equiv> internal_FindShortSuccessor (tb_last_key r)"
  defines "b \<equiv> (if tb_pending_index_entry r then bb_Add 1 last_key (BlockHandle_EncodeTo [] (tb_pending_handle r)) (tb_index_block r) else tb_index_block r)"
  defines "raw \<equiv> fst (bb_Finish b)"
  shows "fst (finish_index pt r) = \<lparr>bh_offset = word_of_nat (length F), bh_size = word_of_nat (length (fst (compressed_form pt (tb_options r) raw)))\<rparr>
    \<and> written (snd (finish_index pt r)) (F @ block_bytes pt (tb_options r) raw)"
proof -
  define r1 where "r1 = (if tb_pending_index_entry r then r\<lparr>tb_last_key := last_key, tb_index_block := b, tb_pending_index_entry := False\<rparr> else r)"
  have r1: "tb_options r1 = tb_options r" "written r1 F" "tb_index_block r1 = b"
    using assms(2) by (simp_all add: r1_def written_def b_def)
  have w: "finish_index pt r = (fst (WriteBlock pt b r1), (snd (snd (WriteBlock pt b r1)))\<lparr>tb_index_block := fst (snd (WriteBlock pt b r1))\<rparr>)"
    using assms(2,3) by (simp add: finish_index_def written_def r1_def b_def last_key_def InternalKeyComparator_def split_beta Let_def)
  have "tb_ok (snd (snd (WriteBlock pt b r1)))" using assms(1) unfolding w by simp
  from WriteBlock_written [OF this r1(2)] show ?thesis unfolding w r1(1) raw_def by (auto simp: written_def)
qed

text \<open>The state after the flush, and the index entry of the last block.\<close>

lemma Flush_all:
  assumes "tb_state pt opt ess idx cur r" and "0 < opt_restart_interval opt" and "tb_ok (tb_Flush pt r)"
  shows "\<exists>ess'. tb_state pt opt ess' idx [] (tb_Flush pt r) \<and> concat ess' = concat ess @ cur"
proof (cases "cur = []")
  case True
  then have "tb_Flush pt r = r" using assms(1) by (simp add: tb_state_def tb_Flush_def bb_build_def BlockBuilder_def)
  then show ?thesis using assms(1) True by auto
next
  case False
  then show ?thesis using Flush_state [OF assms(1) False assms(2,3)] by (intro exI [of _ "ess @ [cur]"]) simp
qed

lemma final_index:
  assumes "tb_state pt opt ess idx [] r" and "in_order (concat ess)"
  defines "idx' \<equiv> (if tb_pending_index_entry r then idx @ [(internal_FindShortSuccessor (tb_last_key r), BlockHandle_EncodeTo [] (tb_pending_handle r))] else idx)"
  shows "full_index_ok pt opt ess idx'"
proof -
  note st = assms(1) [unfolded tb_state_def]
  have ne: "[] \<notin> set ess" using st by blast
  have old: "snd (idx ! i) = BlockHandle_EncodeTo [] (seg_handle pt opt ess i) \<and> Suc i < length ess \<and> index_key_ok (ess ! i) (fst (idx ! i)) (fst (hd (ess ! Suc i)))"
    if "i < length idx" for i
  proof -
    have i: "index_key_ok (ess ! i) (fst (idx ! i)) (fst (hd (concat (drop (Suc i) ess) @ [])))" "concat (drop (Suc i) ess) @ [] \<noteq> []"
        "snd (idx ! i) = BlockHandle_EncodeTo [] (seg_handle pt opt ess i)"
      using st that unfolding index_ok_def by blast+
    then have "Suc i < length ess" by (cases "Suc i < length ess") auto
    then show ?thesis using i hd_concat_drop [OF ne, of "Suc i"] by simp
  qed
  show ?thesis
  proof (cases "tb_pending_index_entry r")
    case False
    then show ?thesis using st old unfolding full_index_ok_def idx'_def by (auto simp: index_key_ok_def)
  next
    case True
    then have p: "length ess = Suc (length idx)" "tb_pending_handle r = seg_handle pt opt ess (length idx)" using st by auto
    then have "ess \<noteq> []" "concat ess \<noteq> []" using ne by (cases ess; auto)+
    then have key: "tb_last_key r = fst (last (last ess))" "last (last ess) \<in> set (concat ess)"
      using st last_concat [OF ne] last_in_set [of "concat ess"] by auto
    have l: "last ess = ess ! length idx" using p(1) by (subst last_conv_nth) auto
    have "internal_compare (tb_last_key r) (internal_FindShortSuccessor (tb_last_key r)) \<le> 0
        \<and> length (internal_FindShortSuccessor (tb_last_key r)) \<le> length (tb_last_key r)"
      using successor_bounds [of "tb_last_key r"] key assms(2) unfolding in_order_def by metis
    then have new: "idx' ! length idx = (internal_FindShortSuccessor (fst (last (ess ! length idx))), BlockHandle_EncodeTo [] (seg_handle pt opt ess (length idx)))
        \<and> internal_compare (fst (last (ess ! length idx))) (internal_FindShortSuccessor (fst (last (ess ! length idx)))) \<le> 0
        \<and> length (internal_FindShortSuccessor (fst (last (ess ! length idx)))) \<le> length (fst (last (ess ! length idx)))"
      using True p(2) key(1) l by (simp add: idx'_def)
    have same: "idx' ! i = idx ! i" if "i < length idx" for i using that True by (simp add: idx'_def nth_append)
    have each: "snd (idx' ! i) = BlockHandle_EncodeTo [] (seg_handle pt opt ess i)
        \<and> internal_compare (fst (last (ess ! i))) (fst (idx' ! i)) \<le> 0 \<and> length (fst (idx' ! i)) \<le> length (fst (last (ess ! i)))
        \<and> (Suc i < length ess \<longrightarrow> index_key_ok (ess ! i) (fst (idx' ! i)) (fst (hd (ess ! Suc i))))" if "i < length ess" for i
    proof (cases "i < length idx")
      case True
      then show ?thesis using old [OF True] same [OF True] by (simp add: index_key_ok_def)
    next
      case False
      then have "i = length idx" using that p(1) by simp
      then show ?thesis using new p(1) by simp
    qed
    have "length idx' = length ess" using True p(1) by (simp add: idx'_def)
    then show ?thesis unfolding full_index_ok_def using each ne by blast
  qed
qed

lemma Finish_file:
  assumes "tb_state pt opt ess idx cur r" and "opt_comparator opt = InternalKeyComparator" and "0 < opt_restart_interval opt"
    and "in_order (concat ess @ cur)" and "tb_ok (tb_Finish pt r)"
  shows "\<exists>ess' idx'. full_index_ok pt opt ess' idx' \<and> concat ess' = concat ess @ cur
    \<and> lf_bytes (tb_file (tb_Finish pt r)) = table_file pt opt ess' idx'
    \<and> tb_offset (tb_Finish pt r) = word_of_nat (length (table_file pt opt ess' idx'))"
proof -
  define r0 where "r0 = (tb_Flush pt r)\<lparr>tb_closed := True\<rparr>"
  define q1 where "q1 = finish_filter pt r0"
  define q2 where "q2 = finish_metaindex pt (fst q1) (snd q1)"
  define q3 where "q3 = finish_index pt (snd q2)"
  define foot where "foot = Footer_EncodeTo [] \<lparr>ft_metaindex_handle = fst q2, ft_index_handle = fst q3\<rparr>"
  have fin: "tb_Finish pt r = (let r = snd q3; p = lf_Append foot (tb_file r) in
      if \<not> tb_ok r then r else if fst p then r\<lparr>tb_file := snd p, tb_ok := True, tb_offset := tb_offset r + word_of_nat (length foot)\<rparr>
      else r\<lparr>tb_file := snd p, tb_ok := False\<rparr>)"
    by (simp add: tb_Finish_def r0_def [symmetric] q1_def [symmetric] q2_def [symmetric] q3_def [symmetric] foot_def [symmetric] split_beta Let_def)
  have ok: "tb_ok (snd q3)" "fst (lf_Append foot (tb_file (snd q3)))" using assms(5) unfolding fin by (auto simp: Let_def split: if_splits)
  have bytes: "lf_bytes (tb_file (tb_Finish pt r)) = lf_bytes (tb_file (snd q3)) @ foot" "tb_offset (tb_Finish pt r) = tb_offset (snd q3) + word_of_nat (length foot)"
    using ok lf_Append_ok [OF ok(2)] unfolding fin by (simp_all add: Let_def)
  have ok2: "tb_ok (snd q2)" using ok(1) by (auto simp: q3_def finish_index_def split: if_splits)
  then have ok1: "tb_ok (snd q1)" by (auto simp: q2_def finish_metaindex_def split: if_splits)
  then have "tb_ok r0" by (auto simp: q1_def finish_filter_def split: if_splits option.splits prod.splits)
  then obtain ess' where st: "tb_state pt opt ess' idx [] (tb_Flush pt r)" and ess': "concat ess' = concat ess @ cur"
    using Flush_all [OF assms(1,3)] by (auto simp: r0_def)
  define data fpart meta where "data = data_part pt opt ess'" and "fpart = filter_part pt opt ess'" and "meta = meta_raw pt opt ess'"
  have s0: "written r0 data" "tb_options r0 = opt" "tb_index_block r0 = bb_build 1 idx"
      "tb_filter_block r0 = map_option (\<lambda>p. (p, fold (build_block (fp_CreateFilter p)) (filter_calls pt opt ess' []) FilterBlockBuilder)) (opt_filter_policy opt)"
    using st by (simp_all add: r0_def written_def tb_state_def data_def data_part_def)
  obtain f1 o1 where q1: "fst q1 = filter_handle pt opt ess'" "snd q1 = r0\<lparr>tb_file := f1, tb_offset := o1\<rparr>" "written (snd q1) (data @ fpart)"
    using finish_filter_written [OF ok1 [unfolded q1_def] s0(1,4)] unfolding q1_def [symmetric]
    by (cases "opt_filter_policy opt") (auto simp: filter_handle_def seg_filters_def fpart_def filter_part_def data_def)
  have opt1: "tb_options (snd q1) = opt" "tb_filter_block (snd q1) = tb_filter_block r0" by (simp_all add: q1(2) s0(2))
  obtain f2 o2 where q2: "fst q2 = meta_handle pt opt ess'" "snd q2 = (snd q1)\<lparr>tb_file := f2, tb_offset := o2\<rparr>"
      "written (snd q2) ((data @ fpart) @ block_bytes pt opt meta)"
  proof -
    have "tb_filter_block (snd q1) = None \<longleftrightarrow> opt_filter_policy (tb_options (snd q1)) = None" by (simp add: opt1 s0(4))
    from finish_metaindex_written [OF ok2 [unfolded q2_def] q1(3) this]
    show thesis using that unfolding q2_def [symmetric] unfolding opt1 q1(1)
      by (auto simp: meta_handle_def handle_after_def meta_raw_def meta_def data_def fpart_def)
  qed
  define idx' where "idx' = (if tb_pending_index_entry r0 then idx @ [(internal_FindShortSuccessor (tb_last_key r0), BlockHandle_EncodeTo [] (tb_pending_handle r0))] else idx)"
  have "tb_state pt opt ess' idx [] r0" using st by (simp add: tb_state_def r0_def)
  from final_index [OF this] have full: "full_index_ok pt opt ess' idx'" using assms(4) ess' by (simp add: idx'_def)
  have opt2: "tb_options (snd q2) = opt" "tb_pending_index_entry (snd q2) = tb_pending_index_entry r0" "tb_last_key (snd q2) = tb_last_key r0"
      "tb_pending_handle (snd q2) = tb_pending_handle r0" "tb_index_block (snd q2) = bb_build 1 idx"
    by (simp_all add: q2(2) q1(2) s0(2,3))
  have ib: "(if tb_pending_index_entry r0 then bb_Add 1 (internal_FindShortSuccessor (tb_last_key r0)) (BlockHandle_EncodeTo [] (tb_pending_handle r0)) (bb_build 1 idx)
      else bb_build 1 idx) = bb_build 1 idx'"
    by (simp add: idx'_def bb_build_snoc)
  have q3: "fst q3 = index_handle pt opt ess' idx'"
      "written (snd q3) (((data @ fpart) @ block_bytes pt opt meta) @ block_bytes pt opt (block_data 1 idx'))"
    using finish_index_written [OF ok(1) [unfolded q3_def] q2(3)] assms(2) unfolding opt2 ib q3_def [symmetric] block_data_def [symmetric]
    by (simp_all add: index_handle_def handle_after_def data_def fpart_def meta_def)
  have "lf_bytes (tb_file (tb_Finish pt r)) = table_file pt opt ess' idx'" "tb_offset (tb_Finish pt r) = word_of_nat (length (table_file pt opt ess' idx'))"
    using q3(2) unfolding bytes by (simp_all add: written_def table_file_def foot_def q2(1) q3(1) data_def fpart_def meta_def add.assoc)
  then show ?thesis using full ess' by blast
qed

lemma finish_failed:
  assumes "\<not> tb_ok r"
  shows "finish_filter pt r = (BlockHandle_new, r)" "finish_metaindex pt h r = (BlockHandle_new, r)" "finish_index pt r = (BlockHandle_new, r)"
  using assms by (simp_all add: finish_filter_def finish_metaindex_def finish_index_def split: option.split)

lemma Finish_stays_failed: "\<not> tb_ok r \<Longrightarrow> \<not> tb_ok (tb_Finish pt r)"
  by (simp add: tb_Finish_def tb_Flush_def finish_failed)

end
