(* ===== verification/Ldb_Lookup.thy ===== *)
theory Ldb_Lookup
  imports Ldb_Sst
begin

text \<open>
  Lookups in a finished table file: opening it, finding the data block through the index, the filter
  and the block cache, and searching the block.
\<close>

section \<open>Sizes\<close>

text \<open>What a block takes at most, and what the index needs on top.\<close>

definition raw_size :: "(slice \<times> slice) list \<Rightarrow> nat" where
  "raw_size es = sum_list (map (\<lambda>e. length (fst e) + length (snd e) + 19) es)"

definition entries_size :: "(slice \<times> slice) list \<Rightarrow> nat" where
  "entries_size es = sum_list (map (\<lambda>e. length (fst e) + length (snd e) + 40) es)"

lemma length_EncodeVarint32: "length (EncodeVarint32 v) \<le> 5"
  using length_EncodeVarint64 [of "ucast v" 5] unat_range [of v] by (simp add: EncodeVarint32_loop)

lemma length_entry_bytes: "length (entry_bytes I es j) \<le> length (fst (es ! j)) + length (snd (es ! j)) + 15"
  using length_EncodeVarint32 [of "word_of_nat (entry_shared I es j)"]
    length_EncodeVarint32 [of "word_of_nat (length (fst (es ! j)) - entry_shared I es j)"]
    length_EncodeVarint32 [of "word_of_nat (length (snd (es ! j)))"]
  by (simp add: entry_bytes_def)

lemma length_block_entries_concat: "length (concat (block_entries I es)) \<le> sum_list (map (\<lambda>e. length (fst e) + length (snd e) + 15) es)"
proof -
  have "length (concat (block_entries I es)) = sum_list (map (\<lambda>j. length (entry_bytes I es j)) [0..<length es])"
    by (simp add: block_entries_def length_concat comp_def)
  also have "\<dots> \<le> sum_list (map (\<lambda>j. length (fst (es ! j)) + length (snd (es ! j)) + 15) [0..<length es])"
    by (rule sum_list_mono) (rule length_entry_bytes)
  also have "map (\<lambda>j. length (fst (es ! j)) + length (snd (es ! j)) + 15) [0..<length es] = map (\<lambda>e. length (fst e) + length (snd e) + 15) es"
    by (rule nth_equalityI) simp_all
  finally show ?thesis .
qed

lemma block_data_size:
  assumes "0 < I"
  shows "length (block_data I es) \<le> raw_size es + 8"
proof -
  have "restart_count I es \<le> length es + 1" using order.trans [OF div_le_dividend diff_le_self, of "length es" 1 I] by (simp add: restart_count_def)
  moreover have "entry_off I es (length es) = length (concat (block_entries I es))" by (simp add: entry_off_def)
  moreover have "sum_list (map (\<lambda>e. length (fst e) + length (snd e) + 15) es) + 4 * length es \<le> raw_size es"
    unfolding raw_size_def by (induction es) auto
  ultimately show ?thesis
    using length_block_entries_concat [of I es] unfolding length_block_data [OF assms] by linarith
qed

lemma raw_size_key: "e \<in> set es \<Longrightarrow> length (fst e) < raw_size es"
  unfolding raw_size_def by (induction es) auto

lemma block_fits_size: "0 < I \<Longrightarrow> raw_size es + 8 < 2 ^ 32 \<Longrightarrow> block_fits I es"
  using block_data_size [of I es] raw_size_key [of _ es] unfolding block_fits_def by (meson le_less_trans less_trans trans_less_add1)

lemma raw_size_le: "raw_size es \<le> entries_size es"
  unfolding raw_size_def entries_size_def by (rule sum_list_mono) simp

lemma entries_size_concat: "entries_size (concat ess) = sum_list (map entries_size ess)"
  unfolding entries_size_def by (induction ess) auto

lemma entries_size_part: "es \<in> set ess \<Longrightarrow> entries_size es \<le> entries_size (concat ess)"
  unfolding entries_size_concat by (rule member_le_sum_list) simp_all

lemma entries_size_mem: "e \<in> set es \<Longrightarrow> length (fst e) + 40 \<le> entries_size es"
  unfolding entries_size_def by (induction es) auto

section \<open>Searching one block\<close>

lemma find_map: "find P (map f xs) = map_option f (find (\<lambda>x. P (f x)) xs)"
  by (induction xs) auto

lemma find_nth: "map_option (nth es) (find (\<lambda>i. P (es ! i)) [0..<length es]) = find P es"
  using find_map [of P "nth es" "[0..<length es]"] by (simp add: map_nth)

context block_order
begin

lemma Seek_block:
  assumes "block_fits I es" and "lane_ok (map fst es)" and "valid target"
  defines "it \<equiv> any_Seek cmp target (Block_NewIterator (Block_new (block_data I es)))"
  shows "any_entry it = find (\<lambda>e. \<not> cmp (fst e) target < 0) es \<and> any_status it = None"
proof -
  let ?it = "Iter_new (block_data I es) (entry_off I es (length es)) (restart_count I es)"
  have "at_pos I es ?it None" by (simp add: reads_def Iter_new_def)
  from at_pos_entry [OF Seek_pos [OF assms(1-3) this]] show ?thesis
    unfolding it_def Block_opens [OF assms(1)] by (simp add: find_nth [of es "\<lambda>e. \<not> cmp (fst e) target < 0"])
qed

end

interpretation slice_order: block_order slice_compare "\<lambda>k. True"
  by unfold_locales (auto simp: slice_compare_order)

section \<open>Opening a table\<close>

definition table_fits :: "table_options \<Rightarrow> (slice \<times> slice) list \<Rightarrow> bool" where
  "table_fits opt es \<longleftrightarrow> entries_size es + 8 < 2 ^ 32 \<and> (\<forall>p. opt_filter_policy opt = Some p \<longrightarrow> length (fp_Name p) + 100 < 2 ^ 32)"

text \<open>A table opened on the file of the blocks \<open>ess\<close>.\<close>

definition opened :: "port \<Rightarrow> table_options \<Rightarrow> (slice \<times> slice) list list \<Rightarrow> (slice \<times> slice) list \<Rightarrow> random_file \<Rightarrow> table \<Rightarrow> bool" where
  "opened pt opt ess idx file t \<longleftrightarrow> tbl_options t = opt \<and> tbl_file t = file \<and> tbl_index_block t = Block_new (block_data 1 idx)
     \<and> tbl_filter t = map_option FilterBlockReader (seg_filters pt opt ess)"

lemma ReadMeta_opened:
  assumes "port_ok pt" and "serves file (table_file pt opt ess idx)" and "length (table_file pt opt ess idx) < 2 ^ 32"
    and "0 < opt_restart_interval opt" and "table_fits opt es"
    and "tbl_options t = opt" and "tbl_file t = file" and "tbl_index_block t = Block_new (block_data 1 idx)" and "tbl_filter t = None"
  shows "opened pt opt ess idx file (ReadMeta pt \<lparr>ft_metaindex_handle = meta_handle pt opt ess, ft_index_handle = ih\<rparr> t)"
proof (cases "opt_filter_policy opt")
  case None
  then show ?thesis using assms(6-9) by (simp add: opened_def ReadMeta_def seg_filters_def)
next
  case (Some p)
  define fs where "fs = filter_block (fp_CreateFilter p) (filter_calls pt opt ess [])"
  define e where "e = [(filter_key p, BlockHandle_EncodeTo [] (filter_handle pt opt ess))]"
  have fs: "seg_filters pt opt ess = Some fs" using Some by (simp add: seg_filters_def fs_def)
  have raw: "meta_raw pt opt ess = block_data (opt_restart_interval opt) e" using Some by (simp add: meta_raw_def meta_block_def e_def)
  define m where "m = block_bytes pt opt (meta_raw pt opt ess)"
  obtain rest where F: "table_file pt opt ess idx = (data_part pt opt ess @ filter_part pt opt ess) @ m @ rest"
    by (simp add: table_file_def m_def)
  obtain bc where bc: "ReadBlock pt file (opt_paranoid_checks opt) (meta_handle pt opt ess) = Inr bc" "bc_data bc = block_data (opt_restart_interval opt) e"
    using ReadBlock_block [OF assms(1) assms(2,3) [unfolded F m_def] meta_handle_def [unfolded handle_after_def]] unfolding raw by blast
  have "block_fits (opt_restart_interval opt) e"
    using assms(4,5) Some handle_length [of "filter_handle pt opt ess"]
    by (intro block_fits_size) (simp_all add: e_def raw_size_def table_fits_def filter_key_def)
  from slice_order.Seek_block [OF this _ TrueI, of "filter_key p"]
  have entry: "any_entry (any_Seek slice_compare (filter_key p) (Block_NewIterator (Block_new (bc_data bc)))) = Some (filter_key p, BlockHandle_EncodeTo [] (filter_handle pt opt ess))"
    unfolding bc(2) by (simp add: e_def slice_order.lane_ok_def slice_compare_order)
  obtain rest' where F': "table_file pt opt ess idx = data_part pt opt ess @ stored_bytes pt fs kNoCompression @ rest'"
    by (simp add: table_file_def filter_part_def fs)
  have fh: "filter_handle pt opt ess = \<lparr>bh_offset = word_of_nat (length (data_part pt opt ess)), bh_size = word_of_nat (length fs)\<rparr>"
    by (simp add: filter_handle_def fs)
  obtain b where "ReadBlock pt file (opt_paranoid_checks opt) (filter_handle pt opt ess) = Inr \<lparr>bc_data = fs, bc_cachable = b, bc_heap_allocated = b\<rparr>"
    using ReadBlock_stored [OF assms(1) assms(2,3) [unfolded F']] unfolding fh by auto
  then show ?thesis
    using assms(6-9) Some bc(1) entry fs handle_roundtrip [of "filter_handle pt opt ess" "[]"]
    by (simp add: opened_def ReadMeta_def ReadFilter_def)
qed

lemma Open_table:
  assumes "port_ok pt" and "serves file (table_file pt opt ess idx)" and "length (table_file pt opt ess idx) < 2 ^ 32"
    and "0 < opt_restart_interval opt" and "table_fits opt es"
  shows "\<exists>t. Table_Open pt new_id opt file (word_of_nat (length (table_file pt opt ess idx))) = Inr t \<and> opened pt opt ess idx file t"
proof -
  define F where "F = table_file pt opt ess idx"
  define foot where "foot = \<lparr>ft_metaindex_handle = meta_handle pt opt ess, ft_index_handle = index_handle pt opt ess idx\<rparr>"
  obtain pre where F: "F = pre @ Footer_EncodeTo [] foot" by (simp add: F_def table_file_def foot_def)
  have small: "n < 2 ^ 32 \<Longrightarrow> unat (word_of_nat n :: 64 word) = n" for n :: nat by (simp add: unat_of_nat take_bit_nat_eq_self)
  have len: "length F = length pre + 48" unfolding F by (simp add: footer_length)
  then have off: "word_of_nat (length F) - word_of_nat 48 = (word_of_nat (length pre) :: 64 word)" by simp
  have big: "\<not> word_of_nat (length F) < (word_of_nat 48 :: 64 word)"
    using len assms(3) unfolding F_def [symmetric] by (simp only: word_less_nat_alt small)
  have "unat (word_of_nat (length pre) :: 64 word) = length pre" using len assms(3) unfolding F_def [symmetric] by (intro small) simp
  then obtain b where "file (word_of_nat (length pre)) 48 = Some (Footer_EncodeTo [] foot, b)"
    using assms(2) len unfolding F_def [symmetric] serves_def by (metis F append_eq_conv_conj drop_eq_Nil2 footer_length order_refl take_all)
  then have rd: "file (word_of_nat (length F) - word_of_nat 48) 48 = Some (Footer_EncodeTo [] foot, b)" unfolding off .
  obtain rest where F': "table_file pt opt ess idx = (data_part pt opt ess @ filter_part pt opt ess @ block_bytes pt opt (meta_raw pt opt ess)) @ block_bytes pt opt (block_data 1 idx) @ rest"
    by (simp add: table_file_def)
  obtain bc where bc: "ReadBlock pt file (opt_paranoid_checks opt) (index_handle pt opt ess idx) = Inr bc" "bc_data bc = block_data 1 idx"
    using ReadBlock_block [OF assms(1) assms(2,3) [unfolded F'] index_handle_def [unfolded handle_after_def]] by blast
  show ?thesis
    unfolding F_def [symmetric] using big rd bc footer_roundtrip [of foot "[]"] ReadMeta_opened [OF assms]
    by (simp add: Table_Open_def kEncodedLength_def kMaxEncodedLength_def foot_def)
qed

section \<open>From the index to the block\<close>

lemma internal_le_less: "internal_compare a b \<le> 0 \<Longrightarrow> internal_compare b c < 0 \<Longrightarrow> internal_compare a c < 0"
  and internal_less_le: "internal_compare a b < 0 \<Longrightarrow> internal_compare b c \<le> 0 \<Longrightarrow> internal_compare a c < 0"
  and internal_le_user: "internal_compare a b \<le> 0 \<Longrightarrow> ExtractUserKey a \<le> ExtractUserKey b"
  and internal_not_less: "\<not> internal_compare a b < 0 \<longleftrightarrow> internal_compare b a \<le> 0"
  using internal_compare_order unfolding order.order_iff_strict [of "internal_compare _ _"] by (auto simp: internal_compare_order)

lemma in_order_ends:
  assumes "in_order es" and "e \<in> set es"
  shows "internal_compare (fst (hd es)) (fst e) \<le> 0 \<and> internal_compare (fst e) (fst (last es)) \<le> 0"
proof
  show "internal_compare (fst (hd es)) (fst e) \<le> 0"
    using assms compare_refl by (cases es) (auto simp: in_order_def less_imp_le)
  show "internal_compare (fst e) (fst (last es)) \<le> 0"
    using assms compare_refl by (cases es rule: rev_cases) (auto simp: in_order_def sorted_wrt_append less_imp_le)
qed

lemma concat_split: "i < length ess \<Longrightarrow> concat ess = concat (take i ess) @ ess ! i @ concat (drop (Suc i) ess)"
  using arg_cong [OF id_take_nth_drop [of i ess], of concat] by simp

lemma in_order_append: "in_order (xs @ ys) \<Longrightarrow> in_order xs \<and> in_order ys"
  by (simp add: in_order_def sorted_wrt_append)

lemma in_order_seg: "in_order (concat ess) \<Longrightarrow> i < length ess \<Longrightarrow> in_order (ess ! i) \<and> in_order (concat (drop (Suc i) ess))"
  using in_order_append concat_split [of i ess] by metis

lemma index_sorted:
  assumes "full_index_ok pt opt ess idx" and "in_order (concat ess)"
  shows "sorted_wrt (\<lambda>a b. internal_compare a b < 0) (map fst idx)"
proof -
  have "transp (\<lambda>a b. internal_compare a b < 0)" by (rule transpI) (auto simp: internal_compare_order)
  moreover have "internal_compare (fst (idx ! i)) (fst (idx ! Suc i)) < 0" if "Suc i < length idx" for i
  proof -
    have i: "Suc i < length ess" "index_key_ok (ess ! i) (fst (idx ! i)) (fst (hd (ess ! Suc i)))" "internal_compare (fst (last (ess ! Suc i))) (fst (idx ! Suc i)) \<le> 0"
        "ess ! Suc i \<noteq> []"
      using assms(1) that unfolding full_index_ok_def by (metis Suc_lessD nth_mem)+
    have "internal_compare (fst (hd (ess ! Suc i))) (fst (last (ess ! Suc i))) \<le> 0"
      using in_order_ends [of "ess ! Suc i" "last (ess ! Suc i)"] in_order_seg [OF assms(2) i(1)] i(4) by simp
    then show ?thesis using i(2,3) internal_less_le unfolding index_key_ok_def by blast
  qed
  ultimately show ?thesis by (simp add: sorted_wrt_iff_nth_Suc_transp)
qed

text \<open>The first entry at or after a key.\<close>

definition first_from :: "slice \<Rightarrow> (slice \<times> slice) list \<Rightarrow> (slice \<times> slice) option" where
  "first_from k es = find (\<lambda>e. \<not> internal_compare (fst e) k < 0) es"

lemma first_from_None: "first_from k es = None \<longleftrightarrow> (\<forall>e \<in> set es. internal_compare (fst e) k < 0)"
  by (auto simp: first_from_def find_None_iff)

lemma first_from_append: "first_from k (xs @ ys) = (case first_from k xs of None \<Rightarrow> first_from k ys | Some y \<Rightarrow> Some y)"
  unfolding first_from_def by (rule find_append)

lemma first_from_mem: "first_from k es = Some e \<Longrightarrow> e \<in> set es"
  unfolding first_from_def find_Some_iff using nth_mem by metis

lemma seg_before:
  assumes "full_index_ok pt opt ess idx" and "in_order (concat ess)" and "i < length ess" and "internal_compare (fst (idx ! i)) k < 0"
    and "e \<in> set (ess ! i)"
  shows "internal_compare (fst e) k < 0"
proof -
  have "internal_compare (fst (last (ess ! i))) (fst (idx ! i)) \<le> 0" using assms(1,3) by (simp add: full_index_ok_def)
  then have "internal_compare (fst (last (ess ! i))) k < 0" using assms(4) internal_le_less by blast
  then show ?thesis using in_order_ends [OF conjunct1 [OF in_order_seg [OF assms(2,3)]] assms(5)] internal_le_less by blast
qed

lemma index_None:
  assumes "full_index_ok pt opt ess idx" and "in_order (concat ess)" and "first_from k idx = None"
  shows "first_from k (concat ess) = None"
proof -
  have "internal_compare (fst e) k < 0" if "e \<in> set es" "es \<in> set ess" for e es
  proof -
    obtain i where "i < length ess" "es = ess ! i" using \<open>es \<in> set ess\<close> by (auto simp: in_set_conv_nth)
    then show ?thesis using seg_before [OF assms(1,2), of i k e] assms(1,3) that(1) by (simp add: first_from_None full_index_ok_def)
  qed
  then show ?thesis by (auto simp: first_from_None)
qed

lemma index_Some:
  assumes "full_index_ok pt opt ess idx" and "in_order (concat ess)" and "first_from k idx = Some x"
  shows "\<exists>i < length ess. x = idx ! i \<and> (first_from k (ess ! i) = None \<or> first_from k (ess ! i) = first_from k (concat ess))
    \<and> (\<forall>e. first_from k (concat ess) = Some e \<longrightarrow> ExtractUserKey (fst e) = ExtractUserKey k \<longrightarrow> first_from k (ess ! i) = Some e)"
proof -
  have len: "length idx = length ess" using assms(1) by (simp add: full_index_ok_def)
  obtain i where i: "i < length ess" "\<not> internal_compare (fst (idx ! i)) k < 0" "x = idx ! i" "\<forall>j < i. internal_compare (fst (idx ! j)) k < 0"
    using assms(3) len unfolding first_from_def find_Some_iff by auto
  have "internal_compare (fst e) k < 0" if e: "e \<in> set es" "es \<in> set (take i ess)" for e es
  proof -
    obtain j where "j < i" "es = ess ! j" using e(2) i(1) by (auto simp: in_set_conv_nth)
    then show ?thesis using seg_before [OF assms(1,2), of j k e] i(1,4) e(1) by simp
  qed
  then have "first_from k (concat (take i ess)) = None" by (auto simp: first_from_None)
  then have all: "first_from k (concat ess) = (case first_from k (ess ! i) of None \<Rightarrow> first_from k (concat (drop (Suc i) ess)) | Some y \<Rightarrow> Some y)"
    by (subst concat_split [OF i(1)]) (simp add: first_from_append)
  have "ExtractUserKey (fst e) \<noteq> ExtractUserKey k" if none: "first_from k (ess ! i) = None" and e: "first_from k (concat (drop (Suc i) ess)) = Some e" for e
  proof -
    have rest: "e \<in> set (concat (drop (Suc i) ess))" by (rule first_from_mem [OF e])
    then have suc: "Suc i < length ess" by (cases "Suc i < length ess") auto
    have ne: "[] \<notin> set ess" using assms(1) by (simp add: full_index_ok_def)
    have "internal_compare (fst (last (ess ! i))) k < 0" using none nth_mem [OF i(1)] ne by (metis first_from_None last_in_set)
    then have "fst (idx ! i) \<noteq> fst (last (ess ! i))" using i(2) by auto
    then have "ExtractUserKey (fst (idx ! i)) < ExtractUserKey (fst (hd (ess ! Suc i)))"
      using assms(1) i(1) suc unfolding full_index_ok_def index_key_ok_def by blast
    moreover have "ExtractUserKey k \<le> ExtractUserKey (fst (idx ! i))" using i(2) internal_not_less internal_le_user by blast
    moreover have "ExtractUserKey (fst (hd (ess ! Suc i))) \<le> ExtractUserKey (fst e)"
      using in_order_ends [OF conjunct2 [OF in_order_seg [OF assms(2) i(1)]] rest] hd_concat_drop [OF ne suc] internal_le_user by auto
    ultimately show ?thesis by auto
  qed
  then show ?thesis using i(1,3) all by (intro exI [of _ i]) (auto split: option.splits)
qed

section \<open>Blocks, cache and filter of an open table\<close>

text \<open>What the lookup rests on: a finished file, served without errors.\<close>

definition table_ok :: "port \<Rightarrow> table_options \<Rightarrow> (slice \<times> slice) list list \<Rightarrow> (slice \<times> slice) list \<Rightarrow> random_file \<Rightarrow> table \<Rightarrow> bool" where
  "table_ok pt opt ess idx file t \<longleftrightarrow> port_ok pt \<and> serves file (table_file pt opt ess idx) \<and> length (table_file pt opt ess idx) < 2 ^ 32
     \<and> opt_comparator opt = InternalKeyComparator \<and> 0 < opt_restart_interval opt \<and> table_fits opt (concat ess)
     \<and> full_index_ok pt opt ess idx \<and> in_order (concat ess) \<and> opened pt opt ess idx file t
     \<and> (\<forall>p. opt_filter_policy opt = Some p \<longrightarrow> filter_policy (fp_CreateFilter p) (fp_KeyMayMatch p) (\<lambda>k' k. ExtractUserKey k' = ExtractUserKey k))"

lemma seg_off_Suc: "i < length ess \<Longrightarrow> seg_off pt opt ess (Suc i) = seg_off pt opt ess i + length (seg_bytes pt opt (ess ! i))"
  by (simp add: seg_off_def take_Suc_conv_app_nth)

lemma seg_bytes_long: "5 \<le> length (seg_bytes pt opt es)"
  by (simp add: seg_bytes_def block_bytes_def length_stored split: prod.split)

lemma seg_off_mono: "i < j \<Longrightarrow> j \<le> length ess \<Longrightarrow> seg_off pt opt ess i < seg_off pt opt ess j"
proof (induction j)
  case (Suc j)
  have "seg_off pt opt ess j < seg_off pt opt ess (Suc j)" using seg_off_Suc [of j ess pt opt] seg_bytes_long [of pt opt "ess ! j"] Suc.prems(2) by linarith
  then show ?case using Suc by (cases "i = j") auto
qed simp

lemma seg_off_bound: "i \<le> length ess \<Longrightarrow> seg_off pt opt ess i \<le> length (table_file pt opt ess idx)"
proof -
  assume "i \<le> length ess"
  then have "seg_off pt opt ess i \<le> seg_off pt opt ess (length ess)" using seg_off_mono [of i "length ess" ess pt opt] by (cases "i = length ess") auto
  also have "seg_off pt opt ess (length ess) \<le> length (table_file pt opt ess idx)" by (simp add: seg_off_def table_file_def data_part_def)
  finally show ?thesis .
qed

lemma seg_word:
  assumes "length (table_file pt opt ess idx) < 2 ^ 32" and "i \<le> length ess"
  shows "unat (word_of_nat (seg_off pt opt ess i) :: 64 word) = seg_off pt opt ess i"
  using seg_off_bound [OF assms(2), of pt opt idx] assms(1) by (simp add: unat_of_nat take_bit_nat_eq_self)

lemma EncodeFixed64_inj: "EncodeFixed64 v = EncodeFixed64 w \<Longrightarrow> v = w"
  using DecodeFixed64_Encode by metis

lemma cache_key_inj:
  assumes "length (table_file pt opt ess idx) < 2 ^ 32" and "i < length ess" and "j < length ess"
    and "cache_key t (seg_handle pt opt ess i) = cache_key t (seg_handle pt opt ess j)"
  shows "i = j"
proof -
  have "word_of_nat (seg_off pt opt ess i) = (word_of_nat (seg_off pt opt ess j) :: 64 word)"
    using assms(4) EncodeFixed64_inj by (simp add: cache_key_def seg_handle_def)
  then have "seg_off pt opt ess i = seg_off pt opt ess j" using seg_word [OF assms(1)] assms(2,3) by (metis less_imp_le)
  then show ?thesis using seg_off_mono [of i j ess pt opt] seg_off_mono [of j i ess pt opt] assms(2,3) by (cases i j rule: linorder_cases) auto
qed

definition sound_cache :: "port \<Rightarrow> table_options \<Rightarrow> (slice \<times> slice) list list \<Rightarrow> table \<Rightarrow> block_cache \<Rightarrow> bool" where
  "sound_cache pt opt ess t c \<longleftrightarrow>
     (\<forall>i < length ess. c (cache_key t (seg_handle pt opt ess i)) \<in> {None, Some (Block_new (block_data (opt_restart_interval opt) (ess ! i)))})"

lemma ReadBlock_seg:
  assumes "table_ok pt opt ess idx file t" and "i < length ess"
  shows "\<exists>bc. ReadBlock pt file verify (seg_handle pt opt ess i) = Inr bc \<and> bc_data bc = block_data (opt_restart_interval opt) (ess ! i)"
proof -
  define pre where "pre = concat (map (seg_bytes pt opt) (take i ess))"
  have "data_part pt opt ess = pre @ seg_bytes pt opt (ess ! i) @ concat (map (seg_bytes pt opt) (drop (Suc i) ess))"
    using concat_split [of i "map (seg_bytes pt opt) ess"] assms(2) by (simp add: data_part_def pre_def take_map drop_map)
  then obtain post where F: "table_file pt opt ess idx = pre @ block_bytes pt opt (block_data (opt_restart_interval opt) (ess ! i)) @ post"
    by (simp add: table_file_def seg_bytes_def)
  have h: "seg_handle pt opt ess i = \<lparr>bh_offset = word_of_nat (length pre), bh_size = word_of_nat (length (fst (compressed_form pt opt (block_data (opt_restart_interval opt) (ess ! i)))))\<rparr>"
    by (simp add: seg_handle_def seg_off_def pre_def)
  show ?thesis
    using assms(1) ReadBlock_block [of pt "file" pre opt "block_data (opt_restart_interval opt) (ess ! i)" post "seg_handle pt opt ess i" verify] h
    unfolding table_ok_def F by blast
qed

lemma BlockReader_seg:
  assumes "table_ok pt opt ess idx file t" and "i < length ess" and "sound_cache pt opt ess t c"
  shows "\<exists>c'. BlockReader pt ro t (snd (idx ! i)) c = (Block_NewIterator (Block_new (block_data (opt_restart_interval opt) (ess ! i))), c') \<and> sound_cache pt opt ess t c'"
proof -
  define h where "h = seg_handle pt opt ess i"
  have val: "snd (idx ! i) = BlockHandle_EncodeTo [] h" and tf: "tbl_file t = file" "tbl_options t = opt" and small: "length (table_file pt opt ess idx) < 2 ^ 32"
    using assms(1,2) by (simp_all add: table_ok_def full_index_ok_def opened_def h_def)
  have dec: "BlockHandle_DecodeFrom (snd (idx ! i)) = Inr (h, [])" using handle_roundtrip [of h "[]"] by (simp add: val)
  obtain bc where bc: "ReadBlock pt file (ro_verify_checksums ro) h = Inr bc" "bc_data bc = block_data (opt_restart_interval opt) (ess ! i)"
    using ReadBlock_seg [OF assms(1,2)] unfolding h_def by blast
  have upd: "sound_cache pt opt ess t (c(cache_key t h \<mapsto> Block_new (block_data (opt_restart_interval opt) (ess ! i))))"
    using assms(3) cache_key_inj [OF small _ assms(2)] unfolding sound_cache_def h_def by auto
  have hit: "c (cache_key t h) \<in> {None, Some (Block_new (block_data (opt_restart_interval opt) (ess ! i)))}" using assms(2,3) by (simp add: sound_cache_def h_def)
  then have "\<exists>c'. find_block pt ro t h c = (Inr (Block_new (block_data (opt_restart_interval opt) (ess ! i))), c') \<and> sound_cache pt opt ess t c'"
    using bc upd assms(3) by (auto simp: find_block_def tf Let_def)
  then show ?thesis unfolding BlockReader_def dec by auto
qed

lemma filter_keeps:
  assumes "table_ok pt opt ess idx file t" and "i < length ess" and "e \<in> set (ess ! i)" and "ExtractUserKey k = ExtractUserKey (fst e)"
  shows "\<not> filter_excludes t (snd (idx ! i)) k"
proof (cases "opt_filter_policy opt")
  case None
  then show ?thesis using assms(1) by (simp add: table_ok_def opened_def filter_excludes_def seg_filters_def)
next
  case (Some p)
  define calls where "calls = filter_calls pt opt ess []"
  define fs where "fs = filter_block (fp_CreateFilter p) calls"
  have small: "length (table_file pt opt ess idx) < 2 ^ 32" using assms(1) by (simp add: table_ok_def)
  have pol: "filter_policy (fp_CreateFilter p) (fp_KeyMayMatch p) (\<lambda>k' k. ExtractUserKey k' = ExtractUserKey k)" using assms(1) Some by (simp add: table_ok_def)
  have t: "tbl_filter t = Some (FilterBlockReader fs)" "tbl_options t = opt"
    using assms(1) Some by (simp_all add: table_ok_def opened_def seg_filters_def fs_def calls_def)
  have dec: "BlockHandle_DecodeFrom (snd (idx ! i)) = Inr (seg_handle pt opt ess i, [])"
    using assms(1,2) handle_roundtrip [of "seg_handle pt opt ess i" "[]"] by (simp add: table_ok_def full_index_ok_def)
  have "sorted (map fst calls)"
  proof (rule sorted_iff_nth_mono [THEN iffD2], intro allI impI)
    fix a b assume ab: "a \<le> b" "b < length (map fst calls)"
    then have "unat (word_of_nat (seg_off pt opt ess a) :: 64 word) \<le> unat (word_of_nat (seg_off pt opt ess b) :: 64 word)"
      using seg_off_mono [of a b ess pt opt] seg_word [OF small] by (cases "a = b") (simp_all add: calls_def filter_calls_def)
    then show "map fst calls ! a \<le> map fst calls ! b" using ab by (simp add: calls_def filter_calls_def word_le_nat_alt del: upt_Suc)
  qed
  moreover have "length fs < 2 ^ 32"
    using small Some by (simp add: table_file_def filter_part_def seg_filters_def fs_def calls_def length_stored)
  moreover have "(word_of_nat (seg_off pt opt ess i), map fst (ess ! i)) \<in> set calls"
    using assms(2) unfolding calls_def filter_calls_def set_map by (intro image_eqI [of _ _ i]) (simp_all add: nth_append)
  moreover have "fst e \<in> set (map fst (ess ! i))" using assms(3) by simp
  ultimately have "fr_KeyMayMatch (fp_KeyMayMatch p) (word_of_nat (seg_off pt opt ess i)) k (FilterBlockReader fs)"
    unfolding fs_def using filter_policy.filter_block_match [OF pol] assms(4) by blast
  then show ?thesis using t dec Some by (simp add: filter_excludes_def seg_handle_def)
qed

lemma idx_size:
  assumes "full_index_ok pt opt ess idx"
  shows "raw_size idx \<le> entries_size (concat ess)"
proof -
  have len: "length idx = length ess" using assms by (simp add: full_index_ok_def)
  have one: "length (fst (idx ! i)) + length (snd (idx ! i)) + 19 \<le> entries_size (ess ! i)" if "i < length ess" for i
  proof -
    have i: "snd (idx ! i) = BlockHandle_EncodeTo [] (seg_handle pt opt ess i)" "length (fst (idx ! i)) \<le> length (fst (last (ess ! i)))" "ess ! i \<noteq> []"
      using assms that nth_mem [OF that] unfolding full_index_ok_def by (metis that)+
    then show ?thesis using entries_size_mem [OF last_in_set [OF i(3)]] handle_length [of "seg_handle pt opt ess i"] by simp
  qed
  have "raw_size idx = sum_list (map (\<lambda>i. length (fst (idx ! i)) + length (snd (idx ! i)) + 19) [0..<length ess])"
    unfolding raw_size_def len [symmetric] by (rule arg_cong [of _ _ sum_list]) (rule nth_equalityI, simp_all)
  also have "\<dots> \<le> sum_list (map (\<lambda>i. entries_size (ess ! i)) [0..<length ess])" by (rule sum_list_mono) (simp add: one)
  also have "map (\<lambda>i. entries_size (ess ! i)) [0..<length ess] = map entries_size ess" by (rule nth_equalityI) simp_all
  finally show ?thesis by (simp add: entries_size_concat)
qed

lemma idx_fits: "full_index_ok pt opt ess idx \<Longrightarrow> entries_size (concat ess) + 8 < 2 ^ 32 \<Longrightarrow> block_fits 1 idx"
  using idx_size [of pt opt ess idx] by (intro block_fits_size) simp_all

lemma Seek_first:
  assumes "block_fits I es" and "sorted_wrt (\<lambda>a b. internal_compare a b < 0) (map fst es)"
  shows "any_entry (any_Seek internal_compare k (Block_NewIterator (Block_new (block_data I es)))) = first_from k es
    \<and> any_status (any_Seek internal_compare k (Block_NewIterator (Block_new (block_data I es)))) = None"
  using internal_order.Seek_block [OF assms(1) _ TrueI, of k] assms(2) by (simp add: internal_order.lane_ok_def first_from_def)

text \<open>What \<open>InternalGet\<close> promises: the first entry at or after the key when it has the key's user key;
  otherwise that entry or nothing.\<close>

definition found_ok :: "(slice \<times> slice) list \<Rightarrow> slice \<Rightarrow> (slice \<times> slice) option \<Rightarrow> bool" where
  "found_ok es k found \<longleftrightarrow> (found = None \<or> found = first_from k es)
     \<and> (\<forall>e. first_from k es = Some e \<longrightarrow> ExtractUserKey (fst e) = ExtractUserKey k \<longrightarrow> found = Some e)"

lemma InternalGet_ok:
  assumes "table_ok pt opt ess idx file t" and "sound_cache pt opt ess t c"
  shows "\<exists>found c'. InternalGet pt ro t k c = (None, found, c') \<and> found_ok (concat ess) k found \<and> sound_cache pt opt ess t c'"
proof -
  note ok = assms(1) [unfolded table_ok_def]
  have t: "tbl_options t = opt" "tbl_index_block t = Block_new (block_data 1 idx)" "cmp_Compare (opt_comparator opt) = internal_compare"
    using ok by (simp_all add: opened_def InternalKeyComparator_def)
  have size: "entries_size (concat ess) + 8 < 2 ^ 32" using ok by (simp add: table_fits_def)
  define iiter where "iiter = any_Seek internal_compare k (Block_NewIterator (Block_new (block_data 1 idx)))"
  have ii: "any_entry iiter = first_from k idx" "any_status iiter = None"
    using Seek_first [OF idx_fits [OF _ size] index_sorted] ok unfolding iiter_def by blast+
  note get = InternalGet_def [of pt ro t k c, unfolded t Let_def iiter_def [symmetric] ii]
  show ?thesis
  proof (cases "first_from k idx")
    case None
    have "first_from k (concat ess) = None" using index_None [OF _ _ None] ok by blast
    then show ?thesis using None assms(2) by (simp add: get found_ok_def)
  next
    case (Some x)
    obtain i where i: "i < length ess" "x = idx ! i" "first_from k (ess ! i) = None \<or> first_from k (ess ! i) = first_from k (concat ess)"
        "\<forall>e. first_from k (concat ess) = Some e \<longrightarrow> ExtractUserKey (fst e) = ExtractUserKey k \<longrightarrow> first_from k (ess ! i) = Some e"
      using index_Some [OF _ _ Some] ok by blast
    obtain ik hv where x: "idx ! i = (ik, hv)" by fastforce
    have some: "first_from k idx = Some (ik, hv)" using Some i(2) x by simp
    show ?thesis
    proof (cases "filter_excludes t (snd (idx ! i)) k")
      case True
      have "ExtractUserKey (fst e) \<noteq> ExtractUserKey k" if "first_from k (concat ess) = Some e" for e
        using filter_keeps [OF assms(1) i(1), of e k] first_from_mem [of k "ess ! i" e] i(4) that True by metis
      then show ?thesis using True some x assms(2) by (simp add: get found_ok_def)
    next
      case False
      obtain c' where c': "BlockReader pt ro t (snd (idx ! i)) c = (Block_NewIterator (Block_new (block_data (opt_restart_interval opt) (ess ! i))), c')"
          "sound_cache pt opt ess t c'"
        using BlockReader_seg [OF assms(1) i(1) assms(2)] by blast
      have "raw_size (ess ! i) + 8 < 2 ^ 32"
        using raw_size_le [of "ess ! i"] entries_size_part [OF nth_mem [OF i(1)]] size by linarith
      then have "block_fits (opt_restart_interval opt) (ess ! i)" using ok by (intro block_fits_size) simp_all
      from Seek_first [OF this, of k] in_order_seg [OF _ i(1)] ok
      show ?thesis using False some x c' i(3,4) by (simp add: get found_ok_def in_order_def)
    qed
  qed
qed

section \<open>Lookups in a finished table\<close>

text \<open>
  The contents of the block cache while a table is open: nothing under the table's identity at
  first, then what lookups insert; the cache may drop an entry and hold blocks of other tables.
\<close>

inductive table_cache :: "port \<Rightarrow> table \<Rightarrow> block_cache \<Rightarrow> bool" for pt t where
  cache_start: "(\<And>h. c (cache_key t h) = None) \<Longrightarrow> table_cache pt t c"
| cache_lookup: "table_cache pt t c \<Longrightarrow> table_cache pt t (snd (snd (InternalGet pt ro t k c)))"
| cache_evict: "table_cache pt t c \<Longrightarrow> table_cache pt t (c(key := None))"
| cache_other: "table_cache pt t c \<Longrightarrow> take 8 key \<noteq> EncodeFixed64 (tbl_cache_id t) \<Longrightarrow> table_cache pt t (c(key \<mapsto> block))"

lemma table_cache_sound:
  assumes "table_ok pt opt ess idx file t"
  shows "table_cache pt t c \<Longrightarrow> sound_cache pt opt ess t c"
proof (induction rule: table_cache.induct)
  case (cache_lookup c ro k)
  then show ?case using InternalGet_ok [OF assms cache_lookup.IH, of ro k] by auto
next
  case (cache_other c key block)
  have "cache_key t h \<noteq> key" for h using cache_other.hyps(2) by (auto simp: cache_key_def)
  then show ?case using cache_other.IH by (simp add: sound_cache_def)
qed (simp_all add: sound_cache_def)

lemma finished_table:
  assumes "port_ok pt" and "opt_comparator opt = InternalKeyComparator" and "0 < opt_restart_interval opt"
    and "\<forall>p. opt_filter_policy opt = Some p \<longrightarrow> filter_policy (fp_CreateFilter p) (fp_KeyMayMatch p) (\<lambda>k' k. ExtractUserKey k' = ExtractUserKey k)"
    and "in_order es" and "table_fits opt es" and "lf_bytes f = []" and "r = tb_Finish pt (add_all pt es (TableBuilder opt f))" and "tb_ok r"
    and "length (lf_bytes (tb_file r)) < 2 ^ 32" and "serves file (lf_bytes (tb_file r))"
  shows "\<exists>t ess idx. Table_Open pt new_id opt file (FileSize r) = Inr t \<and> table_ok pt opt ess idx file t \<and> concat ess = es"
proof -
  have "tb_ok (add_all pt es (TableBuilder opt f))" using assms(8,9) Finish_stays_failed by blast
  then obtain ess0 idx0 cur where st: "tb_state pt opt ess0 idx0 cur (add_all pt es (TableBuilder opt f))" "concat ess0 @ cur = es"
    using add_all_state [OF assms(7,2,3,5)] by blast
  obtain ess idx where fin: "full_index_ok pt opt ess idx" "concat ess = es" "lf_bytes (tb_file r) = table_file pt opt ess idx"
      "tb_offset r = word_of_nat (length (table_file pt opt ess idx))"
    using Finish_file [OF st(1) assms(2,3)] assms(5,8,9) st(2) by auto
  obtain t where t: "Table_Open pt new_id opt file (FileSize r) = Inr t" "opened pt opt ess idx file t"
    using Open_table [OF assms(1) _ _ assms(3,6), of "file" ess idx new_id] assms(10,11) fin(3,4) by (auto simp: FileSize_def)
  then have "table_ok pt opt ess idx file t" using assms fin by (simp add: table_ok_def)
  then show ?thesis using t(1) fin(2) by blast
qed

text \<open>C32. A table file answers lookups from its entries.  For entries in key order, any block size,
  restart interval, compression and filter policy that satisfies the contract, if \<open>Finish\<close> reports
  no error then the file opens, and \<open>InternalGet\<close> succeeds for every key: it returns the first entry
  at or after the key when that entry has the key's user key, and otherwise that entry or none,
  whatever earlier lookups, evictions and other tables have left in the block cache.\<close>

theorem table_lookup:
  assumes "port_ok pt" and "opt_comparator opt = InternalKeyComparator" and "0 < opt_restart_interval opt"
    and "\<forall>p. opt_filter_policy opt = Some p \<longrightarrow> filter_policy (fp_CreateFilter p) (fp_KeyMayMatch p) (\<lambda>k' k. ExtractUserKey k' = ExtractUserKey k)"
    and "in_order es" and "table_fits opt es" and "lf_bytes f = []" and "r = tb_Finish pt (add_all pt es (TableBuilder opt f))" and "tb_ok r"
    and "length (lf_bytes (tb_file r)) < 2 ^ 32" and "serves file (lf_bytes (tb_file r))"
  shows "\<exists>t. Table_Open pt new_id opt file (FileSize r) = Inr t
    \<and> (\<forall>c ro k. table_cache pt t c \<longrightarrow> (\<exists>found c'. InternalGet pt ro t k c = (None, found, c') \<and> found_ok es k found))"
proof -
  obtain t ess idx where t: "Table_Open pt new_id opt file (FileSize r) = Inr t" "table_ok pt opt ess idx file t" "concat ess = es"
    using finished_table [OF assms] by blast
  then show ?thesis using InternalGet_ok [OF t(2)] table_cache_sound [OF t(2)] by blast
qed

definition sample_port :: port where
  "sample_port = \<lparr>Snappy_Compress = \<lambda>x. None, Snappy_GetUncompressedLength = \<lambda>x. None, Snappy_Uncompress = \<lambda>x. None,
     Zstd_Compress = \<lambda>l x. None, Zstd_GetUncompressedLength = \<lambda>x. None, Zstd_Uncompress = \<lambda>x. None, crc_Extend = \<lambda>c x. c\<rparr>"

definition sample_options :: table_options where
  "sample_options = \<lparr>opt_comparator = InternalKeyComparator, opt_paranoid_checks = True, opt_block_cache = True, opt_block_size = 40,
     opt_restart_interval = 16, opt_compression = kSnappyCompression, opt_zstd_level = 1, opt_filter_policy = None\<rparr>"

definition sample_table :: table_builder where
  "sample_table = tb_Finish sample_port (add_all sample_port sample_entries (TableBuilder sample_options \<lparr>lf_bytes = [], lf_outcomes = []\<rparr>))"

definition sample_file :: random_file where
  "sample_file off n = Some (take n (drop (unat off) (lf_bytes (tb_file sample_table))), True)"

theorem table_lookup_witness:
  "\<exists>t. Table_Open sample_port 7 sample_options sample_file (FileSize sample_table) = Inr t
    \<and> (\<exists>found c'. InternalGet sample_port \<lparr>ro_verify_checksums = True, ro_fill_cache = True\<rparr> t (fst (sample_entries ! 1)) Map.empty = (None, found, c')
        \<and> found = Some (sample_entries ! 1))"
proof -
  have order: "in_order sample_entries" by code_simp
  have "entries_size sample_entries < 1000" by code_simp
  then have fits: "table_fits sample_options sample_entries" by (simp add: table_fits_def sample_options_def)
  have ok: "tb_ok sample_table" by code_simp
  have "length (lf_bytes (tb_file sample_table)) < 1000" by code_simp
  then have size: "length (lf_bytes (tb_file sample_table)) < 2 ^ 32" by simp
  have port: "port_ok sample_port" by (simp add: port_ok_def sample_port_def crc_extends_def)
  have srv: "serves sample_file (lf_bytes (tb_file sample_table))" by (auto simp: serves_def sample_file_def)
  have first: "first_from (fst (sample_entries ! 1)) sample_entries = Some (sample_entries ! 1)" by code_simp
  have "\<exists>t. Table_Open sample_port 7 sample_options sample_file (FileSize sample_table) = Inr t
    \<and> (\<forall>c ro k. table_cache sample_port t c \<longrightarrow> (\<exists>found c'. InternalGet sample_port ro t k c = (None, found, c') \<and> found_ok sample_entries k found))"
    by (rule table_lookup [OF port _ _ _ order fits _ sample_table_def ok size srv]) (simp_all add: sample_options_def)
  then obtain t where t: "Table_Open sample_port 7 sample_options sample_file (FileSize sample_table) = Inr t"
      "\<And>c ro k. table_cache sample_port t c \<Longrightarrow> \<exists>found c'. InternalGet sample_port ro t k c = (None, found, c') \<and> found_ok sample_entries k found"
    by blast
  have "table_cache sample_port t Map.empty" by (rule cache_start) simp
  from t(2) [OF this] t(1) first show ?thesis unfolding found_ok_def by metis
qed

end
