(* ===== verification/Ldb_Version.thy ===== *)
theory Ldb_Version
  imports Complex_Main Ldb_Edit Ldb_Lookup
begin

text \<open>
  A version of the database (\<open>class Version\<close> of \<open>src/leveldb/db/version_set.cc\<close>): the table
  files of every level, the search for a key through them, the files that overlap a range of keys, and
  the choice of a level for a new file.  The lookup in one file, \<open>TableCache::Get\<close>, is an argument of
  the search; its laws are a locale.  Levels and indices are natural numbers, sizes are 64-bit words, and the
  compaction score is a rational.
\<close>

section \<open>Files in order\<close>

abbreviation smallest_user :: "FileMetaData \<Rightarrow> slice" where
  "smallest_user f \<equiv> ExtractUserKey (fm_smallest f)"

abbreviation largest_user :: "FileMetaData \<Rightarrow> slice" where
  "largest_user f \<equiv> ExtractUserKey (fm_largest f)"

definition TotalFileSize :: "FileMetaData list \<Rightarrow> 64 word" where
  "TotalFileSize files = fold (\<lambda>f sum. sum + fm_file_size f) files 0"

definition MaxGrandParentOverlapBytes :: "64 word \<Rightarrow> 64 word" where
  "MaxGrandParentOverlapBytes max_file_size = 10 * max_file_size"

function find_file_loop :: "FileMetaData list \<Rightarrow> slice \<Rightarrow> nat \<Rightarrow> nat \<Rightarrow> nat" where
  "find_file_loop files key left right =
     (if left < right
      then let mid = (left + right) div 2 in
        if internal_compare (fm_largest (files ! mid)) key < 0 then find_file_loop files key (mid + 1) right
        else find_file_loop files key left mid
      else right)"
  by pat_completeness auto
termination
  by (relation "measure (\<lambda>(files, key, left, right). right - left)") auto

declare find_file_loop.simps [simp del]

definition FindFile :: "FileMetaData list \<Rightarrow> slice \<Rightarrow> nat" where
  "FindFile files key = find_file_loop files key 0 (length files)"

text \<open>A null pointer to a user key is \<open>None\<close>.\<close>

definition AfterFile :: "slice option \<Rightarrow> FileMetaData \<Rightarrow> bool" where
  "AfterFile user_key f = (case user_key of Some k \<Rightarrow> slice_compare k (largest_user f) > 0 | None \<Rightarrow> False)"

definition BeforeFile :: "slice option \<Rightarrow> FileMetaData \<Rightarrow> bool" where
  "BeforeFile user_key f = (case user_key of Some k \<Rightarrow> slice_compare k (smallest_user f) < 0 | None \<Rightarrow> False)"

definition SomeFileOverlapsRange :: "bool \<Rightarrow> FileMetaData list \<Rightarrow> slice option \<Rightarrow> slice option \<Rightarrow> bool" where
  "SomeFileOverlapsRange disjoint_sorted_files files smallest_user_key largest_user_key =
     (if \<not> disjoint_sorted_files
      then list_ex (\<lambda>f. \<not> (AfterFile smallest_user_key f \<or> BeforeFile largest_user_key f)) files
      else let index = (case smallest_user_key of
                          Some k \<Rightarrow> FindFile files (AppendInternalKey [] \<lparr>pk_user_key = k, pk_sequence = kMaxSequenceNumber, pk_type = kValueTypeForSeek\<rparr>)
                        | None \<Rightarrow> 0)
           in if index \<ge> length files then False else \<not> BeforeFile largest_user_key (files ! index))"

section \<open>The files of a level as an iterator\<close>

record level_iter =
  li_files :: "FileMetaData list"
  li_index :: nat

definition LevelFileNumIterator :: "FileMetaData list \<Rightarrow> level_iter" where
  "LevelFileNumIterator flist = \<lparr>li_files = flist, li_index = length flist\<rparr>"

definition li_Valid :: "level_iter \<Rightarrow> bool" where
  "li_Valid it \<longleftrightarrow> li_index it < length (li_files it)"

definition li_Seek :: "slice \<Rightarrow> level_iter \<Rightarrow> level_iter" where
  "li_Seek target it = it\<lparr>li_index := FindFile (li_files it) target\<rparr>"

definition li_SeekToFirst :: "level_iter \<Rightarrow> level_iter" where
  "li_SeekToFirst it = it\<lparr>li_index := 0\<rparr>"

definition li_SeekToLast :: "level_iter \<Rightarrow> level_iter" where
  "li_SeekToLast it = it\<lparr>li_index := (if li_files it = [] then 0 else length (li_files it) - 1)\<rparr>"

definition li_Next :: "level_iter \<Rightarrow> level_iter" where
  "li_Next it = it\<lparr>li_index := li_index it + 1\<rparr>"

definition li_Prev :: "level_iter \<Rightarrow> level_iter" where
  "li_Prev it = it\<lparr>li_index := (if li_index it = 0 then length (li_files it) else li_index it - 1)\<rparr>"

definition li_key :: "level_iter \<Rightarrow> slice" where
  "li_key it = fm_largest (li_files it ! li_index it)"

definition li_value :: "level_iter \<Rightarrow> slice" where
  "li_value it = (let f = li_files it ! li_index it in EncodeFixed64 (fm_number f) @ EncodeFixed64 (fm_file_size f))"

section \<open>Versions\<close>

record version =
  v_files :: "nat \<Rightarrow> FileMetaData list"
  v_file_to_compact :: "FileMetaData option"
  v_file_to_compact_level :: int
  v_compaction_score :: rat
  v_compaction_level :: int

definition Version_new :: version where
  "Version_new = \<lparr>v_files = \<lambda>level. [], v_file_to_compact = None, v_file_to_compact_level = -1,
     v_compaction_score = -1, v_compaction_level = -1\<rparr>"

section \<open>Searching\<close>

text \<open>The callback returns whether to go on.\<close>

type_synonym 's file_visitor = "nat \<Rightarrow> FileMetaData \<Rightarrow> 's \<Rightarrow> bool \<times> 's"

primrec visit_files :: "'s file_visitor \<Rightarrow> nat \<Rightarrow> FileMetaData list \<Rightarrow> 's \<Rightarrow> bool \<times> 's" where
  "visit_files func level [] st = (True, st)"
| "visit_files func level (f # fs) st =
     (case func level f st of (go, st) \<Rightarrow> if go then visit_files func level fs st else (False, st))"

text \<open>File numbers are unique, so the sort has one result.\<close>

definition newest_first :: "FileMetaData list \<Rightarrow> FileMetaData list" where
  "newest_first tmp = rev (sort_key fm_number tmp)"

definition visit_level :: "slice \<Rightarrow> slice \<Rightarrow> 's file_visitor \<Rightarrow> FileMetaData list \<Rightarrow> nat \<Rightarrow> 's \<Rightarrow> bool \<times> 's" where
  "visit_level user_key internal_key func files level st =
     (let index = FindFile files internal_key in
      if index < length files
      then let f = files ! index in
        if slice_compare user_key (smallest_user f) < 0 then (True, st) else func level f st
      else (True, st))"

primrec visit_levels :: "slice \<Rightarrow> slice \<Rightarrow> 's file_visitor \<Rightarrow> version \<Rightarrow> nat list \<Rightarrow> 's \<Rightarrow> 's" where
  "visit_levels user_key internal_key func v [] st = st"
| "visit_levels user_key internal_key func v (level # levels) st =
     (case visit_level user_key internal_key func (v_files v level) level st of
        (go, st) \<Rightarrow> if go then visit_levels user_key internal_key func v levels st else st)"

definition level0_candidates :: "slice \<Rightarrow> version \<Rightarrow> FileMetaData list" where
  "level0_candidates user_key v =
     filter (\<lambda>f. slice_compare user_key (smallest_user f) \<ge> 0 \<and> slice_compare user_key (largest_user f) \<le> 0) (v_files v 0)"

definition ForEachOverlapping :: "slice \<Rightarrow> slice \<Rightarrow> 's file_visitor \<Rightarrow> version \<Rightarrow> 's \<Rightarrow> 's" where
  "ForEachOverlapping user_key internal_key func v st =
     (case visit_files func 0 (newest_first (level0_candidates user_key v)) st of
        (go, st) \<Rightarrow> if go then visit_levels user_key internal_key func v [1..<kNumLevels] st else st)"

datatype SaverState = kNotFound | kFound | kDeleted | kCorrupt

record Saver =
  sv_state :: SaverState
  sv_user_key :: slice
  sv_value :: slice

definition SaveValue :: "slice \<Rightarrow> slice \<Rightarrow> Saver \<Rightarrow> Saver" where
  "SaveValue ikey v s =
     (case ParseInternalKey ikey of
        None \<Rightarrow> s\<lparr>sv_state := kCorrupt\<rparr>
      | Some parsed_key \<Rightarrow>
          if slice_compare (pk_user_key parsed_key) (sv_user_key s) = 0
          then if pk_type parsed_key = kTypeValue then s\<lparr>sv_state := kFound, sv_value := v\<rparr> else s\<lparr>sv_state := kDeleted\<rparr>
          else s)"

record GetStats =
  seek_file :: "FileMetaData option"
  seek_file_level :: int

text \<open>\<open>TableCache::Get\<close> for one file: the status, the entry handed to the callback, and the caches.\<close>

type_synonym 'c table_get = "64 word \<Rightarrow> 64 word \<Rightarrow> slice \<Rightarrow> 'c \<Rightarrow> ldb_error option \<times> (slice \<times> slice) option \<times> 'c"

record 'c get_state =
  gs_saver :: Saver
  gs_stats :: GetStats
  gs_ikey :: slice
  gs_last_file_read :: "FileMetaData option"
  gs_last_file_read_level :: int
  gs_caches :: 'c
  gs_s :: "ldb_error option"
  gs_found :: bool

definition Get_Match :: "'c table_get \<Rightarrow> 'c get_state file_visitor" where
  "Get_Match get level f state =
     (let state = (if seek_file (gs_stats state) = None \<and> gs_last_file_read state \<noteq> None
                   then state\<lparr>gs_stats := \<lparr>seek_file = gs_last_file_read state, seek_file_level = gs_last_file_read_level state\<rparr>\<rparr>
                   else state);
          state = state\<lparr>gs_last_file_read := Some f, gs_last_file_read_level := int level\<rparr>;
          (s, found, caches) = get (fm_number f) (fm_file_size f) (gs_ikey state) (gs_caches state);
          state = state\<lparr>gs_s := s, gs_caches := caches,
                        gs_saver := (case found of Some (k, v) \<Rightarrow> SaveValue k v (gs_saver state) | None \<Rightarrow> gs_saver state)\<rparr>
      in if s \<noteq> None then (False, state\<lparr>gs_found := True\<rparr>)
         else case sv_state (gs_saver state) of
                kNotFound \<Rightarrow> (True, state)
              | kFound \<Rightarrow> (False, state\<lparr>gs_found := True\<rparr>)
              | kDeleted \<Rightarrow> (False, state)
              | kCorrupt \<Rightarrow> (False, state\<lparr>gs_s := Some (kCorruption (''corrupted key for : '' @ map (char_of \<circ> unat) (sv_user_key (gs_saver state)))), gs_found := True\<rparr>))"

datatype get_status = GetOk slice | GetNotFound | GetError ldb_error

text \<open>The status with the value, the statistics for \<open>UpdateStats\<close>, and the caches.\<close>

definition Version_Get :: "'c table_get \<Rightarrow> LookupKey \<Rightarrow> version \<Rightarrow> 'c \<Rightarrow> get_status \<times> GetStats \<times> 'c" where
  "Version_Get get k v caches =
     (let state = \<lparr>gs_saver = \<lparr>sv_state = kNotFound, sv_user_key = lk_user_key k, sv_value = []\<rparr>,
                   gs_stats = \<lparr>seek_file = None, seek_file_level = -1\<rparr>, gs_ikey = lk_internal_key k,
                   gs_last_file_read = None, gs_last_file_read_level = -1, gs_caches = caches, gs_s = None, gs_found = False\<rparr>;
          state = ForEachOverlapping (lk_user_key k) (lk_internal_key k) (Get_Match get) v state
      in (if gs_found state then (case gs_s state of None \<Rightarrow> GetOk (sv_value (gs_saver state)) | Some e \<Rightarrow> GetError e) else GetNotFound,
          gs_stats state, gs_caches state))"

text \<open>The file charged with a seek is shared between versions: it is returned with its new count.\<close>

definition UpdateStats :: "GetStats \<Rightarrow> version \<Rightarrow> bool \<times> FileMetaData option \<times> version" where
  "UpdateStats stats v =
     (case seek_file stats of
        None \<Rightarrow> (False, None, v)
      | Some f \<Rightarrow>
          let f = f\<lparr>fm_allowed_seeks := fm_allowed_seeks f - 1\<rparr> in
          if fm_allowed_seeks f \<le> 0 \<and> v_file_to_compact v = None
          then (True, Some f, v\<lparr>v_file_to_compact := Some f, v_file_to_compact_level := seek_file_level stats\<rparr>)
          else (False, Some f, v))"

definition Sample_Match :: "(nat \<times> GetStats) file_visitor" where
  "Sample_Match level f st =
     (let matches = fst st + 1;
          stats = (if matches = 1 then \<lparr>seek_file = Some f, seek_file_level = int level\<rparr> else snd st)
      in (matches < 2, (matches, stats)))"

definition RecordReadSample :: "slice \<Rightarrow> version \<Rightarrow> bool \<times> FileMetaData option \<times> version" where
  "RecordReadSample internal_key v =
     (case ParseInternalKey internal_key of
        None \<Rightarrow> (False, None, v)
      | Some ikey \<Rightarrow>
          let (matches, stats) = ForEachOverlapping (pk_user_key ikey) internal_key Sample_Match v (0, \<lparr>seek_file = None, seek_file_level = -1\<rparr>)
          in if matches \<ge> 2 then UpdateStats stats v else (False, None, v))"

section \<open>Overlapping files\<close>

definition starts_below :: "FileMetaData list \<Rightarrow> slice option \<Rightarrow> nat" where
  "starts_below files b = (case b of Some k \<Rightarrow> length (filter (\<lambda>f. smallest_user f < k) files) | None \<Rightarrow> 0)"

definition ends_above :: "FileMetaData list \<Rightarrow> slice option \<Rightarrow> nat" where
  "ends_above files e = (case e of Some k \<Rightarrow> length (filter (\<lambda>f. k < largest_user f) files) | None \<Rightarrow> 0)"

lemma length_filter_less:
  assumes "f \<in> set files" and "P f" and "\<not> Q f" and "\<And>g. Q g \<Longrightarrow> P g"
  shows "length (filter Q files) < length (filter P files)"
  using assms(1)
proof (induction files)
  case (Cons g files)
  have mono: "length (filter Q xs) \<le> length (filter P xs)" for xs using assms(4) by (induction xs) (auto simp: le_SucI)
  show ?case using Cons mono [of files] assms(2,3,4) by (auto simp: less_Suc_eq_le)
qed simp

lemma starts_below_less: "f \<in> set files \<Longrightarrow> smallest_user f < k \<Longrightarrow> starts_below files (Some (smallest_user f)) < starts_below files (Some k)"
  unfolding starts_below_def option.case by (rule length_filter_less [of f]) auto

lemma ends_above_less: "f \<in> set files \<Longrightarrow> k < largest_user f \<Longrightarrow> ends_above files (Some (largest_user f)) < ends_above files (Some k)"
  unfolding ends_above_def option.case by (rule length_filter_less [of f]) auto

text \<open>A restart happens only when the range grew to the bound of another file.\<close>

function overlap_loop :: "bool \<Rightarrow> FileMetaData list \<Rightarrow> slice option \<Rightarrow> slice option \<Rightarrow> nat \<Rightarrow> FileMetaData list \<Rightarrow> FileMetaData list" where
  "overlap_loop level0 files user_begin user_end i inputs =
     (if i < length files
      then let f = files ! i; file_start = smallest_user f; file_limit = largest_user f in
        if (case user_begin of Some b \<Rightarrow> slice_compare file_limit b < 0 | None \<Rightarrow> False)
        then overlap_loop level0 files user_begin user_end (i + 1) inputs
        else if (case user_end of Some e \<Rightarrow> slice_compare file_start e > 0 | None \<Rightarrow> False)
        then overlap_loop level0 files user_begin user_end (i + 1) inputs
        else if level0 \<and> (case user_begin of Some b \<Rightarrow> slice_compare file_start b < 0 | None \<Rightarrow> False)
        then overlap_loop level0 files (Some file_start) user_end 0 []
        else if level0 \<and> (case user_end of Some e \<Rightarrow> slice_compare file_limit e > 0 | None \<Rightarrow> False)
        then overlap_loop level0 files user_begin (Some file_limit) 0 []
        else overlap_loop level0 files user_begin user_end (i + 1) (inputs @ [f])
      else inputs)"
  by pat_completeness auto
termination
  by (relation "measures [\<lambda>(level0, files, b, e, i, inputs). starts_below files b + ends_above files e,
        \<lambda>(level0, files, b, e, i, inputs). length files - i]")
     (auto simp: slice_compare_order starts_below_less ends_above_less split: option.splits)

declare overlap_loop.simps [simp del]

definition GetOverlappingInputs :: "nat \<Rightarrow> slice option \<Rightarrow> slice option \<Rightarrow> version \<Rightarrow> FileMetaData list" where
  "GetOverlappingInputs level bgn fin v =
     overlap_loop (level = 0) (v_files v level) (map_option ExtractUserKey bgn) (map_option ExtractUserKey fin) 0 []"

definition OverlapInLevel :: "nat \<Rightarrow> slice option \<Rightarrow> slice option \<Rightarrow> version \<Rightarrow> bool" where
  "OverlapInLevel level smallest_user_key largest_user_key v =
     SomeFileOverlapsRange (level > 0) (v_files v level) smallest_user_key largest_user_key"

definition kMaxMemCompactLevel :: nat where "kMaxMemCompactLevel = 2"

function pick_level :: "64 word \<Rightarrow> slice \<Rightarrow> slice \<Rightarrow> version \<Rightarrow> nat \<Rightarrow> nat" where
  "pick_level max_file_size smallest_user_key largest_user_key v level =
     (if level < kMaxMemCompactLevel
      then if OverlapInLevel (level + 1) (Some smallest_user_key) (Some largest_user_key) v then level
        else if level + 2 < kNumLevels \<and>
          sint (TotalFileSize (GetOverlappingInputs (level + 2)
            (Some (AppendInternalKey [] \<lparr>pk_user_key = smallest_user_key, pk_sequence = kMaxSequenceNumber, pk_type = kValueTypeForSeek\<rparr>))
            (Some (AppendInternalKey [] \<lparr>pk_user_key = largest_user_key, pk_sequence = 0, pk_type = kTypeDeletion\<rparr>)) v))
          > sint (MaxGrandParentOverlapBytes max_file_size)
        then level
        else pick_level max_file_size smallest_user_key largest_user_key v (level + 1)
      else level)"
  by pat_completeness auto
termination
  by (relation "measure (\<lambda>(m, a, b, v, level). kMaxMemCompactLevel - level)") auto

declare pick_level.simps [simp del]

definition PickLevelForMemTableOutput :: "64 word \<Rightarrow> slice \<Rightarrow> slice \<Rightarrow> version \<Rightarrow> nat" where
  "PickLevelForMemTableOutput max_file_size smallest_user_key largest_user_key v =
     (if OverlapInLevel 0 (Some smallest_user_key) (Some largest_user_key) v then 0
      else pick_level max_file_size smallest_user_key largest_user_key v 0)"


end
