(* ===== verification/Ldb_Search.thy ===== *)
theory Ldb_Search
  imports Ldb_Version
begin

text \<open>
  What the search of \<open>Ldb_Version\<close> returns.  The entries of a version are runs in search order: each
  file of level 0, the newest first, then each deeper level as a whole.  A read is answered by the first
  run that holds the key, provided the lookup in one file keeps its contract.
\<close>

section \<open>Files and their entries\<close>

lemma internal_less_trans: "internal_compare a b < 0 \<Longrightarrow> internal_compare b c < 0 \<Longrightarrow> internal_compare a c < 0"
  by (auto simp: internal_compare_order)

lemma internal_not_less_trans: "\<not> internal_compare b a < 0 \<Longrightarrow> internal_compare b c < 0 \<Longrightarrow> internal_compare a c < 0"
  by (auto simp: internal_compare_order not_less)

lemma internal_user_mono: "\<not> internal_compare b a < 0 \<Longrightarrow> ExtractUserKey a \<le> ExtractUserKey b"
  by (auto simp: internal_compare_order not_less)

definition meta_ok :: "(64 word \<Rightarrow> (slice \<times> slice) list) \<Rightarrow> FileMetaData \<Rightarrow> bool" where
  "meta_ok contents f \<longleftrightarrow> (let es = contents (fm_number f) in
     es \<noteq> [] \<and> in_order es \<and> fm_smallest f = fst (hd es) \<and> fm_largest f = fst (last es) \<and>
     (\<forall>e \<in> set es. ParseInternalKey (fst e) \<noteq> None))"

definition disjoint_files :: "FileMetaData list \<Rightarrow> bool" where
  "disjoint_files files \<longleftrightarrow> sorted_wrt (\<lambda>f g. internal_compare (fm_largest f) (fm_smallest g) < 0) files"

definition version_ok :: "(64 word \<Rightarrow> (slice \<times> slice) list) \<Rightarrow> version \<Rightarrow> bool" where
  "version_ok contents v \<longleftrightarrow> (\<forall>level < kNumLevels. \<forall>f \<in> set (v_files v level). meta_ok contents f) \<and>
     (\<forall>level < kNumLevels. 0 < level \<longrightarrow> disjoint_files (v_files v level))"

abbreviation entries_of :: "(64 word \<Rightarrow> (slice \<times> slice) list) \<Rightarrow> FileMetaData \<Rightarrow> (slice \<times> slice) list" where
  "entries_of contents f \<equiv> contents (fm_number f)"

lemma in_order_bounds:
  assumes "in_order es" and "e \<in> set es"
  shows "\<not> internal_compare (fst e) (fst (hd es)) < 0" and "\<not> internal_compare (fst (last es)) (fst e) < 0"
proof -
  have s: "sorted_wrt (\<lambda>a b. internal_compare a b < 0) (map fst es)" using assms(1) by (simp add: in_order_def)
  show "\<not> internal_compare (fst e) (fst (hd es)) < 0"
    using s assms(2) by (cases es) (auto simp: internal_compare_order)
  show "\<not> internal_compare (fst (last es)) (fst e) < 0"
    using s assms(2) by (cases es rule: rev_cases) (auto simp: internal_compare_order sorted_wrt_append)
qed

lemma meta_bounds:
  assumes "meta_ok contents f" and "e \<in> set (entries_of contents f)"
  shows "\<not> internal_compare (fst e) (fm_smallest f) < 0" and "\<not> internal_compare (fm_largest f) (fst e) < 0"
    and "smallest_user f \<le> ExtractUserKey (fst e)" and "ExtractUserKey (fst e) \<le> largest_user f"
  using in_order_bounds [of "entries_of contents f" e] internal_user_mono assms by (auto simp: meta_ok_def Let_def)

lemma meta_range: "meta_ok contents f \<Longrightarrow> \<not> internal_compare (fm_largest f) (fm_smallest f) < 0"
  using meta_bounds(2) [of contents f "hd (entries_of contents f)"] by (auto simp: meta_ok_def Let_def)

definition level_run :: "(64 word \<Rightarrow> (slice \<times> slice) list) \<Rightarrow> FileMetaData list \<Rightarrow> (slice \<times> slice) list" where
  "level_run contents files = concat (map (entries_of contents) files)"

lemma largest_sorted:
  assumes "disjoint_files files" and "\<forall>f \<in> set files. meta_ok contents f" and "i < j" and "j < length files"
  shows "internal_compare (fm_largest (files ! i)) (fm_largest (files ! j)) < 0"
proof -
  have "internal_compare (fm_largest (files ! i)) (fm_smallest (files ! j)) < 0"
    using assms(1,3,4) unfolding disjoint_files_def by (rule sorted_wrt_nth_less)
  moreover have "\<not> internal_compare (fm_largest (files ! j)) (fm_smallest (files ! j)) < 0" using meta_range [of contents "files ! j"] assms(2,4) by simp
  ultimately show ?thesis by (auto simp: internal_compare_order not_less)
qed

text \<open>The binary search finds the first file that reaches the key.\<close>

lemma find_file_loop_first:
  assumes "\<And>i j. i < j \<Longrightarrow> j < length files \<Longrightarrow> internal_compare (fm_largest (files ! j)) key < 0 \<Longrightarrow> internal_compare (fm_largest (files ! i)) key < 0"
    and "left \<le> right" and "right \<le> length files"
    and "\<forall>i < left. internal_compare (fm_largest (files ! i)) key < 0"
    and "right < length files \<longrightarrow> \<not> internal_compare (fm_largest (files ! right)) key < 0"
    and "r = find_file_loop files key left right"
  shows "r \<le> length files \<and> (\<forall>i < r. internal_compare (fm_largest (files ! i)) key < 0)
    \<and> (r < length files \<longrightarrow> \<not> internal_compare (fm_largest (files ! r)) key < 0)"
  using assms
proof (induction files key left right rule: find_file_loop.induct)
  case (1 files key left right)
  let ?mid = "(left + right) div 2"
  show ?case
  proof (cases "left < right")
    case True
    then have mid: "left \<le> ?mid" "?mid < right" by auto
    show ?thesis
    proof (cases "internal_compare (fm_largest (files ! ?mid)) key < 0")
      case below: True
      have left: "\<forall>i < ?mid + 1. internal_compare (fm_largest (files ! i)) key < 0"
      proof (intro allI impI)
        fix i
        assume "i < ?mid + 1"
        then show "internal_compare (fm_largest (files ! i)) key < 0"
          using "1.prems"(1) [of i ?mid] mid(2) "1.prems"(3) below by (cases "i = ?mid") auto
      qed
      have "find_file_loop files key left right = find_file_loop files key (?mid + 1) right"
        by (subst find_file_loop.simps) (simp add: Let_def True below)
      with "1.prems"(6) have r: "r = find_file_loop files key (?mid + 1) right" by simp
      show ?thesis by (rule "1.IH"(1) [OF True refl below "1.prems"(1) _ "1.prems"(3) left "1.prems"(5) r]) (use mid in auto)
    next
      case False
      have "find_file_loop files key left right = find_file_loop files key left ?mid"
        by (subst find_file_loop.simps) (simp add: Let_def True False)
      with "1.prems"(6) have r: "r = find_file_loop files key left ?mid" by simp
      show ?thesis by (rule "1.IH"(2) [OF True refl False "1.prems"(1) mid(1) _ "1.prems"(4) _ r]) (use mid "1.prems"(3) False in auto)
    qed
  next
    case False
    then show ?thesis using "1.prems" by (subst (asm) find_file_loop.simps) auto
  qed
qed

lemma FindFile_first:
  assumes "disjoint_files files" and "\<forall>f \<in> set files. meta_ok contents f"
  shows "FindFile files key \<le> length files"
    and "i < FindFile files key \<Longrightarrow> internal_compare (fm_largest (files ! i)) key < 0"
    and "FindFile files key < length files \<Longrightarrow> \<not> internal_compare (fm_largest (files ! FindFile files key)) key < 0"
proof -
  have "internal_compare (fm_largest (files ! i)) key < 0"
    if "i < j" "j < length files" "internal_compare (fm_largest (files ! j)) key < 0" for i j
    using largest_sorted [OF assms that(1,2)] that(3) internal_less_trans by blast
  from find_file_loop_first [OF this, where left = 0 and right = "length files" and r = "FindFile files key"]
  show "FindFile files key \<le> length files"
    and "i < FindFile files key \<Longrightarrow> internal_compare (fm_largest (files ! i)) key < 0"
    and "FindFile files key < length files \<Longrightarrow> \<not> internal_compare (fm_largest (files ! FindFile files key)) key < 0"
    by (auto simp: FindFile_def)
qed

section \<open>Runs\<close>

text \<open>The answer of a run of entries in key order.\<close>

definition run_hit :: "slice \<Rightarrow> (slice \<times> slice) list \<Rightarrow> (slice \<times> slice) option" where
  "run_hit k es = (case first_from k es of Some e \<Rightarrow> if ExtractUserKey (fst e) = ExtractUserKey k then Some e else None | None \<Rightarrow> None)"

primrec runs_hit :: "slice \<Rightarrow> (slice \<times> slice) list list \<Rightarrow> (slice \<times> slice) option" where
  "runs_hit k [] = None"
| "runs_hit k (es # ess) = (case run_hit k es of None \<Rightarrow> runs_hit k ess | Some e \<Rightarrow> Some e)"

lemma runs_hit_append: "runs_hit k (xs @ ys) = (case runs_hit k xs of None \<Rightarrow> runs_hit k ys | Some e \<Rightarrow> Some e)"
  by (induction xs) (auto split: option.splits)

lemma run_hit_no_user: "(\<And>e. e \<in> set es \<Longrightarrow> ExtractUserKey (fst e) \<noteq> ExtractUserKey k) \<Longrightarrow> run_hit k es = None"
  using first_from_mem by (fastforce simp: run_hit_def split: option.splits)

lemma run_hit_found: "found_ok es k found \<Longrightarrow> run_hit k es = Some e \<Longrightarrow> found = Some e"
  by (auto simp: run_hit_def found_ok_def split: option.splits if_splits)

lemma run_hit_other:
  assumes "found_ok es k found" and "run_hit k es = None" and "found = Some e"
  shows "e \<in> set es \<and> ExtractUserKey (fst e) \<noteq> ExtractUserKey k"
  using assms first_from_mem by (fastforce simp: run_hit_def found_ok_def split: option.splits if_splits)

lemma level_run_split: "level_run contents (a @ f # b) = level_run contents a @ entries_of contents f @ level_run contents b"
  by (simp add: level_run_def)

text \<open>In a sorted level only the file found by the search can answer.\<close>

lemma level_hit:
  assumes "disjoint_files files" and "\<forall>f \<in> set files. meta_ok contents f"
  shows "run_hit k (level_run contents files) =
    (if FindFile files k < length files then run_hit k (entries_of contents (files ! FindFile files k)) else None)"
proof -
  note first = FindFile_first [OF assms, where key = k]
  let ?i = "FindFile files k"
  have before: "first_from k (level_run contents (take ?i files)) = None"
  proof -
    have "internal_compare (fst e) k < 0" if f: "f \<in> set (take ?i files)" and e: "e \<in> set (entries_of contents f)" for f e
    proof -
      obtain j where "j < length (take ?i files)" "f = take ?i files ! j" using f unfolding in_set_conv_nth by blast
      then have "j < ?i" "f = files ! j" by auto
      then have largest: "internal_compare (fm_largest f) k < 0" using first(2) by simp
      have "meta_ok contents f" using assms(2) in_set_takeD [OF f] by blast
      from meta_bounds(2) [OF this e] largest show ?thesis by (rule internal_not_less_trans)
    qed
    then show ?thesis unfolding first_from_None level_run_def set_concat set_map by blast
  qed
  show ?thesis
  proof (cases "?i < length files")
    case True
    let ?f = "files ! ?i"
    have ok: "meta_ok contents ?f" using True assms(2) by simp
    have "first_from k (entries_of contents ?f) \<noteq> None"
    proof
      assume none: "first_from k (entries_of contents ?f) = None"
      have "last (entries_of contents ?f) \<in> set (entries_of contents ?f)" "fm_largest ?f = fst (last (entries_of contents ?f))"
        using ok by (simp_all add: meta_ok_def Let_def)
      then show False using first(3) [OF True] none first_from_None by metis
    qed
    then obtain e where e: "first_from k (entries_of contents ?f) = Some e" by blast
    have "level_run contents files = level_run contents (take ?i files) @ entries_of contents ?f @ level_run contents (drop (Suc ?i) files)"
      using arg_cong [OF id_take_nth_drop [OF True], of "level_run contents"] unfolding level_run_split .
    then have "first_from k (level_run contents files) = first_from k (entries_of contents ?f)"
      by (simp only: first_from_append before e option.case)
    then show ?thesis using True by (simp add: run_hit_def)
  next
    case False
    then have "take ?i files = files" using first(1) by simp
    then show ?thesis using before False by (simp add: run_hit_def)
  qed
qed

section \<open>The search\<close>

text \<open>A visit whose lookup succeeds, with the bookkeeping for the statistics left out.\<close>

lemma Get_Match_read:
  assumes "get (fm_number f) (fm_file_size f) (gs_ikey st) (gs_caches st) = (None, found, c')"
    and "sv = (case found of Some (k, v) \<Rightarrow> SaveValue k v (gs_saver st) | None \<Rightarrow> gs_saver st)" and "sv_state sv \<noteq> kCorrupt"
  shows "\<exists>st'. gs_saver st' = sv \<and> gs_s st' = None \<and> gs_caches st' = c' \<and> gs_ikey st' = gs_ikey st
    \<and> gs_found st' = (gs_found st \<or> sv_state sv = kFound) \<and> Get_Match get level f st = (sv_state sv = kNotFound, st')"
proof -
  define st1 where "st1 = (if seek_file (gs_stats st) = None \<and> gs_last_file_read st \<noteq> None
     then st\<lparr>gs_stats := \<lparr>seek_file = gs_last_file_read st, seek_file_level = gs_last_file_read_level st\<rparr>\<rparr> else st)
       \<lparr>gs_last_file_read := Some f, gs_last_file_read_level := int level\<rparr>"
  have st1: "gs_saver st1 = gs_saver st" "gs_ikey st1 = gs_ikey st" "gs_caches st1 = gs_caches st" "gs_found st1 = gs_found st"
    by (simp_all add: st1_def)
  define st2 where "st2 = st1\<lparr>gs_s := None, gs_caches := c', gs_saver := sv\<rparr>"
  have st2: "gs_saver st2 = sv" "gs_s st2 = None" "gs_caches st2 = c'" "gs_ikey st2 = gs_ikey st" "gs_found st2 = gs_found st"
    by (simp_all add: st2_def st1)
  have "Get_Match get level f st = (case sv_state sv of kFound \<Rightarrow> (False, st2\<lparr>gs_found := True\<rparr>) | kNotFound \<Rightarrow> (True, st2) | _ \<Rightarrow> (False, st2))"
    unfolding Get_Match_def Let_def st1_def [symmetric] st1 assms(1) prod.case assms(2) [symmetric] st2_def [symmetric] st2(1)
    using assms(3) by (cases "sv_state sv") simp_all
  then show ?thesis using assms(3) st2 by (cases "sv_state sv") (auto intro!: exI [of _ "st2\<lparr>gs_found := True\<rparr>"])
qed

text \<open>What the search asks of the lookup in one file, with \<open>reader n\<close> for caches that allow \<open>n\<close> more lookups.\<close>

locale file_reader =
  fixes get :: "'c table_get"
    and reader :: "nat \<Rightarrow> 'c \<Rightarrow> bool"
    and files :: "FileMetaData set"
    and contents :: "64 word \<Rightarrow> (slice \<times> slice) list"
  assumes reader_less: "reader n c \<Longrightarrow> m \<le> n \<Longrightarrow> reader m c"
    and get_ok: "reader (Suc n) c \<Longrightarrow> f \<in> files \<Longrightarrow>
      \<exists>found c'. get (fm_number f) (fm_file_size f) k c = (None, found, c') \<and> found_ok (contents (fm_number f)) k found \<and> reader n c'"
begin

definition searching :: "slice \<Rightarrow> nat \<Rightarrow> 'c get_state \<Rightarrow> bool" where
  "searching k n st \<longleftrightarrow> sv_state (gs_saver st) = kNotFound \<and> sv_user_key (gs_saver st) = ExtractUserKey k \<and> gs_ikey st = k
     \<and> \<not> gs_found st \<and> reader n (gs_caches st)"

definition answered :: "slice \<times> slice \<Rightarrow> nat \<Rightarrow> 'c get_state \<Rightarrow> bool" where
  "answered e n st \<longleftrightarrow> reader n (gs_caches st) \<and>
     (if map_option pk_type (ParseInternalKey (fst e)) = Some kTypeValue
      then gs_found st \<and> gs_s st = None \<and> sv_value (gs_saver st) = snd e else \<not> gs_found st)"

definition outcome :: "slice \<Rightarrow> nat \<Rightarrow> (slice \<times> slice) option \<Rightarrow> bool \<times> 'c get_state \<Rightarrow> bool" where
  "outcome k n hit r \<longleftrightarrow> (case hit of None \<Rightarrow> fst r \<and> searching k n (snd r) | Some e \<Rightarrow> \<not> fst r \<and> answered e n (snd r))"

lemma searching_less: "searching k n st \<Longrightarrow> m \<le> n \<Longrightarrow> searching k m st"
  using reader_less by (auto simp: searching_def)

lemma outcome_less: "outcome k n hit r \<Longrightarrow> m \<le> n \<Longrightarrow> outcome k m hit r"
  using reader_less by (auto simp: outcome_def searching_def answered_def split: option.splits)

lemma Match_outcome:
  assumes "searching k (Suc n) st" and "f \<in> files" and "meta_ok contents f"
  shows "outcome k n (run_hit k (entries_of contents f)) (Get_Match get level f st)"
proof -
  obtain found c' where g: "get (fm_number f) (fm_file_size f) k (gs_caches st) = (None, found, c')"
      "found_ok (entries_of contents f) k found" "reader n c'"
    using get_ok assms(1,2) unfolding searching_def by blast
  have parse: "\<exists>p. ParseInternalKey (fst e) = Some p \<and> pk_user_key p = ExtractUserKey (fst e)" if "e \<in> set (entries_of contents f)" for e
  proof -
    have "ParseInternalKey (fst e) \<noteq> None" using assms(3) that by (simp add: meta_ok_def Let_def)
    then show ?thesis by (auto simp: ParseInternalKey_def Let_def ExtractUserKey_def split: if_splits)
  qed
  have st: "sv_state (gs_saver st) = kNotFound" "sv_user_key (gs_saver st) = ExtractUserKey k" "gs_ikey st = k" "\<not> gs_found st"
    using assms(1) by (simp_all add: searching_def)
  define sv where "sv = (case found of Some (k, v) \<Rightarrow> SaveValue k v (gs_saver st) | None \<Rightarrow> gs_saver st)"
  have saved: "sv = (case run_hit k (entries_of contents f) of
      Some e \<Rightarrow> if map_option pk_type (ParseInternalKey (fst e)) = Some kTypeValue
                 then (gs_saver st)\<lparr>sv_state := kFound, sv_value := snd e\<rparr> else (gs_saver st)\<lparr>sv_state := kDeleted\<rparr>
    | None \<Rightarrow> gs_saver st)"
  proof (cases "run_hit k (entries_of contents f)")
    case None
    then show ?thesis using parse run_hit_other [OF g(2) None] st(2)
      by (cases found) (fastforce simp: sv_def SaveValue_def slice_compare_order)+
  next
    case (Some e)
    have e: "e \<in> set (entries_of contents f)" "ExtractUserKey (fst e) = ExtractUserKey k"
      using Some first_from_mem by (auto simp: run_hit_def split: option.splits if_splits)
    obtain p where "ParseInternalKey (fst e) = Some p" "pk_user_key p = ExtractUserKey k" using parse [OF e(1)] e(2) by auto
    then show ?thesis using run_hit_found [OF g(2) Some] Some st(2)
      by (cases e) (simp add: sv_def SaveValue_def slice_compare_order)
  qed
  then have "sv_state sv \<noteq> kCorrupt" using st(1) by (auto split: option.splits)
  then obtain st' where st': "gs_saver st' = sv" "gs_s st' = None" "gs_caches st' = c'" "gs_ikey st' = k"
      "gs_found st' = (sv_state sv = kFound)" "Get_Match get level f st = (sv_state sv = kNotFound, st')"
    using Get_Match_read [of get f st found c' sv level] g(1) sv_def st by auto
  show ?thesis
  proof (cases "run_hit k (entries_of contents f)")
    case None
    then have "sv = gs_saver st" using saved by simp
    then show ?thesis using None st st' g(3) by (simp add: outcome_def searching_def)
  next
    case (Some e)
    then show ?thesis using saved st' g(3) by (cases "map_option pk_type (ParseInternalKey (fst e)) = Some kTypeValue") (simp_all add: outcome_def answered_def)
  qed
qed

lemma visit_files_outcome:
  assumes "searching k (length fs + n) st" and "\<forall>f \<in> set fs. f \<in> files \<and> meta_ok contents f"
  shows "outcome k n (runs_hit k (map (entries_of contents) fs)) (visit_files (Get_Match get) level fs st)"
  using assms
proof (induction fs arbitrary: st)
  case Nil
  then show ?case by (simp add: outcome_def)
next
  case (Cons f fs)
  have m: "outcome k (length fs + n) (run_hit k (entries_of contents f)) (Get_Match get level f st)"
    using Match_outcome [of k "length fs + n" st f level] Cons.prems by simp
  show ?case
  proof (cases "run_hit k (entries_of contents f)")
    case None
    then show ?thesis using m Cons.IH [of "snd (Get_Match get level f st)"] Cons.prems(2)
      by (cases "Get_Match get level f st") (simp add: outcome_def)
  next
    case (Some e)
    then show ?thesis using outcome_less [OF m, of n] by (cases "Get_Match get level f st") (simp add: outcome_def)
  qed
qed

lemma visit_level_outcome:
  assumes "searching k (Suc n) st" and "disjoint_files fs" and "\<forall>f \<in> set fs. f \<in> files \<and> meta_ok contents f"
  shows "outcome k n (run_hit k (level_run contents fs)) (visit_level (ExtractUserKey k) k (Get_Match get) fs level st)"
proof -
  let ?i = "FindFile fs k"
  have hit: "run_hit k (level_run contents fs) = (if ?i < length fs then run_hit k (entries_of contents (fs ! ?i)) else None)"
    by (rule level_hit) (use assms in auto)
  show ?thesis
  proof (cases "?i < length fs")
    case True
    have f: "fs ! ?i \<in> files" "meta_ok contents (fs ! ?i)" using True assms(3) by auto
    show ?thesis
    proof (cases "slice_compare (ExtractUserKey k) (smallest_user (fs ! ?i)) < 0")
      case past: True
      then have "run_hit k (entries_of contents (fs ! ?i)) = None"
        using meta_bounds(3) [OF f(2)] by (intro run_hit_no_user) (fastforce simp: slice_compare_order)
      then show ?thesis using True past hit searching_less [OF assms(1), of n] by (simp add: visit_level_def outcome_def Let_def)
    next
      case False
      then show ?thesis using True hit Match_outcome [OF assms(1) f, of level] by (simp add: visit_level_def Let_def)
    qed
  next
    case False
    then show ?thesis using hit searching_less [OF assms(1), of n] by (simp add: visit_level_def outcome_def Let_def)
  qed
qed

text \<open>The entries in search order, and the answer they give.\<close>

lemma visit_levels_outcome:
  assumes "searching k (length levels + n) st"
    and "\<forall>l \<in> set levels. disjoint_files (v_files v l) \<and> (\<forall>f \<in> set (v_files v l). f \<in> files \<and> meta_ok contents f)"
  shows "\<exists>go. outcome k n (runs_hit k (map (\<lambda>l. level_run contents (v_files v l)) levels))
    (go, visit_levels (ExtractUserKey k) k (Get_Match get) v levels st)"
  using assms
proof (induction levels arbitrary: st)
  case Nil
  then show ?case by (auto simp: outcome_def intro!: exI [of _ True])
next
  case (Cons l levels)
  let ?r = "visit_level (ExtractUserKey k) k (Get_Match get) (v_files v l) l st"
  have m: "outcome k (length levels + n) (run_hit k (level_run contents (v_files v l))) ?r"
    by (rule visit_level_outcome) (use Cons.prems in auto)
  show ?case
  proof (cases "run_hit k (level_run contents (v_files v l))")
    case None
    then show ?thesis using m Cons.IH [of "snd ?r"] Cons.prems(2) by (cases ?r) (simp add: outcome_def)
  next
    case (Some e)
    then show ?thesis using outcome_less [OF m, of n] by (cases ?r) (auto simp: outcome_def)
  qed
qed

end

definition search_runs :: "(64 word \<Rightarrow> (slice \<times> slice) list) \<Rightarrow> version \<Rightarrow> (slice \<times> slice) list list" where
  "search_runs contents v = map (entries_of contents) (newest_first (v_files v 0)) @ map (\<lambda>l. level_run contents (v_files v l)) [1..<kNumLevels]"

definition answer_of :: "(slice \<times> slice) option \<Rightarrow> get_status" where
  "answer_of hit = (case hit of
     Some (k, v) \<Rightarrow> if map_option pk_type (ParseInternalKey k) = Some kTypeValue then GetOk v else GetNotFound
   | None \<Rightarrow> GetNotFound)"

text \<open>Files of level 0 outside the key's range have no entry for it.\<close>

lemma runs_hit_filter:
  assumes "\<And>f. f \<in> set fs \<Longrightarrow> \<not> P f \<Longrightarrow> run_hit k (entries_of contents f) = None"
  shows "runs_hit k (map (entries_of contents) (filter P fs)) = runs_hit k (map (entries_of contents) fs)"
  using assms by (induction fs) (auto split: option.splits)

lemma newest_first_filter: "newest_first (filter P fs) = filter P (newest_first fs)"
  by (simp only: newest_first_def filter_sort [symmetric] rev_filter)

lemma set_newest_first [simp]: "set (newest_first fs) = set fs"
  by (simp add: newest_first_def)

lemma length_newest_first [simp]: "length (newest_first fs) = length fs"
  by (simp add: newest_first_def)

lemma level0_hit:
  assumes "\<forall>f \<in> set (v_files v 0). meta_ok contents f"
  shows "runs_hit k (map (entries_of contents) (newest_first (level0_candidates (ExtractUserKey k) v))) =
    runs_hit k (map (entries_of contents) (newest_first (v_files v 0)))"
proof -
  have "run_hit k (entries_of contents f) = None"
    if "f \<in> set (v_files v 0)" "\<not> (slice_compare (ExtractUserKey k) (smallest_user f) \<ge> 0 \<and> slice_compare (ExtractUserKey k) (largest_user f) \<le> 0)" for f
  proof (rule run_hit_no_user)
    fix e
    assume "e \<in> set (entries_of contents f)"
    moreover have "ExtractUserKey k < smallest_user f \<or> largest_user f < ExtractUserKey k"
      using that(2) slice_compare_order [of "ExtractUserKey k"] by (auto simp: not_le)
    ultimately show "ExtractUserKey (fst e) \<noteq> ExtractUserKey k" using meta_bounds(3,4) [of contents f e] assms that(1) by fastforce
  qed
  then show ?thesis unfolding level0_candidates_def newest_first_filter by (intro runs_hit_filter) simp
qed

context file_reader
begin

lemma Version_Get_runs:
  assumes "version_ok contents v" and "\<forall>l < kNumLevels. set (v_files v l) \<subseteq> files"
    and "reader (length (v_files v 0) + kNumLevels + n) c" and "lk_user_key k = ExtractUserKey (lk_internal_key k)"
  shows "\<exists>stats c'. Version_Get get k v c = (answer_of (runs_hit (lk_internal_key k) (search_runs contents v)), stats, c') \<and> reader n c'"
proof -
  let ?k = "lk_internal_key k"
  define st where "st = \<lparr>gs_saver = \<lparr>sv_state = kNotFound, sv_user_key = lk_user_key k, sv_value = []\<rparr>,
     gs_stats = \<lparr>seek_file = None, seek_file_level = -1\<rparr>, gs_ikey = ?k,
     gs_last_file_read = None, gs_last_file_read_level = -1, gs_caches = c, gs_s = None, gs_found = False\<rparr>"
  let ?fs = "newest_first (level0_candidates (ExtractUserKey ?k) v)"
  have levels_pos: "0 < kNumLevels" by (simp add: kNumLevels_def)
  have len: "length ?fs \<le> length (v_files v 0)" by (simp add: level0_candidates_def)
  have "searching ?k (length ?fs + (length [1..<kNumLevels] + n)) st"
    using reader_less [OF assms(3)] len assms(4) by (simp add: searching_def st_def kNumLevels_def)
  moreover have zero: "set (v_files v 0) \<subseteq> files" "\<forall>f \<in> set (v_files v 0). meta_ok contents f"
    using assms(1,2) levels_pos unfolding version_ok_def by blast+
  then have "\<forall>f \<in> set ?fs. f \<in> files \<and> meta_ok contents f" by (auto simp: level0_candidates_def)
  ultimately have o1: "outcome ?k (length [1..<kNumLevels] + n) (runs_hit ?k (map (entries_of contents) ?fs)) (visit_files (Get_Match get) 0 ?fs st)"
    by (rule visit_files_outcome)
  have h0: "runs_hit ?k (map (entries_of contents) ?fs) = runs_hit ?k (map (entries_of contents) (newest_first (v_files v 0)))"
    by (rule level0_hit [OF zero(2)])
  define fin where "fin = ForEachOverlapping (ExtractUserKey ?k) ?k (Get_Match get) v st"
  have "\<exists>go. outcome ?k n (runs_hit ?k (search_runs contents v)) (go, fin)"
  proof (cases "runs_hit ?k (map (entries_of contents) (newest_first (v_files v 0)))")
    case None
    let ?st = "snd (visit_files (Get_Match get) 0 ?fs st)"
    have go: "fst (visit_files (Get_Match get) 0 ?fs st)" "searching ?k (length [1..<kNumLevels] + n) ?st"
      using o1 h0 None by (auto simp: outcome_def)
    have "\<exists>go. outcome ?k n (runs_hit ?k (map (\<lambda>l. level_run contents (v_files v l)) [1..<kNumLevels]))
        (go, visit_levels (ExtractUserKey ?k) ?k (Get_Match get) v [1..<kNumLevels] ?st)"
      by (rule visit_levels_outcome [OF go(2)]) (use assms(1,2) in \<open>auto simp: version_ok_def\<close>)
    then show ?thesis using go(1) None
      by (cases "visit_files (Get_Match get) 0 ?fs st") (simp add: fin_def ForEachOverlapping_def search_runs_def runs_hit_append)
  next
    case (Some e)
    then show ?thesis using outcome_less [OF o1, of n] h0
      by (cases "visit_files (Get_Match get) 0 ?fs st") (auto simp: outcome_def fin_def ForEachOverlapping_def search_runs_def runs_hit_append)
  qed
  then have "(if gs_found fin then (case gs_s fin of None \<Rightarrow> GetOk (sv_value (gs_saver fin)) | Some e \<Rightarrow> GetError e) else GetNotFound)
      = answer_of (runs_hit ?k (search_runs contents v)) \<and> reader n (gs_caches fin)"
    by (auto simp: outcome_def searching_def answered_def answer_of_def split: option.splits if_splits)
  then show ?thesis unfolding Version_Get_def Let_def assms(4) st_def [symmetric, unfolded assms(4)] fin_def [symmetric] by auto
qed

end

section \<open>The newest entry\<close>

text \<open>An entry that a read at the sequence number of \<open>k\<close> may see.\<close>

definition visible_to :: "slice \<Rightarrow> slice \<times> slice \<Rightarrow> bool" where
  "visible_to k e \<longleftrightarrow> ExtractUserKey (fst e) = ExtractUserKey k \<and> key_tag (fst e) \<le> key_tag k"

definition newest_in :: "(slice \<times> slice) set \<Rightarrow> slice \<Rightarrow> (slice \<times> slice) option \<Rightarrow> bool" where
  "newest_in E k hit = (case hit of
     None \<Rightarrow> \<forall>e \<in> E. \<not> visible_to k e
   | Some e \<Rightarrow> e \<in> E \<and> visible_to k e \<and> (\<forall>e' \<in> E. visible_to k e' \<longrightarrow> key_tag (fst e') \<le> key_tag (fst e)))"

text \<open>Later runs hold older entries of every user key.\<close>

definition recent :: "(slice \<times> slice) list list \<Rightarrow> bool" where
  "recent runs \<longleftrightarrow> sorted_wrt (\<lambda>xs ys. \<forall>a \<in> set xs. \<forall>b \<in> set ys. ExtractUserKey (fst a) = ExtractUserKey (fst b) \<longrightarrow> key_tag (fst b) < key_tag (fst a)) runs"

lemma visible_from: "visible_to k e \<longleftrightarrow> ExtractUserKey (fst e) = ExtractUserKey k \<and> \<not> internal_compare (fst e) k < 0"
  by (auto simp: visible_to_def internal_compare_order)

lemma first_from_least:
  assumes "in_order es" and "first_from k es = Some e" and "e' \<in> set es" and "\<not> internal_compare (fst e') k < 0"
  shows "e' = e \<or> internal_compare (fst e) (fst e') < 0"
  using assms
proof (induction es)
  case (Cons x es)
  have o: "in_order es" "\<forall>y \<in> set es. internal_compare (fst x) (fst y) < 0" using Cons.prems(1) by (simp_all add: in_order_def)
  show ?case
  proof (cases "internal_compare (fst x) k < 0")
    case True
    then have "first_from k es = Some e" "e' \<in> set es" using Cons.prems(2,3,4) by (auto simp: first_from_def)
    then show ?thesis using Cons.IH o(1) Cons.prems(4) by blast
  next
    case False
    then have "e = x" using Cons.prems(2) by (simp add: first_from_def)
    then show ?thesis using Cons.prems(3) o(2) by auto
  qed
qed (simp add: first_from_def)

lemma run_hit_newest: "in_order es \<Longrightarrow> newest_in (set es) k (run_hit k es)"
proof -
  assume o: "in_order es"
  show ?thesis
  proof (cases "first_from k es")
    case None
    then have "\<forall>e \<in> set es. internal_compare (fst e) k < 0" by (simp only: first_from_None)
    then show ?thesis using None by (simp add: run_hit_def newest_in_def visible_from)
  next
    case (Some e)
    have e: "e \<in> set es" "\<not> internal_compare (fst e) k < 0"
      using first_from_mem [OF Some] Some by (auto simp: first_from_def find_Some_iff)
    note least = first_from_least [OF o Some]
    show ?thesis
    proof (cases "ExtractUserKey (fst e) = ExtractUserKey k")
      case True
      have "key_tag (fst e') \<le> key_tag (fst e)" if "e' \<in> set es" "visible_to k e'" for e'
        using least [OF that(1)] that(2) True by (auto simp: visible_from internal_compare_order)
      then show ?thesis using Some True e by (simp add: run_hit_def newest_in_def visible_from)
    next
      case False
      have "\<not> visible_to k e'" if "e' \<in> set es" for e'
      proof
        assume v: "visible_to k e'"
        then have "e' \<noteq> e" using False by (auto simp: visible_to_def)
        then have "internal_compare (fst e) (fst e') < 0" using least [OF that] v by (simp add: visible_from)
        then show False using v e(2) False by (auto simp: visible_from internal_compare_order)
      qed
      then show ?thesis using Some False by (simp add: run_hit_def newest_in_def)
    qed
  qed
qed

lemma newest_in_union:
  assumes "newest_in A k (Some e)" and "\<forall>a \<in> A. \<forall>b \<in> B. ExtractUserKey (fst a) = ExtractUserKey (fst b) \<longrightarrow> key_tag (fst b) < key_tag (fst a)"
  shows "newest_in (A \<union> B) k (Some e)"
  using assms by (auto simp: newest_in_def visible_to_def) fastforce

lemma newest_in_skip: "newest_in B k hit \<Longrightarrow> \<forall>a \<in> A. \<not> visible_to k a \<Longrightarrow> newest_in (A \<union> B) k hit"
  by (cases hit) (auto simp: newest_in_def)

lemma runs_hit_newest:
  assumes "recent runs" and "\<forall>es \<in> set runs. in_order es"
  shows "newest_in (\<Union> (set ` set runs)) k (runs_hit k runs)"
  using assms
proof (induction runs)
  case (Cons es runs)
  have IH: "newest_in (\<Union> (set ` set runs)) k (runs_hit k runs)" using Cons by (simp add: recent_def)
  have hit: "newest_in (set es) k (run_hit k es)" using run_hit_newest Cons.prems(2) by simp
  show ?case
  proof (cases "run_hit k es")
    case None
    then have "\<forall>a \<in> set es. \<not> visible_to k a" using hit by (simp add: newest_in_def)
    from newest_in_skip [OF IH this] None show ?thesis by simp
  next
    case (Some e)
    have "\<forall>a \<in> set es. \<forall>b \<in> \<Union> (set ` set runs). ExtractUserKey (fst a) = ExtractUserKey (fst b) \<longrightarrow> key_tag (fst b) < key_tag (fst a)"
      using Cons.prems(1) by (auto simp: recent_def)
    from newest_in_union [OF _ this] hit Some show ?thesis by simp
  qed
qed (simp add: newest_in_def)

lemma level_run_order:
  assumes "disjoint_files files" and "\<forall>f \<in> set files. meta_ok contents f"
  shows "in_order (level_run contents files)"
  using assms
proof (induction files)
  case (Cons f files)
  have f: "in_order (entries_of contents f)" "meta_ok contents f" using Cons.prems(2) by (simp_all add: meta_ok_def Let_def)
  have rest: "in_order (level_run contents files)" using Cons by (simp add: disjoint_files_def)
  have "internal_compare (fst a) (fst b) < 0" if "a \<in> set (entries_of contents f)" "b \<in> set (level_run contents files)" for a b
  proof -
    obtain g where g: "g \<in> set files" "b \<in> set (entries_of contents g)" using \<open>b \<in> _\<close> by (auto simp: level_run_def)
    then have "internal_compare (fm_largest f) (fm_smallest g) < 0" "meta_ok contents g"
      using Cons.prems by (auto simp: disjoint_files_def)
    then show ?thesis using meta_bounds(2) [OF f(2) that(1)] meta_bounds(1) [of contents g b] g(2)
      by (auto simp: internal_compare_order not_less)
  qed
  then have "\<forall>x \<in> set (map fst (entries_of contents f)). \<forall>y \<in> set (map fst (level_run contents files)). internal_compare x y < 0" by auto
  moreover have "level_run contents (f # files) = entries_of contents f @ level_run contents files" by (simp add: level_run_def)
  ultimately show ?case using f(1) rest unfolding in_order_def by (simp only: map_append sorted_wrt_append set_append) blast
qed (simp add: level_run_def in_order_def)

definition version_entries :: "(64 word \<Rightarrow> (slice \<times> slice) list) \<Rightarrow> version \<Rightarrow> (slice \<times> slice) set" where
  "version_entries contents v = (\<Union>l < kNumLevels. \<Union>f \<in> set (v_files v l). set (entries_of contents f))"

lemma search_runs_entries: "\<Union> (set ` set (search_runs contents v)) = version_entries contents v"
proof -
  have "{..<kNumLevels} = insert 0 (set [1..<kNumLevels])" by (auto simp: kNumLevels_def)
  then show ?thesis unfolding version_entries_def search_runs_def by (auto simp: level_run_def)
qed

text \<open>Where the entries of a key are: a shallower level has the newer ones, and in level 0, whose files have different
  numbers, the file with the larger number.\<close>

definition newer_than :: "(slice \<times> slice) list \<Rightarrow> (slice \<times> slice) list \<Rightarrow> bool" where
  "newer_than xs ys \<longleftrightarrow> (\<forall>a \<in> set xs. \<forall>b \<in> set ys. ExtractUserKey (fst a) = ExtractUserKey (fst b) \<longrightarrow> key_tag (fst b) < key_tag (fst a))"

definition placed_by_age :: "(64 word \<Rightarrow> (slice \<times> slice) list) \<Rightarrow> version \<Rightarrow> bool" where
  "placed_by_age contents v \<longleftrightarrow> distinct (map fm_number (v_files v 0))
     \<and> (\<forall>f \<in> set (v_files v 0). \<forall>g \<in> set (v_files v 0). fm_number g < fm_number f \<longrightarrow> newer_than (entries_of contents f) (entries_of contents g))
     \<and> (\<forall>i j. i < j \<and> j < kNumLevels \<longrightarrow> (\<forall>f \<in> set (v_files v i). \<forall>g \<in> set (v_files v j). newer_than (entries_of contents f) (entries_of contents g)))"

lemma newest_first_sorted:
  assumes "distinct (map fm_number fs)"
  shows "sorted_wrt (\<lambda>f g. fm_number g < fm_number f) (newest_first fs)"
proof -
  have "distinct (map fm_number (sort_key fm_number fs))" using assms by (simp add: distinct_map)
  then have "sorted_wrt (<) (map fm_number (sort_key fm_number fs))" by (simp add: strict_sorted_iff)
  then show ?thesis by (simp add: newest_first_def sorted_wrt_rev sorted_wrt_map)
qed

lemma search_runs_recent:
  assumes "placed_by_age contents v"
  shows "recent (search_runs contents v)"
proof -
  let ?new = "newer_than"
  have zero: "sorted_wrt ?new (map (entries_of contents) (newest_first (v_files v 0)))"
    unfolding sorted_wrt_map
    by (rule sorted_wrt_mono_rel [OF _ newest_first_sorted]) (use assms in \<open>auto simp: placed_by_age_def\<close>)
  have level: "?new (level_run contents (v_files v i)) (level_run contents (v_files v j))" if "i < j" "j < kNumLevels" for i j
    using assms that unfolding placed_by_age_def newer_than_def level_run_def by fastforce
  have "sorted_wrt (<) [1..<kNumLevels]" by simp
  then have levels: "sorted_wrt ?new (map (\<lambda>l. level_run contents (v_files v l)) [1..<kNumLevels])"
    unfolding sorted_wrt_map by (rule sorted_wrt_mono_rel [rotated]) (use level in auto)
  have "?new (entries_of contents f) (level_run contents (v_files v j))" if "f \<in> set (v_files v 0)" "0 < j" "j < kNumLevels" for f j
    using assms that unfolding placed_by_age_def newer_than_def level_run_def by fastforce
  with zero levels have "sorted_wrt ?new (search_runs contents v)" by (auto simp: search_runs_def sorted_wrt_append)
  then show ?thesis by (simp add: recent_def newer_than_def [abs_def])
qed

lemma search_newest:
  assumes "version_ok contents v" and "placed_by_age contents v"
  shows "newest_in (version_entries contents v) k (runs_hit k (search_runs contents v))"
proof -
  have "in_order es" if "es \<in> set (search_runs contents v)" for es
  proof -
    from that consider f where "f \<in> set (v_files v 0)" "es = entries_of contents f"
      | l where "0 < l" "l < kNumLevels" "es = level_run contents (v_files v l)"
      by (auto simp: search_runs_def Suc_le_eq)
    then show ?thesis
    proof cases
      case 1
      have "0 < kNumLevels" by (simp add: kNumLevels_def)
      with 1 have "meta_ok contents f" using assms(1) unfolding version_ok_def by blast
      then show ?thesis using 1(2) by (simp add: meta_ok_def Let_def)
    next
      case 2
      then show ?thesis using assms(1) by (auto simp: version_ok_def intro: level_run_order)
    qed
  qed
  then show ?thesis using runs_hit_newest [OF search_runs_recent [OF assms(2)]] by (simp add: search_runs_entries)
qed

end
