(* ===== verification/Ldb_Names.thy ===== *)
theory Ldb_Names
  imports Ldb_Table Cpp_Text
begin

text \<open>
  Numbers in text (\<open>src/leveldb/util/logging.cc\<close>), the names of the files of a database
  (\<open>src/leveldb/db/filename.cc\<close>) and whole files as strings
  (\<open>src/leveldb/util/env.cc\<close>).  The file system is a map from names to contents and the
  outcomes of the next calls, all successful once the list is empty; a call that fails changes
  nothing.
\<close>

section \<open>Numbers\<close>

definition ascii :: "string \<Rightarrow> slice" where
  "ascii s = map of_char s"

definition AppendNumberTo :: "slice \<Rightarrow> 64 word \<Rightarrow> slice" where
  "AppendNumberTo str num = str @ ascii (show_nat (unat num))"

definition NumberToString :: "64 word \<Rightarrow> slice" where
  "NumberToString num = AppendNumberTo [] num"

definition hex_digit :: "nat \<Rightarrow> char" where
  "hex_digit n = ''0123456789abcdef'' ! n"

definition AppendEscapedStringTo :: "slice \<Rightarrow> slice \<Rightarrow> slice" where
  "AppendEscapedStringTo str value =
     str @ concat (map (\<lambda>c. if 0x20 \<le> c \<and> c \<le> 0x7e then [c]
                            else ascii [CHR 0x5C, CHR ''x'', hex_digit (unat c div 16), hex_digit (unat c mod 16)]) value)"

definition EscapeString :: "slice \<Rightarrow> slice" where
  "EscapeString value = AppendEscapedStringTo [] value"

definition kMaxUint64 :: "64 word" where "kMaxUint64 = 0xffffffffffffffff"

definition kLastDigitOfMaxUint64 :: byte where
  "kLastDigitOfMaxUint64 = 0x30 + ucast (kMaxUint64 mod 10)"

fun consume_digits :: "64 word \<Rightarrow> slice \<Rightarrow> (64 word \<times> slice) option" where
  "consume_digits value [] = Some (value, [])"
| "consume_digits value (ch # rest) =
     (if ch < 0x30 \<or> ch > 0x39 then Some (value, ch # rest)
      else if value > kMaxUint64 div 10 \<or> value = kMaxUint64 div 10 \<and> ch > kLastDigitOfMaxUint64 then None
      else consume_digits (value * 10 + ucast (ch - 0x30)) rest)"

text \<open>The number and the rest of the input, or failure.\<close>

definition ConsumeDecimalNumber :: "slice \<Rightarrow> (64 word \<times> slice) option" where
  "ConsumeDecimalNumber input =
     (case consume_digits 0 input of
        None \<Rightarrow> None
      | Some (value, rest) \<Rightarrow> if length input - length rest \<noteq> 0 then Some (value, rest) else None)"

section \<open>File names\<close>

definition zero_padded :: "64 word \<Rightarrow> slice" where
  "zero_padded number = (let s = show_nat (unat number) in ascii (replicate (6 - length s) (CHR ''0'') @ s))"

definition MakeFileName :: "slice \<Rightarrow> 64 word \<Rightarrow> string \<Rightarrow> slice" where
  "MakeFileName dbname number suffix = dbname @ ascii ''/'' @ zero_padded number @ ascii ''.'' @ ascii suffix"

definition LogFileName :: "slice \<Rightarrow> 64 word \<Rightarrow> slice" where
  "LogFileName dbname number = MakeFileName dbname number ''log''"

definition TableFileName :: "slice \<Rightarrow> 64 word \<Rightarrow> slice" where
  "TableFileName dbname number = MakeFileName dbname number ''ldb''"

definition SSTTableFileName :: "slice \<Rightarrow> 64 word \<Rightarrow> slice" where
  "SSTTableFileName dbname number = MakeFileName dbname number ''sst''"

definition DescriptorFileName :: "slice \<Rightarrow> 64 word \<Rightarrow> slice" where
  "DescriptorFileName dbname number = dbname @ ascii ''/MANIFEST-'' @ zero_padded number"

definition CurrentFileName :: "slice \<Rightarrow> slice" where
  "CurrentFileName dbname = dbname @ ascii ''/CURRENT''"

definition LockFileName :: "slice \<Rightarrow> slice" where
  "LockFileName dbname = dbname @ ascii ''/LOCK''"

definition TempFileName :: "slice \<Rightarrow> 64 word \<Rightarrow> slice" where
  "TempFileName dbname number = MakeFileName dbname number ''dbtmp''"

definition InfoLogFileName :: "slice \<Rightarrow> slice" where
  "InfoLogFileName dbname = dbname @ ascii ''/LOG''"

definition OldInfoLogFileName :: "slice \<Rightarrow> slice" where
  "OldInfoLogFileName dbname = dbname @ ascii ''/LOG.old''"

datatype FileType = kLogFile | kDBLockFile | kTableFile | kDescriptorFile | kCurrentFile | kTempFile | kInfoLogFile

definition ParseFileName :: "slice \<Rightarrow> (64 word \<times> FileType) option" where
  "ParseFileName filename =
     (if filename = ascii ''CURRENT'' then Some (0, kCurrentFile)
      else if filename = ascii ''LOCK'' then Some (0, kDBLockFile)
      else if filename = ascii ''LOG'' \<or> filename = ascii ''LOG.old'' then Some (0, kInfoLogFile)
      else if starts_with filename (ascii ''MANIFEST-'')
      then case ConsumeDecimalNumber (drop (length ''MANIFEST-'') filename) of
             None \<Rightarrow> None
           | Some (num, rest) \<Rightarrow> if rest \<noteq> [] then None else Some (num, kDescriptorFile)
      else case ConsumeDecimalNumber filename of
             None \<Rightarrow> None
           | Some (num, suffix) \<Rightarrow>
               if suffix = ascii ''.log'' then Some (num, kLogFile)
               else if suffix = ascii ''.sst'' \<or> suffix = ascii ''.ldb'' then Some (num, kTableFile)
               else if suffix = ascii ''.dbtmp'' then Some (num, kTempFile)
               else None)"

section \<open>Files\<close>

record fsys =
  fs_files :: "slice \<rightharpoonup> slice"
  fs_outcomes :: "bool list"

definition fs_call :: "((slice \<rightharpoonup> slice) \<Rightarrow> (slice \<rightharpoonup> slice)) \<Rightarrow> fsys \<Rightarrow> bool \<times> fsys" where
  "fs_call eff fs =
     (case fs_outcomes fs of
        [] \<Rightarrow> (True, fs\<lparr>fs_files := eff (fs_files fs)\<rparr>)
      | ok # os \<Rightarrow> (ok, fs\<lparr>fs_files := (if ok then eff (fs_files fs) else fs_files fs), fs_outcomes := os\<rparr>))"

definition NewWritableFile :: "slice \<Rightarrow> fsys \<Rightarrow> bool \<times> fsys" where
  "NewWritableFile fname = fs_call (\<lambda>m. m(fname \<mapsto> []))"

definition AppendFile :: "slice \<Rightarrow> slice \<Rightarrow> fsys \<Rightarrow> bool \<times> fsys" where
  "AppendFile fname data = fs_call (\<lambda>m. m(fname := map_option (\<lambda>c. c @ data) (m fname)))"

definition SyncFile :: "slice \<Rightarrow> fsys \<Rightarrow> bool \<times> fsys" where
  "SyncFile fname = fs_call (\<lambda>m. m)"

definition CloseFile :: "slice \<Rightarrow> fsys \<Rightarrow> bool \<times> fsys" where
  "CloseFile fname = fs_call (\<lambda>m. m)"

definition DeleteFile :: "slice \<Rightarrow> fsys \<Rightarrow> bool \<times> fsys" where
  "DeleteFile fname = fs_call (\<lambda>m. m(fname := None))"

definition RenameFile :: "slice \<Rightarrow> slice \<Rightarrow> fsys \<Rightarrow> bool \<times> fsys" where
  "RenameFile src target = fs_call (\<lambda>m. m(src := None, target := m src))"

definition DoWriteStringToFile :: "slice \<Rightarrow> slice \<Rightarrow> bool \<Rightarrow> fsys \<Rightarrow> bool \<times> fsys" where
  "DoWriteStringToFile data fname should_sync fs =
     (let (ok, fs) = NewWritableFile fname fs in
      if \<not> ok then (ok, fs)
      else let (ok, fs) = AppendFile fname data fs;
               (ok, fs) = (if ok \<and> should_sync then SyncFile fname fs else (ok, fs));
               (ok, fs) = (if ok then CloseFile fname fs else (ok, fs))
           in (ok, if \<not> ok then snd (DeleteFile fname fs) else fs))"

definition WriteStringToFileSync :: "slice \<Rightarrow> slice \<Rightarrow> fsys \<Rightarrow> bool \<times> fsys" where
  "WriteStringToFileSync data fname = DoWriteStringToFile data fname True"

definition SetCurrentFile :: "slice \<Rightarrow> 64 word \<Rightarrow> fsys \<Rightarrow> bool \<times> fsys" where
  "SetCurrentFile dbname descriptor_number fs =
     (let manifest = DescriptorFileName dbname descriptor_number;
          contents = drop (length dbname + 1) manifest;
          tmp = TempFileName dbname descriptor_number;
          (ok, fs) = WriteStringToFileSync (contents @ [0x0a]) tmp fs;
          (ok, fs) = (if ok then RenameFile tmp (CurrentFileName dbname) fs else (ok, fs))
      in (ok, if \<not> ok then snd (DeleteFile tmp fs) else fs))"

definition kBufferSize :: nat where "kBufferSize = 8192"

text \<open>The contents from a position on, in reads of the buffer's size.\<close>

function read_chunks :: "slice \<Rightarrow> slice \<Rightarrow> bool list \<Rightarrow> (ldb_error + slice) \<times> bool list" where
  "read_chunks data rest os =
     (if os \<noteq> [] \<and> \<not> hd os then (Inl kIOError, tl os)
      else if take kBufferSize rest = [] then (Inr data, tl os)
      else read_chunks (data @ take kBufferSize rest) (drop kBufferSize rest) (tl os))"
  by pat_completeness auto
termination
  by (relation "measure (\<lambda>(data, rest, os). length rest)") (auto simp: kBufferSize_def)

declare read_chunks.simps [simp del]

definition ReadFileToString :: "slice \<Rightarrow> fsys \<Rightarrow> (ldb_error + slice) \<times> fsys" where
  "ReadFileToString fname fs =
     (let (ok, fs) = fs_call (\<lambda>m. m) fs in
      case fs_files fs fname of
        Some contents \<Rightarrow>
          if ok then let (r, os) = read_chunks [] contents (fs_outcomes fs) in (r, fs\<lparr>fs_outcomes := os\<rparr>) else (Inl kIOError, fs)
      | None \<Rightarrow> (Inl kIOError, fs))"

section \<open>Reading numbers\<close>

lemma ascii_append [simp]: "ascii (a @ b) = ascii a @ ascii b"
  by (simp add: ascii_def)

lemma length_ascii [simp]: "length (ascii a) = length a"
  by (simp add: ascii_def)

definition byte_digit :: "byte \<Rightarrow> bool" where
  "byte_digit b \<longleftrightarrow> 0x30 \<le> b \<and> b \<le> 0x39"

lemma digit_byte: "is_digit c \<Longrightarrow> byte_digit (of_char c) \<and> unat (of_char c - 0x30 :: byte) = digit_val c"
proof -
  assume d: "is_digit c"
  have c: "unat (of_char c :: byte) = of_char c"
    using d unat_of_nat [where 'a = 8, of "of_char c"] take_bit_nat_eq_self [of "of_char c" 8] by (simp add: is_digit_def of_nat_of_char)
  then have "byte_digit (of_char c)" using d by (simp add: byte_digit_def is_digit_def word_le_nat_alt)
  moreover have "unat (of_char c - 0x30 :: byte) = unat (of_char c :: byte) - 48"
    using c d by (subst unat_sub) (simp_all add: word_le_nat_alt is_digit_def)
  ultimately show ?thesis using c by (simp add: digit_val_def)
qed

definition stops :: "slice \<Rightarrow> bool" where
  "stops rest \<longleftrightarrow> rest = [] \<or> \<not> byte_digit (hd rest)"

lemma consume_stops: "stops rest \<Longrightarrow> consume_digits v rest = Some (v, rest)"
  by (cases rest) (auto simp: stops_def byte_digit_def not_le)

lemma digits_from_mono: "a \<le> foldl (\<lambda>a c. 10 * a + digit_val c) a ds"
proof (induction ds arbitrary: a)
  case (Cons c ds)
  show ?case using Cons [of "10 * a + digit_val c"] by simp
qed simp

lemma overflow_check:
  assumes "is_digit c"
  shows "(v > kMaxUint64 div 10 \<or> v = kMaxUint64 div 10 \<and> of_char c > kLastDigitOfMaxUint64) \<longleftrightarrow> \<not> 10 * unat v + digit_val c < 2 ^ 64"
proof -
  have m: "kMaxUint64 div 10 = 0x1999999999999999" "kLastDigitOfMaxUint64 = 0x35"
    by (simp_all add: kMaxUint64_def kLastDigitOfMaxUint64_def)
  have d: "unat (of_char c :: byte) = 48 + digit_val c" "digit_val c < 10"
    using assms digit_byte [OF assms] by (auto simp: is_digit_def digit_val_def unat_sub word_le_nat_alt byte_digit_def)
  show ?thesis unfolding m using d by (auto simp: word_less_nat_alt word_unat_eq_iff)
qed

text \<open>Reading digits gives their value exactly when it fits 64 bits, and fails otherwise.\<close>

lemma consume_digits_value:
  assumes "\<forall>c \<in> set ds. is_digit c" and "stops rest"
  shows "consume_digits v (ascii ds @ rest) =
    (let n = foldl (\<lambda>a c. 10 * a + digit_val c) (unat v) ds in if n < 2 ^ 64 then Some (word_of_nat n, rest) else None)"
  using assms(1)
proof (induction ds arbitrary: v)
  case Nil
  show ?case using consume_stops [OF assms(2)] unat_range [of v] by (simp add: ascii_def)
next
  case (Cons c ds)
  let ?n = "10 * unat v + digit_val c"
  have len64: "LENGTH(64) = 64" by simp
  have c: "is_digit c" using Cons.prems by simp
  have u: "ucast (of_char c - 0x30 :: byte) = (word_of_nat (digit_val c) :: 64 word)"
    using digit_byte [OF c] by (metis of_nat_unat)
  have up: "?n \<le> foldl (\<lambda>a c. 10 * a + digit_val c) ?n ds" by (rule digits_from_mono)
  show ?case
  proof (cases "?n < 2 ^ 64")
    case True
    have "unat (v * 10 + word_of_nat (digit_val c)) = ?n"
    proof -
      have "v * 10 + word_of_nat (digit_val c) = word_of_nat ?n" by (simp add: mult.commute)
      then show ?thesis using True by (simp only: unat_of_nat mod_less len64)
    qed
    then show ?thesis
      using Cons.IH [of "v * 10 + word_of_nat (digit_val c)"] Cons.prems True overflow_check [OF c, of v] digit_byte [OF c]
      by (auto simp: ascii_def u byte_digit_def not_less)
  next
    case False
    then show ?thesis using up overflow_check [OF c, of v] digit_byte [OF c] by (auto simp: ascii_def byte_digit_def not_less Let_def)
  qed
qed

lemma ConsumeDecimalNumber_value:
  assumes "\<forall>c \<in> set ds. is_digit c" and "stops rest" and "ds \<noteq> []"
  shows "ConsumeDecimalNumber (ascii ds @ rest) = (if digits_val ds < 2 ^ 64 then Some (word_of_nat (digits_val ds), rest) else None)"
  using consume_digits_value [OF assms(1,2), where v = 0] assms(3) by (simp add: ConsumeDecimalNumber_def digits_val_def Let_def)

section \<open>Names of files\<close>

lemma padded_digits: "\<forall>c \<in> set (replicate k (CHR ''0'') @ show_nat n). is_digit c"
  using show_nat_digits [of _ n] by (auto simp: is_digit_def)

lemma padded_value: "digits_val (replicate k (CHR ''0'') @ show_nat n) = n"
proof -
  have "foldl (\<lambda>a c. 10 * a + digit_val c) 0 (replicate k (CHR ''0'')) = 0" by (induction k) (simp_all add: digit_val_def)
  then show ?thesis using digits_val_show_nat [of n] unfolding digits_val_def by simp
qed

lemma zero_padded_read:
  assumes "stops rest"
  shows "ConsumeDecimalNumber (zero_padded n @ rest) = Some (n, rest)"
  using ConsumeDecimalNumber_value [OF padded_digits assms, of "6 - length (show_nat (unat n))" "unat n"]
    unat_range [of n]
  by (simp add: zero_padded_def Let_def padded_value)

lemma zero_padded_digit: "\<exists>b bs. zero_padded n = b # bs \<and> byte_digit b"
proof -
  let ?s = "replicate (6 - length (show_nat (unat n))) (CHR ''0'') @ show_nat (unat n)"
  obtain c cs where s: "?s = c # cs" by (cases ?s) auto
  have "is_digit c" using padded_digits [of "6 - length (show_nat (unat n))" "unat n"] s by simp
  moreover have "zero_padded n = of_char c # ascii cs" unfolding zero_padded_def Let_def s by (simp add: ascii_def)
  ultimately show ?thesis using digit_byte by blast
qed

lemma number_first:
  "zero_padded n @ rest \<noteq> ascii ''CURRENT''" "zero_padded n @ rest \<noteq> ascii ''LOCK''" "zero_padded n @ rest \<noteq> ascii ''LOG''"
  "zero_padded n @ rest \<noteq> ascii ''LOG.old''" "\<not> starts_with (zero_padded n @ rest) (ascii ''MANIFEST-'')"
  using zero_padded_digit [of n] by (auto simp: ascii_def byte_digit_def starts_with_def split: if_splits)

lemma ParseFileName_number:
  assumes "stops rest"
  shows "ParseFileName (zero_padded n @ rest) =
    (if rest = ascii ''.log'' then Some (n, kLogFile)
     else if rest = ascii ''.sst'' \<or> rest = ascii ''.ldb'' then Some (n, kTableFile)
     else if rest = ascii ''.dbtmp'' then Some (n, kTempFile) else None)"
  unfolding ParseFileName_def using number_first [of n rest] zero_padded_read [OF assms, of n] by simp

lemma ParseFileName_manifest: "ParseFileName (ascii ''MANIFEST-'' @ zero_padded n) = Some (n, kDescriptorFile)"
proof -
  have "starts_with (ascii ''MANIFEST-'' @ s) (ascii ''MANIFEST-'')" for s by (simp add: starts_with_def ascii_def)
  moreover have "ascii ''MANIFEST-'' @ s \<noteq> ascii ''CURRENT''" "ascii ''MANIFEST-'' @ s \<noteq> ascii ''LOCK''" "ascii ''MANIFEST-'' @ s \<noteq> ascii ''LOG''"
    "ascii ''MANIFEST-'' @ s \<noteq> ascii ''LOG.old''" for s by (simp_all add: ascii_def)
  moreover have "drop (length ''MANIFEST-'') (ascii ''MANIFEST-'' @ s) = s" for s by (simp add: ascii_def)
  moreover have "stops []" by (simp add: stops_def)
  ultimately show ?thesis unfolding ParseFileName_def using zero_padded_read [of "[]" n] by simp
qed

lemma drop_dbname: "drop (length db + 1) (db @ ascii (c # s) @ t) = ascii s @ t"
  by (simp add: ascii_def)

lemma suffix_stops: "stops (ascii ''.'' @ ascii s)"
  by (simp add: stops_def ascii_def byte_digit_def)

section \<open>Replacing CURRENT\<close>

lemma names_differ: "TempFileName db n \<noteq> CurrentFileName db"
  using zero_padded_digit [of n] by (auto simp: TempFileName_def CurrentFileName_def MakeFileName_def ascii_def byte_digit_def)

lemma fs_call_files: "fs_call eff fs = (ok, fs') \<Longrightarrow> fs_files fs' = (if ok then eff (fs_files fs) else fs_files fs)"
  by (auto simp: fs_call_def split: list.splits)

lemmas fs_defs = NewWritableFile_def AppendFile_def SyncFile_def CloseFile_def DeleteFile_def RenameFile_def

lemma DeleteFile_files: "fs_files (snd (DeleteFile fname fs)) \<in> {fs_files fs, (fs_files fs)(fname := None)}"
  using fs_call_files [of "\<lambda>m. m(fname := None)" fs] by (cases "DeleteFile fname fs") (auto simp: DeleteFile_def)

text \<open>Whatever fails, a write touches one file; a successful one leaves the data in it.\<close>

lemma DoWrite_files:
  assumes "DoWriteStringToFile data fname sync fs = (ok, fs')"
  shows "if ok then fs_files fs' = (fs_files fs)(fname \<mapsto> data) else \<exists>c. fs_files fs' = (fs_files fs)(fname := c)"
proof -
  obtain ok1 fs1 where 1: "NewWritableFile fname fs = (ok1, fs1)" by fastforce
  note f1 = fs_call_files [OF 1 [unfolded fs_defs]]
  show ?thesis
  proof (cases ok1)
    case True
    obtain ok2 fs2 where 2: "AppendFile fname data fs1 = (ok2, fs2)" by fastforce
    obtain ok3 fs3 where 3: "(if ok2 \<and> sync then SyncFile fname fs2 else (ok2, fs2)) = (ok3, fs3)" by fastforce
    obtain ok4 fs4 where 4: "(if ok3 then CloseFile fname fs3 else (ok3, fs3)) = (ok4, fs4)" by fastforce
    have f2: "fs_files fs2 = (fs_files fs)(fname \<mapsto> (if ok2 then data else []))"
      using fs_call_files [OF 2 [unfolded fs_defs]] f1 True by auto
    have f3: "fs_files fs3 = fs_files fs2" "ok3 \<longrightarrow> ok2"
      using 3 fs_call_files [of "\<lambda>m. m" fs2 ok3 fs3] by (auto simp: fs_defs split: if_splits)
    have f4: "fs_files fs4 = fs_files fs3" "ok4 \<longrightarrow> ok3"
      using 4 fs_call_files [of "\<lambda>m. m" fs3 ok4 fs4] by (auto simp: fs_defs split: if_splits)
    have r: "ok = ok4" "fs' = (if \<not> ok4 then snd (DeleteFile fname fs4) else fs4)"
      using assms True unfolding DoWriteStringToFile_def 1 2 3 4 Let_def prod.case by (auto simp: 3 4)
    have "\<exists>c. fs_files (snd (DeleteFile fname fs4)) = (fs_files fs)(fname := c)"
      using DeleteFile_files [of fname fs4] f2 f3(1) f4(1) by auto
    then show ?thesis using r f2 f3 f4 by auto
  next
    case False
    then have "\<not> ok" "fs' = fs1" using assms by (auto simp: DoWriteStringToFile_def 1)
    then show ?thesis using f1 False by (auto intro!: exI [of _ "fs_files fs fname"])
  qed
qed

lemma SetCurrentFile_files:
  assumes "SetCurrentFile db n fs = (ok, fs')"
  shows "\<exists>c. fs_files fs' = (if ok then (fs_files fs)(TempFileName db n := c, CurrentFileName db \<mapsto> ascii ''MANIFEST-'' @ zero_padded n @ [0x0a])
                            else (fs_files fs)(TempFileName db n := c))"
proof -
  let ?data = "ascii ''MANIFEST-'' @ zero_padded n @ [0x0a]"
  have data: "drop (length db + 1) (DescriptorFileName db n) @ [0x0a] = ?data"
    using drop_dbname [of db "CHR ''/''" "''MANIFEST-''" "zero_padded n"] by (simp add: DescriptorFileName_def)
  obtain ok1 fs1 where 1: "DoWriteStringToFile ?data (TempFileName db n) True fs = (ok1, fs1)" by fastforce
  obtain ok2 fs2 where 2: "(if ok1 then RenameFile (TempFileName db n) (CurrentFileName db) fs1 else (ok1, fs1)) = (ok2, fs2)" by fastforce
  have r: "ok = ok2" "fs' = (if \<not> ok2 then snd (DeleteFile (TempFileName db n) fs2) else fs2)"
    using assms unfolding SetCurrentFile_def WriteStringToFileSync_def Let_def data 1 prod.case 2 by auto
  note f1 = DoWrite_files [OF 1]
  have f2: "ok2 \<longrightarrow> ok1 \<and> fs_files fs2 = (fs_files fs)(TempFileName db n := None, CurrentFileName db \<mapsto> ?data)"
    using 2 f1 fs_call_files [of "\<lambda>m. m(TempFileName db n := None, CurrentFileName db := m (TempFileName db n))" fs1 ok2 fs2]
    by (auto simp: fs_defs split: if_splits)
  have "\<not> ok2 \<longrightarrow> fs_files fs2 = fs_files fs1"
    using 2 fs_call_files [of "\<lambda>m. m(TempFileName db n := None, CurrentFileName db := m (TempFileName db n))" fs1 ok2 fs2]
    by (auto simp: fs_defs split: if_splits)
  then have "\<not> ok2 \<longrightarrow> (\<exists>c. fs_files (snd (DeleteFile (TempFileName db n) fs2)) = (fs_files fs)(TempFileName db n := c))"
    using DeleteFile_files [of "TempFileName db n" fs2] f1 by (cases ok1) auto
  then show ?thesis using r f2 by auto
qed

lemma read_chunks_all: "read_chunks data rest [] = (Inr (data @ rest), [])"
proof (induction "length rest" arbitrary: data rest rule: less_induct)
  case less
  show ?case
  proof (cases "rest = []")
    case False
    then have "length (drop kBufferSize rest) < length rest" by (simp add: kBufferSize_def)
    from less [OF this, of "data @ take kBufferSize rest"] False show ?thesis
      by (subst read_chunks.simps) (simp add: kBufferSize_def)
  qed (subst read_chunks.simps, simp)
qed

section \<open>Properties\<close>

text \<open>The directory scan recognises every file the database names: the base name of a log, table, temporary or
  manifest file is parsed back to its kind and number, whatever the number, and the fixed names to their kinds.\<close>

theorem file_name_roundtrip:
  "ParseFileName (drop (length db + 1) (LogFileName db n)) = Some (n, kLogFile)
   \<and> ParseFileName (drop (length db + 1) (TableFileName db n)) = Some (n, kTableFile)
   \<and> ParseFileName (drop (length db + 1) (SSTTableFileName db n)) = Some (n, kTableFile)
   \<and> ParseFileName (drop (length db + 1) (TempFileName db n)) = Some (n, kTempFile)
   \<and> ParseFileName (drop (length db + 1) (DescriptorFileName db n)) = Some (n, kDescriptorFile)
   \<and> ParseFileName (drop (length db + 1) (CurrentFileName db)) = Some (0, kCurrentFile)
   \<and> ParseFileName (drop (length db + 1) (LockFileName db)) = Some (0, kDBLockFile)
   \<and> ParseFileName (drop (length db + 1) (InfoLogFileName db)) = Some (0, kInfoLogFile)
   \<and> ParseFileName (drop (length db + 1) (OldInfoLogFileName db)) = Some (0, kInfoLogFile)"
proof -
  have base: "drop (length db + 1) (MakeFileName db n s) = zero_padded n @ ascii ''.'' @ ascii s" for s
    using drop_dbname [of db "CHR ''/''" "[]" "zero_padded n @ ascii ''.'' @ ascii s"] by (simp add: MakeFileName_def ascii_def)
  note number = ParseFileName_number [OF suffix_stops, of n]
  show ?thesis
    unfolding LogFileName_def TableFileName_def SSTTableFileName_def TempFileName_def base number DescriptorFileName_def
      CurrentFileName_def LockFileName_def InfoLogFileName_def OldInfoLogFileName_def
    using ParseFileName_manifest [of n]
    by (simp add: ascii_def) (simp add: ParseFileName_def ascii_def)
qed

text \<open>C38. \<open>SetCurrentFile\<close> is atomic.  Whichever of its calls fail, the only other file it touches is its temporary file;
  after a reported failure CURRENT is as it was, and after a success it holds a name, followed by a newline, that in the
  directory of the database is the name of the manifest with the number given.\<close>

theorem set_current_atomic:
  "\<exists>c name. db @ ascii ''/'' @ name = DescriptorFileName db n \<and> TempFileName db n \<noteq> CurrentFileName db
     \<and> fs_files (snd (SetCurrentFile db n fs)) =
         (if fst (SetCurrentFile db n fs) then (fs_files fs)(TempFileName db n := c, CurrentFileName db \<mapsto> name @ [0x0a])
          else (fs_files fs)(TempFileName db n := c))"
proof -
  have "db @ ascii ''/'' @ ascii ''MANIFEST-'' @ zero_padded n = DescriptorFileName db n"
    by (simp add: DescriptorFileName_def flip: ascii_append append_assoc)
  then show ?thesis
    using SetCurrentFile_files [of db n fs "fst (SetCurrentFile db n fs)" "snd (SetCurrentFile db n fs)"] names_differ [of db n]
    by (metis append.assoc prod.collapse)
qed

end
