(* ===== verification/Ldb_TableCache.thy ===== *)
theory Ldb_TableCache
  imports Ldb_Search Ldb_Names
begin

text \<open>
  The cache of open tables (\<open>src/leveldb/db/table_cache.cc\<close>), which opens a table file by its number
  and looks keys up in it.  Tables and blocks may leave their caches between calls.  The lookup keeps the
  contract of the search in a version, so a read of a version returns the newest entry of its files.
\<close>

section \<open>Tables by number\<close>

record table_env =
  te_port :: port
  te_options :: table_options
  te_dbname :: slice
  te_files :: "slice \<Rightarrow> random_file option"

record table_reader =
  tr_tables :: "64 word \<rightharpoonup> table"
  tr_blocks :: block_cache
  tr_last_id :: "64 word"

definition open_table_file :: "table_env \<Rightarrow> 64 word \<Rightarrow> random_file option" where
  "open_table_file env file_number =
     (case te_files env (TableFileName (te_dbname env) file_number) of
        Some f \<Rightarrow> Some f
      | None \<Rightarrow> te_files env (SSTTableFileName (te_dbname env) file_number))"

definition FindTable :: "table_env \<Rightarrow> 64 word \<Rightarrow> 64 word \<Rightarrow> table_reader \<Rightarrow> (ldb_error + table) \<times> table_reader" where
  "FindTable env file_number file_size tr =
     (case tr_tables tr file_number of
        Some t \<Rightarrow> (Inr t, tr)
      | None \<Rightarrow>
          (case open_table_file env file_number of
             None \<Rightarrow> (Inl kIOError, tr)
           | Some f \<Rightarrow>
               (case Table_Open (te_port env) (tr_last_id tr + 1) (te_options env) f file_size of
                  Inl e \<Rightarrow> (Inl e, tr)
                | Inr t \<Rightarrow> (Inr t, tr\<lparr>tr_tables := (tr_tables tr)(file_number \<mapsto> t),
                    tr_last_id := (if opt_block_cache (te_options env) then tr_last_id tr + 1 else tr_last_id tr)\<rparr>))))"

definition TableCache_Get :: "table_env \<Rightarrow> read_options \<Rightarrow> table_reader table_get" where
  "TableCache_Get env options file_number file_size k tr =
     (case FindTable env file_number file_size tr of
        (Inl e, tr) \<Rightarrow> (Some e, None, tr)
      | (Inr t, tr) \<Rightarrow>
          (case InternalGet (te_port env) options t k (tr_blocks tr) of
             (s, found, blocks) \<Rightarrow> (s, found, tr\<lparr>tr_blocks := blocks\<rparr>)))"

definition TableCache_Evict :: "64 word \<Rightarrow> table_reader \<Rightarrow> table_reader" where
  "TableCache_Evict file_number tr = tr\<lparr>tr_tables := (tr_tables tr)(file_number := None)\<rparr>"

section \<open>Open tables\<close>

definition env_ok :: "table_env \<Rightarrow> bool" where
  "env_ok env \<longleftrightarrow> port_ok (te_port env) \<and> opt_comparator (te_options env) = InternalKeyComparator \<and> 0 < opt_restart_interval (te_options env)
     \<and> (\<forall>p. opt_filter_policy (te_options env) = Some p \<longrightarrow>
          filter_policy (fp_CreateFilter p) (fp_KeyMayMatch p) (\<lambda>k' k. ExtractUserKey k' = ExtractUserKey k))"

text \<open>A file that \<open>TableBuilder\<close> finished without an error on the entries, under the name of the number.\<close>

definition stored_file :: "table_env \<Rightarrow> (slice \<times> slice) list \<Rightarrow> FileMetaData \<Rightarrow> bool" where
  "stored_file env es f \<longleftrightarrow> in_order es \<and> table_fits (te_options env) es \<and>
     (\<exists>w r file. lf_bytes w = [] \<and> r = tb_Finish (te_port env) (add_all (te_port env) es (TableBuilder (te_options env) w)) \<and> tb_ok r
        \<and> length (lf_bytes (tb_file r)) < 2 ^ 32 \<and> fm_file_size f = FileSize r
        \<and> open_table_file env (fm_number f) = Some file \<and> serves file (lf_bytes (tb_file r)))"

definition table_sound :: "table_env \<Rightarrow> (slice \<times> slice) list \<Rightarrow> table \<Rightarrow> block_cache \<Rightarrow> bool" where
  "table_sound env es t c \<longleftrightarrow> (\<exists>ess idx file. table_ok (te_port env) (te_options env) ess idx file t \<and> concat ess = es
     \<and> sound_cache (te_port env) (te_options env) ess t c)"

definition id_ok :: "table_env \<Rightarrow> table_reader \<Rightarrow> table \<Rightarrow> bool" where
  "id_ok env tr t \<longleftrightarrow> (if opt_block_cache (te_options env) then 0 < tbl_cache_id t \<and> tbl_cache_id t \<le> tr_last_id tr else tbl_cache_id t = 0)"

definition blocks_ok :: "table_reader \<Rightarrow> bool" where
  "blocks_ok tr \<longleftrightarrow> (\<forall>key. tr_blocks tr key \<noteq> None \<longrightarrow> (\<exists>i off. key = EncodeFixed64 i @ off \<and> 0 < i \<and> i \<le> tr_last_id tr))"

definition reader_ok :: "table_env \<Rightarrow> (64 word \<Rightarrow> (slice \<times> slice) list) \<Rightarrow> FileMetaData set \<Rightarrow> nat \<Rightarrow> table_reader \<Rightarrow> bool" where
  "reader_ok env contents F n tr \<longleftrightarrow> env_ok env \<and> (\<forall>f \<in> F. stored_file env (contents (fm_number f)) f)
     \<and> (\<forall>m t. tr_tables tr m = Some t \<longrightarrow> table_sound env (contents m) t (tr_blocks tr) \<and> id_ok env tr t)
     \<and> (opt_block_cache (te_options env) \<longrightarrow> (\<forall>m m' t t'. tr_tables tr m = Some t \<longrightarrow> tr_tables tr m' = Some t' \<longrightarrow> m \<noteq> m' \<longrightarrow> tbl_cache_id t \<noteq> tbl_cache_id t'))
     \<and> blocks_ok tr \<and> unat (tr_last_id tr) + n < 2 ^ 64"

lemma reader_ok_less: "reader_ok env contents F n tr \<Longrightarrow> m \<le> n \<Longrightarrow> reader_ok env contents F m tr"
  by (simp add: reader_ok_def)

text \<open>Entries may leave the caches at any time.\<close>

lemma table_sound_drop:
  assumes "table_sound env es t c" and c': "\<And>key. c' key = None \<or> c' key = c key"
  shows "table_sound env es t c'"
proof -
  obtain ess idx "file" where t: "table_ok (te_port env) (te_options env) ess idx file t" "concat ess = es"
      "sound_cache (te_port env) (te_options env) ess t c"
    using assms(1) unfolding table_sound_def by blast
  have "sound_cache (te_port env) (te_options env) ess t c'"
    unfolding sound_cache_def
  proof (intro allI impI)
    fix i
    assume "i < length ess"
    then show "c' (cache_key t (seg_handle (te_port env) (te_options env) ess i)) \<in> {None, Some (Block_new (block_data (opt_restart_interval (te_options env)) (ess ! i)))}"
      using t(3) c' [of "cache_key t (seg_handle (te_port env) (te_options env) ess i)"] unfolding sound_cache_def by auto
  qed
  then show ?thesis using t(1,2) unfolding table_sound_def by blast
qed

lemma reader_ok_drop:
  assumes ok: "reader_ok env contents F n tr" and tables: "\<And>m. tables m = None \<or> tables m = tr_tables tr m"
    and blocks: "\<And>key. blocks key = None \<or> blocks key = tr_blocks tr key"
  shows "reader_ok env contents F n (tr\<lparr>tr_tables := tables, tr_blocks := blocks\<rparr>)"
proof -
  have t: "tr_tables tr m = Some t" if "tables m = Some t" for m t using tables [of m] that by simp
  have "table_sound env (contents m) t blocks \<and> id_ok env tr t" if "tables m = Some t" for m t
    using ok t [OF that] table_sound_drop [of env "contents m" t "tr_blocks tr" blocks] blocks unfolding reader_ok_def by simp
  moreover have "tbl_cache_id t \<noteq> tbl_cache_id t'"
    if "opt_block_cache (te_options env)" "tables m = Some t" "tables m' = Some t'" "m \<noteq> m'" for m m' t t'
    using ok t [OF that(2)] t [OF that(3)] that(1,4) unfolding reader_ok_def by blast
  moreover have "\<exists>i off. key = EncodeFixed64 i @ off \<and> 0 < i \<and> i \<le> tr_last_id tr" if "blocks key \<noteq> None" for key
    using ok blocks [of key] that unfolding reader_ok_def blocks_ok_def by auto
  ultimately show ?thesis using ok unfolding reader_ok_def blocks_ok_def id_ok_def by simp
qed

lemma Evict_ok: "reader_ok env contents F n tr \<Longrightarrow> reader_ok env contents F n (TableCache_Evict m tr)"
  using reader_ok_drop [of env contents F n tr "(tr_tables tr)(m := None)" "tr_blocks tr"] by (simp add: TableCache_Evict_def)

section \<open>A lookup\<close>

text \<open>A lookup adds at most one block, under the identity of its table.\<close>

lemma InternalGet_frame:
  assumes "InternalGet pt ro t k c = (s, found, c')"
  shows "c' = c \<or> opt_block_cache (tbl_options t) \<and> (\<exists>h b. c' = c(cache_key t h \<mapsto> b))"
proof -
  have find: "c1 = c \<or> opt_block_cache (tbl_options t) \<and> (\<exists>h b. c1 = c(cache_key t h \<mapsto> b))" if "find_block pt ro t h c = (r, c1)" for h r c1
    using that by (auto simp: find_block_def Let_def split: if_splits option.splits sum.splits)
  have "c1 = c \<or> opt_block_cache (tbl_options t) \<and> (\<exists>h b. c1 = c(cache_key t h \<mapsto> b))" if "BlockReader pt ro t v c = (it, c1)" for v it c1
    using that find by (fastforce simp: BlockReader_def split: sum.splits prod.splits)
  then show ?thesis using assms by (auto simp: InternalGet_def Let_def split: option.splits if_splits prod.splits)
qed

lemma key_id: "EncodeFixed64 i @ off = cache_key t h \<Longrightarrow> i = tbl_cache_id t"
  using EncodeFixed64_inj by (auto simp: cache_key_def append_eq_append_conv)

lemma ReadMeta_id: "tbl_cache_id (ReadMeta pt footer t) = tbl_cache_id t"
  by (auto simp: ReadMeta_def ReadFilter_def Let_def split: option.splits sum.splits if_splits)

lemma Open_id: "Table_Open pt i opt f sz = Inr t \<Longrightarrow> tbl_cache_id t = (if opt_block_cache opt then i else 0)"
  by (auto simp: Table_Open_def ReadMeta_id split: if_splits option.splits sum.splits prod.splits)

lemma fresh_sound:
  assumes "blocks_ok tr" and "\<not> (0 < tbl_cache_id t \<and> tbl_cache_id t \<le> tr_last_id tr)"
  shows "sound_cache pt opt ess t (tr_blocks tr)"
proof -
  have "tr_blocks tr (cache_key t h) = None" for h
    using assms key_id [of _ _ t h] unfolding blocks_ok_def by metis
  then show ?thesis by (simp add: sound_cache_def)
qed

lemma open_stored:
  assumes "env_ok env" and "stored_file env es f" and "blocks_ok tr" and "unat (tr_last_id tr) + 1 < 2 ^ 64"
  shows "\<exists>rf t. open_table_file env (fm_number f) = Some rf \<and> Table_Open (te_port env) (tr_last_id tr + 1) (te_options env) rf (fm_file_size f) = Inr t
    \<and> table_sound env es t (tr_blocks tr) \<and> tbl_cache_id t = (if opt_block_cache (te_options env) then tr_last_id tr + 1 else 0)"
proof -
  obtain w r rf where st: "lf_bytes w = []" "r = tb_Finish (te_port env) (add_all (te_port env) es (TableBuilder (te_options env) w))" "tb_ok r"
      "length (lf_bytes (tb_file r)) < 2 ^ 32" "fm_file_size f = FileSize r"
      "open_table_file env (fm_number f) = Some rf" "serves rf (lf_bytes (tb_file r))"
    using assms(2) unfolding stored_file_def by blast
  note e = assms(1) [unfolded env_ok_def]
  have es: "in_order es" "table_fits (te_options env) es" using assms(2) by (simp_all add: stored_file_def)
  have "\<exists>t ess idx. Table_Open (te_port env) (tr_last_id tr + 1) (te_options env) rf (FileSize r) = Inr t
      \<and> table_ok (te_port env) (te_options env) ess idx rf t \<and> concat ess = es"
    by (rule finished_table [OF _ _ _ _ es st(1,2,3,4,7)]) (use e in simp_all)
  then obtain t ess idx where t: "Table_Open (te_port env) (tr_last_id tr + 1) (te_options env) rf (FileSize r) = Inr t"
      "table_ok (te_port env) (te_options env) ess idx rf t" "concat ess = es" by blast
  have i: "tbl_cache_id t = (if opt_block_cache (te_options env) then tr_last_id tr + 1 else 0)" using Open_id [OF t(1)] .
  have "unat (tr_last_id tr + 1) = unat (tr_last_id tr) + 1" using assms(4) by (simp add: unat_word_ariths)
  then have "sound_cache (te_port env) (te_options env) ess t (tr_blocks tr)"
    by (intro fresh_sound [OF assms(3)]) (auto simp: i word_le_nat_alt)
  then show ?thesis using t st(5,6) i unfolding table_sound_def by metis
qed

lemma FindTable_ok:
  assumes ok: "reader_ok env contents F (Suc n) tr" and f: "f \<in> F"
  shows "\<exists>t tr'. FindTable env (fm_number f) (fm_file_size f) tr = (Inr t, tr') \<and> reader_ok env contents F n tr' \<and> tr_tables tr' (fm_number f) = Some t"
proof (cases "tr_tables tr (fm_number f)")
  case (Some t)
  then show ?thesis using reader_ok_less [OF ok, of n] by (simp add: FindTable_def)
next
  case None
  note o = ok [unfolded reader_ok_def]
  have last: "unat (tr_last_id tr) + 1 < 2 ^ 64" using o by simp
  obtain rf t where t: "open_table_file env (fm_number f) = Some rf" "Table_Open (te_port env) (tr_last_id tr + 1) (te_options env) rf (fm_file_size f) = Inr t"
      "table_sound env (contents (fm_number f)) t (tr_blocks tr)" "tbl_cache_id t = (if opt_block_cache (te_options env) then tr_last_id tr + 1 else 0)"
    using open_stored [of env "contents (fm_number f)" f tr] o f last by blast
  define tr' where "tr' = tr\<lparr>tr_tables := (tr_tables tr)(fm_number f \<mapsto> t),
    tr_last_id := (if opt_block_cache (te_options env) then tr_last_id tr + 1 else tr_last_id tr)\<rparr>"
  have up: "unat (tr_last_id tr + 1) = unat (tr_last_id tr) + 1" using last by (simp add: unat_word_ariths)
  have le: "tr_last_id tr \<le> tr_last_id tr'" "unat (tr_last_id tr') \<le> unat (tr_last_id tr) + 1" using up by (auto simp: tr'_def word_le_nat_alt)
  have older: "x \<le> tr_last_id tr \<Longrightarrow> x \<noteq> tr_last_id tr + 1" for x using up by (auto simp: word_le_nat_alt)
  have ids: "id_ok env tr' t" "id_ok env tr x \<Longrightarrow> id_ok env tr' x" for x
    using t(4) up le(1) by (auto simp: id_ok_def tr'_def word_less_nat_alt)
  have "reader_ok env contents F n tr'"
    unfolding reader_ok_def
  proof (intro conjI allI impI)
    show "env_ok env" "\<forall>f \<in> F. stored_file env (contents (fm_number f)) f" using o by blast+
    show "unat (tr_last_id tr') + n < 2 ^ 64" using o le(2) by simp
    show "blocks_ok tr'" using o le(1) unfolding blocks_ok_def by (auto simp: tr'_def split: if_splits) (meson order_trans)+
    fix m x
    assume m: "tr_tables tr' m = Some x"
    show "table_sound env (contents m) x (tr_blocks tr')" "id_ok env tr' x"
      using m o t(3) ids by (auto simp: tr'_def split: if_splits)
    fix m' x'
    assume "opt_block_cache (te_options env)" "tr_tables tr' m' = Some x'" "m \<noteq> m'"
    moreover have "tbl_cache_id y \<noteq> tr_last_id tr + 1" if "tr_tables tr k = Some y" for k y
      using o that older \<open>opt_block_cache _\<close> unfolding id_ok_def by metis
    ultimately show "tbl_cache_id x \<noteq> tbl_cache_id x'"
      using m o t(4) by (cases "m = fm_number f"; cases "m' = fm_number f") (fastforce simp: tr'_def)+
  qed
  then show ?thesis using None t by (simp add: FindTable_def tr'_def)
qed

lemma sound_cache_other:
  assumes "sound_cache pt opt ess t c" and "tbl_cache_id t \<noteq> tbl_cache_id t'"
  shows "sound_cache pt opt ess t (c(cache_key t' h \<mapsto> b))"
proof -
  have "cache_key t g \<noteq> cache_key t' h" for g using assms(2) EncodeFixed64_inj by (auto simp: cache_key_def)
  then show ?thesis using assms(1) by (simp add: sound_cache_def)
qed

lemma TableCache_Get_ok:
  assumes ok: "reader_ok env contents F (Suc n) tr" and f: "f \<in> F"
  shows "\<exists>found tr'. TableCache_Get env ro (fm_number f) (fm_file_size f) k tr = (None, found, tr') \<and> found_ok (contents (fm_number f)) k found
    \<and> reader_ok env contents F n tr'"
proof -
  obtain t tr1 where t: "FindTable env (fm_number f) (fm_file_size f) tr = (Inr t, tr1)" "reader_ok env contents F n tr1" "tr_tables tr1 (fm_number f) = Some t"
    using FindTable_ok [OF assms] by blast
  note o = t(2) [unfolded reader_ok_def]
  obtain ess idx rf where ts: "table_ok (te_port env) (te_options env) ess idx rf t" "concat ess = contents (fm_number f)"
      "sound_cache (te_port env) (te_options env) ess t (tr_blocks tr1)" and tid: "id_ok env tr1 t"
    using o t(3) unfolding table_sound_def by blast
  obtain found c' where g: "InternalGet (te_port env) ro t k (tr_blocks tr1) = (None, found, c')" "found_ok (concat ess) k found"
      "sound_cache (te_port env) (te_options env) ess t c'"
    using InternalGet_ok [OF ts(1,3)] by blast
  have opts: "tbl_options t = te_options env" using ts(1) by (simp add: table_ok_def opened_def)
  define tr' where "tr' = tr1\<lparr>tr_blocks := c'\<rparr>"
  have frame: "c' = tr_blocks tr1 \<or> opt_block_cache (te_options env) \<and> (\<exists>h b. c' = (tr_blocks tr1)(cache_key t h \<mapsto> b))"
    using InternalGet_frame [OF g(1)] opts by simp
  have sound: "table_sound env (contents m) x c'" if m: "tr_tables tr1 m = Some x" for m x
  proof (cases "m = fm_number f")
    case True
    then show ?thesis using m t(3) ts(1,2) g(3) unfolding table_sound_def by auto
  next
    case False
    have x: "table_sound env (contents m) x (tr_blocks tr1)" using o m by blast
    from frame show ?thesis
    proof
      assume "opt_block_cache (te_options env) \<and> (\<exists>h b. c' = (tr_blocks tr1)(cache_key t h \<mapsto> b))"
      then obtain h b where c: "c' = (tr_blocks tr1)(cache_key t h \<mapsto> b)" "tbl_cache_id x \<noteq> tbl_cache_id t" using o m t(3) False by blast
      obtain xs idx' f' where "table_ok (te_port env) (te_options env) xs idx' f' x" "concat xs = contents m"
          "sound_cache (te_port env) (te_options env) xs x (tr_blocks tr1)" using x unfolding table_sound_def by blast
      with sound_cache_other [OF this(3) c(2), of h b] show ?thesis unfolding table_sound_def c(1) by blast
    qed (use x in simp)
  qed
  have "blocks_ok tr'"
    unfolding blocks_ok_def
  proof (intro allI impI)
    fix key
    assume "tr_blocks tr' key \<noteq> None"
    then consider "tr_blocks tr1 key \<noteq> None" | h where "opt_block_cache (te_options env)" "key = cache_key t h"
      using frame by (auto simp: tr'_def split: if_splits)
    then show "\<exists>i off. key = EncodeFixed64 i @ off \<and> 0 < i \<and> i \<le> tr_last_id tr'"
    proof cases
      case 1
      then show ?thesis using o by (simp add: blocks_ok_def tr'_def)
    next
      case 2
      then show ?thesis using tid by (auto simp: id_ok_def cache_key_def tr'_def)
    qed
  qed
  then have "reader_ok env contents F n tr'"
    using o sound unfolding reader_ok_def tr'_def id_ok_def by simp
  then show ?thesis using t(1) g ts(2) by (simp add: TableCache_Get_def tr'_def)
qed

interpretation table_cache_reader: file_reader "TableCache_Get env ro" "reader_ok env contents F" F contents
  for env ro contents F
  by unfold_locales (auto intro: reader_ok_less TableCache_Get_ok)

section \<open>Properties\<close>

text \<open>C37. A read of a version returns the newest entry.  The files of the version hold entries in key order, built by
  \<open>TableBuilder\<close> without an error; the files of each deeper level do not overlap.  The entries of a key are placed by
  age: shallower levels have the newer ones, and in level 0 the files with the larger numbers.  Then \<open>Version::Get\<close> through the table cache, the block cache, indices and filters answers with the newest
  entry of the key that the sequence number of the read may see, in any file of any level: its value, or not found when
  it is a deletion or there is none, and never an error.\<close>

theorem version_read_newest:
  assumes "version_ok contents v" and "placed_by_age contents v"
    and "reader_ok env contents (\<Union>l < kNumLevels. set (v_files v l)) (length (v_files v 0) + kNumLevels + n) c"
  shows "\<exists>hit stats c'. newest_in (version_entries contents v) (lk_internal_key (LookupKey_new u s)) hit
    \<and> Version_Get (TableCache_Get env ro) (LookupKey_new u s) v c = (answer_of hit, stats, c')
    \<and> reader_ok env contents (\<Union>l < kNumLevels. set (v_files v l)) n c'"
proof -
  let ?k = "LookupKey_new u s"
  have "lk_user_key ?k = ExtractUserKey (lk_internal_key ?k)" by (simp add: LookupKey_new_def Let_def)
  then show ?thesis
    using table_cache_reader.Version_Get_runs [OF assms(1) _ assms(3), of ?k ro] search_newest [OF assms(1,2)] by fastforce
qed

definition sample_meta :: FileMetaData where
  "sample_meta = FileMetaData_new 5 (FileSize sample_table) (fst (hd sample_entries)) (fst (last sample_entries))"

definition sample_version :: version where
  "sample_version = Version_new\<lparr>v_files := (\<lambda>level. if level = 0 then [sample_meta] else [])\<rparr>"

definition sample_contents :: "64 word \<Rightarrow> (slice \<times> slice) list" where
  "sample_contents n = (if n = 5 then sample_entries else [])"

definition sample_tables :: table_env where
  "sample_tables = \<lparr>te_port = sample_port, te_options = sample_options, te_dbname = ascii ''db'',
     te_files = (\<lambda>name. if name = TableFileName (ascii ''db'') 5 then Some sample_file else None)\<rparr>"

definition sample_caches :: table_reader where
  "sample_caches = \<lparr>tr_tables = Map.empty, tr_blocks = Map.empty, tr_last_id = 0\<rparr>"

theorem version_read_newest_witness:
  "\<exists>stats c'. Version_Get (TableCache_Get sample_tables \<lparr>ro_verify_checksums = True, ro_fill_cache = True\<rparr>) (LookupKey_new [65] 9) sample_version sample_caches
     = (GetOk [1], stats, c')"
proof -
  let ?k = "lk_internal_key (LookupKey_new [65] 9)"
  have order: "in_order sample_entries" by code_simp
  have parse: "\<forall>e \<in> set sample_entries. ParseInternalKey (fst e) \<noteq> None" by code_simp
  have ok: "version_ok sample_contents sample_version"
    using order parse by (auto simp: version_ok_def sample_version_def sample_contents_def sample_meta_def FileMetaData_new_def meta_ok_def
        disjoint_files_def sample_entries_def)
  have files: "(\<Union>l < kNumLevels. set (v_files sample_version l)) = {sample_meta}"
    by (auto simp: sample_version_def kNumLevels_def)
  have entries: "version_entries sample_contents sample_version = set sample_entries"
    by (auto simp: version_entries_def sample_version_def kNumLevels_def sample_contents_def sample_meta_def FileMetaData_new_def)
  have age: "placed_by_age sample_contents sample_version"
    by (simp add: placed_by_age_def sample_version_def)
  have "entries_size sample_entries < 1000" "length (lf_bytes (tb_file sample_table)) < 1000" by code_simp+
  then have fits: "table_fits sample_options sample_entries" "length (lf_bytes (tb_file sample_table)) < 2 ^ 32"
    by (simp_all add: table_fits_def sample_options_def)
  have "port_ok sample_port" by (simp add: port_ok_def sample_port_def crc_extends_def)
  then have env: "env_ok sample_tables" by (simp add: env_ok_def sample_tables_def sample_options_def)
  have tb: "tb_ok sample_table" by code_simp
  have serves: "serves sample_file (lf_bytes (tb_file sample_table))" by (auto simp: serves_def sample_file_def)
  have "open_table_file sample_tables 5 = Some sample_file" by (simp add: open_table_file_def sample_tables_def)
  then have "stored_file sample_tables sample_entries sample_meta"
    unfolding stored_file_def using order fits tb serves
    by (auto simp: sample_tables_def sample_meta_def FileMetaData_new_def sample_table_def intro!: exI [of _ "\<lparr>lf_bytes = [], lf_outcomes = []\<rparr>"])
  then have reader: "reader_ok sample_tables sample_contents (\<Union>l < kNumLevels. set (v_files sample_version l))
      (length (v_files sample_version 0) + kNumLevels + 0) sample_caches"
    unfolding files using env
    by (simp add: reader_ok_def blocks_ok_def sample_caches_def sample_contents_def sample_meta_def FileMetaData_new_def sample_version_def kNumLevels_def)
  obtain hit stats c' where hit: "newest_in (set sample_entries) ?k hit"
      "Version_Get (TableCache_Get sample_tables \<lparr>ro_verify_checksums = True, ro_fill_cache = True\<rparr>) (LookupKey_new [65] 9) sample_version sample_caches
       = (answer_of hit, stats, c')"
    using version_read_newest [OF ok age reader, of "[65]" 9 "\<lparr>ro_verify_checksums = True, ro_fill_cache = True\<rparr>"] unfolding entries by blast
  have "\<forall>e \<in> set sample_entries. e = hd sample_entries \<or> \<not> visible_to ?k e \<or> key_tag (fst e) < key_tag (fst (hd sample_entries))" by code_simp
  moreover have "visible_to ?k (hd sample_entries)" "hd sample_entries \<in> set sample_entries" by code_simp+
  ultimately have "hit = Some (hd sample_entries)" using hit(1) by (cases hit) (fastforce simp: newest_in_def)+
  moreover have "answer_of (Some (hd sample_entries)) = GetOk [1]" by code_simp
  ultimately show ?thesis using hit(2) by simp
qed

end
