(* ===== verification/Spec2Isabelle.thy ===== *)
theory Spec2Isabelle
  imports Recovery Replica Tpc Ballots Calls Driver Ldb_Recover Ldb_Crc Ldb_TableCache
begin

text \<open>
  \<^bold>\<open>The program.\<close>  A sharded transaction store.  Accounts are divided over clusters; each
  cluster replicates its log of transfers with batched Multi-Paxos; a transfer between two clusters
  runs two-phase commit with the client as coordinator and the two leaders as participants.  A
  server keeps balances and its ballot number in LevelDB and its log in a text file.  The driver
  starts the servers, reads a workload and the user's commands, and drives the client.  LevelDB is
  bundled with the program and modelled as far as a server's reads and writes reach into it.
  Paths below are relative to \<open>src/src\<close>, and to \<open>src\<close> when they start with \<open>leveldb\<close>.

  \<^bold>\<open>Shared parts.\<close>  \<open>Prelude\<close> has ordered associative containers (the locale
  \<open>assoc_container\<close>) and ceiling division; \<open>Cpp_Text\<close> the text functions of the
  C++ library with their round trips; \<open>Types\<close> the structures of \<open>types/types.h\<close> and
  the messages of \<open>proto/tpc.proto\<close>; \<open>Config\<close> the shard arithmetic and configuration
  of \<open>constants.h\<close> and \<open>utils/utils.cc\<close>, and \<open>Shards\<close> its partition
  of accounts and servers into clusters.

  \<^bold>\<open>Server.\<close>  \<open>Wal\<close> models \<open>server/wal.cc\<close> over the text of the log file and
  proves the line format, recovery, and the contract of a participant's log (locale
  \<open>participant_log\<close>).  \<open>Store\<close> is the key-value store as the server uses it (locale
  \<open>kv_store\<close>).  \<open>Server\<close> has the state of \<open>ServerImpl\<close> as a record and one
  definition per member function of \<open>server/server.cc\<close>; \<open>Server_Frame\<close> says what each
  helper leaves alone; \<open>Server_Step\<close> has the events of the single-threaded loop, their dispatch
  \<open>handle\<close>, and the locale \<open>server_invariant\<close>, whose laws make a property of the data
  survive every event.  \<open>Server_Inv\<close> interprets it four times: the Paxos index counts the
  agreed entries, the log file holds the log, balances are a replay of the log, and the store
  mirrors balances and ballot number.  On these rest \<open>Recovery\<close> (first start, crash recovery,
  what a restart forgets), \<open>Round\<close> (validation of a batch, an undisturbed round, no overdraft),
  \<open>Replies\<close> (every client call is answered exactly once), \<open>Replica\<close> (repeated commits,
  catch-up), \<open>Tpc\<close> (decisions, their finality, conservation of money, the lock timeout) and
  \<open>Ballots\<close> (at most one leader per ballot, by the locale \<open>quorum_system\<close>).
  \<open>Calls\<close> puts the event loop and the call objects of \<open>server/in_call.cc\<close> and
  \<open>server/out_call.cc\<close> around the server: no object is used after its deletion, and the loop
  does to the server what \<open>handle\<close> does.

  \<^bold>\<open>Client and driver.\<close>  \<open>Workload\<close> models \<open>utils/csv_reader.cc\<close> and
  \<open>utils/commands_parser.cc\<close>, \<open>Client\<close> models \<open>client/client.cc\<close>, and
  \<open>Driver\<close> models \<open>driver.cc\<close> and the \<open>main\<close> of a server.  Shown are the round
  trip of a workload file, that the coordinator decides once and commits only what both leaders
  prepared, and on which paths a session stops its servers.

  \<^bold>\<open>LevelDB.\<close>  \<open>Ldb_Coding\<close> (\<open>leveldb/util/coding.cc\<close>) has the integer encodings
  at their widths; \<open>Ldb_Format\<close> (\<open>leveldb/db/dbformat.cc\<close>) internal keys, their order and
  separators; \<open>Ldb_Skiplist\<close> (\<open>leveldb/db/skiplist.h\<close>) the skip list over any order that
  satisfies the locale \<open>key_order\<close>; \<open>Ldb_Memtable\<close> (\<open>leveldb/db/memtable.cc\<close>,
  \<open>write_batch.cc\<close>) interprets it for memtable entries.  \<open>Ldb_Write\<close>
  (\<open>leveldb/db/db_impl.cc\<close>) has reads, group commit and memtable switches, and that they refine
  a map updated batch by batch.  \<open>Ldb_Log\<close> and \<open>Ldb_Replay\<close>
  (\<open>leveldb/db/log_writer.cc\<close>, \<open>log_reader.cc\<close>) have the log format; \<open>Ldb_Recover\<close>
  shows that a log cut off at any byte recovers exactly its complete batches.  \<open>Ldb_Filter\<close>
  (\<open>leveldb/util/bloom.cc\<close>, \<open>table/filter_block.cc\<close>) has filter blocks and the contract
  \<open>filter_policy\<close> without false negatives; \<open>Ldb_Block\<close>
  (\<open>leveldb/table/block_builder.cc\<close>, \<open>block.cc\<close>) has the blocks of a table file and shows
  that their iterator, with prefix compression, restart points and binary search, is a cursor over
  the entries, for every order of the locale \<open>block_order\<close>.

  \<^bold>\<open>State and effects.\<close>  A component's state is a record, an operation maps it to the next one.
  Messages and replies are appended to a list in the state; what the environment decides is an
  argument: RPC results, clocks, the outcome of system calls and of file operations, the tags that
  gRPC returns.  C++ exceptions are the left side of a sum; undefined behaviour (a missing stub, an
  index out of range) is a flag or \<open>None\<close>.  Protobuf and gRPC, the checksum function and the
  lookup in LevelDB's table files are parameters.

  \<^bold>\<open>Bounds.\<close>  Every loop is a total function; none has fuel.  Loops that are not structural
  have a measure: the bytes left of a log or a block, the distance to a restart point, the entries
  left in a queue.  Counters of the server (\<open>int\<close> in the code) are integers, because signed
  overflow has no meaning in C++; LevelDB's sequence numbers, varints, checksums and hashes are words
  and wrap as in the code.  Theorems about blocks and filters assume less than 4 GiB, where the
  code's 32-bit offsets are exact.  Times are integers of nanoseconds.

  \<^bold>\<open>Results that are not what the documentation says.\<close>  Some theorems fix behaviour that
  differs from a comment or the README: a leader that promises a higher ballot in its prepare phase
  stalls, a sync reply can lower the ballot number, a restart forgets locks, a Paxos commit on a
  replica releases locks of prepared transactions, a majority is two whatever the cluster size, a
  failed prepare RPC leaves its transfer undecided, a log line cut inside a number is accepted.

  \<^bold>\<open>Not modelled.\<close>  Threads: the driver's consumer thread runs between two commands, and
  LevelDB's mutex and condition variables appear as the queue of writers and the inputs above.
  LevelDB's table files above the block level, its versions, compactions, caches, snapshots and
  database iterators: the write path stops where a memtable is handed to a table file, and the lookup
  in table files is a parameter of \<open>Get\<close> with its contract as a hypothesis.  The arena, memory
  ordering, the CRC table, \<open>env_posix.cc\<close>, the C interface, benchmarks and tests of LevelDB,
  which are system calls, memory management or wrappers.  spdlog, a logging library no decision
  depends on.  Conversions to \<open>double\<close> in the client's latency report: the percentiles are
  given in nanoseconds before the division.
\<close>

end
